(* ===== verification/Json_Codec.thy ===== *)
theory Json_Codec
  imports Prelude
begin

text \<open>
  The hand-written JSON codec of the online search (\<open>search_engines/eager_search.cc\<close>):
  \<open>json_escape\<close> writes the string fields of a request; the \<open>parse_json_*\<close> and
  \<open>skip_json_*\<close> routines read the response of the LLM controller.

  A parser of the source gets the whole text and a position that only moves forward.
  The model passes the unread rest of the text, \<open>drop position text\<close>: a read of
  \<open>text[position]\<close> is the head of the rest, \<open>position >= text.size()\<close> is an empty rest,
  and \<open>++position\<close> takes the tail. A result is the error message or the value with the
  rest that is still unread.
\<close>

section \<open>Writing strings\<close>

text \<open>Hexadecimal digit of the low four bits of a byte.\<close>

definition hex_digit :: "nat \<Rightarrow> char" where
  "hex_digit n = ''0123456789abcdef'' ! n"

definition escape_char :: "char \<Rightarrow> string" where
  "escape_char ch =
    (if ch = CHR 34 then [CHR 92, CHR 34]
     else if ch = CHR 92 then [CHR 92, CHR 92]
     else if ch = CHR 8 then [CHR 92, CHR ''b'']
     else if ch = CHR 12 then [CHR 92, CHR ''f'']
     else if ch = CHR 10 then [CHR 92, CHR ''n'']
     else if ch = CHR 13 then [CHR 92, CHR ''r'']
     else if ch = CHR 9 then [CHR 92, CHR ''t'']
     else if (of_char ch :: nat) < 32 then
       [CHR 92, CHR ''u'', CHR ''0'', CHR ''0'',
        hex_digit (of_char ch div 16), hex_digit (of_char ch mod 16)]
     else [ch])"

definition json_escape :: "string \<Rightarrow> string" where
  "json_escape value = concat (map escape_char value)"


section \<open>Reading strings\<close>

definition skip_json_whitespace :: "string \<Rightarrow> string" where
  "skip_json_whitespace input = dropWhile is_space input"

text \<open>The escapes of one character (the \<open>switch\<close> of \<open>parse_json_string\<close> but for \<open>u\<close>).\<close>

definition simple_escape :: "char \<Rightarrow> char option" where
  "simple_escape e =
    (if e = CHR 34 then Some (CHR 34)
     else if e = CHR 92 then Some (CHR 92)
     else if e = CHR ''/'' then Some (CHR ''/'')
     else if e = CHR ''b'' then Some (CHR 8)
     else if e = CHR ''f'' then Some (CHR 12)
     else if e = CHR ''n'' then Some (CHR 10)
     else if e = CHR ''r'' then Some (CHR 13)
     else if e = CHR ''t'' then Some (CHR 9)
     else None)"

text \<open>The loop of \<open>parse_json_string\<close> after the opening quote; \<open>acc\<close> is \<open>result\<close>.\<close>

fun parse_string_chars :: "string \<Rightarrow> string \<Rightarrow> (string \<times> string) result" where
  "parse_string_chars acc [] = Inl ''unterminated JSON string''"
| "parse_string_chars acc (ch # rest) =
    (if ch = CHR 34 then Inr (acc, rest)
     else if ch \<noteq> CHR 92 then parse_string_chars (acc @ [ch]) rest
     else case rest of
       [] \<Rightarrow> Inl ''truncated JSON escape''
     | escaped # rest' \<Rightarrow>
         if escaped = CHR ''u'' then
           if length rest' < 4 then Inl ''truncated JSON unicode escape''
           else parse_string_chars (acc @ [CHR ''?'']) (drop 4 rest')
         else case simple_escape escaped of
           Some c \<Rightarrow> parse_string_chars (acc @ [c]) rest'
         | None \<Rightarrow> Inl ''invalid JSON escape'')"

definition parse_json_string :: "string \<Rightarrow> (string \<times> string) result" where
  "parse_json_string input =
    (case skip_json_whitespace input of
       [] \<Rightarrow> Inl ''expected JSON string''
     | c # rest \<Rightarrow> if c = CHR 34 then parse_string_chars [] rest
                  else Inl ''expected JSON string'')"

section \<open>Skipping values\<close>

text \<open>A character that belongs to an unquoted token (number, \<open>true\<close>, \<open>null\<close>, or anything else).\<close>

definition is_token_char :: "char \<Rightarrow> bool" where
  "is_token_char c \<longleftrightarrow> c \<noteq> CHR '','' \<and> c \<noteq> CHR '']'' \<and> c \<noteq> CHR ''}'' \<and> \<not> is_space c"

text \<open>
  \<open>skip_json_array\<close> and \<open>skip_json_object\<close> are entered after their opening bracket has been
  consumed; their \<open>while\<close> loops are \<open>skip_array_items\<close> and \<open>skip_object_items\<close>.
\<close>

function (sequential) skip_json_value :: "string \<Rightarrow> string result"
  and skip_json_array :: "string \<Rightarrow> string result"
  and skip_array_items :: "string \<Rightarrow> string result"
  and skip_json_object :: "string \<Rightarrow> string result"
  and skip_object_items :: "string \<Rightarrow> string result"
where
  "skip_json_value input =
    (case skip_json_whitespace input of
       [] \<Rightarrow> Inl ''missing JSON value''
     | c # rest \<Rightarrow>
         if c = CHR 34 then bind_result (parse_json_string (c # rest)) (\<lambda>(_, r). Inr r)
         else if c = CHR ''['' then skip_json_array rest
         else if c = CHR ''{'' then skip_json_object rest
         else let r = dropWhile is_token_char (c # rest) in
           if r = c # rest then Inl ''invalid JSON value'' else Inr r)"
| "skip_json_array input =
    (case skip_json_whitespace input of
       [] \<Rightarrow> skip_array_items []
     | c # rest \<Rightarrow> if c = CHR '']'' then Inr rest else skip_array_items (c # rest))"
| "skip_array_items [] = Inl ''unterminated JSON array''"
| "skip_array_items input =
    bind_result (skip_json_value input) (\<lambda>r.
      (case skip_json_whitespace r of
         [] \<Rightarrow> Inl ''expected ',' or ']' in JSON array''
       | c # rest \<Rightarrow>
           if c = CHR '','' then skip_array_items rest
           else if c = CHR '']'' then Inr rest
           else Inl ''expected ',' or ']' in JSON array''))"
| "skip_json_object input =
    (case skip_json_whitespace input of
       [] \<Rightarrow> skip_object_items []
     | c # rest \<Rightarrow> if c = CHR ''}'' then Inr rest else skip_object_items (c # rest))"
| "skip_object_items [] = Inl ''unterminated JSON object''"
| "skip_object_items input =
    bind_result (parse_json_string input) (\<lambda>(ignored_key, r).
      (case skip_json_whitespace r of
         [] \<Rightarrow> Inl ''expected ':' in JSON object''
       | c # rest \<Rightarrow>
           if c \<noteq> CHR '':'' then Inl ''expected ':' in JSON object''
           else bind_result (skip_json_value rest) (\<lambda>r'.
             (case skip_json_whitespace r' of
                [] \<Rightarrow> Inl ''expected ',' or '}' in JSON object''
              | c' # rest' \<Rightarrow>
                  if c' = CHR '','' then skip_object_items rest'
                  else if c' = CHR ''}'' then Inr rest'
                  else Inl ''expected ',' or '}' in JSON object''))))"
  by pat_completeness auto

lemma length_skip_json_whitespace [simp]: "length (skip_json_whitespace input) \<le> length input"
  by (simp add: skip_json_whitespace_def length_dropWhile_le)

lemma skip_json_whitespace_ConsD:
  "skip_json_whitespace input = c # rest \<Longrightarrow> Suc (length rest) \<le> length input"
  using length_skip_json_whitespace [of input] by simp

lemma dropWhile_shorter: "dropWhile P xs \<noteq> xs \<Longrightarrow> length (dropWhile P xs) < length xs"
  by (cases xs) (auto simp: length_dropWhile_le less_Suc_eq_le split: if_splits)

named_theorems parse_shrinks \<open>a successful parser leaves a shorter rest\<close>

lemma parse_string_chars_shrinks [parse_shrinks]:
  "parse_string_chars acc input = Inr (v, r) \<Longrightarrow> length r < length input"
proof (induction acc input rule: parse_string_chars.induct)
  case (1 acc)
  then show ?case by simp
next
  case (2 acc ch rest)
  show ?case
  proof (cases "ch = CHR 34 \<or> ch \<noteq> CHR 92")
    case True
    with 2 show ?thesis by (auto split: if_splits)
  next
    case False
    with "2.prems" obtain e rest' where rest: "rest = e # rest'" by (cases rest) auto
    show ?thesis
    proof (cases "e = CHR ''u''")
      case True
      with False "2.prems" rest
      have "\<not> length rest' < 4" "parse_string_chars (acc @ [CHR ''?'']) (drop 4 rest') = Inr (v, r)"
        by (auto split: if_splits)
      with "2.IH"(2) False rest True have "length r < length (drop 4 rest')" by blast
      with rest show ?thesis by simp
    next
      case neq: False
      with False "2.prems" rest obtain c where c: "simple_escape e = Some c"
        and "parse_string_chars (acc @ [c]) rest' = Inr (v, r)"
        by (auto split: option.splits)
      with "2.IH"(3) False rest neq have "length r < length rest'" by blast
      with rest show ?thesis by simp
    qed
  qed
qed

lemma parse_json_string_shrinks [parse_shrinks]:
  "parse_json_string input = Inr (v, r) \<Longrightarrow> length r < length input"
  by (auto simp: parse_json_string_def split: list.splits if_splits
      dest!: skip_json_whitespace_ConsD parse_string_chars_shrinks)


lemma skip_shrinks_partial:
  shows "skip_json_value_skip_json_array_skip_array_items_skip_json_object_skip_object_items_dom (Inl (Inl a))
      \<Longrightarrow> (\<forall>r. skip_json_value a = Inr r \<longrightarrow> length r < length a)"
    and "skip_json_value_skip_json_array_skip_array_items_skip_json_object_skip_object_items_dom (Inl (Inr b))
      \<Longrightarrow> (\<forall>r. skip_json_array b = Inr r \<longrightarrow> length r < length b)"
    and "skip_json_value_skip_json_array_skip_array_items_skip_json_object_skip_object_items_dom (Inr (Inl c))
      \<Longrightarrow> (\<forall>r. skip_array_items c = Inr r \<longrightarrow> length r < length c)"
    and "skip_json_value_skip_json_array_skip_array_items_skip_json_object_skip_object_items_dom (Inr (Inr (Inl d)))
      \<Longrightarrow> (\<forall>r. skip_json_object d = Inr r \<longrightarrow> length r < length d)"
    and "skip_json_value_skip_json_array_skip_array_items_skip_json_object_skip_object_items_dom (Inr (Inr (Inr e)))
      \<Longrightarrow> (\<forall>r. skip_object_items e = Inr r \<longrightarrow> length r < length e)"
proof (induction rule: skip_json_value_skip_json_array_skip_array_items_skip_json_object_skip_object_items.pinduct)
  case (1 input)
  show ?case
  proof (intro allI impI)
    fix r assume "skip_json_value input = Inr r"
    note eq = this [unfolded skip_json_value.psimps [OF 1(1)] Let_def]
    then obtain c rest where ws: "skip_json_whitespace input = c # rest"
      by (cases "skip_json_whitespace input") simp_all
    then have len: "Suc (length rest) \<le> length input" by (rule skip_json_whitespace_ConsD)
    consider "c = CHR 34" | "c = CHR ''[''" | "c = CHR ''{''"
      | "c \<noteq> CHR 34" "c \<noteq> CHR ''[''" "c \<noteq> CHR ''{''" by blast
    then show "length r < length input"
    proof cases
      case 1
      with eq ws obtain v where "parse_json_string (c # rest) = Inr (v, r)"
        by (auto simp: result_iff)
      with len show ?thesis by (auto dest: parse_json_string_shrinks)
    next
      case 2
      with eq ws 1(2) len show ?thesis by fastforce
    next
      case 3
      with eq ws 1(3) len show ?thesis by fastforce
    next
      case 4
      with eq ws have "r = dropWhile is_token_char (c # rest)" and "r \<noteq> c # rest"
        by (simp_all split: if_splits)
      then have "length r < length (c # rest)" by (metis dropWhile_shorter)
      with len show ?thesis by simp
    qed
  qed
next
  case (2 input)
  show ?case
  proof (intro allI impI)
    fix r assume "skip_json_array input = Inr r"
    note eq = this [unfolded skip_json_array.psimps [OF 2(1)]]
    show "length r < length input"
    proof (cases "skip_json_whitespace input")
      case Nil
      with eq 2(2) show ?thesis by auto
    next
      case (Cons c rest)
      then have "Suc (length rest) \<le> length input" by (rule skip_json_whitespace_ConsD)
      with Cons eq 2(3) show ?thesis by (cases "c = CHR '']''") fastforce+
    qed
  qed
next
  case 3
  then show ?case by (simp add: skip_array_items.psimps)
next
  case (4 v va)
  show ?case
  proof (intro allI impI)
    fix r assume "skip_array_items (v # va) = Inr r"
    note eq = this [unfolded skip_array_items.psimps(2) [OF 4(1)]]
    then obtain r1 where r1: "skip_json_value (v # va) = Inr r1" by (auto simp: result_iff)
    with 4(2) have len1: "length r1 < length (v # va)" by blast
    from eq r1 obtain c rest where ws: "skip_json_whitespace r1 = c # rest"
      by (cases "skip_json_whitespace r1") simp_all
    then have "Suc (length rest) \<le> length r1" by (rule skip_json_whitespace_ConsD)
    with eq r1 ws len1 4(3) show "length r < length (v # va)"
      by (cases "c = CHR '',''") (fastforce split: if_splits)+
  qed
next
  case (5 input)
  show ?case
  proof (intro allI impI)
    fix r assume "skip_json_object input = Inr r"
    note eq = this [unfolded skip_json_object.psimps [OF 5(1)]]
    show "length r < length input"
    proof (cases "skip_json_whitespace input")
      case Nil
      with eq 5(2) show ?thesis by auto
    next
      case (Cons c rest)
      then have "Suc (length rest) \<le> length input" by (rule skip_json_whitespace_ConsD)
      with Cons eq 5(3) show ?thesis by (cases "c = CHR ''}''") fastforce+
    qed
  qed
next
  case 6
  then show ?case by (simp add: skip_object_items.psimps)
next
  case (7 v va)
  show ?case
  proof (intro allI impI)
    fix r assume "skip_object_items (v # va) = Inr r"
    note eq = this [unfolded skip_object_items.psimps(2) [OF 7(1)]]
    then obtain k r1 where r1: "parse_json_string (v # va) = Inr (k, r1)" by (auto simp: result_iff)
    then have len1: "length r1 < length (v # va)" by (rule parse_json_string_shrinks)
    from eq r1 obtain rest where ws: "skip_json_whitespace r1 = CHR '':'' # rest"
      by (cases "skip_json_whitespace r1") (auto split: if_splits)
    then have len2: "Suc (length rest) \<le> length r1" by (rule skip_json_whitespace_ConsD)
    from eq r1 ws obtain r2 where r2: "skip_json_value rest = Inr r2" by (auto simp: result_iff)
    with 7(2) r1 ws have len3: "length r2 < length rest" by fastforce
    from eq r1 ws r2 obtain c rest' where ws': "skip_json_whitespace r2 = c # rest'"
      by (cases "skip_json_whitespace r2") simp_all
    then have len4: "Suc (length rest') \<le> length r2" by (rule skip_json_whitespace_ConsD)
    show "length r < length (v # va)"
    proof (cases "c = CHR '',''")
      case True
      with eq r1 ws r2 ws' have "skip_object_items rest' = Inr r" by simp
      with 7(3) r1 ws r2 ws' True have "length r < length rest'" by fastforce
      with len1 len2 len3 len4 show ?thesis by simp
    next
      case False
      with eq r1 ws r2 ws' have "r = rest'" by (simp split: if_splits)
      with len1 len2 len3 len4 show ?thesis by simp
    qed
  qed
qed

lemma skip_json_terminates:
  "skip_json_value_skip_json_array_skip_array_items_skip_json_object_skip_object_items_dom x"
proof -
  have "All skip_json_value_skip_json_array_skip_array_items_skip_json_object_skip_object_items_dom"
  proof (relation "measure (\<lambda>x. case x of
     Inl (Inl s) \<Rightarrow> 3 * length s | Inl (Inr s) \<Rightarrow> 3 * length s + 2
   | Inr (Inl s) \<Rightarrow> 3 * length s + 1 | Inr (Inr (Inl s)) \<Rightarrow> 3 * length s + 2
   | Inr (Inr (Inr s)) \<Rightarrow> 3 * length s + 1)", goal_cases)
  case 1 show ?case by simp
  qed (auto dest!: skip_json_whitespace_ConsD parse_json_string_shrinks skip_shrinks_partial(1))
  then show ?thesis by simp
qed

termination skip_json_value
  by (rule allI, rule skip_json_terminates)

declare skip_json_value.simps [simp del] skip_json_array.simps [simp del]
  skip_array_items.simps [simp del] skip_json_object.simps [simp del]
  skip_object_items.simps [simp del]

lemma skip_json_value_shrinks [parse_shrinks]:
  "skip_json_value input = Inr r \<Longrightarrow> length r < length input"
  using skip_shrinks_partial(1) [OF skip_json_terminates] by blast

section \<open>Reading arrays of strings\<close>

text \<open>
  \<open>parse_json_string_array\<close> appends to the vector it is given (\<open>result.push_back\<close>, the vector
  is not cleared first): \<open>acc\<close> is the vector so far. The \<open>while\<close> loop is \<open>parse_array_strings\<close>.
\<close>

function (sequential) parse_array_strings :: "string list \<Rightarrow> string \<Rightarrow> (string list \<times> string) result" where
  "parse_array_strings acc [] = Inl ''unterminated actions array''"
| "parse_array_strings acc input =
    bind_result (parse_json_string input) (\<lambda>(item, r).
      (case skip_json_whitespace r of
         [] \<Rightarrow> Inl ''expected ',' or ']' in actions array''
       | c # rest \<Rightarrow>
           if c = CHR '','' then parse_array_strings (acc @ [item]) rest
           else if c = CHR '']'' then Inr (acc @ [item], rest)
           else Inl ''expected ',' or ']' in actions array''))"
  by pat_completeness auto
termination
  by (relation "measure (\<lambda>(acc, s). length s)")
     (auto dest!: skip_json_whitespace_ConsD parse_json_string_shrinks)

definition parse_json_string_array :: "string list \<Rightarrow> string \<Rightarrow> (string list \<times> string) result" where
  "parse_json_string_array acc input =
    (case skip_json_whitespace input of
       [] \<Rightarrow> Inl ''actions must be a JSON array''
     | c # rest \<Rightarrow>
         if c \<noteq> CHR ''['' then Inl ''actions must be a JSON array''
         else (case skip_json_whitespace rest of
             [] \<Rightarrow> parse_array_strings acc []
           | c' # rest' \<Rightarrow> if c' = CHR '']'' then Inr (acc, rest')
                          else parse_array_strings acc (c' # rest')))"

lemma parse_array_strings_shrinks [parse_shrinks]:
  "parse_array_strings acc input = Inr (v, r) \<Longrightarrow> length r < length input"
proof (induction acc input rule: parse_array_strings.induct)
  case (2 acc c cs)
  from "2.prems" obtain item r1 where r1: "parse_json_string (c # cs) = Inr (item, r1)"
    by (auto simp: result_iff)
  from "2.prems" r1 obtain c' rest where ws: "skip_json_whitespace r1 = c' # rest"
    by (cases "skip_json_whitespace r1") simp_all
  note len = parse_json_string_shrinks [OF r1] skip_json_whitespace_ConsD [OF ws]
  show ?case
  proof (cases "c' = CHR '',''")
    case True
    with "2.prems" r1 ws have "parse_array_strings (acc @ [item]) rest = Inr (v, r)" by simp
    with "2.IH" r1 ws True have "length r < length rest" by blast
    with len show ?thesis by simp
  next
    case False
    with "2.prems" r1 ws len show ?thesis by (simp split: if_splits)
  qed
qed simp

lemma parse_json_string_array_shrinks [parse_shrinks]:
  "parse_json_string_array acc input = Inr (v, r) \<Longrightarrow> length r < length input"
  by (auto simp: parse_json_string_array_def split: list.splits if_splits
      simp del: parse_array_strings.simps(2)
      dest!: skip_json_whitespace_ConsD parse_array_strings_shrinks)

function (sequential) parse_matrix_rows ::
  "string list list \<Rightarrow> string \<Rightarrow> (string list list \<times> string) result" where
  "parse_matrix_rows acc [] = Inl ''unterminated action_chains array''"
| "parse_matrix_rows acc input =
    bind_result (parse_json_string_array [] input) (\<lambda>(chain, r).
      (case skip_json_whitespace r of
         [] \<Rightarrow> Inl ''expected ',' or ']' in action_chains array''
       | c # rest \<Rightarrow>
           if c = CHR '','' then parse_matrix_rows (acc @ [chain]) rest
           else if c = CHR '']'' then Inr (acc @ [chain], rest)
           else Inl ''expected ',' or ']' in action_chains array''))"
  by pat_completeness auto
termination
  by (relation "measure (\<lambda>(acc, s). length s)")
     (auto dest!: skip_json_whitespace_ConsD parse_json_string_array_shrinks)

definition parse_json_string_matrix ::
  "string list list \<Rightarrow> string \<Rightarrow> (string list list \<times> string) result" where
  "parse_json_string_matrix acc input =
    (case skip_json_whitespace input of
       [] \<Rightarrow> Inl ''action_chains must be a JSON array''
     | c # rest \<Rightarrow>
         if c \<noteq> CHR ''['' then Inl ''action_chains must be a JSON array''
         else (case skip_json_whitespace rest of
             [] \<Rightarrow> parse_matrix_rows acc []
           | c' # rest' \<Rightarrow> if c' = CHR '']'' then Inr (acc, rest')
                          else parse_matrix_rows acc (c' # rest')))"

lemma parse_matrix_rows_shrinks [parse_shrinks]:
  "parse_matrix_rows acc input = Inr (v, r) \<Longrightarrow> length r < length input"
proof (induction acc input rule: parse_matrix_rows.induct)
  case (2 acc c cs)
  from "2.prems" obtain chain r1 where r1: "parse_json_string_array [] (c # cs) = Inr (chain, r1)"
    by (auto simp: result_iff)
  from "2.prems" r1 obtain c' rest where ws: "skip_json_whitespace r1 = c' # rest"
    by (cases "skip_json_whitespace r1") simp_all
  note len = parse_json_string_array_shrinks [OF r1] skip_json_whitespace_ConsD [OF ws]
  show ?case
  proof (cases "c' = CHR '',''")
    case True
    with "2.prems" r1 ws have "parse_matrix_rows (acc @ [chain]) rest = Inr (v, r)" by simp
    with "2.IH" r1 ws True have "length r < length rest" by blast
    with len show ?thesis by simp
  next
    case False
    with "2.prems" r1 ws len show ?thesis by (simp split: if_splits)
  qed
qed simp

lemma parse_json_string_matrix_shrinks [parse_shrinks]:
  "parse_json_string_matrix acc input = Inr (v, r) \<Longrightarrow> length r < length input"
  by (auto simp: parse_json_string_matrix_def split: list.splits if_splits
      simp del: parse_matrix_rows.simps(2)
      dest!: skip_json_whitespace_ConsD parse_matrix_rows_shrinks)

section \<open>The response object\<close>

text \<open>
  The fields of \<open>ParsedLLMResponse\<close> together with the \<open>saw_\<close> flags of
  \<open>parse_llm_response_body\<close>.
\<close>

record ParsedLLMResponse =
  resp_valid :: bool
  resp_status :: string
  resp_actions :: "string list"
  resp_action_chains :: "string list list"
  resp_error :: string

definition ParsedLLMResponse_init :: ParsedLLMResponse where
  "ParsedLLMResponse_init = \<lparr>resp_valid = False, resp_status = [], resp_actions = [],
     resp_action_chains = [], resp_error = []\<rparr>"

record response_flags =
  saw_status :: bool
  saw_actions :: bool
  saw_action_chains :: bool

type_synonym response_state = "ParsedLLMResponse \<times> response_flags"

text \<open>The value of one field, dispatched on its key.\<close>

definition parse_response_value ::
  "string \<Rightarrow> response_state \<Rightarrow> string \<Rightarrow> (response_state \<times> string) result" where
  "parse_response_value key st input =
    (let (res, saw) = st in
     if key = ''status'' then
       bind_result (parse_json_string input) (\<lambda>(v, r).
         Inr ((res\<lparr>resp_status := v\<rparr>, saw\<lparr>saw_status := True\<rparr>), r))
     else if key = ''actions'' then
       bind_result (parse_json_string_array (resp_actions res) input) (\<lambda>(v, r).
         Inr ((res\<lparr>resp_actions := v\<rparr>, saw\<lparr>saw_actions := True\<rparr>), r))
     else if key = ''action_chains'' then
       bind_result (parse_json_string_matrix (resp_action_chains res) input) (\<lambda>(v, r).
         Inr ((res\<lparr>resp_action_chains := v\<rparr>, saw\<lparr>saw_action_chains := True\<rparr>), r))
     else bind_result (skip_json_value input) (\<lambda>r. Inr (st, r)))"


lemma parse_response_value_shrinks [parse_shrinks]:
  "parse_response_value key st input = Inr (st', r) \<Longrightarrow> length r < length input"
  by (auto simp: parse_response_value_def result_iff split: prod.splits if_splits dest!: parse_shrinks)

text \<open>
  The \<open>while\<close> loop of \<open>parse_llm_response_body\<close>; it ends with the state and the rest behind
  the closing brace.
\<close>

function (sequential) parse_response_fields ::
  "response_state \<Rightarrow> string \<Rightarrow> (response_state \<times> string) result" where
  "parse_response_fields st [] = Inl ''unterminated response object''"
| "parse_response_fields st input =
    (let input' = skip_json_whitespace input in
     if input' \<noteq> [] \<and> hd input' = CHR ''}'' then Inr (st, tl input')
     else
       bind_result (parse_json_string input') (\<lambda>(key, r).
         (case skip_json_whitespace r of
            [] \<Rightarrow> Inl ''expected ':' after response field''
          | c # r1 \<Rightarrow>
              if c \<noteq> CHR '':'' then Inl ''expected ':' after response field''
              else bind_result (parse_response_value key st r1) (\<lambda>(st', r2).
                (case skip_json_whitespace r2 of
                   [] \<Rightarrow> Inl ''expected ',' or '}' in response object''
                 | c # rest \<Rightarrow>
                     if c = CHR '','' then parse_response_fields st' rest
                     else if c = CHR ''}'' then Inr (st', rest)
                     else Inl ''expected ',' or '}' in response object'')))))"
  by pat_completeness auto
termination
proof (relation "measure (\<lambda>(st, s). length s)", goal_cases)
  case (2 st v va x xa xb y xc xd xe xf yf xg xh)
  from 2 have "length xh < length x"
    by (auto dest!: skip_json_whitespace_ConsD parse_json_string_shrinks parse_response_value_shrinks)
  moreover have "length x \<le> length (v # va)"
    using 2(1) length_skip_json_whitespace by blast
  ultimately show ?case by simp
qed simp

text \<open>
  \<open>parse_llm_response_body\<close>. Of a response that is not \<open>valid\<close> the only caller,
  \<open>poll_llm_responses\<close>, reads \<open>error\<close> alone, so the model leaves the other fields of an
  invalid response at their initial values.
\<close>

definition response_failed :: "string \<Rightarrow> ParsedLLMResponse" where
  "response_failed e = ParsedLLMResponse_init\<lparr>resp_error := e\<rparr>"

definition finish_response :: "response_state \<Rightarrow> string \<Rightarrow> ParsedLLMResponse" where
  "finish_response st rest =
    (let (res, saw) = st in
     if \<not> saw_status saw \<or> (\<not> saw_actions saw \<and> \<not> saw_action_chains saw)
     then response_failed ''response is missing status and action payload''
     else if skip_json_whitespace rest \<noteq> [] then response_failed ''response contains trailing content''
     else if \<not> saw_action_chains saw
     then res\<lparr>resp_action_chains := resp_action_chains res @ [resp_actions res], resp_valid := True\<rparr>
     else res\<lparr>resp_valid := True\<rparr>)"

definition parse_llm_response_body :: "string \<Rightarrow> ParsedLLMResponse" where
  "parse_llm_response_body body =
    (case skip_json_whitespace body of
       [] \<Rightarrow> response_failed ''response is not a JSON object''
     | c # rest \<Rightarrow>
         if c \<noteq> CHR ''{'' then response_failed ''response is not a JSON object''
         else (case parse_response_fields
                 (ParsedLLMResponse_init,
                  \<lparr>saw_status = False, saw_actions = False, saw_action_chains = False\<rparr>) rest of
             Inl e \<Rightarrow> response_failed e
           | Inr (st, rest') \<Rightarrow> finish_response st rest'))"
end

