(* ===== verification/Json_Laws.thy ===== *)
theory Json_Laws
  imports Json_Codec "HOL-Library.Sublist"
begin

text \<open>
  What the JSON codec promises about strings, rendered values and cut-off bodies: reading back what
  \<open>json_escape\<close> wrote, skipping the values that the requests of the bridge contain, and never reading
  past the end. The values are those of \<open>json\<close>, written compactly by \<open>render_json\<close>; arbitrary
  texts, with blanks, are the subject of \<open>Json_Grammar\<close>.
\<close>

section \<open>Strings\<close>

text \<open>
  What a character becomes when it is escaped and read back: control characters without a
  short escape are written as a unicode escape, which the reader replaces by \<open>?\<close>.
\<close>

definition degrade :: "char \<Rightarrow> char" where
  "degrade c =
    (if (of_char c :: nat) < 32 \<and> c \<notin> {CHR 8, CHR 9, CHR 10, CHR 12, CHR 13} then CHR ''?'' else c)"

definition json_quote :: "string \<Rightarrow> string" where
  "json_quote s = CHR 34 # json_escape s @ [CHR 34]"

lemma parse_escaped_char:
  "parse_string_chars acc (escape_char c @ rest) = parse_string_chars (acc @ [degrade c]) rest"
  by (auto simp: escape_char_def degrade_def simple_escape_def)

lemma parse_escaped_string:
  "parse_string_chars acc (json_escape s @ CHR 34 # rest) = Inr (acc @ map degrade s, rest)"
proof (induction s arbitrary: acc)
  case Nil
  show ?case by (simp add: json_escape_def)
next
  case (Cons c s)
  have "json_escape (c # s) @ CHR 34 # rest = escape_char c @ (json_escape s @ CHR 34 # rest)"
    by (simp add: json_escape_def)
  then show ?case by (simp only: parse_escaped_char Cons.IH) simp
qed

lemma is_space_quote [simp]:
  "\<not> is_space (CHR 34)" "\<not> is_space (CHR ''['')" "\<not> is_space (CHR '']'')" "\<not> is_space (CHR ''{'')"
  "\<not> is_space (CHR ''}'')" "\<not> is_space (CHR '','')" "\<not> is_space (CHR '':'')"
  by (simp_all add: is_space_def)

lemma skip_whitespace_simps [simp]:
  "skip_json_whitespace [] = []"
  "\<not> is_space c \<Longrightarrow> skip_json_whitespace (c # s) = c # s"
  "is_space c \<Longrightarrow> skip_json_whitespace (c # s) = skip_json_whitespace s"
  by (simp_all add: skip_json_whitespace_def)

lemma skip_whitespace_append [simp]:
  "list_all is_space ws \<Longrightarrow> skip_json_whitespace (ws @ s) = skip_json_whitespace s"
  by (induction ws) simp_all

lemma parse_json_quote [simp]:
  "parse_json_string (json_quote s @ rest) = Inr (map degrade s, rest)"
  by (simp add: parse_json_string_def json_quote_def parse_escaped_string)

text \<open>A quoted string starts with its quote, so skipping blanks leaves it alone.\<close>

lemma json_quote_Cons: "json_quote s @ rest = CHR 34 # (json_escape s @ CHR 34 # rest)"
  by (simp add: json_quote_def)

lemma skip_whitespace_quote [simp]:
  "skip_json_whitespace (json_quote s @ rest) = json_quote s @ rest"
  by (simp add: json_quote_def)

section \<open>Lists\<close>

fun join_comma :: "string list \<Rightarrow> string" where
  "join_comma [] = []"
| "join_comma [x] = x"
| "join_comma (x # y # ys) = x @ CHR '','' # join_comma (y # ys)"

section \<open>Skipping any value\<close>

text \<open>
  The values of JSON. A token is any unquoted word: a number, \<open>true\<close>, \<open>false\<close> or \<open>null\<close>.
\<close>

datatype json =
    JString string
  | JToken string
  | JArray "json list"
  | JObject "(string \<times> json) list"

fun render_json :: "json \<Rightarrow> string" where
  "render_json (JString s) = json_quote s"
| "render_json (JToken t) = t"
| "render_json (JArray js) = CHR ''['' # join_comma (map render_json js) @ [CHR '']'']"
| "render_json (JObject ms) =
    CHR ''{'' # join_comma (map (\<lambda>(k, j). json_quote k @ CHR '':'' # render_json j) ms) @ [CHR ''}'']"

fun wf_json :: "json \<Rightarrow> bool" where
  "wf_json (JString s) = True"
| "wf_json (JToken t) =
    (t \<noteq> [] \<and> list_all is_token_char t \<and> hd t \<noteq> CHR 34 \<and> hd t \<noteq> CHR ''['' \<and> hd t \<noteq> CHR ''{'')"
| "wf_json (JArray js) = (\<forall>j \<in> set js. wf_json j)"
| "wf_json (JObject ms) = (\<forall>(k, j) \<in> set ms. wf_json j)"

text \<open>What may follow a value: the end of the text, or a character no token contains.\<close>

definition ends_value :: "string \<Rightarrow> bool" where
  "ends_value rest \<longleftrightarrow> rest = [] \<or> \<not> is_token_char (hd rest)"

lemma ends_value_simps [simp]:
  "ends_value (CHR '','' # r)" "ends_value (CHR '']'' # r)" "ends_value (CHR ''}'' # r)"
  by (simp_all add: ends_value_def is_token_char_def)

lemma render_json_Cons:
  "wf_json j \<Longrightarrow> \<exists>c r. render_json j = c # r \<and> \<not> is_space c \<and> c \<noteq> CHR '']''"
  by (cases j) (auto simp: json_quote_def is_token_char_def neq_Nil_conv)

lemma skip_array_items_step:
  assumes "skip_json_value input = Inr r" "input \<noteq> []"
  shows "skip_array_items input =
    (case skip_json_whitespace r of
       [] \<Rightarrow> Inl ''expected ',' or ']' in JSON array''
     | c # rest \<Rightarrow> if c = CHR '','' then skip_array_items rest
                  else if c = CHR '']'' then Inr rest
                  else Inl ''expected ',' or ']' in JSON array'')"
  using assms by (cases input) (simp_all add: skip_array_items.simps(2) cong: list.case_cong)

lemma skip_array_items_render:
  assumes "js \<noteq> []" "\<And>j r. j \<in> set js \<Longrightarrow> ends_value r \<Longrightarrow> skip_json_value (render_json j @ r) = Inr r"
    "\<forall>j \<in> set js. wf_json j"
  shows "skip_array_items (join_comma (map render_json js) @ CHR '']'' # rest) = Inr rest"
  using assms
proof (induction js rule: induct_list012)
  case 1
  then show ?case by simp
next
  case (2 j)
  then have "skip_json_value (render_json j @ CHR '']'' # rest) = Inr (CHR '']'' # rest)" by simp
  then show ?case by (simp add: skip_array_items_step)
next
  case (3 j j' js)
  let ?r = "join_comma (map render_json (j' # js)) @ CHR '']'' # rest"
  from 3 have "skip_json_value (render_json j @ CHR '','' # ?r) = Inr (CHR '','' # ?r)" by simp
  moreover have "skip_array_items ?r = Inr rest" using 3 by simp
  ultimately show ?case by (simp add: skip_array_items_step)
qed

definition render_member :: "string \<times> json \<Rightarrow> string" where
  "render_member m = json_quote (fst m) @ CHR '':'' # render_json (snd m)"

lemma render_json_JObject:
  "render_json (JObject ms) = CHR ''{'' # join_comma (map render_member ms) @ [CHR ''}'']"
  by (simp add: render_member_def [abs_def] case_prod_unfold)

lemma skip_object_items_step:
  assumes "skip_json_value (render_json j @ c # rest) = Inr (c # rest)" "\<not> is_space c"
  shows "skip_object_items (render_member (k, j) @ c # rest) =
    (if c = CHR '','' then skip_object_items rest
     else if c = CHR ''}'' then Inr rest
     else Inl ''expected ',' or '}' in JSON object'')"
proof -
  have "parse_json_string (json_quote k @ CHR '':'' # render_json j @ c # rest)
      = Inr (map degrade k, CHR '':'' # render_json j @ c # rest)" by simp
  with assms show ?thesis
    by (simp add: render_member_def json_quote_Cons skip_object_items.simps)
qed

lemma skip_object_items_render:
  assumes "ms \<noteq> []"
    "\<And>m r. m \<in> set ms \<Longrightarrow> ends_value r \<Longrightarrow> skip_json_value (render_json (snd m) @ r) = Inr r"
  shows "skip_object_items (join_comma (map render_member ms) @ CHR ''}'' # rest) = Inr rest"
  using assms
proof (induction ms rule: induct_list012)
  case 1
  then show ?case by simp
next
  case (2 m)
  then show ?case by (cases m) (simp add: skip_object_items_step)
next
  case (3 m m' ms)
  obtain k j where m: "m = (k, j)" by fastforce
  let ?r = "join_comma (map render_member (m' # ms)) @ CHR ''}'' # rest"
  have "skip_json_value (render_json j @ CHR '','' # ?r) = Inr (CHR '','' # ?r)"
    using 3(4) [of m "CHR '','' # ?r"] m by simp
  moreover have "skip_object_items ?r = Inr rest" using 3 by simp
  ultimately show ?case using m by (simp add: skip_object_items_step)
qed

lemma skip_json_value_render:
  "wf_json j \<Longrightarrow> ends_value rest \<Longrightarrow> skip_json_value (render_json j @ rest) = Inr rest"
proof (induction j arbitrary: rest)
  case (JString s)
  have "parse_json_string (json_quote s @ rest) = Inr (map degrade s, rest)" by simp
  then show ?case by (simp add: json_quote_Cons skip_json_value.simps)
next
  case (JToken t)
  then obtain c t' where t: "t = c # t'" "is_token_char c" "list_all is_token_char t'"
    by (cases t) auto
  then have "dropWhile is_token_char (c # t' @ rest) = rest"
    using JToken.prems(2) by (cases rest) (auto simp: ends_value_def list_all_iff dropWhile_append)
  moreover have "\<not> is_space c" using t by (simp add: is_token_char_def)
  moreover have "rest \<noteq> c # t' @ rest" by (metis append_Cons append_self_conv2 list.distinct(1))
  ultimately show ?case using JToken.prems(1) t by (simp add: skip_json_value.simps Let_def)
next
  case (JArray js)
  show ?case
  proof (cases "js = []")
    case True
    then show ?thesis by (simp add: skip_json_value.simps skip_json_array.simps)
  next
    case False
    have items: "skip_array_items (join_comma (map render_json js) @ CHR '']'' # rest) = Inr rest"
      using JArray False by (intro skip_array_items_render) auto
    from False JArray.prems(1) obtain c r where "join_comma (map render_json js) @ CHR '']'' # rest = c # r"
      and "\<not> is_space c" "c \<noteq> CHR '']''"
      using render_json_Cons [of "hd js"] by (cases js rule: remdups_adj.cases) fastforce+
    with items show ?thesis by (simp add: skip_json_value.simps skip_json_array.simps)
  qed
next
  case (JObject ms)
  show ?case
  proof (cases "ms = []")
    case True
    then show ?thesis by (simp add: skip_json_value.simps skip_json_object.simps)
  next
    case False
    have items: "skip_object_items (join_comma (map render_member ms) @ CHR ''}'' # rest) = Inr rest"
      using JObject False by (intro skip_object_items_render) (auto simp: prod_set_defs)
    from False obtain r where "join_comma (map render_member ms) @ CHR ''}'' # rest = CHR 34 # r"
      by (cases ms rule: remdups_adj.cases) (auto simp: render_member_def json_quote_def)
    with items show ?thesis
      by (simp add: render_json_JObject skip_json_value.simps skip_json_object.simps del: render_json.simps)
  qed
qed

section \<open>A parser only moves forward\<close>

text \<open>
  Whatever a successful parser leaves unread is a suffix of what it was given: it never
  steps back and never reads past the end of the text.
\<close>

named_theorems parse_suffix \<open>the rest of a successful parser is a suffix of its input\<close>

lemma skip_whitespace_suffix: "suffix (skip_json_whitespace s) s"
  by (simp add: skip_json_whitespace_def suffix_dropWhile)

lemma skip_whitespace_ConsD_suffix: "skip_json_whitespace s = c # r \<Longrightarrow> suffix (c # r) s"
  using skip_whitespace_suffix [of s] by simp

lemma suffix_after_blank: "skip_json_whitespace s = c # r \<Longrightarrow> suffix s t \<Longrightarrow> suffix r t"
  by (meson skip_whitespace_ConsD_suffix suffix_ConsD suffix_order.trans)

lemma parse_string_chars_suffix [parse_suffix]:
  "parse_string_chars acc s = Inr (v, r) \<Longrightarrow> suffix r s"
proof (induction acc s rule: parse_string_chars.induct)
  case (1 acc)
  then show ?case by simp
next
  case (2 acc ch rest)
  show ?case
  proof (cases "ch = CHR 34 \<or> ch \<noteq> CHR 92")
    case True
    with 2 show ?thesis by (auto split: if_splits intro: suffix_ConsI)
  next
    case False
    with "2.prems" obtain e rest' where rest: "rest = e # rest'" by (cases rest) auto
    show ?thesis
    proof (cases "e = CHR ''u''")
      case True
      with False "2.prems" rest
      have "\<not> length rest' < 4" "parse_string_chars (acc @ [CHR ''?'']) (drop 4 rest') = Inr (v, r)"
        by (auto split: if_splits)
      with "2.IH"(2) False rest True have "suffix r (drop 4 rest')" by blast
      with rest show ?thesis by (meson suffix_ConsI suffix_drop suffix_order.trans)
    next
      case neq: False
      with False "2.prems" rest obtain c where c: "simple_escape e = Some c"
        and "parse_string_chars (acc @ [c]) rest' = Inr (v, r)"
        by (auto split: option.splits)
      with "2.IH"(3) False rest neq have "suffix r rest'" by blast
      with rest show ?thesis by (simp add: suffix_ConsI)
    qed
  qed
qed

lemma parse_json_string_suffix [parse_suffix]:
  "parse_json_string s = Inr (v, r) \<Longrightarrow> suffix r s"
  by (auto simp: parse_json_string_def split: list.splits if_splits
      dest!: parse_string_chars_suffix intro: suffix_order.trans suffix_after_blank)

lemma parse_array_strings_suffix [parse_suffix]:
  "parse_array_strings acc s = Inr (v, r) \<Longrightarrow> suffix r s"
proof (induction acc s rule: parse_array_strings.induct)
  case (2 acc c cs)
  from "2.prems" obtain item r1 where r1: "parse_json_string (c # cs) = Inr (item, r1)"
    by (auto simp: result_iff)
  from "2.prems" r1 obtain c' rest where ws: "skip_json_whitespace r1 = c' # rest"
    by (cases "skip_json_whitespace r1") simp_all
  have suf: "suffix rest (c # cs)"
    using suffix_after_blank [OF ws parse_json_string_suffix [OF r1]] .
  show ?case
  proof (cases "c' = CHR '',''")
    case True
    with "2.prems" r1 ws have "parse_array_strings (acc @ [item]) rest = Inr (v, r)" by simp
    with "2.IH" r1 ws True have "suffix r rest" by blast
    with suf show ?thesis by (rule suffix_order.trans [rotated])
  next
    case False
    with "2.prems" r1 ws suf show ?thesis by (simp split: if_splits)
  qed
qed simp

lemma open_bracket_suffix:
  assumes "skip_json_whitespace s = c # rest" "suffix r rest \<or> (\<exists>c' rest'. skip_json_whitespace rest = c' # rest' \<and> suffix r (c' # rest'))"
  shows "suffix r s"
  using assms by (meson skip_whitespace_ConsD_suffix suffix_ConsD suffix_order.trans)

lemma parse_json_string_array_suffix [parse_suffix]:
  assumes "parse_json_string_array acc s = Inr (v, r)"
  shows "suffix r s"
proof -
  from assms obtain c rest where ws: "skip_json_whitespace s = c # rest"
    by (auto simp: parse_json_string_array_def split: list.splits)
  show ?thesis
    using assms ws
    by (intro open_bracket_suffix [OF ws])
       (auto simp: parse_json_string_array_def suffix_ConsI split: list.splits if_splits
        simp del: parse_array_strings.simps(2) dest: parse_array_strings_suffix)
qed

lemma parse_matrix_rows_suffix [parse_suffix]:
  "parse_matrix_rows acc s = Inr (v, r) \<Longrightarrow> suffix r s"
proof (induction acc s rule: parse_matrix_rows.induct)
  case (2 acc c cs)
  from "2.prems" obtain chain r1 where r1: "parse_json_string_array [] (c # cs) = Inr (chain, r1)"
    by (auto simp: result_iff)
  from "2.prems" r1 obtain c' rest where ws: "skip_json_whitespace r1 = c' # rest"
    by (cases "skip_json_whitespace r1") simp_all
  have suf: "suffix rest (c # cs)"
    using suffix_after_blank [OF ws parse_json_string_array_suffix [OF r1]] .
  show ?case
  proof (cases "c' = CHR '',''")
    case True
    with "2.prems" r1 ws have "parse_matrix_rows (acc @ [chain]) rest = Inr (v, r)" by simp
    with "2.IH" r1 ws True have "suffix r rest" by blast
    with suf show ?thesis by (rule suffix_order.trans [rotated])
  next
    case False
    with "2.prems" r1 ws suf show ?thesis by (simp split: if_splits)
  qed
qed simp

lemma parse_json_string_matrix_suffix [parse_suffix]:
  assumes "parse_json_string_matrix acc s = Inr (v, r)"
  shows "suffix r s"
proof -
  from assms obtain c rest where ws: "skip_json_whitespace s = c # rest"
    by (auto simp: parse_json_string_matrix_def split: list.splits)
  show ?thesis
    using assms ws
    by (intro open_bracket_suffix [OF ws])
       (auto simp: parse_json_string_matrix_def suffix_ConsI split: list.splits if_splits
        simp del: parse_matrix_rows.simps(2) dest: parse_matrix_rows_suffix)
qed

lemma skip_json_suffix:
  shows "skip_json_value a = Inr r1 \<Longrightarrow> suffix r1 a"
    and "skip_json_array b = Inr r2 \<Longrightarrow> suffix r2 b"
    and "skip_array_items c = Inr r3 \<Longrightarrow> suffix r3 c"
    and "skip_json_object d = Inr r4 \<Longrightarrow> suffix r4 d"
    and "skip_object_items e = Inr r5 \<Longrightarrow> suffix r5 e"
proof (induction a and b and c and d and e arbitrary: r1 and r2 and r3 and r4 and r5
    rule: skip_json_value_skip_json_array_skip_array_items_skip_json_object_skip_object_items.induct)
  case (1 s)
  from 1(3) obtain c rest where ws: "skip_json_whitespace s = c # rest"
    by (auto simp: skip_json_value.simps split: list.splits)
  note suf = skip_whitespace_ConsD_suffix [OF ws]
  consider "c = CHR 34" | "c = CHR ''[''" | "c = CHR ''{''"
    | "c \<noteq> CHR 34" "c \<noteq> CHR ''[''" "c \<noteq> CHR ''{''" by blast
  then have "suffix r1 (c # rest)"
  proof cases
    case c: 1
    then show ?thesis using 1(3) ws
      by (auto simp: skip_json_value.simps result_iff dest: parse_json_string_suffix)
  next
    case c: 2
    then show ?thesis using 1(3) 1(1) [OF ws] ws by (simp add: skip_json_value.simps suffix_ConsI)
  next
    case c: 3
    then show ?thesis using 1(3) 1(2) [OF ws] ws by (simp add: skip_json_value.simps suffix_ConsI)
  next
    case c: 4
    then show ?thesis using 1(3) ws suffix_dropWhile [of is_token_char "c # rest"]
      by (simp add: skip_json_value.simps Let_def split: if_splits)
  qed
  with suf show ?case by (rule suffix_order.trans [rotated])
next
  case (2 s)
  show ?case
  proof (cases "skip_json_whitespace s")
    case Nil
    with 2 show ?thesis by (simp add: skip_json_array.simps skip_array_items.simps)
  next
    case (Cons c rest)
    then have "suffix r2 (c # rest)"
      using 2(2) [OF Cons] 2(3) by (auto simp: skip_json_array.simps suffix_ConsI split: if_splits)
    with skip_whitespace_ConsD_suffix [OF Cons] show ?thesis by (rule suffix_order.trans [rotated])
  qed
next
  case 3
  then show ?case by (simp add: skip_array_items.simps)
next
  case (4 v va)
  from 4(3) obtain q where q: "skip_json_value (v # va) = Inr q"
    by (auto simp: skip_array_items.simps result_iff)
  with 4(3) obtain c rest where ws: "skip_json_whitespace q = c # rest"
    by (auto simp: skip_array_items.simps split: list.splits)
  have suf: "suffix rest (v # va)" using suffix_after_blank [OF ws 4(1) [OF q]] .
  show ?case
    using 4(2) [OF q ws] 4(3) q ws suf
    by (auto simp: skip_array_items.simps split: if_splits intro: suffix_order.trans)
next
  case (5 s)
  show ?case
  proof (cases "skip_json_whitespace s")
    case Nil
    with 5 show ?thesis by (simp add: skip_json_object.simps skip_object_items.simps)
  next
    case (Cons c rest)
    then have "suffix r4 (c # rest)"
      using 5(2) [OF Cons] 5(3) by (auto simp: skip_json_object.simps suffix_ConsI split: if_splits)
    with skip_whitespace_ConsD_suffix [OF Cons] show ?thesis by (rule suffix_order.trans [rotated])
  qed
next
  case 6
  then show ?case by (simp add: skip_object_items.simps)
next
  case (7 v va)
  from 7(3) obtain k q where q: "parse_json_string (v # va) = Inr (k, q)"
    by (auto simp: skip_object_items.simps result_iff)
  with 7(3) obtain rest where ws: "skip_json_whitespace q = CHR '':'' # rest"
    by (auto simp: skip_object_items.simps split: list.splits if_splits)
  with 7(3) q obtain q' where q': "skip_json_value rest = Inr q'"
    by (auto simp: skip_object_items.simps result_iff)
  with 7(3) q ws obtain c rest' where ws': "skip_json_whitespace q' = c # rest'"
    by (auto simp: skip_object_items.simps split: list.splits)
  have "suffix rest (v # va)" using suffix_after_blank [OF ws parse_json_string_suffix [OF q]] .
  moreover have "suffix q' rest" using 7(1) q ws q' by fastforce
  ultimately have suf: "suffix rest' (v # va)"
    using suffix_after_blank [OF ws'] suffix_order.trans by blast
  show ?case
  proof (cases "c = CHR '',''")
    case True
    with 7(3) q ws q' ws' have "skip_object_items rest' = Inr r5" by (simp add: skip_object_items.simps)
    with 7(2) q ws q' ws' True have "suffix r5 rest'" by fastforce
    with suf show ?thesis by (rule suffix_order.trans [rotated])
  next
    case False
    with 7(3) q ws q' ws' suf show ?thesis by (simp add: skip_object_items.simps split: if_splits)
  qed
qed

lemmas skip_json_value_suffix [parse_suffix] = skip_json_suffix(1)

lemma parse_response_value_suffix [parse_suffix]:
  "parse_response_value key st s = Inr (st', r) \<Longrightarrow> suffix r s"
  by (auto simp: parse_response_value_def result_iff split: prod.splits if_splits dest!: parse_suffix)

lemma parse_response_fields_closed:
  "parse_response_fields st s = Inr (st', r) \<Longrightarrow> \<exists>p. s = p @ CHR ''}'' # r"
proof (induction st s rule: parse_response_fields.induct)
  case (2 st v va)
  let ?in = "skip_json_whitespace (v # va)"
  have in_suf: "suffix ?in (v # va)" by (rule skip_whitespace_suffix)
  show ?case
  proof (cases "?in \<noteq> [] \<and> hd ?in = CHR ''}''")
    case True
    with "2.prems" have "?in = CHR ''}'' # r" by (cases ?in) (simp_all add: Let_def)
    with in_suf show ?thesis by (auto simp: suffix_def)
  next
    case False
    with "2.prems" obtain key r0 where key: "parse_json_string ?in = Inr (key, r0)"
      by (auto simp: Let_def result_iff)
    with "2.prems" False obtain r1 where ws: "skip_json_whitespace r0 = CHR '':'' # r1"
      by (auto simp: Let_def split: list.splits if_splits)
    with "2.prems" False key obtain st1 r2 where val: "parse_response_value key st r1 = Inr (st1, r2)"
      by (auto simp: Let_def result_iff)
    with "2.prems" False key ws obtain c rest where ws': "skip_json_whitespace r2 = c # rest"
      by (auto simp: Let_def split: list.splits)
    have "suffix r1 (v # va)"
      using suffix_after_blank [OF ws suffix_order.trans [OF parse_json_string_suffix [OF key] in_suf]] .
    then have suf: "suffix (c # rest) (v # va)"
      using parse_response_value_suffix [OF val] skip_whitespace_ConsD_suffix [OF ws'] suffix_order.trans
      by blast
    show ?thesis
    proof (cases "c = CHR '',''")
      case True
      with "2.prems" False key ws val ws' have "parse_response_fields st1 rest = Inr (st', r)"
        by (simp add: Let_def)
      with "2.IH" [OF refl False key refl ws _ val refl ws' True] obtain p where "rest = p @ CHR ''}'' # r"
        by blast
      with suf show ?thesis by (auto simp: suffix_def)
    next
      case comma: False
      with "2.prems" False key ws val ws' have "c = CHR ''}''" "rest = r"
        by (auto simp: Let_def split: if_splits)
      with suf show ?thesis by (auto simp: suffix_def)
    qed
  qed
qed simp

section \<open>Properties\<close>

text \<open>
  C7. Reading back a string written by \<open>json_escape\<close> between quotes returns it, after any
  blanks and whatever follows, except that control characters without a short escape come
  back as a question mark.
\<close>

theorem json_string_round_trip:
  assumes "list_all is_space ws"
  shows "parse_json_string (ws @ CHR 34 # json_escape s @ CHR 34 # rest)
    = Inr (map (\<lambda>c. if (of_char c :: nat) < 32 \<and> c \<notin> {CHR 8, CHR 9, CHR 10, CHR 12, CHR 13}
                    then CHR ''?'' else c) s, rest)"
proof -
  have "parse_json_string (ws @ CHR 34 # json_escape s @ CHR 34 # rest)
      = parse_string_chars [] (json_escape s @ CHR 34 # rest)"
    using assms by (simp add: parse_json_string_def)
  then show ?thesis by (simp add: parse_escaped_string degrade_def)
qed

theorem json_string_round_trip_witness:
  "parse_json_string ([CHR 32] @ CHR 34 # json_escape [CHR ''a'', CHR 34, CHR 10, CHR 2] @ CHR 34 # '','')
    = Inr ([CHR ''a'', CHR 34, CHR 10, CHR ''?''], '','')"
  using json_string_round_trip [of "[CHR 32]" "[CHR ''a'', CHR 34, CHR 10, CHR 2]" "'',''"]
  by (simp add: is_space_def)

text \<open>
  C10. A body that was cut off is never accepted: a valid response ends, up to blanks, with
  the closing brace of its object.
\<close>

theorem json_accepted_body_is_closed:
  assumes "resp_valid (parse_llm_response_body body)"
  shows "\<exists>p ws. body = p @ CHR ''}'' # ws \<and> skip_json_whitespace ws = []"
proof -
  from assms obtain c rest where ws: "skip_json_whitespace body = c # rest" "c = CHR ''{''"
    by (auto simp: parse_llm_response_body_def response_failed_def ParsedLLMResponse_init_def
        split: list.splits if_splits)
  with assms obtain st r where fields: "parse_response_fields
        (ParsedLLMResponse_init, \<lparr>saw_status = False, saw_actions = False, saw_action_chains = False\<rparr>) rest
      = Inr (st, r)" "resp_valid (finish_response st r)"
    by (auto simp: parse_llm_response_body_def response_failed_def ParsedLLMResponse_init_def
        split: sum.splits)
  from fields(1) obtain p where p: "rest = p @ CHR ''}'' # r"
    using parse_response_fields_closed by blast
  from fields(2) have "skip_json_whitespace r = []"
    by (auto simp: finish_response_def response_failed_def ParsedLLMResponse_init_def Let_def
        split: prod.splits if_splits)
  moreover from ws(1) p obtain q where "body = (q @ c # p) @ CHR ''}'' # r"
    using skip_whitespace_suffix [of body] by (auto simp: suffix_def)
  ultimately show ?thesis by blast
qed

theorem json_accepted_body_is_closed_witness:
  "\<exists>p ws. CHR ''{'' # json_quote ''status'' @ CHR '':'' # json_quote ''ok'' @ CHR '','' # json_quote ''actions'' @ '':[]}'' = p @ CHR ''}'' # ws
     \<and> skip_json_whitespace ws = []"
  by (rule json_accepted_body_is_closed) code_simp

end
