(* ===== verification/Json_Grammar.thy ===== *)
theory Json_Grammar
  imports Json_Laws
begin

text \<open>
  JSON as texts, with blanks wherever JSON allows them, and what the codec reads from such a text. The
  grammar says which texts write a string, an array of strings, any value and a response object; it
  knows nothing of the parsers.
\<close>

section \<open>Blanks\<close>

abbreviation blank :: "string \<Rightarrow> bool" where "blank \<equiv> list_all is_space"

lemma skip_to [simp]: "blank b \<Longrightarrow> \<not> is_space c \<Longrightarrow> skip_json_whitespace (b @ c # r) = c # r"
  by simp

lemma skip_blank [simp]: "blank b \<Longrightarrow> skip_json_whitespace b = []"
  by (induction b) simp_all

section \<open>Strings\<close>

text \<open>The characters between the quotes, and the characters they stand for.\<close>

definition escapes :: "(char \<times> char) list" where
  "escapes = [(CHR 34, CHR 34), (CHR 92, CHR 92), (CHR ''/'', CHR ''/''), (CHR ''b'', CHR 8), (CHR ''f'', CHR 12),
     (CHR ''n'', CHR 10), (CHR ''r'', CHR 13), (CHR ''t'', CHR 9)]"

inductive string_chars :: "string \<Rightarrow> string \<Rightarrow> bool" where
  end_chars: "string_chars [] []"
| plain: "string_chars v t \<Longrightarrow> c \<noteq> CHR 34 \<Longrightarrow> c \<noteq> CHR 92 \<Longrightarrow> string_chars (c # v) (c # t)"
| escaped: "string_chars v t \<Longrightarrow> (e, c) \<in> set escapes \<Longrightarrow> string_chars (c # v) (CHR 92 # e # t)"
| unicode: "string_chars v t \<Longrightarrow> length x = 4 \<Longrightarrow> string_chars (CHR ''?'' # v) (CHR 92 # CHR ''u'' # x @ t)"

definition string_text :: "string \<Rightarrow> string \<Rightarrow> bool" where
  "string_text v t \<longleftrightarrow> (\<exists>x. string_chars v x \<and> t = CHR 34 # x @ [CHR 34])"

lemma parse_chars: "string_chars v t \<Longrightarrow> parse_string_chars acc (t @ CHR 34 # r) = Inr (acc @ v, r)"
proof (induction v t arbitrary: acc rule: string_chars.induct)
  case (escaped v t e c)
  then have "simple_escape e = Some c" "e \<noteq> CHR ''u''" by (auto simp: escapes_def simple_escape_def)
  then show ?case using escaped.IH by simp
qed simp_all

lemma parse_string_text [simp]: "string_text v t \<Longrightarrow> blank b \<Longrightarrow> parse_json_string (b @ t @ r) = Inr (v, r)"
  by (auto simp: string_text_def parse_json_string_def parse_chars)

lemma parse_string_text_plain: "string_text v t \<Longrightarrow> parse_json_string (t @ r) = Inr (v, r)"
  using parse_string_text [of v t "[]"] by simp

text \<open>A text that starts with a character of a kind that is no blank.\<close>

definition opens :: "(char \<Rightarrow> bool) \<Rightarrow> string \<Rightarrow> bool" where
  "opens P t \<longleftrightarrow> (\<exists>c r. t = c # r \<and> \<not> is_space c \<and> P c)"

lemma string_text_opens: "string_text v t \<Longrightarrow> P (CHR 34) \<Longrightarrow> opens P t"
  unfolding string_text_def opens_def by (elim exE conjE) simp

section \<open>Lists of strings and their lists\<close>

inductive items_of :: "('a \<Rightarrow> string \<Rightarrow> bool) \<Rightarrow> 'a list \<Rightarrow> string \<Rightarrow> bool" for item_text where
  one_item: "item_text x t \<Longrightarrow> blank b \<Longrightarrow> blank b' \<Longrightarrow> items_of item_text [x] (b @ t @ b')"
| more_items: "item_text x t \<Longrightarrow> blank b \<Longrightarrow> blank b' \<Longrightarrow> items_of item_text xs ts \<Longrightarrow>
    items_of item_text (x # xs) (b @ t @ b' @ CHR '','' # ts)"

definition list_text :: "('a \<Rightarrow> string \<Rightarrow> bool) \<Rightarrow> 'a list \<Rightarrow> string \<Rightarrow> bool" where
  "list_text item_text xs t \<longleftrightarrow>
     (\<exists>ts. t = CHR ''['' # ts @ [CHR '']''] \<and> (xs = [] \<and> blank ts \<or> items_of item_text xs ts))"

lemma list_text_opens: "list_text item_text xs t \<Longrightarrow> P (CHR ''['') \<Longrightarrow> opens P t"
  unfolding list_text_def opens_def by (elim exE conjE) simp

lemma items_opens:
  assumes "items_of item_text xs ts" "\<And>x t. item_text x t \<Longrightarrow> opens P t"
  obtains b c r where "ts = b @ c # r" "blank b" "\<not> is_space c" "P c"
proof -
  from assms(1) obtain x t b q where t: "item_text x t" "blank b" "ts = b @ t @ q" by cases auto
  from assms(2) [OF t(1)] obtain c r where "t = c # r" "\<not> is_space c" "P c" by (auto simp: opens_def)
  with t that show ?thesis by simp
qed

text \<open>Entering a list: blanks and the first item, or the bracket that closes it.\<close>

lemma enter_items:
  assumes "items_of item_text xs ts" "\<And>x t. item_text x t \<Longrightarrow> opens (\<lambda>c. c \<noteq> close) t"
  shows "\<exists>c r. skip_json_whitespace (ts @ s) = c # r \<and> c \<noteq> close"
proof -
  from assms obtain b c r where "ts = b @ c # r" "blank b" "\<not> is_space c" "c \<noteq> close" by (rule items_opens)
  then show ?thesis by simp
qed

lemma parse_json_string_skip: "parse_json_string (skip_json_whitespace s) = parse_json_string s"
  by (simp add: parse_json_string_def skip_json_whitespace_def)

lemma parse_array_strings_skip: "parse_array_strings acc (skip_json_whitespace s) = parse_array_strings acc s"
  if "skip_json_whitespace s \<noteq> []"
proof -
  from that obtain c r c' r' where "s = c # r" "skip_json_whitespace s = c' # r'"
    by (cases s; cases "skip_json_whitespace s") (auto simp: skip_json_whitespace_def)
  then show ?thesis using parse_json_string_skip [of s] by simp
qed

lemma parse_array_items:
  "items_of string_text xs ts \<Longrightarrow> parse_array_strings acc (ts @ CHR '']'' # r) = Inr (acc @ xs, r)"
proof (induction xs ts arbitrary: acc rule: items_of.induct)
  case (one_item x t b b')
  then have "parse_json_string (b @ t @ b' @ CHR '']'' # r) = Inr (x, b' @ CHR '']'' # r)" by simp
  then show ?case using one_item by (cases "b @ t @ b' @ CHR '']'' # r") (simp_all add: is_space_def)
next
  case (more_items x t b b' xs ts)
  let ?s = "b @ t @ b' @ CHR '','' # ts @ CHR '']'' # r"
  have "parse_json_string ?s = Inr (x, b' @ CHR '','' # ts @ CHR '']'' # r)" using more_items by simp
  then show ?case using more_items by (cases ?s) simp_all
qed

lemma parse_string_list [simp]:
  assumes "list_text string_text xs t" "blank b"
  shows "parse_json_string_array acc (b @ t @ r) = Inr (acc @ xs, r)"
proof -
  from assms obtain ts where t: "t = CHR ''['' # ts @ [CHR '']'']" "xs = [] \<and> blank ts \<or> items_of string_text xs ts"
    by (auto simp: list_text_def)
  from t(2) show ?thesis
  proof
    assume "xs = [] \<and> blank ts"
    then show ?thesis using assms(2) by (simp add: parse_json_string_array_def t(1))
  next
    assume items: "items_of string_text xs ts"
    have "\<exists>c q. skip_json_whitespace (ts @ CHR '']'' # r) = c # q \<and> c \<noteq> CHR '']''"
      by (rule enter_items [OF items]) (simp add: string_text_opens)
    then obtain c q where c: "skip_json_whitespace (ts @ CHR '']'' # r) = c # q" "c \<noteq> CHR '']''" by blast
    then have "parse_array_strings acc (c # q) = parse_array_strings acc (ts @ CHR '']'' # r)"
      using parse_array_strings_skip [of "ts @ CHR '']'' # r"] by simp
    then show ?thesis using assms(2) c parse_array_items [OF items, of acc r]
      by (simp add: parse_json_string_array_def t(1) del: parse_array_strings.simps(2))
  qed
qed

lemma parse_matrix_rows_skip: "parse_matrix_rows acc (skip_json_whitespace s) = parse_matrix_rows acc s"
  if "skip_json_whitespace s \<noteq> []"
proof -
  from that obtain c r c' r' where s: "s = c # r" "skip_json_whitespace s = c' # r'"
    by (cases s; cases "skip_json_whitespace s") (auto simp: skip_json_whitespace_def)
  have "parse_json_string_array [] (skip_json_whitespace s) = parse_json_string_array [] s"
    by (simp add: parse_json_string_array_def skip_json_whitespace_def)
  then show ?thesis unfolding s(2) unfolding s(1) by simp
qed

lemma parse_matrix_items:
  "items_of (list_text string_text) xss ts \<Longrightarrow> parse_matrix_rows acc (ts @ CHR '']'' # r) = Inr (acc @ xss, r)"
proof (induction xss ts arbitrary: acc rule: items_of.induct)
  case (one_item x t b b')
  then have "parse_json_string_array [] (b @ t @ b' @ CHR '']'' # r) = Inr (x, b' @ CHR '']'' # r)" by simp
  then show ?case using one_item by (cases "b @ t @ b' @ CHR '']'' # r") simp_all
next
  case (more_items x t b b' xs ts)
  let ?s = "b @ t @ b' @ CHR '','' # ts @ CHR '']'' # r"
  have "parse_json_string_array [] ?s = Inr (x, b' @ CHR '','' # ts @ CHR '']'' # r)" using more_items by simp
  then show ?case using more_items by (cases ?s) simp_all
qed

lemma parse_string_matrix [simp]:
  assumes "list_text (list_text string_text) xss t" "blank b"
  shows "parse_json_string_matrix acc (b @ t @ r) = Inr (acc @ xss, r)"
proof -
  from assms obtain ts where t: "t = CHR ''['' # ts @ [CHR '']'']" "xss = [] \<and> blank ts \<or> items_of (list_text string_text) xss ts"
    by (auto simp: list_text_def)
  from t(2) show ?thesis
  proof
    assume "xss = [] \<and> blank ts"
    then show ?thesis using assms(2) by (simp add: parse_json_string_matrix_def t(1))
  next
    assume items: "items_of (list_text string_text) xss ts"
    have "\<exists>c q. skip_json_whitespace (ts @ CHR '']'' # r) = c # q \<and> c \<noteq> CHR '']''"
      by (rule enter_items [OF items]) (simp add: list_text_opens)
    then obtain c q where c: "skip_json_whitespace (ts @ CHR '']'' # r) = c # q" "c \<noteq> CHR '']''" by blast
    then have "parse_matrix_rows acc (c # q) = parse_matrix_rows acc (ts @ CHR '']'' # r)"
      using parse_matrix_rows_skip [of "ts @ CHR '']'' # r"] by simp
    then show ?thesis using assms(2) c parse_matrix_items [OF items, of acc r]
      by (simp add: parse_json_string_matrix_def t(1) del: parse_matrix_rows.simps(2))
  qed
qed

section \<open>Any value\<close>

text \<open>
  The texts of all values. A token is a number, \<open>true\<close>, \<open>false\<close> or \<open>null\<close>; the codec takes any word
  without a structural character for one.
\<close>

inductive value_text :: "string \<Rightarrow> bool" and values_text :: "string \<Rightarrow> bool" and members_text :: "string \<Rightarrow> bool" where
  string_value: "string_text v t \<Longrightarrow> value_text t"
| token_value: "t \<noteq> [] \<Longrightarrow> list_all is_token_char t \<Longrightarrow> hd t \<notin> {CHR 34, CHR ''['', CHR ''{''} \<Longrightarrow> value_text t"
| empty_array: "blank b \<Longrightarrow> value_text (CHR ''['' # b @ [CHR '']''])"
| array_value: "values_text ts \<Longrightarrow> value_text (CHR ''['' # ts @ [CHR '']''])"
| empty_object: "blank b \<Longrightarrow> value_text (CHR ''{'' # b @ [CHR ''}''])"
| object_value: "members_text ts \<Longrightarrow> value_text (CHR ''{'' # ts @ [CHR ''}''])"
| last_value: "value_text t \<Longrightarrow> blank b \<Longrightarrow> blank b' \<Longrightarrow> values_text (b @ t @ b')"
| next_value: "value_text t \<Longrightarrow> blank b \<Longrightarrow> blank b' \<Longrightarrow> values_text ts \<Longrightarrow> values_text (b @ t @ b' @ CHR '','' # ts)"
| last_member: "string_text v k \<Longrightarrow> value_text t \<Longrightarrow> blank b \<Longrightarrow> blank b1 \<Longrightarrow> blank b2 \<Longrightarrow> blank b' \<Longrightarrow>
    members_text (b @ k @ b1 @ CHR '':'' # b2 @ t @ b')"
| next_member: "string_text v k \<Longrightarrow> value_text t \<Longrightarrow> blank b \<Longrightarrow> blank b1 \<Longrightarrow> blank b2 \<Longrightarrow> blank b' \<Longrightarrow> members_text ts \<Longrightarrow>
    members_text (b @ k @ b1 @ CHR '':'' # b2 @ t @ b' @ CHR '','' # ts)"

lemma token_char_opens: "is_token_char c \<Longrightarrow> \<not> is_space c \<and> c \<noteq> CHR '']'' \<and> c \<noteq> CHR ''}''"
  by (simp add: is_token_char_def)

lemma value_text_opens:
  assumes "value_text t"
  shows "opens (\<lambda>c. c \<noteq> CHR '']'') t"
  using assms
proof cases
  case (string_value v)
  then show ?thesis by (simp add: string_text_opens)
next
  case token_value
  then obtain c r where "t = c # r" "is_token_char c" by (cases t) auto
  then show ?thesis using token_char_opens by (simp add: opens_def)
qed (simp_all add: opens_def)

lemma values_text_opens:
  assumes "values_text ts"
  shows "\<exists>b c r. ts = b @ c # r \<and> blank b \<and> \<not> is_space c \<and> c \<noteq> CHR '']''"
proof -
  from assms obtain b t q where t: "value_text t" "blank b" "ts = b @ t @ q" by cases auto
  from value_text_opens [OF t(1)] obtain c r where "t = c # r" "\<not> is_space c" "c \<noteq> CHR '']''" by (auto simp: opens_def)
  with t show ?thesis by (intro exI [of _ b] exI [of _ c] exI [of _ "r @ q"]) simp
qed

lemma members_text_opens:
  assumes "members_text ts"
  shows "\<exists>b r. ts = b @ CHR 34 # r \<and> blank b"
proof -
  from assms obtain b v k q where k: "string_text v k" "blank b" "ts = b @ k @ q" by cases auto
  then obtain x where "k = CHR 34 # x" by (auto simp: string_text_def)
  with k show ?thesis by (intro exI [of _ b] exI [of _ "x @ q"]) simp
qed

lemma ends_value_blank: "blank b \<Longrightarrow> ends_value (c # r) \<Longrightarrow> ends_value (b @ c # r)"
  by (cases b) (auto simp: ends_value_def is_token_char_def)

text \<open>The loops skip blanks first, so an entry that has skipped them already is the same.\<close>

lemma skip_json_value_skip: "skip_json_value (skip_json_whitespace s) = skip_json_value s"
  by (simp add: skip_json_value.simps skip_json_whitespace_def)

lemma skip_array_items_skip:
  assumes "skip_json_whitespace s \<noteq> []"
  shows "skip_array_items (skip_json_whitespace s) = skip_array_items s"
proof -
  from assms obtain c r c' r' where s: "s = c # r" "skip_json_whitespace s = c' # r'"
    by (cases s; cases "skip_json_whitespace s") (auto simp: skip_json_whitespace_def)
  then show ?thesis using skip_json_value_skip [of s] by (simp add: skip_array_items.simps(2))
qed

lemma skip_object_items_skip:
  assumes "skip_json_whitespace s \<noteq> []"
  shows "skip_object_items (skip_json_whitespace s) = skip_object_items s"
proof -
  from assms obtain c r c' r' where s: "s = c # r" "skip_json_whitespace s = c' # r'"
    by (cases s; cases "skip_json_whitespace s") (auto simp: skip_json_whitespace_def)
  then show ?thesis using parse_json_string_skip [of s] by (simp add: skip_object_items.simps(2))
qed

lemma skip_array_items_nonempty: "s \<noteq> [] \<Longrightarrow> skip_array_items s =
    bind_result (skip_json_value s) (\<lambda>r. case skip_json_whitespace r of
         [] \<Rightarrow> Inl ''expected ',' or ']' in JSON array''
       | c # rest \<Rightarrow> if c = CHR '','' then skip_array_items rest
           else if c = CHR '']'' then Inr rest else Inl ''expected ',' or ']' in JSON array'')"
  by (cases s) (simp_all add: skip_array_items.simps(2) cong: list.case_cong)

lemma skip_object_items_member:
  assumes "string_text v k" "blank b" "blank b1" "skip_json_value r1 = Inr (b' @ c # rest)" "blank b'" "\<not> is_space c"
  shows "skip_object_items (b @ k @ b1 @ CHR '':'' # r1) =
    (if c = CHR '','' then skip_object_items rest else if c = CHR ''}'' then Inr rest
     else Inl ''expected ',' or '}' in JSON object'')"
proof -
  have "parse_json_string (b @ k @ b1 @ CHR '':'' # r1) = Inr (v, b1 @ CHR '':'' # r1)" using assms by simp
  then show ?thesis using assms by (cases "b @ k @ b1 @ CHR '':'' # r1") (simp_all add: skip_object_items.simps(2))
qed

lemma skip_text:
  shows "value_text t \<Longrightarrow> (\<And>b r. blank b \<Longrightarrow> ends_value r \<Longrightarrow> skip_json_value (b @ t @ r) = Inr r)"
    and "values_text ts \<Longrightarrow> (\<And>r. skip_array_items (ts @ CHR '']'' # r) = Inr r)"
    and "members_text ms \<Longrightarrow> (\<And>r. skip_object_items (ms @ CHR ''}'' # r) = Inr r)"
proof (induction rule: value_text_values_text_members_text.inducts)
  case (string_value v t)
  obtain q where "t = CHR 34 # q" using string_value(1) by (auto simp: string_text_def)
  moreover have "parse_json_string (t @ r) = Inr (v, r)" by (rule parse_string_text_plain [OF string_value(1)])
  ultimately show ?case using string_value by (simp add: skip_json_value.simps)
next
  case (token_value t)
  obtain c q where t: "t = c # q" using token_value(1) by (cases t) auto
  have "dropWhile is_token_char (t @ r) = r"
    using token_value by (cases r) (auto simp: ends_value_def list_all_iff dropWhile_append)
  moreover have "r \<noteq> t @ r" using t by (metis append_self_conv2 list.distinct(1))
  moreover have "\<not> is_space c" using token_value(2) t token_char_opens by auto
  ultimately show ?case using token_value(3,4) t by (simp add: skip_json_value.simps Let_def)
next
  case (empty_array b')
  then show ?case by (simp add: skip_json_value.simps skip_json_array.simps)
next
  case (array_value ts)
  obtain b' c q where ts: "ts = b' @ c # q" "blank b'" "\<not> is_space c" "c \<noteq> CHR '']''"
    using values_text_opens [OF array_value(1)] by blast
  then have "skip_json_whitespace (ts @ CHR '']'' # r) = c # q @ CHR '']'' # r" by simp
  then have "skip_array_items (c # q @ CHR '']'' # r) = Inr r"
    using skip_array_items_skip [of "ts @ CHR '']'' # r"] array_value.IH [of r] by simp
  then show ?case using array_value.prems ts by (simp add: skip_json_value.simps skip_json_array.simps)
next
  case (empty_object b')
  then show ?case by (simp add: skip_json_value.simps skip_json_object.simps)
next
  case (object_value ts)
  obtain b' q where ts: "ts = b' @ CHR 34 # q" "blank b'" using members_text_opens [OF object_value(1)] by blast
  then have "skip_json_whitespace (ts @ CHR ''}'' # r) = CHR 34 # q @ CHR ''}'' # r" by simp
  then have "skip_object_items (CHR 34 # q @ CHR ''}'' # r) = Inr r"
    using skip_object_items_skip [of "ts @ CHR ''}'' # r"] object_value.IH [of r] by simp
  then show ?case using object_value.prems ts by (simp add: skip_json_value.simps skip_json_object.simps)
next
  case (last_value t b b')
  have "skip_json_value (b @ t @ b' @ CHR '']'' # r) = Inr (b' @ CHR '']'' # r)"
    using last_value ends_value_blank by simp
  then show ?case using last_value by (simp add: skip_array_items_nonempty)
next
  case (next_value t b b' ts)
  have "skip_json_value (b @ t @ b' @ CHR '','' # ts @ CHR '']'' # r) = Inr (b' @ CHR '','' # ts @ CHR '']'' # r)"
    using next_value ends_value_blank by simp
  then show ?case using next_value by (simp add: skip_array_items_nonempty)
next
  case (last_member v k t b b1 b2 b')
  have "skip_json_value (b2 @ t @ b' @ CHR ''}'' # r) = Inr (b' @ CHR ''}'' # r)"
    using last_member ends_value_blank by simp
  then show ?case using skip_object_items_member [OF last_member.hyps(1,3,4) _ last_member.hyps(6), of "b2 @ t @ b' @ CHR ''}'' # r" "CHR ''}''" r] by simp
next
  case (next_member v k t b b1 b2 b' ts)
  have "skip_json_value (b2 @ t @ b' @ CHR '','' # ts @ CHR ''}'' # r) = Inr (b' @ CHR '','' # ts @ CHR ''}'' # r)"
    using next_member ends_value_blank by simp
  then show ?case
    using skip_object_items_member [OF next_member.hyps(1,3,4) _ next_member.hyps(6), of "b2 @ t @ b' @ CHR '','' # ts @ CHR ''}'' # r" "CHR '',''" "ts @ CHR ''}'' # r"]
      next_member.IH(2) by simp
qed

section \<open>Responses\<close>

text \<open>
  The fields of a response, in any order and number: the status, a flat list of actions, a list of
  chains of actions, or any field the planner does not know.
\<close>

datatype field =
    Status string
  | Actions "string list"
  | Chains "string list list"
  | Unknown string

fun field_key :: "field \<Rightarrow> string" where
  "field_key (Status s) = ''status''"
| "field_key (Actions xs) = ''actions''"
| "field_key (Chains xss) = ''action_chains''"
| "field_key (Unknown k) = k"

fun field_value_text :: "field \<Rightarrow> string \<Rightarrow> bool" where
  "field_value_text (Status s) t = string_text s t"
| "field_value_text (Actions xs) t = list_text string_text xs t"
| "field_value_text (Chains xss) t = list_text (list_text string_text) xss t"
| "field_value_text (Unknown k) t = (k \<notin> {''status'', ''actions'', ''action_chains''} \<and> value_text t)"

definition field_text :: "field \<Rightarrow> string \<Rightarrow> bool" where
  "field_text f t \<longleftrightarrow> (\<exists>k b b' v. t = k @ b @ CHR '':'' # b' @ v \<and> string_text (field_key f) k \<and> blank b \<and> blank b' \<and> field_value_text f v)"

definition response_text :: "field list \<Rightarrow> string \<Rightarrow> bool" where
  "response_text fs t \<longleftrightarrow> (\<exists>b ts b'. t = b @ CHR ''{'' # ts @ CHR ''}'' # b' \<and> blank b \<and> blank b' \<and> items_of field_text fs ts)"

text \<open>The values of the fields of each kind, in the order of the text.\<close>

fun statuses :: "field list \<Rightarrow> string list" where
  "statuses [] = []"
| "statuses (Status s # fs) = s # statuses fs"
| "statuses (_ # fs) = statuses fs"

fun action_lists :: "field list \<Rightarrow> string list list" where
  "action_lists [] = []"
| "action_lists (Actions xs # fs) = xs # action_lists fs"
| "action_lists (_ # fs) = action_lists fs"

fun chain_lists :: "field list \<Rightarrow> string list list list" where
  "chain_lists [] = []"
| "chain_lists (Chains xss # fs) = xss # chain_lists fs"
| "chain_lists (_ # fs) = chain_lists fs"

text \<open>The state of the parser after some fields.\<close>

definition read_fields :: "field list \<Rightarrow> response_state" where
  "read_fields fs = (ParsedLLMResponse_init\<lparr>resp_status := (if statuses fs = [] then [] else last (statuses fs)),
      resp_actions := concat (action_lists fs), resp_action_chains := concat (chain_lists fs)\<rparr>,
     \<lparr>saw_status = (statuses fs \<noteq> []), saw_actions = (action_lists fs \<noteq> []), saw_action_chains = (chain_lists fs \<noteq> [])\<rparr>)"

lemma lists_append [simp]:
  "statuses (fs @ gs) = statuses fs @ statuses gs" "action_lists (fs @ gs) = action_lists fs @ action_lists gs"
  "chain_lists (fs @ gs) = chain_lists fs @ chain_lists gs"
  by (induction fs rule: statuses.induct; simp)+

lemma parse_value:
  assumes "field_value_text f v" "blank b" "ends_value r"
  shows "parse_response_value (field_key f) (read_fields fs) (b @ v @ r) = Inr (read_fields (fs @ [f]), r)"
  using assms skip_text(1) [of v b r]
  by (cases f) (simp_all add: parse_response_value_def read_fields_def)

lemma parse_response_fields_nonempty:
  assumes "parse_json_string s = Inr (key, r)" "skip_json_whitespace s = CHR 34 # q" "skip_json_whitespace r = CHR '':'' # r1"
    "parse_response_value key st r1 = Inr (st', r2)" "skip_json_whitespace r2 = c # rest" "c \<in> {CHR '','', CHR ''}''}"
  shows "parse_response_fields st s = (if c = CHR '','' then parse_response_fields st' rest else Inr (st', rest))"
proof -
  have "parse_json_string (CHR 34 # q) = Inr (key, r)" using assms(1) parse_json_string_skip [of s] assms(2) by simp
  moreover obtain a s' where s: "s = a # s'" using assms(2) by (cases s) auto
  ultimately show ?thesis using assms(2-) unfolding s by (simp only: parse_response_fields.simps) (auto simp: Let_def)
qed

lemma parse_field:
  assumes "field_text f t" "blank b" "blank b'" "c \<in> {CHR '','', CHR ''}''}"
  shows "parse_response_fields (read_fields fs) (b @ t @ b' @ c # rest) =
    (if c = CHR '','' then parse_response_fields (read_fields (fs @ [f])) rest else Inr (read_fields (fs @ [f]), rest))"
proof -
  from assms(1) obtain k b1 b2 v where t: "t = k @ b1 @ CHR '':'' # b2 @ v" "string_text (field_key f) k" "blank b1" "blank b2"
    "field_value_text f v" by (auto simp: field_text_def)
  let ?r = "b1 @ CHR '':'' # b2 @ v @ b' @ c # rest"
  have c: "\<not> is_space c" "ends_value (c # rest)" using assms(4) by auto
  obtain x where k: "k = CHR 34 # x" using t(2) by (auto simp: string_text_def)
  show ?thesis
  proof (rule parse_response_fields_nonempty)
    show "parse_json_string (b @ t @ b' @ c # rest) = Inr (field_key f, ?r)" using parse_string_text [OF t(2) assms(2), of ?r] by (simp add: t(1))
    show "skip_json_whitespace (b @ t @ b' @ c # rest) = CHR 34 # x @ ?r" using assms(2) by (simp add: t(1) k)
    show "skip_json_whitespace ?r = CHR '':'' # b2 @ v @ b' @ c # rest" using t(3) by simp
    show "parse_response_value (field_key f) (read_fields fs) (b2 @ v @ b' @ c # rest) = Inr (read_fields (fs @ [f]), b' @ c # rest)"
      by (rule parse_value [OF t(5,4) ends_value_blank [OF assms(3) c(2)]])
    show "skip_json_whitespace (b' @ c # rest) = c # rest" using assms(3) c(1) by simp
  qed (rule assms(4))
qed

lemma parse_fields:
  "items_of field_text fs ts \<Longrightarrow> parse_response_fields (read_fields gs) (ts @ CHR ''}'' # rest) = Inr (read_fields (gs @ fs), rest)"
proof (induction fs ts arbitrary: gs rule: items_of.induct)
  case (one_item f t b b')
  then show ?case using parse_field [OF one_item, of "CHR ''}''" gs rest] by simp
next
  case (more_items f t b b' fs ts)
  then show ?case using parse_field [OF more_items(1-3), of "CHR '',''" gs "ts @ CHR ''}'' # rest"] more_items.IH [of "gs @ [f]"] by simp
qed

lemma parse_response_text:
  assumes "response_text fs t"
  shows "\<exists>b. blank b \<and> parse_llm_response_body t = finish_response (read_fields fs) b"
proof -
  from assms obtain b ts b' where t: "t = b @ CHR ''{'' # ts @ CHR ''}'' # b'" "blank b" "blank b'" "items_of field_text fs ts"
    by (auto simp: response_text_def)
  have "(ParsedLLMResponse_init, \<lparr>saw_status = False, saw_actions = False, saw_action_chains = False\<rparr>) = read_fields []"
    by (simp add: read_fields_def ParsedLLMResponse_init_def)
  then show ?thesis using parse_fields [OF t(4), of "[]" b'] t(2,3)
    by (intro exI [of _ b']) (simp add: parse_llm_response_body_def t(1))
qed

section \<open>Properties\<close>

text \<open>
  C8. Every response object is read, whatever its fields are, in whatever order, and with blanks
  anywhere between its tokens. It is valid when it has a status and an action list or chains. The last
  status counts; action lists and chains accumulate; fields the planner does not know are skipped; and
  when no chains were sent, the actions are the only chain.
\<close>

theorem json_response_accepted:
  assumes "response_text fs t"
  shows "parse_llm_response_body t =
    (if statuses fs = [] \<or> action_lists fs = [] \<and> chain_lists fs = []
     then \<lparr>resp_valid = False, resp_status = [], resp_actions = [], resp_action_chains = [],
        resp_error = ''response is missing status and action payload''\<rparr>
     else \<lparr>resp_valid = True, resp_status = last (statuses fs), resp_actions = concat (action_lists fs),
        resp_action_chains = (if chain_lists fs = [] then [concat (action_lists fs)] else concat (chain_lists fs)), resp_error = []\<rparr>)"
  using parse_response_text [OF assms]
  by (auto simp: finish_response_def read_fields_def response_failed_def ParsedLLMResponse_init_def)

definition plain_text :: "string \<Rightarrow> string" where "plain_text s = CHR 34 # s @ [CHR 34]"

lemma plain_string_text: "list_all (\<lambda>c. c \<noteq> CHR 34 \<and> c \<noteq> CHR 92) s \<Longrightarrow> string_text s (plain_text s)"
proof -
  assume "list_all (\<lambda>c. c \<noteq> CHR 34 \<and> c \<noteq> CHR 92) s"
  then have "string_chars s s" by (induction s) (auto intro: string_chars.intros)
  then show ?thesis by (auto simp: string_text_def plain_text_def)
qed

theorem json_response_accepted_witness:
  "parse_llm_response_body (''{'' @ plain_text ''id'' @ '': 17, '' @ plain_text ''status'' @ '': '' @ plain_text ''ok'' @ '', '' @
      plain_text ''actions'' @ '': ['' @ plain_text ''(go a)'' @ '', '' @ plain_text ''(go b)'' @ '']}'') =
    \<lparr>resp_valid = True, resp_status = ''ok'', resp_actions = [''(go a)'', ''(go b)''],
      resp_action_chains = [[''(go a)'', ''(go b)'']], resp_error = []\<rparr>"
proof -
  let ?fs = "[Unknown ''id'', Status ''ok'', Actions [''(go a)'', ''(go b)'']]"
  let ?actions = "''['' @ plain_text ''(go a)'' @ '', '' @ plain_text ''(go b)'' @ '']''"
  have str: "string_text ''id'' (plain_text ''id'')" "string_text ''status'' (plain_text ''status'')" "string_text ''ok'' (plain_text ''ok'')"
    "string_text ''actions'' (plain_text ''actions'')" "string_text ''(go a)'' (plain_text ''(go a)'')" "string_text ''(go b)'' (plain_text ''(go b)'')"
    by (rule plain_string_text, simp)+
  have blanks: "blank []" "blank '' ''" by (simp_all add: is_space_def)
  have "items_of string_text [''(go a)'', ''(go b)''] ([] @ plain_text ''(go a)'' @ [] @ CHR '','' # ('' '' @ plain_text ''(go b)'' @ []))"
    by (intro items_of.intros str blanks)
  then have actions: "list_text string_text [''(go a)'', ''(go b)''] ?actions"
    unfolding list_text_def by (intro exI [of _ "plain_text ''(go a)'' @ '', '' @ plain_text ''(go b)''"]) simp
  have "value_text ''17''" by (rule token_value) (simp_all add: is_token_char_def is_space_def)
  then have fields: "field_text (Unknown ''id'') (plain_text ''id'' @ [] @ CHR '':'' # '' '' @ ''17'')"
    "field_text (Status ''ok'') (plain_text ''status'' @ [] @ CHR '':'' # '' '' @ plain_text ''ok'')"
    "field_text (Actions [''(go a)'', ''(go b)'']) (plain_text ''actions'' @ [] @ CHR '':'' # '' '' @ ?actions)"
    using str actions blanks unfolding field_text_def field_key.simps field_value_text.simps by blast+
  have "items_of field_text ?fs ([] @ (plain_text ''id'' @ [] @ CHR '':'' # '' '' @ ''17'') @ [] @ CHR '','' #
      ('' '' @ (plain_text ''status'' @ [] @ CHR '':'' # '' '' @ plain_text ''ok'') @ [] @ CHR '','' #
      ('' '' @ (plain_text ''actions'' @ [] @ CHR '':'' # '' '' @ ?actions) @ [])))"
    by (intro items_of.intros fields blanks)
  then have "response_text ?fs ([] @ CHR ''{'' # ([] @ (plain_text ''id'' @ [] @ CHR '':'' # '' '' @ ''17'') @ [] @ CHR '','' #
      ('' '' @ (plain_text ''status'' @ [] @ CHR '':'' # '' '' @ plain_text ''ok'') @ [] @ CHR '','' #
      ('' '' @ (plain_text ''actions'' @ [] @ CHR '':'' # '' '' @ ?actions) @ []))) @ CHR ''}'' # [])"
    unfolding response_text_def using blanks(1) by blast
  from json_response_accepted [OF this] show ?thesis by simp
qed

text \<open>
  C9. Skipping a value consumes exactly one JSON value, of any kind and nesting, with the blanks in
  front of it and between its tokens, and nothing of the text behind it.
\<close>

theorem json_skip_any_value:
  assumes "value_text t" "blank b" "ends_value r"
  shows "skip_json_value (b @ t @ r) = Inr r"
  by (rule skip_text(1) [OF assms])

theorem json_skip_any_value_witness:
  "skip_json_value ('' {'' @ plain_text ''k'' @ '': [1, '' @ plain_text ''x]'' @ '' ]} , rest'') = Inr '' , rest''"
proof -
  have blanks: "blank []" "blank '' ''" by (simp_all add: is_space_def)
  have str: "string_text ''k'' (plain_text ''k'')" "string_text ''x]'' (plain_text ''x]'')" by (rule plain_string_text, simp)+
  have "value_text ''1''" by (rule token_value) (simp_all add: is_token_char_def is_space_def)
  then have "values_text ([] @ ''1'' @ [] @ CHR '','' # ('' '' @ plain_text ''x]'' @ '' ''))"
    by (intro next_value last_value string_value [OF str(2)] blanks)
  from array_value [OF this] have "members_text ([] @ plain_text ''k'' @ [] @ CHR '':'' # '' '' @
      (CHR ''['' # ([] @ ''1'' @ [] @ CHR '','' # ('' '' @ plain_text ''x]'' @ '' '')) @ [CHR '']'']) @ [])"
    by (intro last_member [OF str(1)] blanks)
  from json_skip_any_value [OF object_value [OF this] blanks(2), of "'' , rest''"] show ?thesis
    by (simp add: ends_value_def is_token_char_def is_space_def)
qed

end
