(* ===== verification/Ap_Float.thy ===== *)
theory Ap_Float
  imports Prelude Complex_Main "HOL-Library.Word"
begin

text \<open>
  The machine numbers of the planner: \<open>ap_float\<close> is \<open>double\<close> and \<open>container_int\<close> is
  \<open>unsigned long long\<close> (\<open>globals.h\<close>). A \<open>double\<close> is its 64 bits; \<open>decode\<close> gives the
  number they stand for and \<open>encode\<close> rounds an exact magnitude to the nearest double, ties
  to even, so that every operation below is the exact operation on rationals rounded once,
  as IEEE 754 prescribes. The payload of a NaN is not tracked: operations return one NaN.
\<close>

type_synonym container_int = "64 word"

datatype ap_float = Bits (raw_bits: container_int)

section \<open>Decoding\<close>

text \<open>The value of a bit pattern without its sign: fraction in the low 52 bits, then 11 bits of exponent.\<close>

definition dec_mag :: "nat \<Rightarrow> rat" where
  "dec_mag b = (let e = b div 2 ^ 52; m = b mod 2 ^ 52 in
     if e = 0 then of_nat m * 2 powi (- 1074)
     else of_nat (2 ^ 52 + m) * 2 powi (int e - 1075))"

abbreviation inf_mag :: nat where "inf_mag \<equiv> 2047 * 2 ^ 52"

datatype float_value = NaN | Infty bool | Fin rat

definition sign_bit :: "ap_float \<Rightarrow> bool" where
  "sign_bit x \<longleftrightarrow> 2 ^ 63 \<le> unat (raw_bits x)"

definition mag_bits :: "ap_float \<Rightarrow> nat" where
  "mag_bits x = unat (raw_bits x) mod 2 ^ 63"

definition decode :: "ap_float \<Rightarrow> float_value" where
  "decode x =
    (if mag_bits x > inf_mag then NaN
     else if mag_bits x = inf_mag then Infty (sign_bit x)
     else Fin ((if sign_bit x then - 1 else 1) * dec_mag (mag_bits x)))"

section \<open>Rounding\<close>

fun ilog2 :: "nat \<Rightarrow> nat" where
  "ilog2 n = (if n < 2 then 0 else Suc (ilog2 (n div 2)))"

declare ilog2.simps [simp del]

text \<open>Round to the nearest integer, ties to even.\<close>

definition round_even :: "rat \<Rightarrow> int" where
  "round_even q = (let f = \<lfloor>q\<rfloor>; r = q - of_int f in
     if r < 1 / 2 then f else if r > 1 / 2 then f + 1 else if even f then f else f + 1)"

text \<open>The exponent of a magnitude, not below that of the subnormal numbers.\<close>

definition min_scale :: rat where "min_scale = 2 ^ 1022"

definition exponent_of :: "rat \<Rightarrow> int" where
  "exponent_of q = int (ilog2 (nat \<lfloor>q * min_scale\<rfloor>)) - 1022"

definition enc_mag :: "rat \<Rightarrow> nat" where
  "enc_mag q = (let e = exponent_of q in
     min inf_mag (nat ((e + 1022) * 2 ^ 52 + round_even (q / 2 powi (e - 52)))))"

definition make_float :: "bool \<Rightarrow> nat \<Rightarrow> ap_float" where
  "make_float s b = Bits (of_nat (b + (if s then 2 ^ 63 else 0)))"

definition encode :: "bool \<Rightarrow> rat \<Rightarrow> ap_float" where
  "encode s q = make_float s (enc_mag q)"

definition ap_nan :: ap_float where "ap_nan = Bits (2047 * 2 ^ 52 + 2 ^ 51)"

definition ap_inf :: "bool \<Rightarrow> ap_float" where "ap_inf s = make_float s inf_mag"

definition ap_zero :: "bool \<Rightarrow> ap_float" where "ap_zero s = make_float s 0"

section \<open>Operations\<close>

text \<open>\<open>ap_signed s q\<close>: the double nearest to \<open>q\<close>, with sign \<open>s\<close> if \<open>q\<close> is zero.\<close>

definition ap_signed :: "bool \<Rightarrow> rat \<Rightarrow> ap_float" where
  "ap_signed s q = (if q = 0 then ap_zero s else encode (q < 0) \<bar>q\<bar>)"

definition ap_of_rat :: "rat \<Rightarrow> ap_float" where "ap_of_rat q = ap_signed False q"

definition ap_of_int :: "int \<Rightarrow> ap_float" where "ap_of_int n = ap_of_rat (of_int n)"

definition ap_neg :: "ap_float \<Rightarrow> ap_float" where
  "ap_neg x = make_float (\<not> sign_bit x) (mag_bits x)"

definition ap_abs :: "ap_float \<Rightarrow> ap_float" where
  "ap_abs x = make_float False (mag_bits x)"

fun add_values :: "bool \<Rightarrow> float_value \<Rightarrow> float_value \<Rightarrow> ap_float" where
  "add_values s NaN y = ap_nan"
| "add_values s x NaN = ap_nan"
| "add_values s (Infty a) (Infty b) = (if a = b then ap_inf a else ap_nan)"
| "add_values s (Infty a) (Fin q) = ap_inf a"
| "add_values s (Fin p) (Infty b) = ap_inf b"
| "add_values s (Fin p) (Fin q) = ap_signed s (p + q)"

definition ap_add :: "ap_float \<Rightarrow> ap_float \<Rightarrow> ap_float" where
  "ap_add x y = add_values (sign_bit x \<and> sign_bit y) (decode x) (decode y)"

definition ap_sub :: "ap_float \<Rightarrow> ap_float \<Rightarrow> ap_float" where
  "ap_sub x y = ap_add x (ap_neg y)"

fun mul_values :: "bool \<Rightarrow> float_value \<Rightarrow> float_value \<Rightarrow> ap_float" where
  "mul_values s NaN y = ap_nan"
| "mul_values s x NaN = ap_nan"
| "mul_values s (Infty a) (Infty b) = ap_inf s"
| "mul_values s (Infty a) (Fin q) = (if q = 0 then ap_nan else ap_inf s)"
| "mul_values s (Fin p) (Infty b) = (if p = 0 then ap_nan else ap_inf s)"
| "mul_values s (Fin p) (Fin q) = ap_signed s (p * q)"

definition ap_mul :: "ap_float \<Rightarrow> ap_float \<Rightarrow> ap_float" where
  "ap_mul x y = mul_values (sign_bit x \<noteq> sign_bit y) (decode x) (decode y)"

fun div_values :: "bool \<Rightarrow> float_value \<Rightarrow> float_value \<Rightarrow> ap_float" where
  "div_values s NaN y = ap_nan"
| "div_values s x NaN = ap_nan"
| "div_values s (Infty a) (Infty b) = ap_nan"
| "div_values s (Infty a) (Fin q) = ap_inf s"
| "div_values s (Fin p) (Infty b) = ap_zero s"
| "div_values s (Fin p) (Fin q) =
    (if q = 0 then (if p = 0 then ap_nan else ap_inf s) else ap_signed s (p / q))"

definition ap_div :: "ap_float \<Rightarrow> ap_float \<Rightarrow> ap_float" where
  "ap_div x y = div_values (sign_bit x \<noteq> sign_bit y) (decode x) (decode y)"

fun lt_values :: "float_value \<Rightarrow> float_value \<Rightarrow> bool" where
  "lt_values NaN y = False"
| "lt_values x NaN = False"
| "lt_values (Infty a) (Infty b) = (a \<and> \<not> b)"
| "lt_values (Infty a) (Fin q) = a"
| "lt_values (Fin p) (Infty b) = (\<not> b)"
| "lt_values (Fin p) (Fin q) = (p < q)"

definition ap_lt :: "ap_float \<Rightarrow> ap_float \<Rightarrow> bool" where
  "ap_lt x y = lt_values (decode x) (decode y)"

definition ap_eq :: "ap_float \<Rightarrow> ap_float \<Rightarrow> bool" where
  "ap_eq x y \<longleftrightarrow> decode x \<noteq> NaN \<and> decode x = decode y"

definition ap_le :: "ap_float \<Rightarrow> ap_float \<Rightarrow> bool" where
  "ap_le x y \<longleftrightarrow> ap_lt x y \<or> ap_eq x y"

text \<open>\<open>std::max\<close> and \<open>std::min\<close>: the first argument unless the comparison holds.\<close>

definition ap_max :: "ap_float \<Rightarrow> ap_float \<Rightarrow> ap_float" where
  "ap_max x y = (if ap_lt x y then y else x)"

definition ap_min :: "ap_float \<Rightarrow> ap_float \<Rightarrow> ap_float" where
  "ap_min x y = (if ap_lt y x then y else x)"

definition ap_is_finite :: "ap_float \<Rightarrow> bool" where
  "ap_is_finite x \<longleftrightarrow> mag_bits x < inf_mag"

section \<open>Conversions to integers\<close>

text \<open>
  A conversion that does not fit the target is undefined in C++; on x86-64 it gives the
  smallest value of the target, which is what the model returns.
\<close>

definition trunc_rat :: "rat \<Rightarrow> int" where
  "trunc_rat q = (if q < 0 then - \<lfloor>- q\<rfloor> else \<lfloor>q\<rfloor>)"

definition ap_to_int32 :: "ap_float \<Rightarrow> int" where
  "ap_to_int32 x = (case decode x of
     Fin q \<Rightarrow> (let n = trunc_rat q in if - (2 ^ 31) \<le> n \<and> n < 2 ^ 31 then n else - (2 ^ 31))
   | _ \<Rightarrow> - (2 ^ 31))"

text \<open>\<open>llround\<close>: to the nearest integer, ties away from zero.\<close>

definition ap_llround :: "ap_float \<Rightarrow> int" where
  "ap_llround x = (case decode x of
     Fin q \<Rightarrow> (let n = (if q < 0 then - \<lfloor>- q + 1 / 2\<rfloor> else \<lfloor>q + 1 / 2\<rfloor>)
              in if - (2 ^ 63) \<le> n \<and> n < 2 ^ 63 then n else - (2 ^ 63))
   | _ \<Rightarrow> - (2 ^ 63))"

section \<open>Decimal text\<close>

definition digit_char :: "nat \<Rightarrow> char" where
  "digit_char n = char_of (48 + n mod 10)"

fun show_nat :: "nat \<Rightarrow> string" where
  "show_nat n = (if n < 10 then [digit_char n] else show_nat (n div 10) @ [digit_char n])"

declare show_nat.simps [simp del]

definition show_int :: "int \<Rightarrow> string" where
  "show_int n = (if n < 0 then CHR ''-'' # show_nat (nat (- n)) else show_nat (nat n))"

text \<open>
  A double as an output stream prints it by default with precision \<open>p\<close> (the \<open>%g\<close> of
  \<open>printf\<close>): \<open>p\<close> significant digits, rounded to even on the exact value, without trailing
  zeros, in scientific notation when the decimal exponent is below -4 or at least \<open>p\<close>.
\<close>

definition decimal_exponent :: "rat \<Rightarrow> int" where
  "decimal_exponent q = int (length (show_nat (nat \<lfloor>q * 10 ^ 400\<rfloor>))) - 401"

definition significant_digits :: "nat \<Rightarrow> rat \<Rightarrow> int \<times> nat" where
  "significant_digits p q =
    (let x = decimal_exponent q; d = nat (round_even (q / 10 powi (x - int p + 1)))
     in if d = 10 ^ p then (x + 1, 10 ^ (p - 1)) else (x, d))"

definition strip_zeros :: "string \<Rightarrow> string" where
  "strip_zeros ds = rev (dropWhile (\<lambda>c. c = CHR ''0'') (rev ds))"

definition fraction_part :: "string \<Rightarrow> string" where
  "fraction_part ds = (let f = strip_zeros ds in if f = [] then [] else CHR ''.'' # f)"

definition format_magnitude :: "nat \<Rightarrow> rat \<Rightarrow> string" where
  "format_magnitude p q =
    (if q = 0 then ''0'' else
     let (x, d) = significant_digits p q; ds = show_nat d in
     if x < - 4 \<or> int p \<le> x then
       take 1 ds @ fraction_part (drop 1 ds) @ CHR ''e'' # (if x < 0 then CHR ''-'' else CHR ''+'') #
       (if \<bar>x\<bar> < 10 then CHR ''0'' # show_nat (nat \<bar>x\<bar>) else show_nat (nat \<bar>x\<bar>))
     else if 0 \<le> x then take (nat x + 1) ds @ fraction_part (drop (nat x + 1) ds)
     else ''0'' @ fraction_part (replicate (nat (- x) - 1) (CHR ''0'') @ ds))"

definition format_g :: "nat \<Rightarrow> ap_float \<Rightarrow> string" where
  "format_g p x = (if sign_bit x then ''-'' else []) @
    (case decode x of NaN \<Rightarrow> ''nan'' | Infty s \<Rightarrow> ''inf'' | Fin q \<Rightarrow> format_magnitude p \<bar>q\<bar>)"

lemma digit_char_code: "(of_char (digit_char n) :: nat) = 48 + n mod 10"
proof -
  have "48 + n mod 10 < 256" using mod_less_divisor [of 10 n] by linarith
  then show ?thesis by (simp add: digit_char_def)
qed

lemma show_nat_digits: "list_all (\<lambda>c. \<exists>n. c = digit_char n) (show_nat n)"
  by (induction n rule: show_nat.induct) (subst show_nat.simps, auto)

lemma show_nat_nonempty [simp]: "show_nat n \<noteq> []"
  by (subst show_nat.simps) simp

section \<open>Facts on rounding\<close>

lemma ilog2_unique: "2 ^ k \<le> n \<Longrightarrow> n < 2 ^ Suc k \<Longrightarrow> ilog2 n = k"
proof (induction k arbitrary: n)
  case 0
  then show ?case by (simp add: ilog2.simps)
next
  case (Suc k)
  then have "2 ^ k \<le> n div 2" "n div 2 < 2 ^ Suc k" by auto
  then have "ilog2 (n div 2) = k" by (rule Suc.IH)
  moreover have "\<not> n < 2" using Suc.prems(1) by (metis one_le_numeral one_le_power order.trans power_Suc not_less mult_le_mono2 mult.right_neutral)
  ultimately show ?case by (subst ilog2.simps) simp
qed

lemma ilog2_0 [simp]: "ilog2 0 = 0"
  by (simp add: ilog2.simps)

lemma round_even_of_int [simp]: "round_even (of_int n) = n"
  by (simp add: round_even_def)

lemma round_even_of_nat [simp]: "round_even (of_nat n) = int n"
  using round_even_of_int [of "int n"] by simp

lemma powi_shift: "(2::rat) powi (int n + e) = 2 ^ n * 2 powi e"
  by (simp add: power_int_add)

lemma powi_min_scale: "2 powi e * min_scale = 2 powi (int 1022 + e)"
  by (simp only: powi_shift min_scale_def mult.commute)

lemma ilog2_floor:
  assumes "2 ^ k \<le> x" "x < 2 ^ Suc k"
  shows "ilog2 (nat \<lfloor>x :: rat\<rfloor>) = k"
proof -
  have lo: "2 ^ k \<le> \<lfloor>x\<rfloor>" and hi: "\<lfloor>x\<rfloor> < 2 ^ Suc k"
    using assms by (simp_all add: le_floor_iff floor_less_iff)
  have "0 \<le> \<lfloor>x\<rfloor>" by (rule order_trans [OF _ lo]) simp
  then obtain n where n: "\<lfloor>x\<rfloor> = int n" by (rule nonneg_int_cases)
  have "int (2 ^ k) \<le> int n" "int n < int (2 ^ Suc k)" using lo hi n by simp_all
  then have "2 ^ k \<le> n" "n < 2 ^ Suc k" by (simp_all only: of_nat_le_iff of_nat_less_iff)
  then show ?thesis by (simp add: n ilog2_unique)
qed

lemma exponent_of_bounds:
  assumes "2 powi e \<le> q" "q < 2 powi (e + 1)" "- 1022 \<le> e"
  shows "exponent_of q = e"
proof -
  define k where "k = nat (e + 1022)"
  have k: "int 1022 + e = int k" using assms(3) by (simp add: k_def)
  have k': "int 1022 + (e + 1) = int (Suc k)" using k by simp
  have pos: "0 < min_scale" by (simp add: min_scale_def del: power_numeral)
  have "2 powi e * min_scale = 2 ^ k" by (simp only: powi_min_scale k power_int_of_nat)
  then have lo: "2 ^ k \<le> q * min_scale"
    using mult_right_mono [OF assms(1), of min_scale] pos by linarith
  have "2 powi (e + 1) * min_scale = 2 ^ Suc k" by (simp only: powi_min_scale k' power_int_of_nat)
  then have hi: "q * min_scale < 2 ^ Suc k"
    using mult_strict_right_mono [OF assms(2) pos] by linarith
  show ?thesis unfolding exponent_of_def ilog2_floor [OF lo hi] using k by simp
qed

lemma of_nat_less_power2: "of_nat m < (2::rat) ^ n \<longleftrightarrow> m < 2 ^ n"
  by (metis of_nat_less_iff of_nat_numeral of_nat_power)

lemma enc_mag_in_binade:
  assumes "2 powi e \<le> q" "q < 2 powi (e + 1)" "- 1022 \<le> e" "e \<le> 1023"
    "q = of_nat m * 2 powi (e - 52)"
  shows "enc_mag q = nat (e + 1022) * 2 ^ 52 + m"
proof -
  have ex: "exponent_of q = e" by (rule exponent_of_bounds [OF assms(1-3)])
  have q: "q / 2 powi (e - 52) = of_nat m" by (simp add: assms(5))
  have "int 53 + (e - 52) = e + 1" by simp
  then have "(2::rat) powi (e + 1) = 2 ^ 53 * 2 powi (e - 52)" by (metis powi_shift)
  then have "of_nat m * (2::rat) powi (e - 52) < 2 ^ 53 * 2 powi (e - 52)"
    using assms(2,5) by simp
  then have "of_nat m < (2::rat) ^ 53"
    by (simp add: mult_less_cancel_right_pos del: power_numeral)
  then have m: "m < 2 ^ 53" by (simp only: of_nat_less_power2)
  have n: "nat ((e + 1022) * 2 ^ 52 + int m) = nat (e + 1022) * 2 ^ 52 + m"
    using assms(3) by (simp add: nat_add_distrib nat_mult_distrib)
  have "nat (e + 1022) \<le> 2045" using assms(4) by simp
  then have "nat (e + 1022) * 2 ^ 52 + m \<le> inf_mag" using m by simp
  with n show ?thesis unfolding enc_mag_def Let_def ex q round_even_of_nat n by simp
qed

lemma enc_mag_dec_mag:
  assumes "b < inf_mag"
  shows "enc_mag (dec_mag b) = b"
proof (cases "b < 2 ^ 52")
  case True
  then have d: "dec_mag b = of_nat b * 2 powi (- 1074)" by (simp add: dec_mag_def)
  have "int 1022 + - 1074 = - int 52" by simp
  then have "2 powi (- 1074) * min_scale = 2 powi (- int 52)" by (metis powi_min_scale)
  then have "2 powi (- 1074) * min_scale = 1 / 2 ^ 52"
    by (simp only: power_int_minus power_int_of_nat inverse_eq_divide)
  then have s: "dec_mag b * min_scale = of_nat b / 2 ^ 52"
    by (simp only: d mult.assoc) simp
  have "of_nat b < (2::rat) ^ 52" using True by (simp only: of_nat_less_power2)
  then have "\<lfloor>dec_mag b * min_scale\<rfloor> = 0" unfolding s by (simp add: floor_eq_iff)
  then have ex: "exponent_of (dec_mag b) = - 1022" by (simp add: exponent_of_def)
  have "dec_mag b / 2 powi (- 1022 - 52) = of_nat b" by (simp add: d)
  with ex True show ?thesis by (simp add: enc_mag_def Let_def)
next
  case False
  define e where "e = b div 2 ^ 52"
  define m where "m = b mod 2 ^ 52"
  have b: "b = e * 2 ^ 52 + m" unfolding e_def m_def by (rule div_mult_mod_eq [symmetric])
  have m: "m < 2 ^ 52" by (simp add: m_def)
  have e: "1 \<le> e" "e \<le> 2046" using False assms m unfolding b by simp_all
  have d: "dec_mag b = of_nat (2 ^ 52 + m) * 2 powi (int e - 1075)"
    using e unfolding dec_mag_def Let_def e_def [symmetric] m_def [symmetric] by simp
  have "int 52 + (int e - 1075) = int e - 1023" "int 53 + (int e - 1075) = int e - 1023 + 1" by simp_all
  then have split: "(2::rat) powi (int e - 1023) = 2 ^ 52 * 2 powi (int e - 1075)"
    and split': "(2::rat) powi (int e - 1023 + 1) = 2 ^ 53 * 2 powi (int e - 1075)"
    by (metis powi_shift)+
  have "2 ^ 52 + m < (2::nat) ^ 53" using m by simp
  then have lt: "of_nat (2 ^ 52 + m) < (2::rat) ^ 53" by (simp only: of_nat_less_power2)
  have "enc_mag (dec_mag b) = nat (int e - 1023 + 1022) * 2 ^ 52 + (2 ^ 52 + m)"
  proof (rule enc_mag_in_binade)
    show "2 powi (int e - 1023) \<le> dec_mag b" unfolding split d by (intro mult_right_mono) simp_all
    show "dec_mag b < 2 powi (int e - 1023 + 1)"
      unfolding split' d using lt by (intro mult_strict_right_mono) simp_all
  qed (use e d in simp_all)
  also have "nat (int e - 1023 + 1022) = e - 1" using e by simp
  also have "(e - 1) * 2 ^ 52 + (2 ^ 52 + m) = b" using e by (cases e) (simp_all add: b)
  finally show ?thesis .
qed

lemma dec_enc_in_binade:
  assumes "2 powi e \<le> q" "q < 2 powi (e + 1)" "- 1022 \<le> e" "e \<le> 1023"
    "q = of_nat m * 2 powi (e - 52)"
  shows "dec_mag (enc_mag q) = q \<and> enc_mag q < inf_mag"
proof -
  note enc = enc_mag_in_binade [OF assms]
  have "int 52 + (e - 52) = e" "int 53 + (e - 52) = e + 1" by simp_all
  then have s: "(2::rat) powi e = 2 ^ 52 * 2 powi (e - 52)"
    and s': "(2::rat) powi (e + 1) = 2 ^ 53 * 2 powi (e - 52)" by (metis powi_shift)+
  have "2 ^ 52 * 2 powi (e - 52) \<le> of_nat m * (2::rat) powi (e - 52)"
    "of_nat m * (2::rat) powi (e - 52) < 2 ^ 53 * 2 powi (e - 52)"
    using assms(1,2) unfolding s s' assms(5) by simp_all
  then have "(2::rat) ^ 52 \<le> of_nat m" "of_nat m < (2::rat) ^ 53"
    by (simp_all add: mult_le_cancel_right_pos mult_less_cancel_right_pos del: power_numeral)
  then have "\<not> of_nat m < (2::rat) ^ 52" "of_nat m < (2::rat) ^ 53" by linarith+
  then have "\<not> m < 2 ^ 52" and m2: "m < 2 ^ 53"
    by (simp_all only: of_nat_less_power2 not_False_eq_True)
  then have m: "2 ^ 52 \<le> m" "m < 2 ^ 53" by linarith+
  define k where "k = nat (e + 1022)"
  have k: "int k = e + 1022" "k \<le> 2045" using assms(3,4) by (simp_all add: k_def)
  define r where "r = m - 2 ^ 52"
  have r: "m = 2 ^ 52 + r" "r < 2 ^ 52" using m by (simp_all add: r_def)
  have "enc_mag q = (k + 1) * 2 ^ 52 + r" by (simp add: enc k_def r)
  moreover from this have "enc_mag q div 2 ^ 52 = k + 1" "enc_mag q mod 2 ^ 52 = r"
    using r(2) by (simp_all del: mult_Suc add_mult_distrib)
  moreover have "int (k + 1) - 1075 = e - 52" using k by simp
  ultimately have "dec_mag (enc_mag q) = of_nat m * 2 powi (e - 52)"
    unfolding dec_mag_def Let_def r by simp
  then show ?thesis using assms(5) enc k m by (simp add: k_def [symmetric])
qed

lemma ilog2_bounds: "0 < n \<Longrightarrow> 2 ^ ilog2 n \<le> n \<and> n < 2 ^ Suc (ilog2 n)"
proof (induction n rule: ilog2.induct)
  case (1 n)
  show ?case
  proof (cases "n < 2")
    case True
    with 1 show ?thesis by (simp add: ilog2.simps)
  next
    case False
    with 1 have "2 ^ ilog2 (n div 2) \<le> n div 2 \<and> n div 2 < 2 ^ Suc (ilog2 (n div 2))" by simp
    with False show ?thesis by (subst (1 2) ilog2.simps) auto
  qed
qed

lemma dec_enc_nat:
  assumes "0 < n" "n < 2 ^ 53"
  shows "dec_mag (enc_mag (of_nat n)) = of_nat n \<and> enc_mag (of_nat n) < inf_mag"
proof -
  define k where "k = ilog2 n"
  have k: "2 ^ k \<le> n" "n < 2 ^ Suc k" using ilog2_bounds [OF assms(1)] by (simp_all add: k_def)
  from k(1) assms(2) have "(2::nat) ^ k < 2 ^ 53" by (rule le_less_trans)
  then have k52: "k \<le> 52" by (metis less_Suc_eq_le numeral_eq_Suc pred_numeral_simps(3) BitM.simps one_less_numeral_iff power_less_imp_less_exp semiring_norm(76) eval_nat_numeral(3))
  show ?thesis
  proof (rule dec_enc_in_binade [of "int k" _ "n * 2 ^ (52 - k)"])
    show "2 powi int k \<le> (of_nat n :: rat)" using k(1)
      by (simp only: power_int_of_nat) (metis of_nat_le_iff of_nat_numeral of_nat_power)
    have "int k + 1 = int (Suc k)" by simp
    then show "(of_nat n :: rat) < 2 powi (int k + 1)" using k(2)
      by (simp only: power_int_of_nat of_nat_less_power2)
    have "int (52 - k) + (int k - 52) = 0" using k52 by simp
    then have "(2::rat) ^ (52 - k) * 2 powi (int k - 52) = 1" by (metis powi_shift power_int_0_right)
    then show "(of_nat n :: rat) = of_nat (n * 2 ^ (52 - k)) * 2 powi (int k - 52)"
      by (simp only: of_nat_mult of_nat_power of_nat_numeral mult.assoc)
  qed (use k52 in simp_all)
qed

lemma make_float_bits [simp]:
  assumes "b < 2 ^ 63"
  shows "mag_bits (make_float s b) = b" and "sign_bit (make_float s b) = s"
proof -
  have "unat (raw_bits (make_float s b)) = b + (if s then 2 ^ 63 else 0)"
    using assms unfolding make_float_def ap_float.sel by (subst unat_of_nat) simp
  then show "mag_bits (make_float s b) = b" "sign_bit (make_float s b) = s"
    using assms by (simp_all add: mag_bits_def sign_bit_def)
qed

lemma enc_mag_le_inf: "enc_mag q \<le> inf_mag"
  by (simp add: enc_mag_def Let_def)

lemma dec_mag_nonneg [simp]: "0 \<le> dec_mag b"
  by (simp add: dec_mag_def Let_def)

lemma dec_mag_0 [simp]: "dec_mag 0 = 0"
  by (simp add: dec_mag_def)

lemma decode_make_float:
  "b \<le> inf_mag \<Longrightarrow> decode (make_float s b) =
     (if b = inf_mag then Infty s else Fin ((if s then - 1 else 1) * dec_mag b))"
  by (simp add: decode_def)

lemma decode_ap_zero [simp]: "decode (ap_zero s) = Fin 0"
  by (simp add: ap_zero_def decode_make_float)

lemma decode_ap_inf [simp]: "decode (ap_inf s) = Infty s"
  by (simp add: ap_inf_def decode_make_float)

lemma decode_ap_nan [simp]: "decode ap_nan = NaN"
  by (simp add: decode_def ap_nan_def mag_bits_def)

lemma decode_ap_of_int:
  assumes "\<bar>n\<bar> < 2 ^ 53"
  shows "decode (ap_of_int n) = Fin (of_int n)"
proof (cases "n = 0")
  case True
  then show ?thesis by (simp add: ap_of_int_def ap_of_rat_def ap_signed_def)
next
  case False
  define k where "k = nat \<bar>n\<bar>"
  have k: "0 < k" "k < 2 ^ 53" "\<bar>of_int n\<bar> = (of_nat k :: rat)"
    using False assms by (simp_all add: k_def nat_less_iff of_nat_nat)
  have "decode (ap_of_int n) = Fin ((if n < 0 then - 1 else 1) * of_nat k)"
    using dec_enc_nat [OF k(1,2)] False enc_mag_le_inf
    by (simp add: ap_of_int_def ap_of_rat_def ap_signed_def encode_def decode_make_float k(3))
  also have "\<dots> = Fin (of_int n)" using k(3) by (cases "n < 0") auto
  finally show ?thesis .
qed

section \<open>Facts on comparisons\<close>

lemma ap_lt_irrefl [simp]: "\<not> ap_lt x x"
  by (cases "decode x") (auto simp: ap_lt_def)

lemma lt_values_trans: "lt_values a b \<Longrightarrow> lt_values b c \<Longrightarrow> lt_values a c"
  by (cases a; cases b; cases c) auto

lemma ap_lt_trans: "ap_lt x y \<Longrightarrow> ap_lt y z \<Longrightarrow> ap_lt x z"
  unfolding ap_lt_def by (rule lt_values_trans)

lemma ap_lt_asym: "ap_lt x y \<Longrightarrow> \<not> ap_lt y x"
  using ap_lt_trans ap_lt_irrefl by blast

lemma lt_values_total: "a \<noteq> NaN \<Longrightarrow> b \<noteq> NaN \<Longrightarrow> lt_values a b \<or> a = b \<or> lt_values b a"
  by (cases a; cases b) auto

lemma ap_is_finite_decode: "ap_is_finite x \<longleftrightarrow> (\<exists>q. decode x = Fin q)"
  by (auto simp: ap_is_finite_def decode_def)

lemma decode_ap_neg:
  "decode (ap_neg x) = (case decode x of NaN \<Rightarrow> NaN | Infty s \<Rightarrow> Infty (\<not> s) | Fin q \<Rightarrow> Fin (- q))"
proof -
  have "mag_bits x < 2 ^ 63" by (simp add: mag_bits_def)
  then show ?thesis by (auto simp: ap_neg_def decode_def)
qed

lemma ap_signed_nonpos: "q \<le> 0 \<Longrightarrow> \<not> lt_values (Fin 0) (decode (ap_signed s q))"
  using enc_mag_le_inf [of "\<bar>q\<bar>"] dec_mag_nonneg [of "enc_mag \<bar>q\<bar>"]
  by (auto simp: ap_signed_def encode_def decode_make_float not_less)

lemma ap_signed_nonneg: "0 \<le> q \<Longrightarrow> \<not> lt_values (decode (ap_signed s q)) (Fin 0)"
  using enc_mag_le_inf [of "\<bar>q\<bar>"] dec_mag_nonneg [of "enc_mag \<bar>q\<bar>"]
  by (auto simp: ap_signed_def encode_def decode_make_float not_less)

text \<open>A positive rounded difference means that the exact difference is positive.\<close>

lemma ap_sub_pos:
  assumes "lt_values (Fin 0) (decode (ap_sub x y))"
  shows "ap_lt y x"
proof -
  show ?thesis
  proof (cases "decode x"; cases "decode y")
    fix p q assume xy: "decode x = Fin p" "decode y = Fin q"
    with assms ap_signed_nonpos [of "p - q"] have "\<not> p - q \<le> 0"
      by (auto simp: ap_sub_def ap_add_def decode_ap_neg)
    with xy show ?thesis by (simp add: ap_lt_def)
  qed (use assms in \<open>auto simp: ap_sub_def ap_add_def ap_lt_def decode_ap_neg split: if_splits\<close>)
qed

lemma decode_ap_max_zero: "\<not> lt_values (decode (ap_max (ap_zero False) x)) (Fin 0)"
  by (cases "decode x") (auto simp: ap_max_def ap_lt_def)

end
