(* ===== verification/Llm_Bridge.thy ===== *)
theory Llm_Bridge
  imports Ap_Float Json_Laws "HOL-Library.Multiset"
begin

text \<open>
  \<open>LLMBridge\<close> of \<open>search_engines/eager_search.cc\<close>: the requests and responses exchanged with
  the LLM controller, their HTTP text, one POST over a socket, and the queues shared by the
  search thread and the worker pool. The operating system (address lookup, \<open>connect\<close>,
  \<open>send\<close>, \<open>recv\<close>) is a parameter: the outcome of each call is given, the code's reaction is
  modelled. Log lines are not.
\<close>

section \<open>Environment variables\<close>

type_synonym environment = "string \<Rightarrow> string option"

definition env_enabled :: "environment \<Rightarrow> string \<Rightarrow> bool \<Rightarrow> bool" where
  "env_enabled env name default_value =
    (case env name of
       None \<Rightarrow> default_value
     | Some setting \<Rightarrow> setting \<noteq> [] \<and> setting \<noteq> ''0'' \<and> setting \<noteq> ''false'' \<and> setting \<noteq> ''FALSE'')"

definition is_digit :: "char \<Rightarrow> bool" where
  "is_digit c \<longleftrightarrow> (let n = of_char c :: nat in 48 \<le> n \<and> n \<le> 57)"

definition digits_value :: "string \<Rightarrow> nat" where
  "digits_value ds = fold (\<lambda>c v. 10 * v + (of_char c - 48)) ds 0"

text \<open>The optional sign of a number: its effect and the rest.\<close>

definition read_sign :: "string \<Rightarrow> bool \<times> string" where
  "read_sign s = (case s of [] \<Rightarrow> (False, [])
     | c # r \<Rightarrow> if c = CHR ''-'' then (True, r) else if c = CHR ''+'' then (False, r) else (False, s))"

text \<open>\<open>atoi\<close>: blanks, a sign, digits; 0 when there is none. (A value out of range is undefined in C.)\<close>

definition atoi :: "string \<Rightarrow> int" where
  "atoi s = (let (neg, r) = read_sign (dropWhile is_space s);
       v = int (digits_value (takeWhile is_digit r)) in if neg then - v else v)"

definition env_int :: "environment \<Rightarrow> string \<Rightarrow> int \<Rightarrow> int" where
  "env_int env name default_value = (case env name of None \<Rightarrow> default_value | Some v \<Rightarrow> atoi v)"

definition env_string :: "environment \<Rightarrow> string \<Rightarrow> string \<Rightarrow> string" where
  "env_string env name default_value = (case env name of None \<Rightarrow> default_value | Some v \<Rightarrow> v)"

definition env_equals_ignore_case :: "environment \<Rightarrow> string \<Rightarrow> string \<Rightarrow> bool" where
  "env_equals_ignore_case env name expected \<longleftrightarrow> map to_lower (env_string env name []) = expected"

section \<open>Requests and responses\<close>

text \<open>A \<open>StateID\<close> holds an \<open>int\<close>; \<open>no_state\<close> is -1; \<open>hash\<close> converts it to \<open>size_t\<close>.\<close>

type_synonym state_id = int

definition no_state :: state_id where "no_state = - 1"

definition state_hash :: "state_id \<Rightarrow> nat" where
  "state_hash i = nat (i mod 2 ^ 64)"

definition state_id_label :: "state_id \<Rightarrow> string" where
  "state_id_label i = CHR ''#'' # show_int i"

record LLMRequest =
  rq_request_id :: string
  rq_run_id :: string
  rq_iteration :: int
  rq_state_id :: state_id
  rq_state_index :: nat
  rq_state_label :: string
  rq_problem_id :: string
  rq_reason :: string
  rq_g :: ap_float
  rq_h :: ap_float
  rq_search_expansions :: int
  rq_init :: string

record LLMResponse =
  rs_request_id :: string
  rs_state_id :: state_id
  rs_state_index :: nat
  rs_state_label :: string
  rs_transport_ok :: bool
  rs_http_status :: int
  rs_body :: string
  rs_error :: string

section \<open>HTTP text\<close>

record bridge_config =
  bc_enabled :: bool
  bc_mode :: string
  bc_host :: string
  bc_port :: int
  bc_path :: string
  bc_timeout_ms :: int
  bc_worker_count :: int
  bc_max_queue :: int
  bc_emit_state :: bool

definition bridge_config_from :: "environment \<Rightarrow> bridge_config" where
  "bridge_config_from env =
    \<lparr>bc_enabled = env_enabled env ''NLM_LLM_TRIGGER'' False,
     bc_mode = map to_lower (env_string env ''NLM_LLM_COMM_MODE'' ''log''),
     bc_host = env_string env ''NLM_LLM_HTTP_HOST'' ''127.0.0.1'',
     bc_port = env_int env ''NLM_LLM_HTTP_PORT'' 8765,
     bc_path = env_string env ''NLM_LLM_HTTP_PATH'' ''/llm/request'',
     bc_timeout_ms = max 1 (env_int env ''NLM_LLM_HTTP_TIMEOUT_MS'' 30000),
     bc_worker_count = max 1 (env_int env ''NLM_LLM_HTTP_WORKERS'' 8),
     bc_max_queue = env_int env ''NLM_LLM_HTTP_MAX_QUEUE'' 0,
     bc_emit_state = env_enabled env ''NLM_LLM_EMIT_STATE'' False\<rparr>"

definition http_mode :: "bridge_config \<Rightarrow> bool" where
  "http_mode c \<longleftrightarrow> bc_enabled c \<and> bc_mode c = ''http''"

definition key_text :: "string \<Rightarrow> string" where
  "key_text k = CHR 34 # k @ [CHR 34, CHR '':'']"

definition string_text :: "string \<Rightarrow> string" where
  "string_text v = CHR 34 # json_escape v @ [CHR 34]"

definition make_request_body :: "LLMRequest \<Rightarrow> string" where
  "make_request_body r = ''{'' @
     key_text ''type'' @ CHR 34 # ''llm_request'' @ CHR 34 # '','' @
     key_text ''request_id'' @ string_text (rq_request_id r) @ '','' @
     key_text ''run_id'' @ string_text (rq_run_id r) @ '','' @
     key_text ''iteration'' @ show_int (rq_iteration r) @ '','' @
     key_text ''state_id'' @ show_nat (rq_state_index r) @ '','' @
     key_text ''state_label'' @ string_text (rq_state_label r) @ '','' @
     key_text ''problem_id'' @ string_text (rq_problem_id r) @ '','' @
     key_text ''reason'' @ string_text (rq_reason r) @ '','' @
     key_text ''g'' @ format_g 6 (rq_g r) @ '','' @
     key_text ''h'' @ format_g 6 (rq_h r) @ '','' @
     key_text ''search_expansions'' @ show_int (rq_search_expansions r) @ '','' @
     key_text ''init'' @ string_text (rq_init r) @ ''}''"

definition crlf :: string where "crlf = [CHR 13, CHR 10]"

definition make_http_request :: "bridge_config \<Rightarrow> string \<Rightarrow> string" where
  "make_http_request c body =
     ''POST '' @ bc_path c @ '' HTTP/1.1'' @ crlf @
     ''Host: '' @ bc_host c @ '':'' @ show_int (bc_port c) @ crlf @
     ''Content-Type: application/json'' @ crlf @
     ''Accept: application/json'' @ crlf @
     ''Connection: close'' @ crlf @
     ''Content-Length: '' @ show_nat (length body) @ crlf @
     crlf @ body"

definition parse_http_status :: "string \<Rightarrow> int" where
  "parse_http_status response =
    (if length response < 12 \<or> take 5 response \<noteq> ''HTTP/'' then 0
     else (case dropWhile (\<lambda>c. c \<noteq> CHR '' '') response of
         [] \<Rightarrow> 0
       | _ # after_space \<Rightarrow> atoi after_space))"

text \<open>The rest behind the first blank line, \<open>""\<close> when there is none.\<close>

fun parse_http_body :: "string \<Rightarrow> string" where
  "parse_http_body [] = []"
| "parse_http_body (c # cs) =
    (if take 4 (c # cs) = crlf @ crlf then drop 4 (c # cs) else parse_http_body cs)"

section \<open>One POST\<close>

text \<open>
  What the operating system answers: an error of the address lookup; for each address whether
  the socket could be made, was refused because the bridge is stopping, and connected; for
  the k-th \<open>send\<close> how many bytes it took (0 or an error ends the request); what the k-th
  \<open>recv\<close> delivered.
\<close>

datatype connect_outcome = SocketFailed | SocketRefused | ConnectFailed | Connected

datatype send_outcome = Sent nat | SendError string

datatype recv_outcome = Received string | PeerClosed | RecvError string

record net_outcome =
  net_lookup_error :: "string option"
  net_addresses :: "connect_outcome list"
  net_send :: "nat \<Rightarrow> string \<Rightarrow> send_outcome"
  net_recv :: "nat \<Rightarrow> recv_outcome"
  net_send_errno :: string

text \<open>The loop over the addresses: whether a socket is connected, and \<open>response.error\<close>.\<close>

fun connect_any :: "connect_outcome list \<Rightarrow> bool \<times> string" where
  "connect_any [] = (False, [])"
| "connect_any (SocketFailed # rest) = connect_any rest"
| "connect_any (SocketRefused # rest) = (False, ''bridge stopping'')"
| "connect_any (Connected # rest) = (True, [])"
| "connect_any (ConnectFailed # rest) = connect_any rest"

text \<open>
  \<open>send_all\<close>: \<open>k\<close> counts the calls, \<open>rest\<close> is what is still to send; the result is what went
  over the wire.
\<close>

function send_all :: "net_outcome \<Rightarrow> nat \<Rightarrow> string \<Rightarrow> string \<Rightarrow> string result" where
  "send_all net k wire rest =
    (if rest = [] then Inr wire
     else case net_send net k rest of
       SendError e \<Rightarrow> Inl (''send failed: '' @ e)
     | Sent n \<Rightarrow> if n = 0 then Inl (''send failed: '' @ net_send_errno net)
                else send_all net (Suc k) (wire @ take n rest) (drop n rest))"
  by pat_completeness auto
termination
  by (relation "measure (\<lambda>(net, k, wire, rest). length rest)") auto

declare send_all.simps [simp del]

text \<open>The receiving loop ends when the peer closes or a call fails; it may never end.\<close>

partial_function (option) recv_all :: "net_outcome \<Rightarrow> nat \<Rightarrow> string \<Rightarrow> string result option" where
  "recv_all net k raw =
    (case net_recv net k of
       Received bytes \<Rightarrow> recv_all net (Suc k) (raw @ bytes)
     | PeerClosed \<Rightarrow> Some (Inr raw)
     | RecvError e \<Rightarrow> Some (Inl (''recv failed: '' @ e)))"

definition blank_response :: "LLMRequest \<Rightarrow> LLMResponse" where
  "blank_response r = \<lparr>rs_request_id = rq_request_id r, rs_state_id = rq_state_id r,
     rs_state_index = rq_state_index r, rs_state_label = rq_state_label r,
     rs_transport_ok = False, rs_http_status = 0, rs_body = [], rs_error = []\<rparr>"

definition read_response :: "LLMRequest \<Rightarrow> string \<Rightarrow> LLMResponse" where
  "read_response r raw =
    (let status = parse_http_status raw; ok = 200 \<le> status \<and> status < 300 in
     (blank_response r)\<lparr>rs_http_status := status, rs_body := parse_http_body raw,
        rs_transport_ok := ok,
        rs_error := if ok then [] else ''http status '' @ show_int status\<rparr>)"

text \<open>What the request ends with once receiving has ended, by an error or by the peer.\<close>

fun received_response :: "LLMRequest \<Rightarrow> string result \<Rightarrow> LLMResponse" where
  "received_response r (Inl e) = (blank_response r)\<lparr>rs_error := e\<rparr>"
| "received_response r (Inr raw) = read_response r raw"

text \<open>\<open>post_request_posix\<close>; \<open>None\<close> if the peer never stops sending.\<close>

definition post_request_posix :: "bridge_config \<Rightarrow> net_outcome \<Rightarrow> LLMRequest \<Rightarrow> LLMResponse option" where
  "post_request_posix c net r =
    (case net_lookup_error net of
       Some e \<Rightarrow> Some ((blank_response r)\<lparr>rs_error := ''getaddrinfo failed: '' @ e\<rparr>)
     | None \<Rightarrow>
       (case connect_any (net_addresses net) of
          (False, e) \<Rightarrow>
            Some ((blank_response r)\<lparr>rs_error := if e = [] then ''connect failed'' else e\<rparr>)
        | (True, _) \<Rightarrow>
            (case send_all net 0 [] (make_http_request c (make_request_body r)) of
               Inl e \<Rightarrow> Some ((blank_response r)\<lparr>rs_error := e\<rparr>)
             | Inr _ \<Rightarrow> map_option (received_response r) (recv_all net 0 []))))"

section \<open>The queues and the worker pool\<close>

text \<open>
  A worker waits for a request, posts one, or has returned. \<open>worker_loop\<close> holds the request it
  took in a local variable: the argument of \<open>Posting\<close>.
\<close>

datatype worker = Waiting | Posting LLMRequest | Exited

record bridge =
  outgoing :: "LLMRequest list"
  completed :: "LLMResponse list"
  workers :: "worker list"
  active_requests :: nat
  stopping :: bool
  queued_discarded_on_stop :: nat
  active_cancelled_on_stop :: nat
  completed_unconsumed_on_stop :: nat

definition bridge_init :: bridge where
  "bridge_init = \<lparr>outgoing = [], completed = [], workers = [], active_requests = 0,
     stopping = False, queued_discarded_on_stop = 0, active_cancelled_on_stop = 0,
     completed_unconsumed_on_stop = 0\<rparr>"

definition bridge_start :: "bridge_config \<Rightarrow> bridge \<Rightarrow> bridge" where
  "bridge_start c b =
    (if bc_enabled c \<and> http_mode c
     then b\<lparr>workers := workers b @ replicate (nat (bc_worker_count c)) Waiting\<rparr> else b)"

text \<open>\<open>submit\<close>: whether the request was taken. Outside HTTP mode it is only logged.\<close>

definition bridge_submit :: "bridge_config \<Rightarrow> LLMRequest \<Rightarrow> bridge \<Rightarrow> bool \<times> bridge" where
  "bridge_submit c r b =
    (if \<not> bc_enabled c then (False, b)
     else if \<not> http_mode c then (True, b)
     else if stopping b then (False, b)
     else if bc_max_queue c > 0 \<and> int (length (outgoing b)) \<ge> bc_max_queue c then (False, b)
     else (True, b\<lparr>outgoing := outgoing b @ [r]\<rparr>))"

definition poll_completed :: "bridge \<Rightarrow> LLMResponse list \<times> bridge" where
  "poll_completed b = (completed b, b\<lparr>completed := []\<rparr>)"

text \<open>The locked part of \<open>worker_loop\<close> for worker \<open>i\<close>, once its wait condition holds.\<close>

definition worker_take :: "nat \<Rightarrow> bridge \<Rightarrow> bridge" where
  "worker_take i b =
    (if stopping b then b\<lparr>workers := (workers b)[i := Exited]\<rparr>
     else case outgoing b of
       [] \<Rightarrow> b
     | r # rest \<Rightarrow> b\<lparr>outgoing := rest, active_requests := Suc (active_requests b),
                      workers := (workers b)[i := Posting r]\<rparr>)"

text \<open>\<open>push_completed\<close> by worker \<open>i\<close>, which then goes back to waiting.\<close>

definition push_completed :: "nat \<Rightarrow> LLMResponse \<Rightarrow> bridge \<Rightarrow> bridge" where
  "push_completed i resp b =
    b\<lparr>active_requests := active_requests b - 1, completed := completed b @ [resp],
       workers := (workers b)[i := Waiting]\<rparr>"

text \<open>The locked part of \<open>stop\<close>; joining the workers is the rest of the run.\<close>

definition bridge_stop :: "bridge \<Rightarrow> bridge" where
  "bridge_stop b =
    (if stopping b then b
     else b\<lparr>stopping := True,
            queued_discarded_on_stop := queued_discarded_on_stop b + length (outgoing b),
            active_cancelled_on_stop := active_cancelled_on_stop b + active_requests b,
            completed_unconsumed_on_stop := completed_unconsumed_on_stop b + length (completed b),
            outgoing := []\<rparr>)"

text \<open>
  The search thread and the workers interleave at the granularity of \<open>queue_mutex\<close>. An event
  records what happened, for the accounting below.
\<close>

datatype bridge_event =
    Submit LLMRequest bool
  | Dispatch nat LLMRequest
  | Leave nat
  | Complete nat LLMResponse
  | Poll "LLMResponse list"
  | Stop "LLMRequest list"

inductive bridge_step :: "bridge_config \<Rightarrow> bridge_event \<Rightarrow> bridge \<Rightarrow> bridge \<Rightarrow> bool" for c where
  submit: "bridge_submit c r b = (ok, b') \<Longrightarrow> bridge_step c (Submit r ok) b b'"
| dispatch: "i < length (workers b) \<Longrightarrow> workers b ! i = Waiting \<Longrightarrow> \<not> stopping b \<Longrightarrow>
     outgoing b = r # rest \<Longrightarrow> bridge_step c (Dispatch i r) b (worker_take i b)"
| leave: "i < length (workers b) \<Longrightarrow> workers b ! i = Waiting \<Longrightarrow> stopping b \<Longrightarrow>
     bridge_step c (Leave i) b (worker_take i b)"
| complete: "i < length (workers b) \<Longrightarrow> workers b ! i = Posting r \<Longrightarrow>
     post_request_posix c net r = Some resp \<Longrightarrow>
     bridge_step c (Complete i resp) b (push_completed i resp b)"
| poll: "poll_completed b = (rs, b') \<Longrightarrow> bridge_step c (Poll rs) b b'"
| stop: "bridge_step c (Stop (if stopping b then [] else outgoing b)) b (bridge_stop b)"

inductive bridge_run :: "bridge_config \<Rightarrow> bridge_event list \<Rightarrow> bridge \<Rightarrow> bool" for c where
  started: "bridge_run c [] (bridge_start c bridge_init)"
| stepped: "bridge_run c evs b \<Longrightarrow> bridge_step c ev b b' \<Longrightarrow> bridge_run c (evs @ [ev]) b'"

end
