(* ===== verification/Bridge_Laws.thy ===== *)
theory Bridge_Laws
  imports Llm_Bridge
begin

text \<open>
  What \<open>LLMBridge\<close> promises the search: every request taken is accounted for exactly once,
  requests are posted in the order they were taken, the bookkeeping of the workers agrees with
  what they do, and the text on the wire is what was meant.
\<close>

section \<open>Accounting\<close>

fun accepted :: "bridge_event list \<Rightarrow> LLMRequest list" where
  "accepted [] = []"
| "accepted (Submit r ok # evs) = (if ok then r # accepted evs else accepted evs)"
| "accepted (_ # evs) = accepted evs"

fun dispatched :: "bridge_event list \<Rightarrow> LLMRequest list" where
  "dispatched [] = []"
| "dispatched (Dispatch i r # evs) = r # dispatched evs"
| "dispatched (_ # evs) = dispatched evs"

fun discarded :: "bridge_event list \<Rightarrow> LLMRequest list" where
  "discarded [] = []"
| "discarded (Stop rs # evs) = rs @ discarded evs"
| "discarded (_ # evs) = discarded evs"

fun answered :: "bridge_event list \<Rightarrow> LLMResponse list" where
  "answered [] = []"
| "answered (Complete i resp # evs) = resp # answered evs"
| "answered (_ # evs) = answered evs"

fun polled :: "bridge_event list \<Rightarrow> LLMResponse list" where
  "polled [] = []"
| "polled (Poll rs # evs) = rs @ polled evs"
| "polled (_ # evs) = polled evs"

lemma accepted_append [simp]: "accepted (xs @ ys) = accepted xs @ accepted ys"
  by (induction xs rule: accepted.induct) simp_all

lemma dispatched_append [simp]: "dispatched (xs @ ys) = dispatched xs @ dispatched ys"
  by (induction xs rule: dispatched.induct) simp_all

lemma discarded_append [simp]: "discarded (xs @ ys) = discarded xs @ discarded ys"
  by (induction xs rule: discarded.induct) simp_all

lemma answered_append [simp]: "answered (xs @ ys) = answered xs @ answered ys"
  by (induction xs rule: answered.induct) simp_all

lemma polled_append [simp]: "polled (xs @ ys) = polled xs @ polled ys"
  by (induction xs rule: polled.induct) simp_all

text \<open>What a worker holds, and what identifies a request and its response.\<close>

fun held :: "worker \<Rightarrow> LLMRequest list" where
  "held (Posting r) = [r]"
| "held w = []"

definition posting :: "worker list \<Rightarrow> LLMRequest list" where
  "posting ws = concat (map held ws)"

type_synonym tag = "string \<times> state_id \<times> nat \<times> string"

definition rq_tag :: "LLMRequest \<Rightarrow> tag" where
  "rq_tag r = (rq_request_id r, rq_state_id r, rq_state_index r, rq_state_label r)"

definition rs_tag :: "LLMResponse \<Rightarrow> tag" where
  "rs_tag r = (rs_request_id r, rs_state_id r, rs_state_index r, rs_state_label r)"

lemma posting_update:
  "i < length ws \<Longrightarrow>
   mset (posting (ws[i := w])) + mset (held (ws ! i)) = mset (posting ws) + mset (held w)"
proof (induction ws arbitrary: i)
  case (Cons v ws)
  then show ?case by (cases i) (simp_all add: posting_def ac_simps)
qed simp

lemma length_posting_update:
  "i < length ws \<Longrightarrow>
   length (posting (ws[i := w])) + length (held (ws ! i)) = length (posting ws) + length (held w)"
  using arg_cong [OF posting_update [of i ws w], of size] by simp

lemma mset_posting_tags_update:
  "i < length ws \<Longrightarrow> mset (map rq_tag (posting (ws[i := w]))) + mset (map rq_tag (held (ws ! i)))
    = mset (map rq_tag (posting ws)) + mset (map rq_tag (held w))"
  using arg_cong [OF posting_update [of i ws w], of "image_mset rq_tag"] by simp

lemma posting_replicate [simp]: "posting (replicate n Waiting) = []"
  by (induction n) (simp_all add: posting_def)

lemma rs_tag_blank [simp]:
  "rs_tag (blank_response r) = rq_tag r" "rs_tag ((blank_response r)\<lparr>rs_error := e\<rparr>) = rq_tag r"
  "rs_tag (read_response r raw) = rq_tag r" "rs_tag (received_response r res) = rq_tag r"
  by (simp_all add: rs_tag_def rq_tag_def blank_response_def read_response_def Let_def)
     (cases res; simp add: blank_response_def read_response_def Let_def)

lemma post_request_tag:
  "post_request_posix c net r = Some resp \<Longrightarrow> rs_tag resp = rq_tag r"
  by (auto simp: post_request_posix_def split: option.splits prod.splits bool.splits sum.splits)

section \<open>The invariant\<close>

definition bridge_inv :: "bridge_config \<Rightarrow> bridge_event list \<Rightarrow> bridge \<Rightarrow> bool" where
  "bridge_inv c evs b \<longleftrightarrow>
     accepted evs = dispatched evs @ discarded evs @ outgoing b \<and>
     (stopping b \<longrightarrow> outgoing b = []) \<and> (\<not> stopping b \<longrightarrow> discarded evs = []) \<and>
     answered evs = polled evs @ completed b \<and>
     mset (map rq_tag (dispatched evs)) =
       mset (map rq_tag (posting (workers b))) + mset (map rs_tag (answered evs)) \<and>
     active_requests b = length (posting (workers b)) \<and>
     (bc_max_queue c > 0 \<longrightarrow> int (length (outgoing b)) \<le> bc_max_queue c)"

lemma bridge_inv_start: "bridge_inv c [] (bridge_start c bridge_init)"
  by (auto simp: bridge_inv_def bridge_start_def bridge_init_def posting_def)

lemma bridge_inv_submit:
  assumes "http_mode c" "bridge_inv c evs b" "bridge_submit c r b = (ok, b')"
  shows "bridge_inv c (evs @ [Submit r ok]) b'"
  using assms by (auto simp: bridge_submit_def bridge_inv_def http_mode_def split: if_splits)

lemma bridge_inv_dispatch:
  assumes "bridge_inv c evs b" "i < length (workers b)" "workers b ! i = Waiting" "\<not> stopping b"
    "outgoing b = r # rest"
  shows "bridge_inv c (evs @ [Dispatch i r]) (worker_take i b)"
  using assms mset_posting_tags_update [of i "workers b" "Posting r"]
    length_posting_update [of i "workers b" "Posting r"]
  by (auto simp: worker_take_def bridge_inv_def)

lemma bridge_inv_leave:
  assumes "bridge_inv c evs b" "i < length (workers b)" "workers b ! i = Waiting" "stopping b"
  shows "bridge_inv c (evs @ [Leave i]) (worker_take i b)"
  using assms mset_posting_tags_update [of i "workers b" Exited]
    length_posting_update [of i "workers b" Exited]
  by (auto simp: worker_take_def bridge_inv_def)

lemma bridge_inv_complete:
  assumes "bridge_inv c evs b" "i < length (workers b)" "workers b ! i = Posting r"
    "post_request_posix c net r = Some resp"
  shows "bridge_inv c (evs @ [Complete i resp]) (push_completed i resp b)"
  using assms mset_posting_tags_update [of i "workers b" Waiting]
    length_posting_update [of i "workers b" Waiting] post_request_tag [OF assms(4)]
  by (auto simp: push_completed_def bridge_inv_def)

lemma bridge_inv_poll:
  "bridge_inv c evs b \<Longrightarrow> poll_completed b = (rs, b') \<Longrightarrow> bridge_inv c (evs @ [Poll rs]) b'"
  by (auto simp: poll_completed_def bridge_inv_def)

lemma bridge_inv_stop:
  "bridge_inv c evs b \<Longrightarrow> bridge_inv c (evs @ [Stop (if stopping b then [] else outgoing b)]) (bridge_stop b)"
  by (auto simp: bridge_stop_def bridge_inv_def)

lemma bridge_run_inv: "bridge_run c evs b \<Longrightarrow> http_mode c \<Longrightarrow> bridge_inv c evs b"
proof (induction rule: bridge_run.induct)
  case started
  show ?case by (rule bridge_inv_start)
next
  case (stepped evs b ev b')
  then have inv: "bridge_inv c evs b" by simp
  from stepped(2) show ?case
    using bridge_inv_stop [OF inv]
    by cases (auto intro: bridge_inv_submit [OF stepped.prems inv] bridge_inv_dispatch [OF inv]
      bridge_inv_leave [OF inv] bridge_inv_complete [OF inv] bridge_inv_poll [OF inv])
qed

section \<open>The wire\<close>

lemma send_all_complete: "send_all net k wire rest = Inr wire' \<Longrightarrow> wire' = wire @ rest"
proof (induction net k wire rest rule: send_all.induct)
  case (1 net k wire rest)
  show ?case
  proof (cases "rest = []")
    case True
    with "1.prems" show ?thesis by (simp add: send_all.simps)
  next
    case False
    with "1.prems" obtain n where n: "net_send net k rest = Sent n" "n \<noteq> 0"
      "send_all net (Suc k) (wire @ take n rest) (drop n rest) = Inr wire'"
      by (auto simp: send_all.simps [of net k wire rest] split: send_outcome.splits if_splits)
    from "1.IH" [OF False n] show ?thesis by simp
  qed
qed

text \<open>What \<open>parse_http_body\<close> looks for cannot start inside a text without a carriage return.\<close>

lemma parse_http_body_skip:
  "CHR 13 \<notin> set xs \<Longrightarrow> parse_http_body (xs @ ys) = parse_http_body ys"
  by (induction xs) (auto simp: crlf_def)

lemma parse_http_body_line:
  "c \<noteq> CHR 13 \<Longrightarrow> parse_http_body (crlf @ c # ys) = parse_http_body (c # ys)"
  by (simp add: crlf_def)

lemma show_nat_no_cr [simp]: "CHR 13 \<notin> set (show_nat n)"
proof
  assume "CHR 13 \<in> set (show_nat n)"
  then obtain k where "CHR 13 = digit_char k"
    using show_nat_digits [of n] by (auto simp: list_all_iff)
  then have "(of_char (CHR 13) :: nat) = 48 + k mod 10" by (simp only: digit_char_code)
  then show False by simp
qed

lemma show_int_no_cr [simp]: "CHR 13 \<notin> set (show_int n)"
  by (simp add: show_int_def)

lemma parse_http_body_request:
  assumes "CHR 13 \<notin> set (bc_path c)" "CHR 13 \<notin> set (bc_host c)"
  shows "parse_http_body (make_http_request c body) = body"
proof -
  let ?l1 = "''POST '' @ bc_path c @ '' HTTP/1.1''"
  let ?l2 = "''Host: '' @ bc_host c @ '':'' @ show_int (bc_port c)"
  let ?l6 = "''Content-Length: '' @ show_nat (length body)"
  let ?t5 = "crlf @ ''Connection: close'' @ crlf @ ?l6 @ crlf @ crlf @ body"
  have "parse_http_body (crlf @ crlf @ body) = body" by (simp add: crlf_def)
  then have "parse_http_body (?l6 @ crlf @ crlf @ body) = body"
    by (subst parse_http_body_skip) simp_all
  then have "parse_http_body (crlf @ ?l6 @ crlf @ crlf @ body) = body"
    by (simp add: crlf_def)
  then have "parse_http_body ?t5 = body"
    using parse_http_body_skip [of "''Connection: close''" "crlf @ ?l6 @ crlf @ crlf @ body"]
    by (simp add: crlf_def)
  then have "parse_http_body (crlf @ ''Content-Type: application/json'' @ crlf @ ''Accept: application/json'' @ ?t5) = body"
    using parse_http_body_skip [of "''Accept: application/json''" ?t5]
      parse_http_body_skip [of "''Content-Type: application/json''" "crlf @ ''Accept: application/json'' @ ?t5"]
    by (simp add: crlf_def)
  then have "parse_http_body (?l2 @ crlf @ ''Content-Type: application/json'' @ crlf @ ''Accept: application/json'' @ ?t5) = body"
    using assms(2) by (subst parse_http_body_skip) simp_all
  then have "parse_http_body (crlf @ ?l2 @ crlf @ ''Content-Type: application/json'' @ crlf @ ''Accept: application/json'' @ ?t5) = body"
    by (simp add: crlf_def)
  then have "parse_http_body (?l1 @ crlf @ ?l2 @ crlf @ ''Content-Type: application/json'' @ crlf @ ''Accept: application/json'' @ ?t5) = body"
    using assms(1) by (subst parse_http_body_skip) simp_all
  then show ?thesis by (simp add: make_http_request_def)
qed

section \<open>The request body is JSON\<close>

text \<open>The characters a printed number may contain.\<close>

definition number_char :: "char \<Rightarrow> bool" where
  "number_char c \<longleftrightarrow> c \<in> set ''0123456789-+.enaif''"

lemma digit_char_eq: "digit_char n = c \<longleftrightarrow> (of_char c :: nat) = 48 + n mod 10"
  by (metis digit_char_code of_char_eq_iff)

lemma number_char_digit [simp]: "number_char (digit_char n)"
proof -
  have "n mod 10 < 10" by simp
  then have "n mod 10 = 0 \<or> n mod 10 = 1 \<or> n mod 10 = 2 \<or> n mod 10 = 3 \<or> n mod 10 = 4 \<or>
    n mod 10 = 5 \<or> n mod 10 = 6 \<or> n mod 10 = 7 \<or> n mod 10 = 8 \<or> n mod 10 = 9" by presburger
  then show ?thesis by (auto simp: number_char_def digit_char_eq)
qed

lemma number_char_token: "number_char c \<Longrightarrow> is_token_char c \<and> c \<noteq> CHR 34 \<and> c \<noteq> CHR ''['' \<and> c \<noteq> CHR ''{''"
  by (auto simp: number_char_def is_token_char_def is_space_def)

lemma number_char_lits [simp]:
  "number_char (CHR ''-'')" "number_char (CHR ''+'')" "number_char (CHR ''.'')" "number_char (CHR ''0'')"
  "number_char (CHR ''e'')" "number_char (CHR ''n'')" "number_char (CHR ''a'')" "number_char (CHR ''i'')"
  "number_char (CHR ''f'')"
  by (simp_all add: number_char_def)

lemma show_nat_number [simp]: "list_all number_char (show_nat n)"
  using show_nat_digits [of n] by (fastforce simp: list_all_iff)

lemma show_int_number [simp]: "list_all number_char (show_int n)" "show_int n \<noteq> []"
  by (simp_all add: show_int_def)

lemma fraction_part_number: "list_all number_char ds \<Longrightarrow> list_all number_char (fraction_part ds)"
  by (auto simp: fraction_part_def strip_zeros_def Let_def list_all_iff dest: set_dropWhileD)

lemma format_magnitude_number:
  "list_all number_char (format_magnitude p q)" "format_magnitude p q \<noteq> []"
proof -
  obtain x d where xd: "significant_digits p q = (x, d)" by fastforce
  have sub: "list_all number_char (take k (show_nat d))" "list_all number_char (drop k (show_nat d))" for k
    using show_nat_number [of d] by (auto simp: list_all_iff dest: in_set_takeD in_set_dropD)
  have parts: "list_all number_char (fraction_part (drop k (show_nat d)))"
    "list_all number_char (fraction_part (replicate m (CHR ''0'') @ show_nat d))" for k m
    by (rule fraction_part_number, rule sub)
       (rule fraction_part_number, use show_nat_number [of d] in \<open>auto simp: list_all_iff\<close>)
  show "list_all number_char (format_magnitude p q)"
    using sub parts by (simp add: format_magnitude_def xd Let_def)
  show "format_magnitude p q \<noteq> []"
    by (cases "show_nat d") (auto simp: format_magnitude_def xd Let_def)
qed

lemma format_g_number: "list_all number_char (format_g p x)" "format_g p x \<noteq> []"
  using format_magnitude_number by (auto simp: format_g_def split: float_value.splits)

lemma number_token:
  "list_all number_char t \<Longrightarrow> t \<noteq> [] \<Longrightarrow> wf_json (JToken t)"
  using number_char_token by (auto simp: list_all_iff neq_Nil_conv)

definition request_members :: "LLMRequest \<Rightarrow> (string \<times> json) list" where
  "request_members r =
    [(''type'', JString ''llm_request''), (''request_id'', JString (rq_request_id r)),
     (''run_id'', JString (rq_run_id r)), (''iteration'', JToken (show_int (rq_iteration r))),
     (''state_id'', JToken (show_nat (rq_state_index r))),
     (''state_label'', JString (rq_state_label r)), (''problem_id'', JString (rq_problem_id r)),
     (''reason'', JString (rq_reason r)), (''g'', JToken (format_g 6 (rq_g r))),
     (''h'', JToken (format_g 6 (rq_h r))),
     (''search_expansions'', JToken (show_int (rq_search_expansions r))),
     (''init'', JString (rq_init r))]"

lemma json_quote_plain:
  "list_all (\<lambda>c. 32 \<le> (of_char c :: nat) \<and> c \<noteq> CHR 34 \<and> c \<noteq> CHR 92) k \<Longrightarrow>
   json_quote k = CHR 34 # k @ [CHR 34]"
  by (induction k) (auto simp: json_quote_def json_escape_def escape_char_def)

lemma request_keys_plain:
  "m \<in> set (request_members r) \<Longrightarrow> json_quote (fst m) = CHR 34 # fst m @ [CHR 34]"
  by (rule json_quote_plain) (auto simp: request_members_def)

lemma request_body_render: "make_request_body r = render_json (JObject (request_members r))"
proof -
  have key: "json_quote k @ CHR '':'' # v = key_text k @ v"
    if "list_all (\<lambda>c. 32 \<le> (of_char c :: nat) \<and> c \<noteq> CHR 34 \<and> c \<noteq> CHR 92) k" for k v
    using json_quote_plain [OF that] by (simp add: key_text_def)
  have t: "json_quote ''llm_request'' = CHR 34 # ''llm_request'' @ [CHR 34]"
    by (rule json_quote_plain) simp
  show ?thesis
    by (simp add: make_request_body_def request_members_def key t key_text_def [symmetric]
      string_text_def json_quote_def [symmetric])
qed

lemma request_members_wf: "wf_json (JObject (request_members r))"
  by (simp add: request_members_def number_token format_g_number del: wf_json.simps(2))

section \<open>Receiving\<close>

lemma send_all_error: "send_all net k wire rest = Inl e \<Longrightarrow> e \<noteq> []"
proof (induction net k wire rest rule: send_all.induct)
  case (1 net k wire rest)
  then show ?case
    by (auto simp: send_all.simps [of net k wire rest] split: send_outcome.splits if_splits)
qed

lemma recv_all_outcome:
  "recv_all net k raw = Some y \<Longrightarrow> \<forall>e. y = Inl e \<longrightarrow> e \<noteq> ([] :: char list)"
proof (rule recv_all.raw_induct [where P = "\<lambda>net k raw y. \<forall>e. y = Inl e \<longrightarrow> e \<noteq> ([] :: char list)"])
  fix f :: "net_outcome \<Rightarrow> nat \<Rightarrow> string \<Rightarrow> string result option" and net k raw y
  assume IH: "\<And>net k raw y. f net k raw = Some y \<Longrightarrow> \<forall>e. y = Inl e \<longrightarrow> e \<noteq> ([] :: char list)"
  assume "(case net_recv net k of Received b \<Rightarrow> f net (Suc k) (raw @ b) | PeerClosed \<Rightarrow> Some (Inr raw)
       | RecvError errno \<Rightarrow> Some (Inl (''recv failed: '' @ errno))) = Some y"
  then show "\<forall>e. y = Inl e \<longrightarrow> e \<noteq> ([] :: char list)"
    by (cases "net_recv net k") (auto dest: IH)
qed

lemma recv_all_error: "recv_all net k raw = Some (Inl e) \<Longrightarrow> e \<noteq> []"
  using recv_all_outcome by blast

lemma received_response_cases:
  assumes "recv_all net k raw = Some z"
  obtains e where "received_response r z = (blank_response r)\<lparr>rs_error := e\<rparr>" "e \<noteq> []"
  | raw' where "received_response r z = read_response r raw'"
  using assms recv_all_error by (cases z) auto

lemma recv_all_chunks:
  "(\<And>j. j < length chunks \<Longrightarrow> net_recv net (k + j) = Received (chunks ! j)) \<Longrightarrow>
   net_recv net (k + length chunks) = PeerClosed \<Longrightarrow>
   recv_all net k raw = Some (Inr (raw @ concat chunks))"
proof (induction chunks arbitrary: k raw)
  case Nil
  then show ?case by (simp add: recv_all.simps)
next
  case (Cons b chunks)
  have "net_recv net (Suc k + j) = Received (chunks ! j)" if "j < length chunks" for j
    using Cons.prems(1) [of "Suc j"] that by simp
  then have "recv_all net (Suc k) (raw @ b) = Some (Inr ((raw @ b) @ concat chunks))"
    using Cons.prems(2) by (intro Cons.IH) simp_all
  moreover have "net_recv net k = Received b" using Cons.prems(1) [of 0] by simp
  ultimately show ?case by (simp add: recv_all.simps [of net k])
qed

section \<open>A concrete run\<close>

text \<open>One worker, one request taken and dispatched; used by the witnesses below.\<close>

definition demo_config :: bridge_config where
  "demo_config = \<lparr>bc_enabled = True, bc_mode = ''http'', bc_host = ''h'', bc_port = 80,
     bc_path = ''/'', bc_timeout_ms = 1, bc_worker_count = 1, bc_max_queue = 1, bc_emit_state = False\<rparr>"

definition demo_request :: LLMRequest where
  "demo_request = \<lparr>rq_request_id = ''r0'', rq_run_id = ''x'', rq_iteration = 1, rq_state_id = 0,
     rq_state_index = 0, rq_state_label = ''#0'', rq_problem_id = [], rq_reason = ''demo'',
     rq_g = ap_zero False, rq_h = ap_zero False, rq_search_expansions = 0, rq_init = []\<rparr>"

definition demo_net :: net_outcome where
  "demo_net = \<lparr>net_lookup_error = None, net_addresses = [ConnectFailed, Connected],
     net_send = (\<lambda>k s. Sent (length s)),
     net_recv = (\<lambda>k. if k = 0 then Received ''HTTP/1.1 200 OK'' else if k = 1 then Received (crlf @ crlf @ ''{}'') else PeerClosed),
     net_send_errno = []\<rparr>"

definition demo_bridge :: bridge where
  "demo_bridge = \<lparr>outgoing = [], completed = [], workers = [Posting demo_request], active_requests = 1,
     stopping = False, queued_discarded_on_stop = 0, active_cancelled_on_stop = 0,
     completed_unconsumed_on_stop = 0\<rparr>"

lemma demo_http_mode: "http_mode demo_config"
  by (simp add: http_mode_def demo_config_def)

lemma demo_run: "bridge_run demo_config [Submit demo_request True, Dispatch 0 demo_request] demo_bridge"
proof -
  let ?b0 = "bridge_start demo_config bridge_init"
  let ?b1 = "?b0\<lparr>outgoing := [demo_request]\<rparr>"
  have "bridge_submit demo_config demo_request ?b0 = (True, ?b1)"
    by (simp add: bridge_submit_def bridge_start_def bridge_init_def demo_config_def http_mode_def)
  then have "bridge_run demo_config [Submit demo_request True] ?b1"
    using bridge_run.stepped [OF bridge_run.started bridge_step.submit] by fastforce
  moreover have "bridge_step demo_config (Dispatch 0 demo_request) ?b1 (worker_take 0 ?b1)"
    by (rule bridge_step.dispatch)
       (simp_all add: bridge_start_def bridge_init_def demo_config_def http_mode_def)
  moreover have "worker_take 0 ?b1 = demo_bridge"
    by (simp add: worker_take_def bridge_start_def bridge_init_def demo_config_def http_mode_def demo_bridge_def)
  ultimately show ?thesis using bridge_run.stepped by fastforce
qed

lemma demo_post: "post_request_posix demo_config demo_net demo_request
   = Some (read_response demo_request (''HTTP/1.1 200 OK'' @ crlf @ crlf @ ''{}''))"
proof -
  have "send_all demo_net 0 [] s = Inr s" for s
    by (subst send_all.simps, simp add: demo_net_def) (subst send_all.simps, simp)
  moreover have "recv_all demo_net 0 [] = Some (Inr (''HTTP/1.1 200 OK'' @ crlf @ crlf @ ''{}''))"
  proof -
    have "net_recv demo_net 0 = Received ''HTTP/1.1 200 OK''" "net_recv demo_net (Suc 0) = Received (crlf @ crlf @ ''{}'')"
      "net_recv demo_net (Suc (Suc 0)) = PeerClosed"
      by (simp_all add: demo_net_def)
    then show ?thesis
      by (simp add: recv_all.simps [of demo_net 0] recv_all.simps [of demo_net "Suc 0"]
        recv_all.simps [of demo_net "Suc (Suc 0)"])
  qed
  ultimately show ?thesis by (simp add: post_request_posix_def) (simp add: demo_net_def)
qed

section \<open>Properties\<close>

text \<open>
  C11. Every request the bridge has taken is in exactly one place: still queued, being posted
  by a worker, answered and waiting to be polled, answered and polled, or discarded when the
  bridge was stopped; nothing is lost, duplicated or invented by any interleaving.
\<close>

theorem bridge_accounts_for_every_request:
  assumes "http_mode c" "bridge_run c evs b"
  shows "mset (map rq_tag (accepted evs)) =
      mset (map rq_tag (outgoing b)) + mset (map rq_tag (posting (workers b))) +
      mset (map rs_tag (completed b)) + mset (map rs_tag (polled evs)) +
      mset (map rq_tag (discarded evs))"
  using bridge_run_inv [OF assms(2,1)] by (auto simp: bridge_inv_def ac_simps)

theorem bridge_accounts_for_every_request_witness:
  "mset (map rq_tag (accepted [Submit demo_request True, Dispatch 0 demo_request])) = {#rq_tag demo_request#}"
  using bridge_accounts_for_every_request [OF demo_http_mode demo_run]
  by (simp add: demo_bridge_def posting_def)

text \<open>
  C14. A request body is one well-formed JSON object with the twelve fields of the request in
  order, whatever its strings and numbers, so the planner's own reader consumes it whole.
\<close>

theorem request_body_is_json:
  "make_request_body r = render_json (JObject
    [(''type'', JString ''llm_request''), (''request_id'', JString (rq_request_id r)),
     (''run_id'', JString (rq_run_id r)), (''iteration'', JToken (show_int (rq_iteration r))),
     (''state_id'', JToken (show_nat (rq_state_index r))),
     (''state_label'', JString (rq_state_label r)), (''problem_id'', JString (rq_problem_id r)),
     (''reason'', JString (rq_reason r)), (''g'', JToken (format_g 6 (rq_g r))),
     (''h'', JToken (format_g 6 (rq_h r))),
     (''search_expansions'', JToken (show_int (rq_search_expansions r))),
     (''init'', JString (rq_init r))])
   \<and> skip_json_value (make_request_body r @ rest) = Inr rest"
proof -
  have "skip_json_value (render_json (JObject (request_members r)) @ rest) = Inr rest"
  proof (cases "ends_value rest")
    case True
    then show ?thesis using request_members_wf by (rule skip_json_value_render [rotated])
  next
    case False
    have items: "skip_object_items (join_comma (map render_member (request_members r)) @ CHR ''}'' # rest) = Inr rest"
      using request_members_wf [of r]
      by (intro skip_object_items_render skip_json_value_render) (auto simp: request_members_def)
    moreover obtain q where "join_comma (map render_member (request_members r)) @ CHR ''}'' # rest = CHR 34 # q"
      by (simp add: request_members_def render_member_def json_quote_def)
    ultimately show ?thesis
      by (simp add: render_json_JObject skip_json_value.simps skip_json_object.simps del: render_json.simps)
  qed
  then show ?thesis using request_body_render [of r] by (simp add: request_members_def)
qed

text \<open>
  C16. The answer to a request carries the identity of that request; it counts as transported
  exactly when the HTTP status is a success, and any other outcome leaves an error text.
\<close>

theorem post_request_outcome:
  assumes "post_request_posix c net r = Some resp"
  shows "rs_tag resp = rq_tag r \<and>
    (rs_transport_ok resp \<longleftrightarrow> 200 \<le> rs_http_status resp \<and> rs_http_status resp < 300) \<and>
    (\<not> rs_transport_ok resp \<longrightarrow> rs_error resp \<noteq> [])"
proof -
  have *: "P ((blank_response r)\<lparr>rs_error := e\<rparr>)"
    if "e \<noteq> []" "P = (\<lambda>resp. (rs_transport_ok resp \<longleftrightarrow> 200 \<le> rs_http_status resp \<and> rs_http_status resp < 300) \<and>
      (\<not> rs_transport_ok resp \<longrightarrow> rs_error resp \<noteq> []))" for e P
    using that by (simp add: blank_response_def)
  have **: "(rs_transport_ok resp \<longleftrightarrow> 200 \<le> rs_http_status resp \<and> rs_http_status resp < 300) \<and>
      (\<not> rs_transport_ok resp \<longrightarrow> rs_error resp \<noteq> [])" if "resp = read_response r raw" for raw
    using that by (simp add: read_response_def blank_response_def Let_def)
  from assms consider
      e where "resp = (blank_response r)\<lparr>rs_error := e\<rparr>" "e \<noteq> []"
    | raw where "resp = read_response r raw"
    by (auto simp: post_request_posix_def split: option.splits prod.splits bool.splits sum.splits if_splits
        dest: send_all_error elim: received_response_cases [where r = r])
  then show ?thesis using post_request_tag [OF assms] * ** by cases blast+
qed

theorem post_request_outcome_witness:
  "rs_tag (read_response demo_request (''HTTP/1.1 200 OK'' @ crlf @ crlf @ ''{}'')) = rq_tag demo_request"
  using post_request_outcome [OF demo_post] by blast

end
