(* ===== verification/Trigger_Config.thy ===== *)
theory Trigger_Config
  imports Llm_Bridge
begin

text \<open>
  The configuration and the state of \<open>LLMTriggerMonitor\<close> of \<open>search_engines/eager_search.cc\<close>:
  the settings read from environment variables and the members the monitor keeps. Counters of
  type \<open>int\<close> are \<open>int\<close>: the code leaves their overflow undefined. Counters of type \<open>size_t\<close> are
  \<open>nat\<close>; they count calls and stay far below \<open>2 ^ 64\<close>.
\<close>

section \<open>Numbers in environment variables\<close>

text \<open>The digits of \<open>strtod\<close> in a base, with an optional fraction: value, and the rest.\<close>

definition hex_value :: "char \<Rightarrow> nat" where
  "hex_value c = (let n = of_char (to_lower c) :: nat in
     if 48 \<le> n \<and> n \<le> 57 then n - 48 else if 97 \<le> n \<and> n \<le> 102 then n - 87 else 16)"

definition base_digits :: "nat \<Rightarrow> string \<Rightarrow> nat list" where
  "base_digits base s = map hex_value (takeWhile (\<lambda>c. hex_value c < base) s)"

definition base_rest :: "nat \<Rightarrow> string \<Rightarrow> string" where
  "base_rest base s = dropWhile (\<lambda>c. hex_value c < base) s"

definition base_value :: "nat \<Rightarrow> nat list \<Rightarrow> nat" where
  "base_value base ds = fold (\<lambda>d v. base * v + d) ds 0"

definition read_mantissa :: "nat \<Rightarrow> string \<Rightarrow> (rat \<times> string) option" where
  "read_mantissa base s =
    (let i = base_digits base s; r = base_rest base s;
         (f, r') = (case r of c # q \<Rightarrow> if c = CHR ''.'' then (base_digits base q, base_rest base q)
                                       else ([], r) | [] \<Rightarrow> ([], []))
     in if i @ f = [] then None
        else Some (of_nat (base_value base (i @ f)) / of_nat (base ^ length f), r'))"

definition read_exponent :: "char \<Rightarrow> string \<Rightarrow> int" where
  "read_exponent mark s = (case s of [] \<Rightarrow> 0
     | c # q \<Rightarrow> if to_lower c \<noteq> mark then 0
       else let (neg, r) = read_sign q; e = int (base_value 10 (base_digits 10 r))
            in if neg then - e else e)"

definition starts_with :: "string \<Rightarrow> string \<Rightarrow> bool" where
  "starts_with p s \<longleftrightarrow> take (length p) s = p"

text \<open>\<open>atof\<close>: decimal and hexadecimal numbers, infinities and not-a-number; 0 otherwise.\<close>

definition atof :: "string \<Rightarrow> ap_float" where
  "atof s =
    (let (neg, r) = read_sign (dropWhile is_space s); low = map to_lower r;
         hex = (if starts_with ''0x'' low then read_mantissa 16 (drop 2 r) else None);
         v = (if starts_with ''inf'' low then ap_inf False
              else if starts_with ''nan'' low then ap_nan
              else case hex of
                Some (m, q) \<Rightarrow> ap_of_rat (m * 2 powi read_exponent (CHR ''p'') q)
              | None \<Rightarrow> (case read_mantissa 10 r of
                  Some (m, q) \<Rightarrow> ap_of_rat (m * 10 powi read_exponent (CHR ''e'') q)
                | None \<Rightarrow> ap_zero False))
     in if neg then ap_neg v else v)"

definition env_float :: "environment \<Rightarrow> string \<Rightarrow> ap_float \<Rightarrow> ap_float" where
  "env_float env name default_value = (case env name of None \<Rightarrow> default_value | Some v \<Rightarrow> atof v)"

section \<open>Configuration\<close>

definition MAX_ACTIVITY_WINDOWS :: nat where "MAX_ACTIVITY_WINDOWS = 8"
definition LAYER_TABLE_CAPACITY :: nat where "LAYER_TABLE_CAPACITY = 16"

record trigger_config =
  tc_enabled :: bool
  tc_skip_pending :: bool
  tc_emit_state :: bool
  tc_log_response_body :: bool
  tc_request_initial :: bool
  tc_enable_ancestor_stagnation :: bool
  tc_enable_frontier_plateau :: bool
  tc_enable_global_stall :: bool
  tc_analysis_interval :: int
  tc_activity_windows :: int
  tc_growth_confirm_windows :: int
  tc_layer_reset_windows :: int
  tc_layer_min_recent_expanded :: int
  tc_layer_min_recent_net_growth :: int
  tc_layer_min_since_request_expanded :: int
  tc_layer_min_since_request_net_growth :: int
  tc_stall_expansions :: int
  tc_ancestor_check_interval :: int
  tc_ancestor_depth :: int
  tc_min_depth :: int
  tc_min_request_gap_expansions :: int
  tc_per_layer_request_gap_expansions :: int
  tc_candidate_layers :: int
  tc_requests_per_slot :: int
  tc_heartbeat_interval :: int
  tc_max_pending :: int
  tc_max_requests :: int
  tc_h_abs_epsilon :: ap_float
  tc_h_relative_epsilon :: ap_float
  tc_plateau_growth_ratio :: ap_float

definition trigger_config_from :: "environment \<Rightarrow> trigger_config" where
  "trigger_config_from env =
    (let gap = max 0 (env_int env ''NLM_LLM_MIN_REQUEST_GAP_EXPANSIONS'' 100000);
         layers = min (int LAYER_TABLE_CAPACITY) (max 1 (env_int env ''NLM_LLM_CANDIDATE_LAYERS'' 3));
         slot = min (int LAYER_TABLE_CAPACITY) (max 1 (env_int env ''NLM_LLM_REQUESTS_PER_SLOT'' 1))
     in \<lparr>tc_enabled = env_enabled env ''NLM_LLM_TRIGGER'' False,
     tc_skip_pending = env_equals_ignore_case env ''NLM_LLM_PENDING_BEHAVIOR'' ''skip'',
     tc_emit_state = env_enabled env ''NLM_LLM_EMIT_STATE'' False,
     tc_log_response_body = env_enabled env ''NLM_LLM_LOG_RESPONSE_BODY'' False,
     tc_request_initial = env_enabled env ''NLM_LLM_REQUEST_INITIAL'' False,
     tc_enable_ancestor_stagnation = env_enabled env ''NLM_LLM_ENABLE_ANCESTOR_STAGNATION'' True,
     tc_enable_frontier_plateau = env_enabled env ''NLM_LLM_ENABLE_FRONTIER_PLATEAU'' True,
     tc_enable_global_stall = env_enabled env ''NLM_LLM_ENABLE_GLOBAL_STALL'' True,
     tc_analysis_interval = max 1 (env_int env ''NLM_LLM_ANALYSIS_INTERVAL'' 65536),
     tc_activity_windows = min (int MAX_ACTIVITY_WINDOWS)
       (max 1 (env_int env ''NLM_LLM_ACTIVITY_WINDOWS'' 4)),
     tc_growth_confirm_windows = max 1 (env_int env ''NLM_LLM_GROWTH_CONFIRM_WINDOWS'' 2),
     tc_layer_reset_windows = max 1 (env_int env ''NLM_LLM_LAYER_RESET_WINDOWS'' 4),
     tc_layer_min_recent_expanded = max 1 (env_int env ''NLM_LLM_LAYER_MIN_RECENT_EXPANDED'' 4096),
     tc_layer_min_recent_net_growth = max 1 (env_int env ''NLM_LLM_LAYER_MIN_RECENT_NET_GROWTH'' 1024),
     tc_layer_min_since_request_expanded =
       max 1 (env_int env ''NLM_LLM_LAYER_MIN_SINCE_REQUEST_EXPANDED'' 8192),
     tc_layer_min_since_request_net_growth =
       max 1 (env_int env ''NLM_LLM_LAYER_MIN_SINCE_REQUEST_NET_GROWTH'' 2048),
     tc_stall_expansions = env_int env ''NLM_LLM_STALL_EXPANSIONS'' 500000,
     tc_ancestor_check_interval = max 1 (env_int env ''NLM_LLM_ANCESTOR_CHECK_INTERVAL'' 100000),
     tc_ancestor_depth = max 1 (env_int env ''NLM_LLM_ANCESTOR_DEPTH'' 20),
     tc_min_depth = max 0 (env_int env ''NLM_LLM_MIN_DEPTH'' 30),
     tc_min_request_gap_expansions = gap,
     tc_per_layer_request_gap_expansions =
       max (max 0 (env_int env ''NLM_LLM_PER_LAYER_REQUEST_GAP_EXPANSIONS'' 500000)) gap,
     tc_candidate_layers = layers,
     tc_requests_per_slot = min slot layers,
     tc_heartbeat_interval = max 0 (env_int env ''NLM_LLM_HEARTBEAT_INTERVAL'' 100000),
     tc_max_pending = env_int env ''NLM_LLM_MAX_PENDING'' 0,
     tc_max_requests = max 0 (env_int env ''NLM_LLM_MAX_REQUESTS'' 10),
     tc_h_abs_epsilon = ap_max (ap_zero False) (env_float env ''NLM_LLM_H_EPSILON'' (ap_of_rat (1 / 1000))),
     tc_h_relative_epsilon =
       ap_max (ap_zero False) (env_float env ''NLM_LLM_H_RELATIVE_EPSILON'' (ap_of_rat (5 / 1000))),
     tc_plateau_growth_ratio =
       ap_max (ap_of_int 1) (env_float env ''NLM_LLM_PLATEAU_GROWTH_RATIO'' (ap_of_rat (105 / 100)))\<rparr>)"

section \<open>State of the monitor\<close>

record PendingRequestInfo =
  pi_submitted_at :: int
  pi_expansions_at_submit :: int
  pi_reason :: string

record LayerStats =
  ly_occupied :: bool
  ly_h_key :: int
  ly_h :: ap_float
  ly_current_opened :: nat
  ly_current_expanded :: nat
  ly_opened_history :: "nat list"
  ly_expanded_history :: "nat list"
  ly_recent_opened :: nat
  ly_recent_expanded :: nat
  ly_opened_since_request :: nat
  ly_expanded_since_request :: nat
  ly_last_seen_expansion :: int
  ly_last_request_expansion :: int
  ly_growth_streak :: int
  ly_calm_streak :: int
  ly_inactive_streak :: int
  ly_requests_in_episode :: int
  ly_growing :: bool
  ly_ready :: bool
  ly_representative_state :: state_id
  ly_representative_g :: ap_float
  ly_representative_expansion :: int

definition LayerStats_init :: LayerStats where
  "LayerStats_init = \<lparr>ly_occupied = False, ly_h_key = 0, ly_h = ap_zero False,
     ly_current_opened = 0, ly_current_expanded = 0,
     ly_opened_history = replicate MAX_ACTIVITY_WINDOWS 0,
     ly_expanded_history = replicate MAX_ACTIVITY_WINDOWS 0,
     ly_recent_opened = 0, ly_recent_expanded = 0, ly_opened_since_request = 0,
     ly_expanded_since_request = 0, ly_last_seen_expansion = - 1, ly_last_request_expansion = - 1,
     ly_growth_streak = 0, ly_calm_streak = 0, ly_inactive_streak = 0, ly_requests_in_episode = 0,
     ly_growing = False, ly_ready = False, ly_representative_state = no_state,
     ly_representative_g = ap_zero False, ly_representative_expansion = - 1\<rparr>"

record monitor =
  tm_config :: trigger_config
  tm_bridge_config :: bridge_config
  tm_bridge :: bridge
  tm_pending_states :: "state_id set"
  tm_suspended_states :: "state_id set"
  tm_requested_states :: "state_id set"
  tm_pending_request_infos :: "state_id \<rightharpoonup> PendingRequestInfo"
  tm_run_id :: string
  tm_anytime_iteration :: int
  tm_next_request_id :: int
  tm_expansions :: int
  tm_expansions_since_best_h :: int
  tm_last_analysis_expansion :: int
  tm_last_ancestor_check_expansion :: int
  tm_last_heartbeat_expansion :: int
  tm_best_h :: ap_float
  tm_global_stall_condition_active :: bool
  tm_global_stall_requested :: bool
  tm_layers :: "LayerStats list"
  tm_history_cursor :: nat
  tm_opened_states :: nat
  tm_analysis_checks :: nat
  tm_frontier_plateau_events :: nat
  tm_layer_episode_resets :: nat
  tm_layer_table_evictions :: nat
  tm_layer_requests_submitted :: nat
  tm_global_stall_events :: nat
  tm_ancestor_checks :: nat
  tm_ancestor_deferrals :: nat
  tm_ancestor_stagnation_events :: nat
  tm_request_attempts :: nat
  tm_requests_submitted :: nat
  tm_requests_rejected_duplicate :: nat
  tm_requests_rejected_pending_limit :: nat
  tm_requests_rejected_request_limit :: nat
  tm_requests_rejected_spacing :: nat
  tm_requests_rejected_bridge :: nat
  tm_responses_completed :: nat
  tm_response_transport_failures :: nat
  tm_usable_responses :: nat
  tm_injected_chains :: nat
  tm_injected_actions :: nat
  tm_injected_states :: nat
  tm_responses_discarded_phase_end :: nat
  tm_completed_unconsumed_phase_end :: nat
  tm_max_pending_observed :: nat
  tm_total_response_seconds :: ap_float
  tm_max_response_seconds :: ap_float
  tm_total_response_age_expansions :: nat
  tm_max_response_age_expansions :: nat
  tm_first_request_expansion :: int
  tm_last_request_expansion :: int
  tm_statistics_printed :: bool
  tm_request_attempts_by_reason :: "string \<rightharpoonup> nat"
  tm_requests_submitted_by_reason :: "string \<rightharpoonup> nat"
  tm_responses_completed_by_reason :: "string \<rightharpoonup> nat"

text \<open>The members as the constructor initialises them.\<close>

definition monitor_init :: "environment \<Rightarrow> monitor" where
  "monitor_init env = \<lparr>tm_config = trigger_config_from env,
     tm_bridge_config = bridge_config_from env, tm_bridge = bridge_init,
     tm_pending_states = {}, tm_suspended_states = {}, tm_requested_states = {},
     tm_pending_request_infos = Map.empty,
     tm_run_id = env_string env ''NLM_LLM_RUN_ID'' ''standalone'', tm_anytime_iteration = 1,
     tm_next_request_id = 0, tm_expansions = 0, tm_expansions_since_best_h = 0,
     tm_last_analysis_expansion = 0, tm_last_ancestor_check_expansion = 0,
     tm_last_heartbeat_expansion = 0, tm_best_h = ap_inf False,
     tm_global_stall_condition_active = False, tm_global_stall_requested = False,
     tm_layers = replicate LAYER_TABLE_CAPACITY LayerStats_init, tm_history_cursor = 0,
     tm_opened_states = 0, tm_analysis_checks = 0, tm_frontier_plateau_events = 0,
     tm_layer_episode_resets = 0, tm_layer_table_evictions = 0, tm_layer_requests_submitted = 0,
     tm_global_stall_events = 0, tm_ancestor_checks = 0, tm_ancestor_deferrals = 0,
     tm_ancestor_stagnation_events = 0, tm_request_attempts = 0, tm_requests_submitted = 0,
     tm_requests_rejected_duplicate = 0, tm_requests_rejected_pending_limit = 0,
     tm_requests_rejected_request_limit = 0, tm_requests_rejected_spacing = 0,
     tm_requests_rejected_bridge = 0, tm_responses_completed = 0,
     tm_response_transport_failures = 0, tm_usable_responses = 0, tm_injected_chains = 0,
     tm_injected_actions = 0, tm_injected_states = 0, tm_responses_discarded_phase_end = 0,
     tm_completed_unconsumed_phase_end = 0, tm_max_pending_observed = 0,
     tm_total_response_seconds = ap_zero False, tm_max_response_seconds = ap_zero False,
     tm_total_response_age_expansions = 0, tm_max_response_age_expansions = 0,
     tm_first_request_expansion = - 1, tm_last_request_expansion = - 1,
     tm_statistics_printed = False, tm_request_attempts_by_reason = Map.empty,
     tm_requests_submitted_by_reason = Map.empty, tm_responses_completed_by_reason = Map.empty\<rparr>"

text \<open>\<open>++table[key]\<close> on an \<open>unordered_map\<close>.\<close>

definition count_up :: "('k \<rightharpoonup> nat) \<Rightarrow> 'k \<Rightarrow> ('k \<rightharpoonup> nat)" where
  "count_up t k = t(k \<mapsto> Suc (case t k of None \<Rightarrow> 0 | Some n \<Rightarrow> n))"

end
