(* ===== verification/Int_Packer.thy ===== *)
theory Int_Packer
  imports Ap_Float "HOL-Library.Multiset"
begin

text \<open>
  \<open>IntPacker\<close> of \<open>int_packer.h\<close> and \<open>int_packer.cc\<close>: state variables packed into 64-bit bins.
  The constructor assigns every variable a bin and a shift by greedy packing; \<open>get\<close> and \<open>set\<close>
  read and write the field of a variable. The packing loop is modelled as it is, so its model
  may fail to return. Assertions of the code are not checks of the model: that they hold is
  proved where it matters.
\<close>

unbundle bit_operations_syntax

section \<open>Masks and variables\<close>

definition BITS_PER_BIN :: nat where "BITS_PER_BIN = 64"

definition get_bit_mask :: "nat \<Rightarrow> nat \<Rightarrow> container_int" where
  "get_bit_mask lo hi =
    (let len = hi - lo
     in if len = BITS_PER_BIN then NOT 0 else push_bit lo (push_bit len 1 - 1))"

text \<open>The range is cut to an \<open>unsigned int\<close> before it is compared.\<close>

function bit_size_from :: "nat \<Rightarrow> nat \<Rightarrow> nat" where
  "bit_size_from num_bits r = (if 2 ^ num_bits < r then bit_size_from (Suc num_bits) r else num_bits)"
  by pat_completeness auto
termination
proof (relation "measure (\<lambda>(k, r). r - k)")
  fix k r :: nat assume "2 ^ k < r"
  moreover have "k < 2 ^ k" by (rule less_exp)
  ultimately have "k < r" by (rule less_trans [rotated])
  then show "((Suc k, r), k, r) \<in> measure (\<lambda>(k, r). r - k)" by simp
qed simp

declare bit_size_from.simps [simp del]

definition get_bit_size_for_range :: "container_int \<Rightarrow> nat" where
  "get_bit_size_for_range dom_size =
    (if dom_size = - 1 then BITS_PER_BIN else bit_size_from 0 (unat (ucast dom_size :: 32 word)))"

record VariableInfo =
  vi_range :: container_int
  vi_bin_index :: int
  vi_shift :: nat
  vi_read_mask :: container_int
  vi_clear_mask :: container_int

definition VariableInfo_make :: "container_int \<Rightarrow> int \<Rightarrow> nat \<Rightarrow> VariableInfo" where
  "VariableInfo_make dom_size bin_index shift =
    (let mask = get_bit_mask shift (shift + get_bit_size_for_range dom_size)
     in \<lparr>vi_range = dom_size, vi_bin_index = bin_index, vi_shift = shift,
         vi_read_mask = mask, vi_clear_mask = NOT mask\<rparr>)"

text \<open>The default constructor; it leaves the range uninitialised.\<close>

definition VariableInfo_default :: VariableInfo where
  "VariableInfo_default = \<lparr>vi_range = 0, vi_bin_index = - 1, vi_shift = 0, vi_read_mask = 0, vi_clear_mask = 0\<rparr>"

definition VariableInfo_get :: "VariableInfo \<Rightarrow> container_int list \<Rightarrow> container_int" where
  "VariableInfo_get v buffer = drop_bit (vi_shift v) (buffer ! nat (vi_bin_index v) AND vi_read_mask v)"

definition VariableInfo_set :: "VariableInfo \<Rightarrow> container_int list \<Rightarrow> container_int \<Rightarrow> container_int list" where
  "VariableInfo_set v buffer value =
    buffer[nat (vi_bin_index v) :=
      (buffer ! nat (vi_bin_index v) AND vi_clear_mask v) OR push_bit (vi_shift v) value]"

section \<open>Packing\<close>

type_synonym var_bits = "nat list list"

record packing =
  var_infos :: "VariableInfo list"
  num_bins :: nat
  bits_to_vars :: var_bits

definition index_var :: "container_int list \<Rightarrow> nat \<Rightarrow> var_bits \<Rightarrow> var_bits" where
  "index_var ranges v by_bits =
    (let bits = get_bit_size_for_range (ranges ! v) in by_bits[bits := by_bits ! bits @ [v]])"

definition index_by_bits :: "container_int list \<Rightarrow> var_bits" where
  "index_by_bits ranges =
    fold (index_var ranges) (rev [0..<length ranges]) (replicate (Suc BITS_PER_BIN) [])"

primrec largest_fit :: "nat \<Rightarrow> var_bits \<Rightarrow> nat" where
  "largest_fit 0 by_bits = 0"
| "largest_fit (Suc bits) by_bits = (if by_bits ! Suc bits = [] then largest_fit bits by_bits else Suc bits)"

lemma largest_fit_le: "largest_fit bits by_bits \<le> bits"
  by (induction bits) auto

text \<open>The loop of \<open>pack_one_bin\<close>: how many variables went into the bin.\<close>

function fill_bin :: "container_int list \<Rightarrow> nat \<Rightarrow> nat \<Rightarrow> packing \<Rightarrow> nat \<times> packing" where
  "fill_bin ranges used_bits num_vars_in_bin p =
    (let bits = largest_fit (BITS_PER_BIN - used_bits) (bits_to_vars p)
     in if bits = 0 then (num_vars_in_bin, p)
        else let v = last (bits_to_vars p ! bits)
          in fill_bin ranges (used_bits + bits) (Suc num_vars_in_bin)
            (p\<lparr>bits_to_vars := (bits_to_vars p)[bits := butlast (bits_to_vars p ! bits)],
               var_infos := (var_infos p)[v := VariableInfo_make (ranges ! v) (int (num_bins p) - 1) used_bits]\<rparr>))"
  by pat_completeness auto
termination
proof (relation "measure (\<lambda>(ranges, used, k, p). BITS_PER_BIN - used)")
  fix ranges used k and p :: packing and bits v
  assume "bits = largest_fit (BITS_PER_BIN - used) (bits_to_vars p)" "bits \<noteq> 0"
  with largest_fit_le [of "BITS_PER_BIN - used" "bits_to_vars p"]
  show "((ranges, used + bits, Suc k,
      p\<lparr>bits_to_vars := (bits_to_vars p)[bits := butlast (bits_to_vars p ! bits)],
        var_infos := (var_infos p)[v := VariableInfo_make (ranges ! v) (int (num_bins p) - 1) used]\<rparr>),
     ranges, used, k, p) \<in> measure (\<lambda>(ranges, used, k, p). BITS_PER_BIN - used)"
    by simp
qed simp

declare fill_bin.simps [simp del]

definition pack_one_bin :: "container_int list \<Rightarrow> packing \<Rightarrow> nat \<times> packing" where
  "pack_one_bin ranges p = fill_bin ranges 0 0 (p\<lparr>num_bins := Suc (num_bins p)\<rparr>)"

text \<open>The loop of \<open>pack_bins\<close>, which ends when as many variables are packed as there are.\<close>

partial_function (option) pack_loop :: "container_int list \<Rightarrow> nat \<Rightarrow> packing \<Rightarrow> packing option" where
  "pack_loop ranges packed_vars p =
    (if packed_vars = length ranges then Some p
     else pack_loop ranges (packed_vars + fst (pack_one_bin ranges p)) (snd (pack_one_bin ranges p)))"

definition pack_start :: "container_int list \<Rightarrow> packing" where
  "pack_start ranges = \<lparr>var_infos = replicate (length ranges) VariableInfo_default, num_bins = 0,
     bits_to_vars = index_by_bits ranges\<rparr>"

definition pack_bins :: "container_int list \<Rightarrow> packing option" where
  "pack_bins ranges = pack_loop ranges 0 (pack_start ranges)"

section \<open>Access\<close>

definition packDouble :: "ap_float \<Rightarrow> container_int" where "packDouble plainDouble = raw_bits plainDouble"

definition unpackDouble :: "container_int \<Rightarrow> ap_float" where "unpackDouble packedDouble = Bits packedDouble"

definition packer_get :: "packing \<Rightarrow> container_int list \<Rightarrow> nat \<Rightarrow> container_int" where
  "packer_get p buffer var = VariableInfo_get (var_infos p ! var) buffer"

definition packer_getDouble :: "packing \<Rightarrow> container_int list \<Rightarrow> nat \<Rightarrow> ap_float" where
  "packer_getDouble p buffer var = unpackDouble (VariableInfo_get (var_infos p ! var) buffer)"

definition packer_set :: "packing \<Rightarrow> container_int list \<Rightarrow> nat \<Rightarrow> container_int \<Rightarrow> container_int list" where
  "packer_set p buffer var value = VariableInfo_set (var_infos p ! var) buffer value"

definition packer_setDouble :: "packing \<Rightarrow> container_int list \<Rightarrow> nat \<Rightarrow> ap_float \<Rightarrow> container_int list" where
  "packer_setDouble p buffer var value = VariableInfo_set (var_infos p ! var) buffer (packDouble value)"

section \<open>Fields of one bin\<close>

lemma bit_get_bit_mask:
  assumes "i \<le> j" "j \<le> 64"
  shows "bit (get_bit_mask i j) n \<longleftrightarrow> i \<le> n \<and> n < j"
proof (cases "j - i = 64")
  case True
  with assms have "i = 0" "j = 64" by auto
  then show ?thesis by (auto simp: get_bit_mask_def BITS_PER_BIN_def bit_simps dest: bit_imp_le_length)
next
  case False
  have "push_bit (j - i) 1 - 1 = (mask (j - i) :: 64 word)" by (simp add: mask_eq_exp_minus_1)
  with False assms show ?thesis
    by (auto simp: get_bit_mask_def BITS_PER_BIN_def Let_def bit_push_bit_iff bit_mask_iff
        simp del: push_bit_of_1)
qed

text \<open>A value fits a field of so many bits.\<close>

definition fits :: "nat \<Rightarrow> container_int \<Rightarrow> bool" where
  "fits k x \<longleftrightarrow> take_bit k x = x"

definition info_ok :: "VariableInfo \<Rightarrow> nat \<Rightarrow> nat \<Rightarrow> bool" where
  "info_ok v len bins \<longleftrightarrow> vi_shift v + len \<le> 64 \<and> 0 \<le> vi_bin_index v \<and> vi_bin_index v < int bins \<and>
     vi_read_mask v = get_bit_mask (vi_shift v) (vi_shift v + len) \<and>
     vi_clear_mask v = NOT (vi_read_mask v)"

lemma get_set_same:
  assumes "info_ok v len (length buffer)" "fits len x"
  shows "VariableInfo_get v (VariableInfo_set v buffer x) = x"
proof (rule bit_word_eqI)
  fix n assume "n < LENGTH(64)"
  have "bit x n \<Longrightarrow> n < len"
    using assms(2) by (metis bit_take_bit_iff fits_def)
  moreover have "nat (vi_bin_index v) < length buffer" using assms(1) by (auto simp: info_ok_def)
  ultimately show "bit (VariableInfo_get v (VariableInfo_set v buffer x)) n = bit x n"
    using assms(1) \<open>n < LENGTH(64)\<close>
    by (auto simp: VariableInfo_get_def VariableInfo_set_def info_ok_def bit_get_bit_mask bit_simps)
qed

lemma get_set_other:
  assumes v: "info_ok v len (length buffer)" and w: "info_ok w len' (length buffer)" and "fits len x"
    and apart: "vi_bin_index v \<noteq> vi_bin_index w \<or> vi_shift v + len \<le> vi_shift w \<or> vi_shift w + len' \<le> vi_shift v"
  shows "VariableInfo_get w (VariableInfo_set v buffer x) = VariableInfo_get w buffer"
proof (cases "vi_bin_index v = vi_bin_index w")
  case True
  have fit: "bit x n \<Longrightarrow> n < len" for n
    using assms(3) by (metis bit_take_bit_iff fits_def)
  have ix: "nat (vi_bin_index w) < length buffer" using w by (auto simp: info_ok_def)
  show ?thesis
  proof (rule bit_word_eqI)
    fix n assume "n < LENGTH(64)"
    show "bit (VariableInfo_get w (VariableInfo_set v buffer x)) n = bit (VariableInfo_get w buffer) n"
      using v w True apart ix \<open>n < LENGTH(64)\<close>
      by (auto simp: VariableInfo_get_def VariableInfo_set_def info_ok_def bit_get_bit_mask bit_simps dest!: fit)
  qed
next
  case False
  with v w have "nat (vi_bin_index v) \<noteq> nat (vi_bin_index w)" by (auto simp: info_ok_def)
  then show ?thesis by (simp add: VariableInfo_get_def VariableInfo_set_def)
qed

section \<open>The packing\<close>

abbreviation var_bits :: "container_int list \<Rightarrow> nat \<Rightarrow> nat" where
  "var_bits ranges v \<equiv> get_bit_size_for_range (ranges ! v)"

definition separate :: "container_int list \<Rightarrow> VariableInfo list \<Rightarrow> nat \<Rightarrow> nat \<Rightarrow> bool" where
  "separate ranges infos v w \<longleftrightarrow> vi_bin_index (infos ! v) \<noteq> vi_bin_index (infos ! w) \<or>
     vi_shift (infos ! v) + var_bits ranges v \<le> vi_shift (infos ! w) \<or>
     vi_shift (infos ! w) + var_bits ranges w \<le> vi_shift (infos ! v)"

text \<open>
  The state of the packing: variables still to pack are listed under their size; the others
  have separate fields, and those in the bin being filled end before \<open>used\<close>.
\<close>

definition unpacked :: "packing \<Rightarrow> nat set" where
  "unpacked p = set (concat (bits_to_vars p))"

definition packing_inv :: "container_int list \<Rightarrow> nat \<Rightarrow> packing \<Rightarrow> bool" where
  "packing_inv ranges used p \<longleftrightarrow>
     length (var_infos p) = length ranges \<and> length (bits_to_vars p) = Suc BITS_PER_BIN \<and>
     distinct (concat (bits_to_vars p)) \<and>
     (\<forall>k < length (bits_to_vars p). \<forall>v \<in> set (bits_to_vars p ! k). v < length ranges \<and> var_bits ranges v = k) \<and>
     (\<forall>v < length ranges. v \<notin> unpacked p \<longrightarrow>
        info_ok (var_infos p ! v) (var_bits ranges v) (num_bins p) \<and>
        (vi_bin_index (var_infos p ! v) = int (num_bins p) - 1 \<longrightarrow>
           vi_shift (var_infos p ! v) + var_bits ranges v \<le> used) \<and>
        (\<forall>w < length ranges. w \<notin> unpacked p \<longrightarrow> v \<noteq> w \<longrightarrow> separate ranges (var_infos p) v w))"

lemma packing_invI:
  assumes "length (var_infos p) = length ranges" "length (bits_to_vars p) = Suc BITS_PER_BIN"
    "distinct (concat (bits_to_vars p))"
    "\<And>k v. k < length (bits_to_vars p) \<Longrightarrow> v \<in> set (bits_to_vars p ! k) \<Longrightarrow> v < length ranges \<and> var_bits ranges v = k"
    "\<And>v. v < length ranges \<Longrightarrow> v \<notin> unpacked p \<Longrightarrow> info_ok (var_infos p ! v) (var_bits ranges v) (num_bins p) \<and>
      (vi_bin_index (var_infos p ! v) = int (num_bins p) - 1 \<longrightarrow>
           vi_shift (var_infos p ! v) + var_bits ranges v \<le> used)"
    "\<And>v w. v < length ranges \<Longrightarrow> v \<notin> unpacked p \<Longrightarrow> w < length ranges \<Longrightarrow> w \<notin> unpacked p \<Longrightarrow> v \<noteq> w \<Longrightarrow>
      separate ranges (var_infos p) v w"
  shows "packing_inv ranges used p"
  unfolding packing_inv_def using assms(1-4) by (intro conjI allI impI ballI) (use assms(4-6) in blast)+

lemma packing_invD:
  assumes "packing_inv ranges used p"
  shows "length (var_infos p) = length ranges" "length (bits_to_vars p) = Suc BITS_PER_BIN"
    "distinct (concat (bits_to_vars p))"
    "k < length (bits_to_vars p) \<Longrightarrow> v \<in> set (bits_to_vars p ! k) \<Longrightarrow> v < length ranges \<and> var_bits ranges v = k"
    "v < length ranges \<Longrightarrow> v \<notin> unpacked p \<Longrightarrow> info_ok (var_infos p ! v) (var_bits ranges v) (num_bins p)"
    "v < length ranges \<Longrightarrow> v \<notin> unpacked p \<Longrightarrow> vi_bin_index (var_infos p ! v) = int (num_bins p) - 1 \<Longrightarrow>
      vi_shift (var_infos p ! v) + var_bits ranges v \<le> used"
    "v < length ranges \<Longrightarrow> v \<notin> unpacked p \<Longrightarrow> w < length ranges \<Longrightarrow> w \<notin> unpacked p \<Longrightarrow> v \<noteq> w \<Longrightarrow>
      separate ranges (var_infos p) v w"
  using assms unfolding packing_inv_def by blast+

lemma unpacked_cases:
  assumes "packing_inv ranges used p" "v \<in> unpacked p"
  shows "v < length ranges" "v \<in> set (bits_to_vars p ! var_bits ranges v)" "var_bits ranges v \<le> BITS_PER_BIN"
proof -
  from assms(2) obtain xs where "xs \<in> set (bits_to_vars p)" "v \<in> set xs" by (auto simp: unpacked_def)
  then obtain k where k: "k < length (bits_to_vars p)" "v \<in> set (bits_to_vars p ! k)"
    by (metis in_set_conv_nth)
  with packing_invD(2,4) [OF assms(1)] show "v < length ranges" "v \<in> set (bits_to_vars p ! var_bits ranges v)"
    "var_bits ranges v \<le> BITS_PER_BIN" by (metis less_Suc_eq_le)+
qed

lemma mset_concat_update:
  "k < length bs \<Longrightarrow> mset (concat (bs[k := xs])) + mset (bs ! k) = mset (concat bs) + mset xs"
  by (induction bs arbitrary: k) (auto simp: less_Suc_eq_0_disj)

lemma concat_list_update_butlast:
  assumes "k < length bs" "bs ! k \<noteq> []"
  shows "mset (concat bs) = add_mset (last (bs ! k)) (mset (concat (bs[k := butlast (bs ! k)])))"
proof -
  have "mset (bs ! k) = mset (butlast (bs ! k)) + {# last (bs ! k) #}"
    by (subst append_butlast_last_id [OF assms(2), symmetric]) simp
  then show ?thesis using mset_concat_update [OF assms(1), of "butlast (bs ! k)"] by simp
qed

lemma info_ok_make:
  "shift + get_bit_size_for_range r \<le> 64 \<Longrightarrow> 0 \<le> b \<Longrightarrow> b < int bins \<Longrightarrow>
   info_ok (VariableInfo_make r b shift) (get_bit_size_for_range r) bins"
  by (simp add: info_ok_def VariableInfo_make_def Let_def)

lemma largest_fit_nonempty: "largest_fit bits by_bits \<noteq> 0 \<Longrightarrow> by_bits ! largest_fit bits by_bits \<noteq> []"
  by (induction bits) (auto split: if_splits)

lemma packing_inv_step:
  assumes inv: "packing_inv ranges used p" and "used \<le> BITS_PER_BIN" "0 < num_bins p"
    and bits: "bits = largest_fit (BITS_PER_BIN - used) (bits_to_vars p)" "bits \<noteq> 0"
    and v: "v = last (bits_to_vars p ! bits)"
    and p': "p' = p\<lparr>bits_to_vars := (bits_to_vars p)[bits := butlast (bits_to_vars p ! bits)],
       var_infos := (var_infos p)[v := VariableInfo_make (ranges ! v) (int (num_bins p) - 1) used]\<rparr>"
  shows "packing_inv ranges (used + bits) p'"
    and "Suc (length (concat (bits_to_vars p'))) = length (concat (bits_to_vars p))"
    and "used + bits \<le> BITS_PER_BIN"
proof -
  let ?bs = "bits_to_vars p" and ?infos = "var_infos p"
  let ?bs' = "?bs[bits := butlast (?bs ! bits)]" and ?new = "VariableInfo_make (ranges ! v) (int (num_bins p) - 1) used"
  show le: "used + bits \<le> BITS_PER_BIN"
    using largest_fit_le [of "BITS_PER_BIN - used" ?bs] bits assms(2) by simp
  have len: "length ?bs = Suc BITS_PER_BIN" "length ?infos = length ranges"
    using inv by (simp_all add: packing_inv_def)
  have k: "bits < length ?bs" using le len by simp
  have ne: "?bs ! bits \<noteq> []" using largest_fit_nonempty bits by metis
  have ms: "mset (concat ?bs) = add_mset v (mset (concat ?bs'))"
    using concat_list_update_butlast [OF k ne] v by simp
  show "Suc (length (concat (bits_to_vars p'))) = length (concat ?bs)"
    using arg_cong [OF ms, of size] by (simp add: p')
  have set': "unpacked p = insert v (unpacked p')"
    using arg_cong [OF ms, of set_mset] by (simp only: set_mset_mset unpacked_def p' packing.simps) simp
  have d: "distinct (concat ?bs')" "v \<notin> unpacked p'"
    using inv mset_eq_imp_distinct_iff [of "concat ?bs" "v # concat ?bs'"] ms
    by (auto simp: packing_inv_def unpacked_def p')
  have "v \<in> set (?bs ! bits)" using ne v by simp
  then have vb: "v < length ranges" "var_bits ranges v = bits" using inv k by (auto simp: packing_inv_def)
  have new: "info_ok ?new (var_bits ranges v) (num_bins p)"
    by (rule info_ok_make) (use le vb assms(3) in \<open>auto simp: BITS_PER_BIN_def\<close>)
  have new_fields: "vi_bin_index ?new = int (num_bins p) - 1" "vi_shift ?new = used"
    by (simp_all add: VariableInfo_make_def Let_def)
  have p'_fields: "var_infos p' = ?infos[v := ?new]" "bits_to_vars p' = ?bs'" "num_bins p' = num_bins p"
    by (simp_all add: p')
  have keep: "w \<notin> unpacked p" if "w \<notin> unpacked p'" "w \<noteq> v" for w using that set' by blast
  have below: "vi_bin_index (?infos ! w) = int (num_bins p) - 1 \<Longrightarrow> vi_shift (?infos ! w) + var_bits ranges w \<le> used"
    if "w < length ranges" "w \<notin> unpacked p'" "w \<noteq> v" for w
    using packing_invD(6) [OF inv that(1) keep [OF that(2,3)]] .
  have sep: "separate ranges (?infos[v := ?new]) v w" "separate ranges (?infos[v := ?new]) w v"
    if "w < length ranges" "w \<notin> unpacked p'" "w \<noteq> v" for w
    using below [OF that] that(3) vb(1) by (auto simp: separate_def len new_fields)
  show "packing_inv ranges (used + bits) p'"
  proof (rule packing_invI, unfold p'_fields)
    show "length (?infos[v := ?new]) = length ranges" "length ?bs' = Suc BITS_PER_BIN" "distinct (concat ?bs')"
      using len d by simp_all
    show "w < length ranges \<and> var_bits ranges w = k'" if "k' < length ?bs'" "w \<in> set (?bs' ! k')" for k' w
      using that k packing_invD(4) [OF inv, of k' w] by (cases "k' = bits") (auto dest: in_set_butlastD)
    show "info_ok (?infos[v := ?new] ! w) (var_bits ranges w) (num_bins p) \<and>
      (vi_bin_index (?infos[v := ?new] ! w) = int (num_bins p) - 1 \<longrightarrow>
       vi_shift (?infos[v := ?new] ! w) + var_bits ranges w \<le> used + bits)"
      if "w < length ranges" "w \<notin> unpacked p'" for w
    proof (cases "w = v")
      case True
      with new vb len show ?thesis by (simp add: new_fields)
    next
      case False
      have "info_ok (?infos ! w) (var_bits ranges w) (num_bins p)"
        by (rule packing_invD(5) [OF inv that(1) keep [OF that(2) False]])
      with False below [OF that False] show ?thesis by auto
    qed
    show "separate ranges (?infos[v := ?new]) w u"
      if "w < length ranges" "w \<notin> unpacked p'" "u < length ranges" "u \<notin> unpacked p'" "w \<noteq> u" for w u
    proof (cases "w = v \<or> u = v")
      case True
      with sep that show ?thesis by blast
    next
      case False
      then have "separate ranges ?infos w u"
        using that keep by (intro packing_invD(7) [OF inv]) auto
      with False show ?thesis by (simp add: separate_def)
    qed
  qed
qed

lemma fill_bin_inv:
  assumes "packing_inv ranges used p" "used \<le> BITS_PER_BIN" "0 < num_bins p" "fill_bin ranges used k p = (k', p')"
  shows "(\<exists>used'. packing_inv ranges used' p') \<and> num_bins p' = num_bins p \<and> k \<le> k' \<and>
    k' + length (concat (bits_to_vars p')) = k + length (concat (bits_to_vars p)) \<and>
    (largest_fit (BITS_PER_BIN - used) (bits_to_vars p) \<noteq> 0 \<longrightarrow> k < k')"
  using assms
proof (induction ranges used k p rule: fill_bin.induct)
  case (1 ranges used k p)
  define bits where "bits = largest_fit (BITS_PER_BIN - used) (bits_to_vars p)"
  show ?case
  proof (cases "bits = 0")
    case True
    with 1 show ?thesis by (auto simp: bits_def fill_bin.simps [of ranges used k p])
  next
    case False
    let ?v = "last (bits_to_vars p ! bits)"
    let ?p = "p\<lparr>bits_to_vars := (bits_to_vars p)[bits := butlast (bits_to_vars p ! bits)],
       var_infos := (var_infos p)[?v := VariableInfo_make (ranges ! ?v) (int (num_bins p) - 1) used]\<rparr>"
    note step = packing_inv_step [OF "1.prems"(1-3) bits_def False refl refl]
    have "fill_bin ranges (used + bits) (Suc k) ?p = (k', p')"
      using "1.prems"(4) False by (simp add: fill_bin.simps [of ranges used k p] bits_def [symmetric] Let_def)
    from "1.IH" [OF bits_def False refl step(1,3) _ this] "1.prems"(3) step(2) show ?thesis by auto
  qed
qed

lemma packing_inv_new_bin:
  assumes "packing_inv ranges used p"
  shows "packing_inv ranges 0 (p\<lparr>num_bins := Suc (num_bins p)\<rparr>)"
proof -
  have "info_ok (var_infos p ! v) (var_bits ranges v) (num_bins p)"
    if "v < length ranges" "v \<notin> unpacked p" for v
    using assms that by (simp add: packing_inv_def)
  moreover have "unpacked (p\<lparr>num_bins := n\<rparr>) = unpacked p" for n by (simp add: unpacked_def)
  ultimately show ?thesis using assms by (fastforce simp: packing_inv_def info_ok_def)
qed

lemma bit_size_le: "var_bits ranges v \<le> BITS_PER_BIN"
proof -
  have *: "bit_size_from k r \<le> n" if "r \<le> 2 ^ n" "k \<le> n" for k r n
    using that
  proof (induction k r rule: bit_size_from.induct)
    case (1 k r)
    show ?case
    proof (cases "2 ^ k < r")
      case True
      then have "(2::nat) ^ k < 2 ^ n" using "1.prems"(1) by (rule less_le_trans)
      then have "Suc k \<le> n" by (simp add: Suc_leI)
      with 1 True show ?thesis by (simp add: bit_size_from.simps [of k r])
    next
      case False
      with 1 show ?thesis by (simp add: bit_size_from.simps [of k r])
    qed
  qed
  have "unat (ucast (ranges ! v) :: 32 word) \<le> 2 ^ 64"
    by (rule less_imp_le, rule less_le_trans [OF unsigned_less]) simp
  from * [OF this] show ?thesis by (simp add: get_bit_size_for_range_def BITS_PER_BIN_def)
qed

definition by_size :: "container_int list \<Rightarrow> var_bits \<Rightarrow> bool" where
  "by_size ranges bs \<longleftrightarrow> length bs = Suc BITS_PER_BIN \<and>
     (\<forall>k < length bs. \<forall>v \<in> set (bs ! k). v < length ranges \<and> var_bits ranges v = k)"

lemma index_var_inv:
  assumes "by_size ranges bs" "v < length ranges"
  shows "by_size ranges (index_var ranges v bs)"
    "mset (concat (index_var ranges v bs)) = add_mset v (mset (concat bs))"
proof -
  let ?k = "var_bits ranges v"
  have k: "?k < length bs" using assms(1) bit_size_le [of ranges v] by (simp add: by_size_def less_Suc_eq_le)
  show "mset (concat (index_var ranges v bs)) = add_mset v (mset (concat bs))"
    using mset_concat_update [OF k, of "bs ! ?k @ [v]"] by (simp add: index_var_def Let_def)
  have "w < length ranges \<and> var_bits ranges w = j"
    if "j < length bs" "w \<in> set ((bs[?k := bs ! ?k @ [v]]) ! j)" for j w
  proof (cases "j = ?k \<and> w = v")
    case True
    with assms(2) show ?thesis by blast
  next
    case False
    then have "w \<in> set (bs ! j)" using that k by (cases "j = ?k") auto
    with assms(1) that(1) show ?thesis unfolding by_size_def by blast
  qed
  then show "by_size ranges (index_var ranges v bs)"
    using assms(1) unfolding by_size_def index_var_def Let_def length_list_update by blast
qed

lemma index_by_bits_inv:
  assumes "\<forall>v \<in> set vs. v < length ranges" "by_size ranges bs"
  shows "by_size ranges (fold (index_var ranges) vs bs) \<and>
    mset (concat (fold (index_var ranges) vs bs)) = mset (concat bs) + mset vs"
  using assms
proof (induction vs arbitrary: bs)
  case (Cons v vs)
  have v: "v < length ranges" using Cons.prems(1) by simp
  from Cons.IH [of "index_var ranges v bs"] Cons.prems(1) index_var_inv [OF Cons.prems(2) v] show ?case by simp
qed simp

lemma packing_inv_start:
  "packing_inv ranges 0 (pack_start ranges)"
  "length (concat (bits_to_vars (pack_start ranges))) = length ranges"
  "set (concat (bits_to_vars (pack_start ranges))) = {..<length ranges}"
proof -
  let ?bs = "index_by_bits ranges"
  have "by_size ranges (replicate (Suc BITS_PER_BIN) [])" by (simp add: by_size_def del: replicate_Suc)
  from index_by_bits_inv [OF _ this, of "rev [0..<length ranges]"]
  have *: "by_size ranges ?bs" "mset (concat ?bs) = mset (rev [0..<length ranges])"
    by (simp_all add: index_by_bits_def del: replicate_Suc)
  from *(2) have ms: "mset (concat ?bs) = mset [0..<length ranges]" by simp
  have d: "distinct (concat ?bs)" using mset_eq_imp_distinct_iff [OF ms] by simp
  have s: "set (concat ?bs) = {..<length ranges}" using mset_eq_setD [OF ms] by auto
  show "packing_inv ranges 0 (pack_start ranges)"
  proof (rule packing_invI)
    have "v \<in> unpacked (pack_start ranges)" if "v < length ranges" for v
      using s that by (simp add: pack_start_def unpacked_def del: set_concat)
    then show "\<And>v. v < length ranges \<Longrightarrow> v \<notin> unpacked (pack_start ranges) \<Longrightarrow> P v"
      "\<And>v. v < length ranges \<Longrightarrow> v \<notin> unpacked (pack_start ranges) \<Longrightarrow> Q v" for P Q :: "nat \<Rightarrow> bool" by blast+
  qed (use *(1) d in \<open>simp_all add: pack_start_def by_size_def\<close>)
  show "length (concat (bits_to_vars (pack_start ranges))) = length ranges"
    using arg_cong [OF ms, of size] by (simp add: pack_start_def del: length_concat)
  show "set (concat (bits_to_vars (pack_start ranges))) = {..<length ranges}"
    using s by (simp add: pack_start_def)
qed

lemma largest_fit_zero: "largest_fit n bs = 0 \<Longrightarrow> 0 < k \<Longrightarrow> k \<le> n \<Longrightarrow> bs ! k = []"
  by (induction n) (auto split: if_splits simp: le_Suc_eq)

lemma pack_one_bin_inv:
  assumes "packing_inv ranges used p" "pack_one_bin ranges p = (k, p')"
  shows "\<exists>used'. packing_inv ranges used' p'" "k + length (concat (bits_to_vars p')) = length (concat (bits_to_vars p))"
    "v \<in> set (concat (bits_to_vars p)) \<Longrightarrow> 0 < var_bits ranges v \<Longrightarrow> 0 < k"
proof -
  note new = packing_inv_new_bin [OF assms(1)]
  note out = fill_bin_inv [OF new _ _ assms(2) [unfolded pack_one_bin_def]]
  then show "\<exists>used'. packing_inv ranges used' p'"
    "k + length (concat (bits_to_vars p')) = length (concat (bits_to_vars p))"
    by (simp_all add: BITS_PER_BIN_def)
  assume v: "v \<in> set (concat (bits_to_vars p))" "0 < var_bits ranges v"
  then have "bits_to_vars p ! var_bits ranges v \<noteq> []" "var_bits ranges v \<le> BITS_PER_BIN"
    using unpacked_cases [OF assms(1), of v] by (auto simp: unpacked_def)
  then have "largest_fit BITS_PER_BIN (bits_to_vars p) \<noteq> 0"
    using largest_fit_zero v(2) by blast
  then show "0 < k" using out by (simp add: BITS_PER_BIN_def)
qed

lemma pack_loop_returns:
  assumes "\<forall>v < length ranges. 0 < var_bits ranges v" "packing_inv ranges used p"
    "n + length (concat (bits_to_vars p)) = length ranges"
  shows "\<exists>p' used'. pack_loop ranges n p = Some p' \<and> packing_inv ranges used' p' \<and> concat (bits_to_vars p') = []"
  using assms(2,3)
proof (induction "length (concat (bits_to_vars p))" arbitrary: n p used rule: less_induct)
  case less
  show ?case
  proof (cases "n = length ranges")
    case True
    moreover have "concat (bits_to_vars p) = []"
      using less.prems(2) True by (simp only: length_0_conv [symmetric])
    moreover have "pack_loop ranges n p = Some p" using True by (subst pack_loop.simps) simp
    ultimately show ?thesis using less.prems(1) by blast
  next
    case False
    then obtain v where v: "v \<in> set (concat (bits_to_vars p))"
      using less.prems(2) by (metis add.right_neutral last_in_set list.size(3))
    then have "v < length ranges" using unpacked_cases [OF less.prems(1)] by (simp only: unpacked_def)
    obtain k p' where one: "pack_one_bin ranges p = (k, p')" by fastforce
    note out = pack_one_bin_inv [OF less.prems(1) one]
    have "0 < k" using out(3) [OF v] assms(1) \<open>v < length ranges\<close> by simp
    moreover obtain used' where "packing_inv ranges used' p'" using out(1) by blast
    moreover have "(n + k) + length (concat (bits_to_vars p')) = length ranges"
      using out(2) less.prems(2) by simp
    ultimately have "\<exists>p'' used'. pack_loop ranges (n + k) p' = Some p'' \<and> packing_inv ranges used' p'' \<and>
        concat (bits_to_vars p'') = []"
      using out(2) by (intro less.hyps) auto
    with False show ?thesis by (simp add: pack_loop.simps [of ranges n p] one)
  qed
qed

lemma largest_fit_pos_index: "bs[largest_fit n bs' := x] ! 0 = (if largest_fit n bs' = 0 \<and> 0 < length bs then x else bs ! 0)"
  by (cases bs) (auto split: nat.split)

lemma fill_bin_zero: "fill_bin ranges used k p = (k', p') \<Longrightarrow> bits_to_vars p' ! 0 = bits_to_vars p ! 0"
proof (induction ranges used k p rule: fill_bin.induct)
  case (1 ranges used k p)
  define bits where "bits = largest_fit (BITS_PER_BIN - used) (bits_to_vars p)"
  show ?case
  proof (cases "bits = 0")
    case True
    with 1 show ?thesis by (auto simp: bits_def fill_bin.simps [of ranges used k p])
  next
    case False
    with "1.prems" "1.IH" [OF bits_def False refl] show ?thesis
      by (simp add: fill_bin.simps [of ranges used k p] bits_def [symmetric] Let_def)
  qed
qed

text \<open>A variable that needs no bits is never packed, so the loop goes on for ever.\<close>

lemma pack_loop_stuck:
  assumes "pack_loop ranges n p = Some q"
  shows "\<forall>used. packing_inv ranges used p \<longrightarrow> n + length (concat (bits_to_vars p)) = length ranges \<longrightarrow>
    bits_to_vars p ! 0 = []"
proof (rule pack_loop.raw_induct [where P = "\<lambda>ranges n p q. \<forall>used. packing_inv ranges used p \<longrightarrow>
    n + length (concat (bits_to_vars p)) = length ranges \<longrightarrow> bits_to_vars p ! 0 = []", OF _ assms])
  fix f ranges n p q
  assume IH: "\<And>ranges n p q. f ranges n p = Some q \<Longrightarrow> \<forall>used. packing_inv ranges used p \<longrightarrow>
      n + length (concat (bits_to_vars p)) = length ranges \<longrightarrow> bits_to_vars p ! 0 = []"
    and f: "(if n = length ranges then Some p
      else f ranges (n + fst (pack_one_bin ranges p)) (snd (pack_one_bin ranges p))) = Some q"
  show "\<forall>used. packing_inv ranges used p \<longrightarrow>
      n + length (concat (bits_to_vars p)) = length ranges \<longrightarrow> bits_to_vars p ! 0 = []"
  proof (intro allI impI)
    fix used assume p: "packing_inv ranges used p" "n + length (concat (bits_to_vars p)) = length ranges"
    then have ne: "bits_to_vars p \<noteq> []" by (auto simp: packing_inv_def)
    obtain k p' where one: "pack_one_bin ranges p = (k, p')" by fastforce
    note out = pack_one_bin_inv [OF p(1) one]
    show "bits_to_vars p ! 0 = []"
    proof (cases "n = length ranges")
      case True
      then have "concat (bits_to_vars p) = []" using p(2) by (simp del: length_concat concat_eq_Nil_conv)
      then show ?thesis using ne by (cases "bits_to_vars p") auto
    next
      case False
      with f have "f ranges (n + k) p' = Some q" by (simp add: one)
      from IH [OF this] out p(2) have "bits_to_vars p' ! 0 = []" by (auto simp del: length_concat)
      then show ?thesis using fill_bin_zero one by (simp add: pack_one_bin_def)
    qed
  qed
qed

section \<open>The domain of a variable\<close>

lemma bit_size_from_bound: "r \<le> 2 ^ bit_size_from k r"
proof (induction k r rule: bit_size_from.induct)
  case (1 k r)
  then show ?case by (cases "2 ^ k < r") (simp_all add: bit_size_from.simps [of k r])
qed

text \<open>The ranges the packer is made for: a 32-bit number, or the whole word for a double.\<close>

definition in_domain :: "container_int \<Rightarrow> container_int \<Rightarrow> bool" where
  "in_domain dom_size x \<longleftrightarrow> dom_size = - 1 \<or> unat dom_size < 2 ^ 32 \<and> x < dom_size"

lemma in_domain_fits: "in_domain r x \<Longrightarrow> fits (get_bit_size_for_range r) x"
proof (cases "r = - 1")
  case True
  then show ?thesis
    by (simp add: fits_def get_bit_size_for_range_def BITS_PER_BIN_def take_bit_word_eq_self)
next
  case False
  assume "in_domain r x"
  with False have r: "unat r < 2 ^ 32" "unat x < unat r" by (simp_all add: in_domain_def word_less_nat_alt)
  have "unat (ucast r :: 32 word) = unat r"
    using r(1) by (simp add: unsigned_ucast_eq take_bit_nat_eq_self)
  then have "unat r \<le> 2 ^ get_bit_size_for_range r"
    using bit_size_from_bound [of "unat r" 0] False by (simp add: get_bit_size_for_range_def)
  with r(2) have "unat x < 2 ^ get_bit_size_for_range r" by simp
  then have "take_bit (get_bit_size_for_range r) (unat x) = unat x" by (simp add: take_bit_nat_eq_self)
  then show ?thesis by (simp add: fits_def unsigned_take_bit_eq [symmetric] flip: word_unat_eq_iff)
qed

lemma pack_bins_inv:
  assumes "pack_bins ranges = Some p" "\<forall>r \<in> set ranges. 0 < get_bit_size_for_range r"
  shows "\<exists>used. packing_inv ranges used p \<and> unpacked p = {}"
proof -
  have "\<forall>v < length ranges. 0 < var_bits ranges v" using assms(2) by simp
  from pack_loop_returns [OF this packing_inv_start(1), of 0] packing_inv_start(2) assms(1)
  show ?thesis by (auto simp: pack_bins_def unpacked_def simp del: length_concat)
qed

lemma pack_bins_returns:
  "(\<exists>p. pack_bins ranges = Some p) \<longleftrightarrow> (\<forall>r \<in> set ranges. 0 < get_bit_size_for_range r)"
proof
  assume "\<forall>r \<in> set ranges. 0 < get_bit_size_for_range r"
  then have "\<forall>v < length ranges. 0 < var_bits ranges v" by simp
  from pack_loop_returns [OF this packing_inv_start(1), of 0] packing_inv_start(2)
  show "\<exists>p. pack_bins ranges = Some p" by (auto simp: pack_bins_def simp del: length_concat)
next
  assume "\<exists>p. pack_bins ranges = Some p"
  then obtain p where "pack_loop ranges 0 (pack_start ranges) = Some p" by (auto simp: pack_bins_def)
  from pack_loop_stuck [OF this] packing_inv_start(1,2) [of ranges]
  have zero: "bits_to_vars (pack_start ranges) ! 0 = []" by (metis add_0)
  show "\<forall>r \<in> set ranges. 0 < get_bit_size_for_range r"
  proof
    fix r assume "r \<in> set ranges"
    then obtain v where v: "v < length ranges" "ranges ! v = r" by (auto simp: in_set_conv_nth)
    then have "v \<in> unpacked (pack_start ranges)" using packing_inv_start(3) by (simp add: unpacked_def del: set_concat)
    from unpacked_cases(2) [OF packing_inv_start(1) this] zero v(2)
    show "0 < get_bit_size_for_range r" by (cases "get_bit_size_for_range r") auto
  qed
qed

section \<open>A buffer as a store of values\<close>

text \<open>
  What the rest of the planner relies on: a value written to a variable is read back, and the
  other variables keep theirs.
\<close>

locale value_store =
  fixes valid :: "'b \<Rightarrow> bool"
    and readable :: "nat \<Rightarrow> bool"
    and admits :: "nat \<Rightarrow> 'v \<Rightarrow> bool"
    and get :: "'b \<Rightarrow> nat \<Rightarrow> 'v"
    and put :: "'b \<Rightarrow> nat \<Rightarrow> 'v \<Rightarrow> 'b"
  assumes valid_put: "valid b \<Longrightarrow> admits v x \<Longrightarrow> valid (put b v x)"
    and get_put_same: "valid b \<Longrightarrow> admits v x \<Longrightarrow> get (put b v x) v = x"
    and get_put_other: "valid b \<Longrightarrow> admits v x \<Longrightarrow> readable w \<Longrightarrow> w \<noteq> v \<Longrightarrow> get (put b v x) w = get b w"
begin

lemma valid_writes:
  "valid b \<Longrightarrow> (\<And>v x. (v, x) \<in> set ws \<Longrightarrow> admits v x) \<Longrightarrow> valid (foldl (\<lambda>b (v, x). put b v x) b ws)"
  by (induction ws arbitrary: b) (auto simp: valid_put)

text \<open>After a sequence of writes every variable has the last value written to it.\<close>

lemma get_writes:
  assumes "valid b" "\<And>v x. (v, x) \<in> set ws \<Longrightarrow> admits v x" "readable w"
  shows "get (foldl (\<lambda>b (v, x). put b v x) b ws) w = (case map_of (rev ws) w of None \<Rightarrow> get b w | Some x \<Rightarrow> x)"
  using assms
proof (induction ws rule: rev_induct)
  case (snoc vx ws)
  obtain v x where vx: "vx = (v, x)" by (cases vx)
  have valid: "valid (foldl (\<lambda>b (v, x). put b v x) b ws)" using snoc.prems by (intro valid_writes) auto
  show ?case
  proof (cases "w = v")
    case True
    then show ?thesis using valid snoc.prems vx by (simp add: get_put_same)
  next
    case False
    then show ?thesis using valid snoc vx by (simp add: get_put_other)
  qed
qed simp

lemma get_writes_distinct:
  assumes "valid b" "\<And>v x. (v, x) \<in> set ws \<Longrightarrow> admits v x" "readable w" "distinct (map fst ws)"
  shows "get (foldl (\<lambda>b (v, x). put b v x) b ws) w = (case map_of ws w of None \<Rightarrow> get b w | Some x \<Rightarrow> x)"
proof -
  have "map_of (rev ws) = map_of ws" using assms(4) by (intro map_of_inject_set [THEN iffD2]) (simp_all flip: rev_map)
  then show ?thesis using get_writes [OF assms(1-3)] by simp
qed

end

lemma packed_info_ok:
  assumes "pack_bins ranges = Some p" "v < length ranges"
  shows "info_ok (var_infos p ! v) (var_bits ranges v) (num_bins p)"
    and "w < length ranges \<Longrightarrow> v \<noteq> w \<Longrightarrow> separate ranges (var_infos p) v w"
proof -
  have "\<forall>r \<in> set ranges. 0 < get_bit_size_for_range r" using assms(1) pack_bins_returns by blast
  from pack_bins_inv [OF assms(1) this] obtain used where inv: "packing_inv ranges used p" "unpacked p = {}"
    by blast
  show "info_ok (var_infos p ! v) (var_bits ranges v) (num_bins p)"
    using packing_invD(5) [OF inv(1) assms(2)] inv(2) by simp
  show "separate ranges (var_infos p) v w" if "w < length ranges" "v \<noteq> w"
    by (rule packing_invD(7) [OF inv(1) assms(2)]) (use inv(2) that in auto)
qed

interpretation packed: value_store
  "\<lambda>buffer. pack_bins ranges = Some p \<and> length buffer = num_bins p"
  "\<lambda>v. v < length ranges"
  "\<lambda>v x. v < length ranges \<and> in_domain (ranges ! v) x"
  "packer_get p" "packer_set p"
  for ranges p
proof unfold_locales
  fix b :: "container_int list" and v and x :: container_int
  assume b: "pack_bins ranges = Some p \<and> length b = num_bins p"
    and v: "v < length ranges \<and> in_domain (ranges ! v) x"
  then have ok: "info_ok (var_infos p ! v) (var_bits ranges v) (length b)" and fit: "fits (var_bits ranges v) x"
    using packed_info_ok(1) by (auto simp: in_domain_fits)
  show "pack_bins ranges = Some p \<and> length (packer_set p b v x) = num_bins p"
    using b by (simp add: packer_set_def VariableInfo_set_def)
  show "packer_get p (packer_set p b v x) v = x"
    using get_set_same [OF ok fit] by (simp add: packer_get_def packer_set_def)
  fix w assume w: "w < length ranges" "w \<noteq> v"
  have "info_ok (var_infos p ! w) (var_bits ranges w) (length b)" using packed_info_ok(1) [of ranges p w] b w by simp
  moreover have "separate ranges (var_infos p) v w" using packed_info_ok(2) [of ranges p v w] b v w by simp
  ultimately show "packer_get p (packer_set p b v x) w = packer_get p b w"
    unfolding packer_get_def packer_set_def
    by (intro get_set_other [OF ok _ fit]) (simp_all add: separate_def)
qed

section \<open>Properties\<close>

text \<open>
  C25. The greedy packing returns for every list of ranges whose variables need at least one bit
  each, and never returns when some variable needs none (a range of at most one value).
\<close>

theorem int_packer_returns:
  "(\<exists>p. pack_bins ranges = Some p) \<longleftrightarrow> (\<forall>r \<in> set ranges. get_bit_size_for_range r \<noteq> 0)"
  using pack_bins_returns [of ranges] by simp

theorem int_packer_returns_witness: "\<exists>p. pack_bins [3, 2, - 1] = Some p"
  using int_packer_returns [of "[3, 2, - 1]"]
  by (simp add: get_bit_size_for_range_def bit_size_from.simps BITS_PER_BIN_def)

text \<open>
  C26. Every packed variable has a field inside one of the bins, and the fields of different
  variables do not overlap.
\<close>

theorem int_packer_fields_disjoint:
  assumes "pack_bins ranges = Some p" "v < length ranges" "w < length ranges" "v \<noteq> w"
  shows "0 \<le> vi_bin_index (var_infos p ! v) \<and> vi_bin_index (var_infos p ! v) < int (num_bins p) \<and>
    vi_shift (var_infos p ! v) + get_bit_size_for_range (ranges ! v) \<le> BITS_PER_BIN \<and>
    (vi_bin_index (var_infos p ! v) \<noteq> vi_bin_index (var_infos p ! w) \<or>
     vi_shift (var_infos p ! v) + get_bit_size_for_range (ranges ! v) \<le> vi_shift (var_infos p ! w) \<or>
     vi_shift (var_infos p ! w) + get_bit_size_for_range (ranges ! w) \<le> vi_shift (var_infos p ! v))"
  using packed_info_ok(1) [OF assms(1,2)] packed_info_ok(2) [OF assms(1-4)]
  by (auto simp: info_ok_def separate_def BITS_PER_BIN_def)

theorem int_packer_fields_disjoint_witness:
  "\<exists>p. pack_bins [3, 2, - 1] = Some p \<and> vi_bin_index (var_infos p ! 2) < int (num_bins p)"
proof -
  obtain p where p: "pack_bins [3, 2, - 1] = Some p"
    using pack_bins_returns [of "[3, 2, - 1]"]
    by (auto simp: get_bit_size_for_range_def bit_size_from.simps BITS_PER_BIN_def)
  from int_packer_fields_disjoint [OF p, of 2 0] p show ?thesis by simp
qed

text \<open>
  C27. Reading a variable after writing it gives the value written, provided the value is in the
  domain of the variable, and every other variable keeps its value.
\<close>

theorem int_packer_set_get:
  assumes "pack_bins ranges = Some p" "length buffer = num_bins p" "v < length ranges"
    "ranges ! v = - 1 \<or> unat (ranges ! v) < 2 ^ 32 \<and> x < ranges ! v"
  shows "packer_get p (packer_set p buffer v x) v = x \<and>
    (\<forall>w < length ranges. w \<noteq> v \<longrightarrow> packer_get p (packer_set p buffer v x) w = packer_get p buffer w) \<and>
    length (packer_set p buffer v x) = num_bins p"
  using packed.get_put_same [of ranges p buffer v x] packed.get_put_other [of ranges p buffer v x]
    packed.valid_put [of ranges p buffer v x] assms
  by (simp add: in_domain_def)

theorem int_packer_set_get_witness:
  "\<exists>p. pack_bins [3, 2, - 1] = Some p \<and> packer_get p (packer_set p (replicate (num_bins p) 0) 0 2) 0 = 2"
proof -
  obtain p where p: "pack_bins [3, 2, - 1] = Some p"
    using pack_bins_returns [of "[3, 2, - 1]"]
    by (auto simp: get_bit_size_for_range_def bit_size_from.simps BITS_PER_BIN_def)
  from int_packer_set_get [OF p, of "replicate (num_bins p) 0" 0 2] p show ?thesis by simp
qed

text \<open>
  C28. A double written to a variable of full range is read back bit for bit, infinities and
  not-a-number included.
\<close>

theorem int_packer_double_round_trip:
  assumes "pack_bins ranges = Some p" "length buffer = num_bins p" "v < length ranges" "ranges ! v = - 1"
  shows "packer_getDouble p (packer_setDouble p buffer v x) v = x"
  using packed.get_put_same [of ranges p buffer v "packDouble x"] assms
  by (simp add: in_domain_def packer_getDouble_def packer_setDouble_def packer_get_def packer_set_def
      unpackDouble_def packDouble_def)

theorem int_packer_double_round_trip_witness:
  "\<exists>p. pack_bins [3, 2, - 1] = Some p \<and>
     packer_getDouble p (packer_setDouble p (replicate (num_bins p) 0) 2 ap_nan) 2 = ap_nan"
proof -
  obtain p where p: "pack_bins [3, 2, - 1] = Some p"
    using pack_bins_returns [of "[3, 2, - 1]"]
    by (auto simp: get_bit_size_for_range_def bit_size_from.simps BITS_PER_BIN_def)
  from int_packer_double_round_trip [OF p, of "replicate (num_bins p) 0" 2 ap_nan] p show ?thesis by simp
qed

text \<open>
  The assertion of \<open>set\<close> admits the value \<open>range\<close> itself, which may overwrite a neighbour; and a
  range of \<open>2 ^ 32\<close> is taken for a range that needs no bits.
\<close>

lemma packer_set_admits_overflow:
  "map_option (\<lambda>p. (packer_get p [0] 1, packer_get p (packer_set p [0] 0 2) 1)) (pack_bins [2, 2]) = Some (0, 1)"
proof -
  let ?p = "snd (pack_one_bin [2, 2] (pack_start [2, 2]))"
  have "fst (pack_one_bin [2, 2] (pack_start [2, 2])) = 2" by code_simp
  then have "pack_bins [2, 2] = Some ?p"
    unfolding pack_bins_def by (subst pack_loop.simps, simp, subst pack_loop.simps, simp)
  moreover have "packer_get ?p [0] 1 = 0" "packer_get ?p (packer_set ?p [0] 0 2) 1 = 1" by code_simp+
  ultimately show ?thesis by simp
qed

lemma range_cut_to_32_bits: "get_bit_size_for_range (2 ^ 32) = 0"
  by code_simp

end
