(* ===== verification/Planning_Task.thy ===== *)
theory Planning_Task
  imports Int_Packer
begin

text \<open>
  The numeric planning task the search works on: the enumerations of \<open>globals.h\<close>, the facts,
  operators and axioms of \<open>global_operator.h\<close> and \<open>axioms.h\<close>, and the global variables of
  \<open>globals.cc\<close> that hold a task, gathered in one record. Variables are indices into the
  vectors of the task; a state is seen as the function its \<open>operator[]\<close> is, from variables to
  values.
\<close>

section \<open>Enumerations\<close>

datatype f_operator = assign | scale_up | scale_down | increase | decrease

datatype cal_operator = cal_sum | cal_diff | cal_mult | cal_divi

datatype comp_operator = comp_lt | comp_le | comp_eq | comp_ge | comp_gt | comp_ue

datatype numType = num_unknown | num_constant | num_derived | num_instrumentation | num_regular

fun get_inverse_op :: "comp_operator \<Rightarrow> comp_operator" where
  "get_inverse_op comp_lt = comp_ge"
| "get_inverse_op comp_le = comp_gt"
| "get_inverse_op comp_eq = comp_ue"
| "get_inverse_op comp_ge = comp_lt"
| "get_inverse_op comp_gt = comp_le"
| "get_inverse_op comp_ue = comp_eq"

fun get_mirror_op :: "comp_operator \<Rightarrow> comp_operator" where
  "get_mirror_op comp_lt = comp_gt"
| "get_mirror_op comp_le = comp_ge"
| "get_mirror_op comp_eq = comp_eq"
| "get_mirror_op comp_ge = comp_le"
| "get_mirror_op comp_gt = comp_lt"
| "get_mirror_op comp_ue = comp_ue"

fun get_inverse_cal_op :: "cal_operator \<Rightarrow> cal_operator" where
  "get_inverse_cal_op cal_sum = cal_diff"
| "get_inverse_cal_op cal_diff = cal_sum"
| "get_inverse_cal_op cal_mult = cal_divi"
| "get_inverse_cal_op cal_divi = cal_mult"

section \<open>Conditions, effects, operators, axioms\<close>

type_synonym valuation = "nat \<Rightarrow> container_int"

record GlobalCondition =
  cond_var :: nat
  cond_val :: container_int

definition condition_is_applicable :: "valuation \<Rightarrow> GlobalCondition \<Rightarrow> bool" where
  "condition_is_applicable state c \<longleftrightarrow> state (cond_var c) = cond_val c"

record GlobalEffect =
  eff_var :: nat
  eff_val :: container_int
  eff_conditions :: "GlobalCondition list"

definition does_fire :: "valuation \<Rightarrow> GlobalEffect \<Rightarrow> bool" where
  "does_fire state e = list_all (condition_is_applicable state) (eff_conditions e)"

record AssignEffect =
  aff_var :: nat
  ass_fop :: f_operator
  ass_var :: nat
  is_conditional_effect :: bool
  ass_conditions :: "GlobalCondition list"

record GlobalOperator =
  is_an_axiom :: bool
  preconditions :: "GlobalCondition list"
  op_effects :: "GlobalEffect list"
  assign_effects :: "AssignEffect list"
  op_name :: string
  op_cost :: ap_float

definition operator_is_applicable :: "valuation \<Rightarrow> GlobalOperator \<Rightarrow> bool" where
  "operator_is_applicable state oper = list_all (condition_is_applicable state) (preconditions oper)"

record PropositionalAxiom =
  pax_affected :: nat
  pax_layer :: int
  pax_conditions :: "GlobalCondition list"
  pax_effects :: "GlobalEffect list"

record ComparisonAxiom =
  cax_affected :: nat
  cax_lhs :: nat
  cax_rhs :: nat
  cax_op :: comp_operator

record AssignmentAxiom =
  aax_affected :: nat
  aax_lhs :: nat
  aax_rhs :: nat
  aax_op :: cal_operator

text \<open>The constructor that turns an axiom into an operator for the heuristics.\<close>

definition axiom_as_operator :: "PropositionalAxiom \<Rightarrow> GlobalOperator" where
  "axiom_as_operator ax = \<lparr>is_an_axiom = True, preconditions = pax_conditions ax,
     op_effects = pax_effects ax, assign_effects = [], op_name = ''OpLogicAxiom'', op_cost = ap_zero False\<rparr>"

section \<open>The task\<close>

type_synonym Fact = "nat \<times> nat"

record task =
  g_use_metric :: bool
  g_metric_minimizes :: bool
  g_metric_fluent_id :: int
  g_min_action_cost :: ap_float
  g_max_action_cost :: ap_float
  g_variable_name :: "string list"
  g_variable_domain :: "container_int list"
  g_fact_names :: "string list list"
  g_axiom_layers :: "int list"
  g_default_axiom_values :: "container_int list"
  g_numeric_axiom_layers :: "int list"
  g_numeric_var_names :: "string list"
  g_numeric_var_types :: "numType list"
  g_inconsistent_facts :: "Fact set list list"
  g_mutex_group :: "Fact set list"
  g_initial_state_data :: "container_int list"
  g_initial_state_numeric :: "ap_float list"
  g_init_constant_facts :: "string list"
  g_goal :: "(nat \<times> container_int) list"
  g_operators :: "GlobalOperator list"
  g_logic_axioms :: "PropositionalAxiom list"
  g_axioms_as_operator :: "GlobalOperator list"
  g_comp_axioms :: "ComparisonAxiom list"
  g_ass_axioms :: "AssignmentAxiom list"
  g_global_constraint_var_id :: int
  g_global_constraint_val :: int
  g_last_arithmetic_axiom_layer :: int

definition has_logic_axioms :: "task \<Rightarrow> bool" where
  "has_logic_axioms t \<longleftrightarrow> g_logic_axioms t \<noteq> []"

definition has_numeric_axioms :: "task \<Rightarrow> bool" where
  "has_numeric_axioms t \<longleftrightarrow> g_ass_axioms t \<noteq> [] \<or> g_comp_axioms t \<noteq> []"

definition has_axioms :: "task \<Rightarrow> bool" where
  "has_axioms t \<longleftrightarrow> has_logic_axioms t \<or> has_numeric_axioms t"

definition test_goal :: "task \<Rightarrow> valuation \<Rightarrow> bool" where
  "test_goal t state = list_all (\<lambda>(v, x). state v = x) (g_goal t)"

definition calculate_plan_cost :: "GlobalOperator list \<Rightarrow> ap_float" where
  "calculate_plan_cost plan = foldl (\<lambda>c oper. ap_add c (op_cost oper)) (ap_zero False) plan"

definition is_unit_cost :: "task \<Rightarrow> bool" where
  "is_unit_cost t \<longleftrightarrow> ap_eq (g_min_action_cost t) (ap_of_int 1) \<and> ap_eq (g_max_action_cost t) (ap_of_int 1)"

text \<open>The index of the first operator with a conditional effect, \<open>-1\<close> if there is none.\<close>

fun first_conditional_from :: "int \<Rightarrow> GlobalOperator list \<Rightarrow> int" where
  "first_conditional_from i [] = - 1"
| "first_conditional_from i (oper # opers) =
    (if list_ex (\<lambda>e. eff_conditions e \<noteq> []) (op_effects oper) then i else first_conditional_from (i + 1) opers)"

definition get_first_conditional_effects_op_id :: "task \<Rightarrow> int" where
  "get_first_conditional_effects_op_id t = first_conditional_from 0 (g_operators t)"

definition has_conditional_effects :: "task \<Rightarrow> bool" where
  "has_conditional_effects t \<longleftrightarrow> get_first_conditional_effects_op_id t \<noteq> - 1"

definition are_mutex :: "task \<Rightarrow> Fact \<Rightarrow> Fact \<Rightarrow> bool" where
  "are_mutex t a b =
    (if fst a = fst b then snd a \<noteq> snd b else b \<in> g_inconsistent_facts t ! fst a ! snd a)"

text \<open>
  The ranges handed to the state packer: the propositional variables, then one full word for every
  numeric variable that is neither a constant nor an instrumentation variable.
\<close>

definition statespace_sizes :: "task \<Rightarrow> container_int list" where
  "statespace_sizes t =
    (let numeric_constants = length (filter (\<lambda>ty. ty = num_constant) (g_numeric_var_types t));
         instrumentation_vars = length (filter (\<lambda>ty. ty = num_instrumentation) (g_numeric_var_types t));
         regular_variables = length (g_numeric_var_names t) - numeric_constants - instrumentation_vars
     in g_variable_domain t @ replicate regular_variables (- 1))"

lemma first_conditional_from_none:
  "0 \<le> i \<Longrightarrow> first_conditional_from i opers \<noteq> - 1 \<longleftrightarrow> (\<exists>oper \<in> set opers. \<exists>e \<in> set (op_effects oper). eff_conditions e \<noteq> [])"
  by (induction i opers rule: first_conditional_from.induct) (auto simp: list_ex_iff)

lemma has_conditional_effects_iff:
  "has_conditional_effects t \<longleftrightarrow> (\<exists>oper \<in> set (g_operators t). \<exists>e \<in> set (op_effects oper). eff_conditions e \<noteq> [])"
  by (simp add: has_conditional_effects_def get_first_conditional_effects_op_id_def first_conditional_from_none)

end
