(* ===== verification/Axiom_Evaluator.thy ===== *)
theory Axiom_Evaluator
  imports Planning_Task
begin

text \<open>
  \<open>AxiomEvaluator\<close> of \<open>axioms.h\<close> and \<open>axioms.cc\<close>: the tables its constructor builds from the
  task and the evaluation of the three kinds of axioms on a packed state. A pointer to a literal
  is the variable and the value it stands for, a pointer to a rule is its index. The queue is
  used as a stack, its head is \<open>queue.back()\<close>. The three layer numbers the constructor stores in
  globals are fields of the evaluator.
\<close>

section \<open>State\<close>

type_synonym literal = "nat \<times> container_int"

record AxiomRule =
  condition_count :: int
  unsatisfied_conditions :: int
  effect_var :: nat
  effect_val :: container_int
  effect_literal :: literal

record NegationByFailureInfo =
  nbf_var_no :: nat
  nbf_literal :: literal

record AxiomEvaluator =
  axiom_literals :: "nat list list list"
  rules :: "AxiomRule list"
  nbf_info_by_layer :: "NegationByFailureInfo list list"
  ax_queue :: "literal list"
  g_comparison_axiom_layer :: int
  g_first_logic_axiom_layer :: int
  g_last_logic_axiom_layer :: int

section \<open>Constructor\<close>

text \<open>One variable of the loop that finds the first and the last layer of the derived variables.\<close>

definition note_axiom_layer :: "int \<Rightarrow> int \<times> int \<Rightarrow> int \<times> int" where
  "note_axiom_layer layer bnds =
    (if layer = - 1 then bnds
     else (if layer < fst bnds \<or> fst bnds = - 1 then layer else fst bnds, max (snd bnds) layer))"

definition logic_layer_bounds :: "task \<Rightarrow> int \<times> int" where
  "logic_layer_bounds t = fold note_axiom_layer (g_axiom_layers t) (- 1, - 1)"

definition AxiomRule_of :: "PropositionalAxiom \<Rightarrow> AxiomRule" where
  "AxiomRule_of ax =
    (let cond_count = int (length (pax_conditions ax)); var = pax_affected ax; val = eff_val (pax_effects ax ! 0)
     in \<lparr>condition_count = cond_count, unsatisfied_conditions = cond_count,
         effect_var = var, effect_val = val, effect_literal = (var, val)\<rparr>)"

definition add_condition_of :: "nat \<Rightarrow> GlobalCondition \<Rightarrow> nat list list list \<Rightarrow> nat list list list" where
  "add_condition_of i c lits =
    lits[cond_var c := (lits ! cond_var c)[unat (cond_val c) := lits ! cond_var c ! unat (cond_val c) @ [i]]]"

definition cross_reference :: "nat \<times> PropositionalAxiom \<Rightarrow> nat list list list \<Rightarrow> nat list list list" where
  "cross_reference iax = fold (add_condition_of (fst iax)) (pax_conditions (snd iax))"

definition last_axiom_layer :: "task \<Rightarrow> int" where
  "last_axiom_layer t = fold (\<lambda>layer m. max m layer) (g_axiom_layers t) (- 1)"

definition add_nbf_info :: "task \<Rightarrow> nat \<Rightarrow> NegationByFailureInfo list list \<Rightarrow> NegationByFailureInfo list list" where
  "add_nbf_info t var_no infos =
    (let layer = g_axiom_layers t ! var_no
     in if layer \<noteq> - 1 \<and> layer \<noteq> last_axiom_layer t
        then infos[nat layer := infos ! nat layer @
          [\<lparr>nbf_var_no = var_no, nbf_literal = (var_no, g_default_axiom_values t ! var_no)\<rparr>]]
        else infos)"

definition AxiomEvaluator_make :: "task \<Rightarrow> AxiomEvaluator" where
  "AxiomEvaluator_make t =
    (let (lo, hi) = logic_layer_bounds t;
         with_comparison = 0 \<le> lo \<and> g_comp_axioms t \<noteq> [];
         blank = map (\<lambda>dom_size. replicate (unat dom_size) []) (g_variable_domain t)
     in \<lparr>axiom_literals = fold cross_reference (zip [0..<length (g_logic_axioms t)] (g_logic_axioms t)) blank,
         rules = map AxiomRule_of (g_logic_axioms t),
         nbf_info_by_layer = fold (add_nbf_info t) [0..<length (g_axiom_layers t)]
           (replicate (nat (last_axiom_layer t + 1)) []),
         ax_queue = [],
         g_comparison_axiom_layer = (if with_comparison then lo else - 1),
         g_first_logic_axiom_layer = (if with_comparison then lo + 1 else lo),
         g_last_logic_axiom_layer = hi\<rparr>)"

section \<open>Arithmetic and comparison axioms\<close>

fun calculate :: "cal_operator \<Rightarrow> ap_float \<Rightarrow> ap_float \<Rightarrow> ap_float" where
  "calculate cal_sum l r = ap_add l r"
| "calculate cal_diff l r = ap_sub l r"
| "calculate cal_mult l r = ap_mul l r"
| "calculate cal_divi l r = ap_div l r"

definition apply_assignment_axiom :: "ap_float list \<Rightarrow> AssignmentAxiom \<Rightarrow> ap_float list" where
  "apply_assignment_axiom numeric_state ax =
    numeric_state[aax_affected ax := calculate (aax_op ax) (numeric_state ! aax_lhs ax) (numeric_state ! aax_rhs ax)]"

definition evaluate_arithmetic_axioms :: "task \<Rightarrow> ap_float list \<Rightarrow> ap_float list" where
  "evaluate_arithmetic_axioms t numeric_state = foldl apply_assignment_axiom numeric_state (g_ass_axioms t)"

fun compare_values :: "comp_operator \<Rightarrow> ap_float \<Rightarrow> ap_float \<Rightarrow> bool" where
  "compare_values comp_lt l r = ap_lt l r"
| "compare_values comp_le l r = ap_le l r"
| "compare_values comp_eq l r = ap_eq l r"
| "compare_values comp_ge l r = ap_le r l"
| "compare_values comp_gt l r = ap_lt r l"
| "compare_values comp_ue l r = (\<not> ap_eq l r)"

definition comparison_value :: "ap_float list \<Rightarrow> ComparisonAxiom \<Rightarrow> container_int" where
  "comparison_value numeric_state ax =
    (if compare_values (cax_op ax) (numeric_state ! cax_lhs ax) (numeric_state ! cax_rhs ax) then 0 else 1)"

definition evaluate_comparison_axioms :: "task \<Rightarrow> packing \<Rightarrow> container_int list \<Rightarrow> ap_float list \<Rightarrow> container_int list" where
  "evaluate_comparison_axioms t p buffer numeric_state =
    foldl (\<lambda>b ax. packer_set p b (cax_affected ax) (comparison_value numeric_state ax)) buffer (g_comp_axioms t)"

section \<open>Logic axioms\<close>

type_synonym ax_state = "AxiomEvaluator \<times> container_int list"

text \<open>
  The first loop: values of the given variables go into the queue, derived variables are reset.
  A variable above the last layer ends the program.
\<close>

definition seed_variable :: "task \<Rightarrow> packing \<Rightarrow> nat \<Rightarrow> ax_state \<Rightarrow> ax_state result" where
  "seed_variable t p i s =
    (let (ev, buffer) = s; layer = g_axiom_layers t ! i;
         enqueued = (ev\<lparr>ax_queue := (i, packer_get p buffer i) # ax_queue ev\<rparr>, buffer)
     in if layer = - 1 then Inr enqueued
        else if layer \<le> g_last_arithmetic_axiom_layer t then Inr s
        else if layer = g_comparison_axiom_layer ev then Inr enqueued
        else if layer \<le> g_last_logic_axiom_layer ev
        then Inr (ev, packer_set p buffer i (g_default_axiom_values t ! i))
        else Inl ''Error: Encountered a variable with an axiom layer exceeding the maximal computed axiom layer.'')"

primrec seed_variables :: "task \<Rightarrow> packing \<Rightarrow> nat list \<Rightarrow> ax_state \<Rightarrow> ax_state result" where
  "seed_variables t p [] s = Inr s"
| "seed_variables t p (i # is) s = bind_result (seed_variable t p i s) (seed_variables t p is)"

text \<open>A rule whose conditions all hold sets its effect.\<close>

definition trigger_rule :: "packing \<Rightarrow> AxiomRule \<Rightarrow> ax_state \<Rightarrow> ax_state" where
  "trigger_rule p r s =
    (let (ev, buffer) = s; var_no = effect_var r; val = effect_val r
     in if packer_get p buffer var_no \<noteq> val
        then (ev\<lparr>ax_queue := effect_literal r # ax_queue ev\<rparr>, packer_set p buffer var_no val)
        else s)"

text \<open>The second loop: counters are reset and rules without conditions fire.\<close>

definition reset_rule :: "packing \<Rightarrow> nat \<Rightarrow> ax_state \<Rightarrow> ax_state" where
  "reset_rule p i s =
    (let ev = fst s; r = rules ev ! i;
         s' = (ev\<lparr>rules := (rules ev)[i := r\<lparr>unsatisfied_conditions := condition_count r\<rparr>]\<rparr>, snd s)
     in if condition_count r = 0 then trigger_rule p r s' else s')"

text \<open>One rule of \<open>condition_of\<close>. All pointers in the tables are to rules that exist.\<close>

definition satisfy_condition :: "packing \<Rightarrow> nat \<Rightarrow> ax_state \<Rightarrow> ax_state" where
  "satisfy_condition p i s =
    (let ev = fst s; r = rules ev ! i; left = unsatisfied_conditions r - 1;
         s' = (ev\<lparr>rules := (rules ev)[i := r\<lparr>unsatisfied_conditions := left\<rparr>]\<rparr>, snd s)
     in if i \<ge> length (rules ev) then s
        else if left = 0 then trigger_rule p r s' else s')"

definition condition_of :: "AxiomEvaluator \<Rightarrow> literal \<Rightarrow> nat list" where
  "condition_of ev l = axiom_literals ev ! fst l ! unat (snd l)"

definition pop_literal :: "packing \<Rightarrow> ax_state \<Rightarrow> ax_state" where
  "pop_literal p s =
    (let ev = fst s; curr_literal = hd (ax_queue ev)
     in fold (satisfy_condition p) (condition_of ev curr_literal) (ev\<lparr>ax_queue := tl (ax_queue ev)\<rparr>, snd s))"

text \<open>Every pop shortens the queue, and a rule that refills it leaves the waiting rules.\<close>

definition waiting_rules :: "AxiomEvaluator \<Rightarrow> nat set" where
  "waiting_rules ev = {i. i < length (rules ev) \<and> 0 < unsatisfied_conditions (rules ev ! i)}"

definition horn_measure :: "ax_state \<Rightarrow> nat" where
  "horn_measure s = length (ax_queue (fst s)) + card (waiting_rules (fst s))"

lemma finite_waiting_rules [simp]: "finite (waiting_rules ev)"
  by (simp add: waiting_rules_def)

lemma trigger_rule_rules [simp]: "rules (fst (trigger_rule p r s)) = rules (fst s)"
  by (simp add: trigger_rule_def Let_def split: prod.splits)

lemma trigger_rule_queue: "length (ax_queue (fst (trigger_rule p r s))) \<le> Suc (length (ax_queue (fst s)))"
  by (simp add: trigger_rule_def Let_def split: prod.splits)

lemma satisfy_condition_measure: "horn_measure (satisfy_condition p i s) \<le> horn_measure s"
proof (cases "i < length (rules (fst s))")
  case True
  let ?ev = "fst s" and ?r = "rules (fst s) ! i"
  let ?left = "unsatisfied_conditions ?r - 1"
  let ?ev' = "?ev\<lparr>rules := (rules ?ev)[i := ?r\<lparr>unsatisfied_conditions := ?left\<rparr>]\<rparr>"
  have waiting: "waiting_rules ev'' = (if ?left = 0 then waiting_rules ?ev - {i} else waiting_rules ev'')"
    "waiting_rules ev'' \<subseteq> waiting_rules ?ev" if "rules ev'' = rules ?ev'" for ev'' :: AxiomEvaluator
    using that True by (auto simp: waiting_rules_def nth_list_update)
  show ?thesis
  proof (cases "?left = 0")
    case left: True
    then have "i \<in> waiting_rules ?ev" using True by (simp add: waiting_rules_def)
    then have "card (waiting_rules ?ev) = Suc (card (waiting_rules ?ev - {i}))"
      by (intro card.remove) simp_all
    moreover have "satisfy_condition p i s = trigger_rule p ?r (?ev', snd s)"
      using True left by (simp add: satisfy_condition_def Let_def)
    moreover have "waiting_rules (fst (trigger_rule p ?r (?ev', snd s))) = waiting_rules ?ev - {i}"
      using waiting(1) [of "fst (trigger_rule p ?r (?ev', snd s))"] left by simp
    ultimately show ?thesis
      using trigger_rule_queue [of p ?r "(?ev', snd s)"] by (simp add: horn_measure_def)
  next
    case False
    then have "satisfy_condition p i s = (?ev', snd s)"
      using True by (simp add: satisfy_condition_def Let_def)
    then show ?thesis using waiting(2) [of ?ev'] by (simp add: horn_measure_def card_mono)
  qed
qed (simp add: satisfy_condition_def Let_def)

lemma fold_satisfy_measure: "horn_measure (fold (satisfy_condition p) is s) \<le> horn_measure s"
proof (induction "is" arbitrary: s)
  case (Cons i "is")
  then show ?case using order.trans [OF Cons.IH satisfy_condition_measure [of p i s]] by simp
qed simp

function horn_loop :: "packing \<Rightarrow> ax_state \<Rightarrow> ax_state" where
  "horn_loop p s = (if ax_queue (fst s) = [] then s else horn_loop p (pop_literal p s))"
  by pat_completeness auto
termination
proof (relation "measure (\<lambda>(p, s). horn_measure s)")
  fix p and s :: ax_state assume "ax_queue (fst s) \<noteq> []"
  then have "horn_measure ((fst s)\<lparr>ax_queue := tl (ax_queue (fst s))\<rparr>, snd s) < horn_measure s"
    by (cases "ax_queue (fst s)") (simp_all add: horn_measure_def waiting_rules_def)
  then show "((p, pop_literal p s), p, s) \<in> measure (\<lambda>(p, s). horn_measure s)"
    using fold_satisfy_measure by (simp add: pop_literal_def Let_def) (rule le_less_trans)
qed simp

declare horn_loop.simps [simp del]

definition apply_nbf :: "task \<Rightarrow> packing \<Rightarrow> NegationByFailureInfo \<Rightarrow> ax_state \<Rightarrow> ax_state" where
  "apply_nbf t p info s =
    (let (ev, buffer) = s; var_no = nbf_var_no info
     in if packer_get p buffer var_no = g_default_axiom_values t ! var_no
        then (ev\<lparr>ax_queue := nbf_literal info # ax_queue ev\<rparr>, buffer)
        else s)"

definition evaluate_layer :: "task \<Rightarrow> packing \<Rightarrow> nat \<Rightarrow> ax_state \<Rightarrow> ax_state" where
  "evaluate_layer t p layer_no s =
    (let s' = horn_loop p s; infos = nbf_info_by_layer (fst s')
     in if int layer_no \<noteq> int (length infos) - 1 then fold (apply_nbf t p) (infos ! layer_no) s' else s')"

definition evaluate_logic_axioms :: "task \<Rightarrow> packing \<Rightarrow> AxiomEvaluator \<Rightarrow> container_int list \<Rightarrow> ax_state result" where
  "evaluate_logic_axioms t p ev buffer =
    (if \<not> has_logic_axioms t then Inr (ev, buffer)
     else bind_result (seed_variables t p [0..<length (g_axiom_layers t)] (ev, buffer)) (\<lambda>s.
       Inr (fold (evaluate_layer t p) [0..<length (nbf_info_by_layer ev)]
         (fold (reset_rule p) [0..<length (rules ev)] s))))"

definition evaluate_axioms :: "task \<Rightarrow> packing \<Rightarrow> AxiomEvaluator \<Rightarrow> container_int list \<Rightarrow> ap_float list \<Rightarrow> ax_state result" where
  "evaluate_axioms t p ev buffer numeric_state =
    (if \<not> has_axioms t then Inr (ev, buffer)
     else let b = (if has_numeric_axioms t then evaluate_comparison_axioms t p buffer numeric_state else buffer)
       in if has_logic_axioms t then evaluate_logic_axioms t p ev b else Inr (ev, b))"

end
