(* ===== verification/State_Registry.thy ===== *)
theory State_Registry
  imports Axiom_Evaluator
begin

text \<open>
  \<open>StateRegistry\<close> of \<open>state_registry.h\<close> and \<open>state_registry.cc\<close>, with the globals it works on
  (\<open>globals.h\<close>: the task, the packer, the axiom evaluator, \<open>g_cost_information\<close>). A \<open>GlobalState\<close>
  is the id of its entry in the state pool; the pool and the per-state information are sequences,
  which is what the segmented vectors behind them implement. The canonical variants for symmetry
  reduction are not modelled.
\<close>

section \<open>State\<close>

record StateRegistry =
  state_data_pool :: "container_int list list"
  numeric_constants :: "ap_float list"
  numeric_indices :: "int list"
  registered_states :: "nat list"
  cached_initial_state :: "nat option"

record world =
  w_task :: task
  w_packer :: packing
  w_axioms :: AxiomEvaluator
  w_registry :: StateRegistry
  g_cost_information :: "ap_float list list"

definition StateRegistry_make :: "task \<Rightarrow> nat \<Rightarrow> StateRegistry" where
  "StateRegistry_make t number_of_numeric_constants =
    \<lparr>state_data_pool = [], numeric_constants = replicate number_of_numeric_constants (ap_zero False),
     numeric_indices = replicate (length (g_initial_state_numeric t)) (- 1),
     registered_states = [], cached_initial_state = None\<rparr>"

definition registry_size :: "world \<Rightarrow> nat" where
  "registry_size w = length (registered_states (w_registry w))"

text \<open>\<open>GlobalState::operator[]\<close> of the state with an id.\<close>

definition packed_buffer :: "world \<Rightarrow> nat \<Rightarrow> container_int list" where
  "packed_buffer w i = state_data_pool (w_registry w) ! i"

definition state_value :: "world \<Rightarrow> nat \<Rightarrow> valuation" where
  "state_value w i v = packer_get (w_packer w) (packed_buffer w i) v"

text \<open>\<open>PerStateInformation\<close>: reading and writing grow the entries to the size of the registry.\<close>

definition info_get :: "'a \<Rightarrow> nat \<Rightarrow> 'a list \<Rightarrow> 'a" where
  "info_get default_value i entries = (if i < length entries then entries ! i else default_value)"

definition info_set :: "nat \<Rightarrow> 'a \<Rightarrow> nat \<Rightarrow> 'a \<Rightarrow> 'a list \<Rightarrow> 'a list" where
  "info_set virtual_size default_value i entry entries =
    (entries @ replicate (virtual_size - length entries) default_value)[i := entry]"

definition cost_information :: "world \<Rightarrow> nat \<Rightarrow> ap_float list" where
  "cost_information w i = info_get [] i (g_cost_information w)"

definition set_cost_information :: "nat \<Rightarrow> ap_float list \<Rightarrow> world \<Rightarrow> world" where
  "set_cost_information i vals w =
    w\<lparr>g_cost_information := info_set (registry_size w) [] i vals (g_cost_information w)\<rparr>"

section \<open>Registering the last state of the pool\<close>

definition insert_id_or_pop_state :: "StateRegistry \<Rightarrow> nat \<times> StateRegistry" where
  "insert_id_or_pop_state r =
    (let pool = state_data_pool r; i = length pool - 1
     in case find (\<lambda>j. pool ! j = pool ! i) (registered_states r) of
       Some j \<Rightarrow> (j, r\<lparr>state_data_pool := butlast pool\<rparr>)
     | None \<Rightarrow> (i, r\<lparr>registered_states := i # registered_states r\<rparr>))"

text \<open>Pushing a packed state onto the pool and registering it.\<close>

definition add_state :: "StateRegistry \<Rightarrow> container_int list \<Rightarrow> nat \<times> StateRegistry" where
  "add_state r buffer = insert_id_or_pop_state (r\<lparr>state_data_pool := state_data_pool r @ [buffer]\<rparr>)"

section \<open>Numeric variables of a state\<close>

definition numeric_var :: "task \<Rightarrow> packing \<Rightarrow> StateRegistry \<Rightarrow> ap_float list \<Rightarrow> container_int list \<Rightarrow> nat \<Rightarrow> ap_float list" where
  "numeric_var t p r instrumentation_variables buffer i =
    (let k = nat (numeric_indices r ! i)
     in case g_numeric_var_types t ! i of
       num_instrumentation \<Rightarrow> [instrumentation_variables ! k]
     | num_constant \<Rightarrow> [numeric_constants r ! k]
     | num_derived \<Rightarrow> [ap_zero False]
     | num_unknown \<Rightarrow> []
     | num_regular \<Rightarrow> [packer_getDouble p buffer k])"

definition get_numeric_vars :: "world \<Rightarrow> nat \<Rightarrow> ap_float list" where
  "get_numeric_vars w i =
    (let t = w_task w;
         result = concat (map (numeric_var t (w_packer w) (w_registry w) (cost_information w i) (packed_buffer w i))
           [0..<length (g_numeric_var_types t)])
     in if has_numeric_axioms t then evaluate_arithmetic_axioms t result else result)"

section \<open>Initial state\<close>

record numeric_store =
  ns_indices :: "int list"
  ns_constants :: "ap_float list"
  ns_instrumentation :: "ap_float list"
  ns_regular_index :: nat
  ns_constant_index :: nat
  ns_buffer :: "container_int list"

definition store_regular :: "packing \<Rightarrow> nat \<Rightarrow> ap_float \<Rightarrow> numeric_store \<Rightarrow> numeric_store" where
  "store_regular p i val s =
    s\<lparr>ns_indices := (ns_indices s)[i := int (ns_regular_index s)],
      ns_buffer := packer_set p (ns_buffer s) (ns_regular_index s) (packDouble val),
      ns_regular_index := Suc (ns_regular_index s)\<rparr>"

definition store_instrumentation :: "nat \<Rightarrow> ap_float \<Rightarrow> numeric_store \<Rightarrow> numeric_store" where
  "store_instrumentation i val s =
    s\<lparr>ns_indices := (ns_indices s)[i := int (length (ns_instrumentation s))],
      ns_instrumentation := ns_instrumentation s @ [val]\<rparr>"

definition store_constant :: "nat \<Rightarrow> ap_float \<Rightarrow> numeric_store \<Rightarrow> numeric_store" where
  "store_constant i val s =
    s\<lparr>ns_indices := (ns_indices s)[i := int (ns_constant_index s)],
      ns_constants := (ns_constants s)[ns_constant_index s := val],
      ns_constant_index := Suc (ns_constant_index s)\<rparr>"

definition store_initial_var :: "task \<Rightarrow> packing \<Rightarrow> ap_float list \<Rightarrow> nat \<Rightarrow> numeric_store \<Rightarrow> numeric_store" where
  "store_initial_var t p vals i s =
    (case g_numeric_var_types t ! i of
       num_instrumentation \<Rightarrow> store_instrumentation i (vals ! i) s
     | num_constant \<Rightarrow> store_constant i (vals ! i) s
     | num_regular \<Rightarrow> store_regular p i (vals ! i) s
     | _ \<Rightarrow> s)"

definition set_values :: "packing \<Rightarrow> container_int list \<Rightarrow> container_int list" where
  "set_values p vals = foldl (\<lambda>b (v, x). packer_set p b v x) (replicate (num_bins p) 0) (zip [0..<length vals] vals)"

definition initial_store :: "task \<Rightarrow> packing \<Rightarrow> StateRegistry \<Rightarrow> numeric_store" where
  "initial_store t p r =
    (let num = g_initial_state_numeric t
     in fold (store_initial_var t p num) [0..<length num]
       \<lparr>ns_indices = numeric_indices r, ns_constants = numeric_constants r, ns_instrumentation = [],
        ns_regular_index = length (g_initial_state_data t), ns_constant_index = 0,
        ns_buffer = set_values p (g_initial_state_data t)\<rparr>)"

definition get_initial_state :: "world \<Rightarrow> (nat \<times> world) result" where
  "get_initial_state w =
    (case cached_initial_state (w_registry w) of
       Some i \<Rightarrow> Inr (i, w)
     | None \<Rightarrow>
       let t = w_task w; p = w_packer w; r = w_registry w; s = initial_store t p r;
           num' = evaluate_arithmetic_axioms t (g_initial_state_numeric t)
       in bind_result (evaluate_axioms t p (w_axioms w) (ns_buffer s) num') (\<lambda>res.
         let ins = add_state (r\<lparr>numeric_indices := ns_indices s, numeric_constants := ns_constants s\<rparr>) (snd res);
             i = fst ins;
             w1 = set_cost_information i (ns_instrumentation s)
               (w\<lparr>w_axioms := fst res, w_registry := (snd ins)\<lparr>cached_initial_state := Some i\<rparr>\<rparr>)
         in Inr (i, w1\<lparr>w_task := t\<lparr>g_initial_state_numeric := get_numeric_vars w1 i\<rparr>\<rparr>)))"

section \<open>Successors\<close>

fun assign_effect :: "ap_float \<Rightarrow> f_operator \<Rightarrow> ap_float \<Rightarrow> ap_float" where
  "assign_effect aff_value assign ass_value = ass_value"
| "assign_effect aff_value scale_up ass_value = ap_mul aff_value ass_value"
| "assign_effect aff_value scale_down ass_value = ap_div aff_value ass_value"
| "assign_effect aff_value increase ass_value = ap_add aff_value ass_value"
| "assign_effect aff_value decrease ass_value = ap_sub aff_value ass_value"

text \<open>
  One assignment effect on the values and the metric part; \<open>old\<close> gives the value a regular variable
  had before the operator.
\<close>

definition apply_assign_effect ::
  "task \<Rightarrow> StateRegistry \<Rightarrow> (nat \<Rightarrow> ap_float) \<Rightarrow> ap_float list \<times> ap_float list \<Rightarrow> AssignEffect \<Rightarrow> ap_float list \<times> ap_float list" where
  "apply_assign_effect t r old s e =
    (let (vals, metric) = s;
         ass_val = (if g_numeric_var_types t ! ass_var e = num_regular then old (ass_var e) else vals ! ass_var e);
         result = assign_effect (vals ! aff_var e) (ass_fop e) ass_val
     in case g_numeric_var_types t ! aff_var e of
       num_instrumentation \<Rightarrow> (vals[aff_var e := result], metric[nat (numeric_indices r ! aff_var e) := result])
     | num_regular \<Rightarrow> (vals[aff_var e := result], metric)
     | _ \<Rightarrow> s)"

definition get_numeric_successor ::
  "task \<Rightarrow> StateRegistry \<Rightarrow> ap_float list \<Rightarrow> ap_float list \<Rightarrow> GlobalOperator \<Rightarrow> ap_float list \<times> ap_float list" where
  "get_numeric_successor t r vals metric oper =
    (let s = foldl (apply_assign_effect t r (\<lambda>v. vals ! v)) (vals, metric) (assign_effects oper)
     in (evaluate_arithmetic_axioms t (fst s), snd s))"

text \<open>The variant that also writes the regular variables to the buffer of the successor.\<close>

definition apply_assign_effect_packed ::
  "task \<Rightarrow> packing \<Rightarrow> StateRegistry \<Rightarrow> container_int list \<Rightarrow> (ap_float list \<times> ap_float list) \<times> container_int list \<Rightarrow>
    AssignEffect \<Rightarrow> (ap_float list \<times> ap_float list) \<times> container_int list" where
  "apply_assign_effect_packed t p r previous_buffer s e =
    (let s' = apply_assign_effect t r (\<lambda>v. packer_getDouble p previous_buffer (nat (numeric_indices r ! v))) (fst s) e
     in (s', if g_numeric_var_types t ! aff_var e = num_regular
             then packer_setDouble p (snd s) (nat (numeric_indices r ! aff_var e)) (fst s' ! aff_var e)
             else snd s))"

definition get_numeric_successor_packed ::
  "task \<Rightarrow> packing \<Rightarrow> AxiomEvaluator \<Rightarrow> StateRegistry \<Rightarrow> ap_float list \<Rightarrow> ap_float list \<Rightarrow> GlobalOperator \<Rightarrow>
    container_int list \<Rightarrow> container_int list \<Rightarrow> ((ap_float list \<times> ap_float list) \<times> ax_state) result" where
  "get_numeric_successor_packed t p ev r vals metric oper buffer previous_buffer =
    (let s = foldl (apply_assign_effect_packed t p r previous_buffer) ((vals, metric), buffer) (assign_effects oper);
         vals' = evaluate_arithmetic_axioms t (fst (fst s))
     in bind_result (evaluate_axioms t p ev (snd s) vals') (\<lambda>res. Inr ((vals', snd (fst s)), res)))"

definition apply_effects :: "packing \<Rightarrow> valuation \<Rightarrow> container_int list \<Rightarrow> GlobalEffect list \<Rightarrow> container_int list" where
  "apply_effects p predecessor buffer effs =
    foldl (\<lambda>b e. if does_fire predecessor e then packer_set p b (eff_var e) (eff_val e) else b) buffer effs"

text \<open>The metric fluent is read without a check; where it does not exist the assertion fails.\<close>

definition evaluate_metric :: "task \<Rightarrow> ap_float list \<Rightarrow> ap_float result" where
  "evaluate_metric t numeric_state =
    (if 0 \<le> g_metric_fluent_id t \<and> g_metric_fluent_id t < int (length numeric_state)
     then Inr (numeric_state ! nat (g_metric_fluent_id t))
     else Inl ''Assertion failed: g_metric_fluent_id'')"

text \<open>The metric bookkeeping for a state that was registered before: both branches store.\<close>

definition keep_metric :: "bool \<Rightarrow> nat \<Rightarrow> ap_float list \<Rightarrow> ap_float list \<Rightarrow> ap_float \<Rightarrow> ap_float \<Rightarrow> world \<Rightarrow> world" where
  "keep_metric minimizes i old_metric inst_vals old_val new_val w =
    (let w1 = set_cost_information i (if minimizes \<and> ap_lt old_val new_val then old_metric else inst_vals) w
     in set_cost_information i (if \<not> minimizes \<and> ap_lt new_val old_val then old_metric else inst_vals) w1)"

definition get_successor_state :: "world \<Rightarrow> nat \<Rightarrow> GlobalOperator \<Rightarrow> (nat \<times> world) result" where
  "get_successor_state w predecessor oper =
    (let t = w_task w; p = w_packer w; previous_buffer = packed_buffer w predecessor;
         buffer = apply_effects p (state_value w predecessor) previous_buffer (op_effects oper);
         pred_vals = get_numeric_vars w predecessor; pred_inst = cost_information w predecessor
     in bind_result (get_numeric_successor_packed t p (w_axioms w) (w_registry w) pred_vals pred_inst oper buffer previous_buffer)
       (\<lambda>res.
         let succ_vals = fst (fst res); inst_vals = snd (fst res);
             ins = add_state (w_registry w) (snd (snd res));
             i = fst ins; w1 = w\<lparr>w_axioms := fst (snd res), w_registry := snd ins\<rparr>
         in if i = length (state_data_pool (snd ins)) - 1 then Inr (i, set_cost_information i inst_vals w1)
            else bind_result (evaluate_metric t (get_numeric_vars w1 predecessor)) (\<lambda>old_val.
              bind_result (evaluate_metric t succ_vals) (\<lambda>new_val.
                Inr (i, keep_metric (g_metric_minimizes t) i (cost_information w1 i) inst_vals old_val new_val w1)))))"

section \<open>Registering given values\<close>

definition store_registered_var :: "task \<Rightarrow> packing \<Rightarrow> ap_float list \<Rightarrow> nat \<Rightarrow> numeric_store \<Rightarrow> numeric_store" where
  "store_registered_var t p vals i s =
    (case g_numeric_var_types t ! i of
       num_instrumentation \<Rightarrow> store_instrumentation i (vals ! i) s
     | num_regular \<Rightarrow> store_regular p i (vals ! i) s
     | _ \<Rightarrow> s)"

definition registered_store :: "task \<Rightarrow> packing \<Rightarrow> StateRegistry \<Rightarrow> container_int list \<Rightarrow> ap_float list \<Rightarrow> numeric_store" where
  "registered_store t p r vals numeric_values =
    fold (store_registered_var t p numeric_values) [0..<length numeric_values]
      \<lparr>ns_indices = numeric_indices r, ns_constants = numeric_constants r, ns_instrumentation = [],
       ns_regular_index = length vals, ns_constant_index = 0, ns_buffer = set_values p vals\<rparr>"

definition register_state :: "world \<Rightarrow> container_int list \<Rightarrow> ap_float list \<Rightarrow> (nat \<times> world) result" where
  "register_state w vals numeric_values =
    (let t = w_task w; p = w_packer w; r = w_registry w;
         s = registered_store t p r vals numeric_values;
         num = evaluate_arithmetic_axioms t numeric_values
     in bind_result (evaluate_axioms t p (w_axioms w) (ns_buffer s) num) (\<lambda>res.
       let ins = add_state (r\<lparr>numeric_indices := ns_indices s\<rparr>) (snd res);
           i = fst ins; w1 = w\<lparr>w_axioms := fst res, w_registry := snd ins\<rparr>
       in if i = length (state_data_pool (snd ins)) - 1 then Inr (i, set_cost_information i (ns_instrumentation s) w1)
          else bind_result (evaluate_metric t (get_numeric_vars w1 i)) (\<lambda>old_val.
            bind_result (evaluate_metric t num) (\<lambda>new_val.
              Inr (i, keep_metric (g_metric_minimizes t) i (cost_information w1 i) (ns_instrumentation s) old_val new_val w1)))))"

section \<open>Costs of operators\<close>

definition operator_set_cost :: "world \<Rightarrow> ap_float \<Rightarrow> GlobalOperator \<Rightarrow> ap_float result" where
  "operator_set_cost w init_cost oper =
    (let t = w_task w
     in if g_use_metric t
        then bind_result (get_initial_state w) (\<lambda>res.
          let w' = snd res; initial_numeric = get_numeric_vars w' (fst res);
              initial_metric = replicate (length (g_initial_state_numeric (w_task w'))) (ap_zero False);
              vals = fst (get_numeric_successor (w_task w') (w_registry w') initial_numeric initial_metric oper)
          in bind_result (evaluate_metric (w_task w') vals) (\<lambda>m. Inr (ap_sub m init_cost)))
        else Inr (ap_of_int 1))"

section \<open>Comparing states\<close>

definition close_values :: "task \<Rightarrow> ap_float list \<Rightarrow> ap_float list \<Rightarrow> bool" where
  "close_values t xs ys = list_all
    (\<lambda>i. g_numeric_var_types t ! i = num_regular \<longrightarrow> \<not> ap_lt (ap_of_rat (1 / 100000)) (ap_abs (ap_sub (xs ! i) (ys ! i))))
    [0..<length xs]"

definition same_values_as :: "world \<Rightarrow> nat \<Rightarrow> container_int list \<Rightarrow> ap_float list \<Rightarrow> bool" where
  "same_values_as w i vals numeric_values \<longleftrightarrow>
    list_all (\<lambda>v. state_value w i v = vals ! v) [0..<length (g_variable_domain (w_task w))] \<and>
    close_values (w_task w) (get_numeric_vars w i) numeric_values"

definition same_values :: "world \<Rightarrow> nat \<Rightarrow> nat \<Rightarrow> bool" where
  "same_values w i j \<longleftrightarrow>
    list_all (\<lambda>v. state_value w i v = state_value w j v) [0..<length (g_variable_domain (w_task w))] \<and>
    close_values (w_task w) (get_numeric_vars w i) (get_numeric_vars w j)"

end
