(* ===== verification/Input_Stream.thy ===== *)
theory Input_Stream
  imports Trigger_Config State_Registry
begin

text \<open>
  Formatted input from a \<open>std::istream\<close>, as the readers of \<open>globals.cc\<close>, \<open>global_operator.cc\<close> and
  \<open>axioms.cc\<close> use it. A stream is the text that is left and the fail bit. The end-of-file bit needs
  no place of its own: whatever is extracted next fails all the same. Once the fail bit is set every
  extraction leaves its variable as it was, so an extraction returns None then. A variable that is
  declared without a value would be read while it is indeterminate; the model stops there.
\<close>

record istream =
  in_rest :: string
  in_failed :: bool

definition stream_of :: "string \<Rightarrow> istream" where
  "stream_of s = \<lparr>in_rest = s, in_failed = False\<rparr>"

definition set_fail :: "istream \<Rightarrow> istream" where
  "set_fail s = s\<lparr>in_failed := True\<rparr>"

text \<open>\<open>in >> ws\<close>.\<close>

definition skip_ws :: "istream \<Rightarrow> istream" where
  "skip_ws s = s\<lparr>in_rest := dropWhile is_space (in_rest s)\<rparr>"

text \<open>The sentry of an extraction: the stream is good and something follows the blanks.\<close>

definition has_input :: "istream \<Rightarrow> bool" where
  "has_input s \<longleftrightarrow> \<not> in_failed s \<and> dropWhile is_space (in_rest s) \<noteq> []"

text \<open>A word into a \<open>string\<close> that holds \<open>old\<close>.\<close>

definition extract_word :: "string \<Rightarrow> istream \<Rightarrow> string \<times> istream" where
  "extract_word old s =
    (if has_input s then
       (let r = dropWhile is_space (in_rest s)
        in (takeWhile (\<lambda>c. \<not> is_space c) r, s\<lparr>in_rest := dropWhile (\<lambda>c. \<not> is_space c) r\<rparr>))
     else (old, set_fail s))"

definition extract_char :: "istream \<Rightarrow> char option \<times> istream" where
  "extract_char s =
    (if has_input s then (let r = dropWhile is_space (in_rest s) in (Some (hd r), s\<lparr>in_rest := tl r\<rparr>)) else (None, set_fail s))"

text \<open>The sign and the digits of a number, and what follows.\<close>

definition scan_number :: "istream \<Rightarrow> bool \<times> string \<times> istream" where
  "scan_number s = (let (neg, q) = read_sign (dropWhile is_space (in_rest s))
     in (neg, takeWhile is_digit q, s\<lparr>in_rest := dropWhile is_digit q\<rparr>))"

text \<open>An \<open>int\<close>: without digits it is 0, out of range it is the limit, and both set the fail bit.\<close>

definition extract_int :: "istream \<Rightarrow> int option \<times> istream" where
  "extract_int s =
    (if has_input s then
       (let (neg, ds, s') = scan_number s; v = (if neg then - int (digits_value ds) else int (digits_value ds))
        in if ds = [] then (Some 0, set_fail s')
           else if v < - (2 ^ 31) then (Some (- (2 ^ 31)), set_fail s')
           else if 2 ^ 31 - 1 < v then (Some (2 ^ 31 - 1), set_fail s')
           else (Some v, s'))
     else (None, set_fail s))"

text \<open>A \<open>container_int\<close>, which is unsigned: a minus sign negates modulo \<open>2 ^ 64\<close>.\<close>

definition extract_container :: "istream \<Rightarrow> container_int option \<times> istream" where
  "extract_container s =
    (if has_input s then
       (let (neg, ds, s') = scan_number s; v = digits_value ds
        in if ds = [] then (Some 0, set_fail s')
           else if 2 ^ 64 \<le> v then (Some (- 1), set_fail s')
           else (Some (if neg then - of_nat v else of_nat v), s'))
     else (None, set_fail s))"

text \<open>
  A \<open>double\<close>: a decimal number with an optional exponent. An exponent mark without digits makes the
  whole number invalid; a value beyond the largest double is that double, and both set the fail bit.
\<close>

definition ap_largest :: "bool \<Rightarrow> ap_float" where
  "ap_largest neg = make_float neg (inf_mag - 1)"

definition extract_exponent :: "string \<Rightarrow> (int \<times> string) option" where
  "extract_exponent s = (case s of [] \<Rightarrow> Some (0, [])
     | c # q \<Rightarrow> if to_lower c \<noteq> CHR ''e'' then Some (0, s)
       else let (neg, r) = read_sign q; ds = takeWhile is_digit r; e = int (digits_value ds)
            in if ds = [] then None else Some (if neg then - e else e, dropWhile is_digit r))"

definition extract_double :: "istream \<Rightarrow> ap_float option \<times> istream" where
  "extract_double s =
    (if has_input s then
       (let (neg, r) = read_sign (dropWhile is_space (in_rest s))
        in case read_mantissa 10 r of None \<Rightarrow> (Some (ap_zero False), set_fail s)
         | Some (m, q) \<Rightarrow>
           (case extract_exponent q of None \<Rightarrow> (Some (ap_zero False), set_fail s)
            | Some (e, q') \<Rightarrow>
              (let v = (if neg then ap_neg (ap_of_rat (m * 10 powi e)) else ap_of_rat (m * 10 powi e))
               in if ap_is_finite v then (Some v, s\<lparr>in_rest := q'\<rparr>) else (Some (ap_largest neg), set_fail s))))
     else (None, set_fail s))"

text \<open>\<open>getline\<close> into a string that holds \<open>old\<close>; the newline is dropped.\<close>

definition getline :: "string \<Rightarrow> istream \<Rightarrow> string \<times> istream" where
  "getline old s =
    (if in_failed s then (old, s)
     else if in_rest s = [] then ([], set_fail s)
     else (takeWhile (\<lambda>c. c \<noteq> CHR 10) (in_rest s), s\<lparr>in_rest := tl (dropWhile (\<lambda>c. c \<noteq> CHR 10) (in_rest s))\<rparr>))"

section \<open>Variables without a value\<close>

definition determinate :: "'a option \<times> istream \<Rightarrow> ('a \<times> istream) result" where
  "determinate r = (case fst r of None \<Rightarrow> Inl ''indeterminate value'' | Some x \<Rightarrow> Inr (x, snd r))"

definition read_int :: "istream \<Rightarrow> (int \<times> istream) result" where
  "read_int s = determinate (extract_int s)"

definition read_container :: "istream \<Rightarrow> (container_int \<times> istream) result" where
  "read_container s = determinate (extract_container s)"

definition read_double :: "istream \<Rightarrow> (ap_float \<times> istream) result" where
  "read_double s = determinate (extract_double s)"

text \<open>\<open>for (int i = 0; i < count; ++i)\<close> around a reader that appends what it has read.\<close>

primrec read_times :: "nat \<Rightarrow> (istream \<Rightarrow> ('a \<times> istream) result) \<Rightarrow> istream \<Rightarrow> ('a list \<times> istream) result" where
  "read_times 0 f s = Inr ([], s)"
| "read_times (Suc n) f s =
    bind_result (f s) (\<lambda>(x, s). bind_result (read_times n f s) (\<lambda>(xs, s). Inr (x # xs, s)))"

text \<open>A count, as many items, and nothing for a count that is not positive.\<close>

definition read_counted :: "(istream \<Rightarrow> ('a \<times> istream) result) \<Rightarrow> istream \<Rightarrow> ('a list \<times> istream) result" where
  "read_counted f s = bind_result (read_int s) (\<lambda>(count, s). read_times (nat count) f s)"

text \<open>The same with \<open>reserve(count)\<close> or a vector of that size before: a negative size throws.\<close>

definition read_reserved :: "(istream \<Rightarrow> ('a \<times> istream) result) \<Rightarrow> istream \<Rightarrow> ('a list \<times> istream) result" where
  "read_reserved f s = bind_result (read_int s) (\<lambda>(count, s).
     if count < 0 then Inl ''length_error'' else read_times (nat count) f s)"

section \<open>Lemmas\<close>

named_theorems reads \<open>what a reader does on the text that was written for it\<close>

text \<open>A character that ends a word or a number, and a rest of the text that starts with one.\<close>

definition ends :: "string \<Rightarrow> bool" where
  "ends r \<longleftrightarrow> (case r of [] \<Rightarrow> True | c # _ \<Rightarrow> is_space c)"

definition is_word :: "string \<Rightarrow> bool" where
  "is_word w \<longleftrightarrow> w \<noteq> [] \<and> list_all (\<lambda>c. \<not> is_space c) w"

lemma ends_Cons [simp]: "ends (c # r) \<longleftrightarrow> is_space c" and ends_Nil [simp]: "ends []"
  by (simp_all add: ends_def)

lemma word_prefix:
  assumes "is_word w" "ends r"
  shows "dropWhile is_space (w @ r) = w @ r" "takeWhile (\<lambda>c. \<not> is_space c) (w @ r) = w" "dropWhile (\<lambda>c. \<not> is_space c) (w @ r) = r"
  using assms by (cases w; cases r; auto simp: is_word_def list_all_iff takeWhile_append dropWhile_append)+

lemma extract_word_written [reads]:
  "is_word w \<Longrightarrow> ends r \<Longrightarrow> extract_word old (stream_of (w @ r)) = (w, stream_of r)"
  by (simp add: extract_word_def has_input_def stream_of_def word_prefix) (auto simp: is_word_def)

lemma digit_char_digit [simp]: "is_digit (digit_char n)" "\<not> is_space (digit_char n)"
  by (simp_all add: is_digit_def is_space_def digit_char_code Let_def)

lemma digits_value_snoc [simp]: "digits_value (ds @ [c]) = 10 * digits_value ds + (of_char c - 48)"
  by (simp add: digits_value_def)

lemma digits_value_show_nat [simp]: "digits_value (show_nat n) = n"
proof (induction n rule: show_nat.induct)
  case (1 n)
  then show ?case by (subst show_nat.simps) (simp add: digit_char_code, simp add: digits_value_def digit_char_code)
qed

lemma show_nat_all_digits [simp]: "list_all is_digit (show_nat n)"
  using show_nat_digits [of n] by (auto simp: list_all_iff)

lemma show_nat_word: "is_word (show_nat n)"
  using show_nat_digits [of n] by (auto simp: is_word_def list_all_iff)

lemma space_no_digit: "is_space c \<Longrightarrow> \<not> is_digit c \<and> c \<noteq> CHR ''-'' \<and> c \<noteq> CHR ''+'' \<and> c \<noteq> CHR ''.'' \<and> to_lower c \<noteq> CHR ''e'' \<and> hex_value c = 16"
  by (auto simp: is_space_def is_digit_def to_lower_def hex_value_def Let_def)

lemma number_prefix:
  assumes "list_all is_digit ds" "ends r"
  shows "takeWhile is_digit (ds @ r) = ds" "dropWhile is_digit (ds @ r) = r"
  using assms space_no_digit by (cases r; auto simp: list_all_iff takeWhile_append dropWhile_append)+

lemma read_sign_nat [simp]: "read_sign (show_nat n @ r) = (False, show_nat n @ r)"
proof -
  obtain c w where w: "show_nat n = c # w" using show_nat_nonempty [of n] by (cases "show_nat n") auto
  then have "is_digit c" using show_nat_all_digits [of n] by simp
  then have "c \<noteq> CHR ''-''" "c \<noteq> CHR ''+''" by (auto simp: is_digit_def)
  then show ?thesis by (simp add: read_sign_def w)
qed

lemma read_sign_minus [simp]: "read_sign (CHR ''-'' # r) = (True, r)"
  by (simp add: read_sign_def)

lemma scan_number_nat:
  "ends r \<Longrightarrow> scan_number (stream_of (show_nat n @ r)) = (False, show_nat n, stream_of r)"
  by (simp add: scan_number_def stream_of_def word_prefix(1) show_nat_word number_prefix)

lemma scan_number_minus:
  "ends r \<Longrightarrow> scan_number (stream_of (CHR ''-'' # show_nat n @ r)) = (True, show_nat n, stream_of r)"
  by (simp add: scan_number_def stream_of_def number_prefix is_space_def)

lemma has_input_word: "is_word w \<Longrightarrow> has_input (stream_of (w @ r))"
  by (cases w) (auto simp: has_input_def stream_of_def is_word_def)

lemma show_int_word [simp]: "is_word (show_int v)"
  using show_nat_word by (simp add: show_int_def is_word_def is_space_def)

lemma extract_int_written:
  assumes "- (2 ^ 31) \<le> v" "v < 2 ^ 31" "ends r"
  shows "extract_int (stream_of (show_int v @ r)) = (Some v, stream_of r)"
  using assms has_input_word [OF show_int_word, of v r]
  by (simp add: extract_int_def show_int_def scan_number_nat scan_number_minus)

lemma read_int_written [reads]:
  "- (2 ^ 31) \<le> v \<Longrightarrow> v < 2 ^ 31 \<Longrightarrow> ends r \<Longrightarrow> read_int (stream_of (show_int v @ r)) = Inr (v, stream_of r)"
  by (simp add: read_int_def determinate_def extract_int_written)

lemma extract_container_written:
  assumes "- (2 ^ 64) < v" "v < 2 ^ 64" "ends r"
  shows "extract_container (stream_of (show_int v @ r)) = (Some (word_of_int v), stream_of r)"
proof -
  have "nat (- v) < 2 ^ 64" "nat v < 2 ^ 64" using assms(1,2) by (cases "0 \<le> v"; simp add: nat_less_iff)+
  then show ?thesis using assms has_input_word [OF show_int_word, of v r]
    by (simp add: extract_container_def show_int_def scan_number_nat scan_number_minus Let_def not_le [symmetric])
qed

end
