(* ===== verification/Bridge_Properties.thy ===== *)
theory Bridge_Properties
  imports Bridge_Laws Input_Stream
begin

text \<open>
  Properties of whole runs of the bridge: the order and the bounds of what is under way, what a stop
  means for the rest of the run, and the request as a receiver of the bytes reads it.
\<close>

section \<open>Workers and the stop\<close>

lemma length_posting: "length (posting ws) \<le> length ws"
proof (induction ws)
  case (Cons w ws)
  then show ?case by (cases w) (simp_all add: posting_def)
qed (simp add: posting_def)

lemma bridge_step_workers: "bridge_step c ev b b' \<Longrightarrow> length (workers b') = length (workers b)"
  by (induction rule: bridge_step.induct)
    (auto simp: bridge_submit_def worker_take_def push_completed_def poll_completed_def bridge_stop_def split: if_splits list.splits)

lemma bridge_run_workers: "bridge_run c evs b \<Longrightarrow> http_mode c \<Longrightarrow> length (workers b) = nat (bc_worker_count c)"
proof (induction rule: bridge_run.induct)
  case started
  then show ?case by (simp add: bridge_start_def bridge_init_def http_mode_def)
qed (simp add: bridge_step_workers)

lemma bridge_run_snocE:
  assumes "bridge_run c (evs @ [ev]) b'"
  obtains b where "bridge_run c evs b" "bridge_step c ev b b'"
  using assms by cases auto

text \<open>Before the first stop nothing is stopped or counted.\<close>

definition running :: "bridge \<Rightarrow> bool" where
  "running b \<longleftrightarrow> \<not> stopping b \<and> queued_discarded_on_stop b = 0 \<and> active_cancelled_on_stop b = 0 \<and> completed_unconsumed_on_stop b = 0"

lemma step_running: "bridge_step c ev b b' \<Longrightarrow> running b \<Longrightarrow> \<forall>xs. ev \<noteq> Stop xs \<Longrightarrow> running b'"
  by (induction rule: bridge_step.induct)
    (auto simp: running_def bridge_submit_def worker_take_def push_completed_def poll_completed_def split: if_splits list.splits)

lemma run_running: "bridge_run c evs b \<Longrightarrow> \<forall>xs. Stop xs \<notin> set evs \<Longrightarrow> running b"
proof (induction rule: bridge_run.induct)
  case started
  show ?case by (simp add: running_def bridge_start_def bridge_init_def)
next
  case (stepped evs b ev b')
  have "running b" using stepped.IH stepped.prems by simp
  moreover have "\<forall>xs. ev \<noteq> Stop xs" using stepped.prems by (metis in_set_conv_decomp)
  ultimately show ?case by (rule step_running [OF stepped(2)])
qed

text \<open>What stays as it is after the stop.\<close>

definition stopped_as :: "nat \<times> nat \<times> nat \<Rightarrow> bridge \<Rightarrow> bool" where
  "stopped_as counts b \<longleftrightarrow> stopping b \<and> outgoing b = [] \<and>
    (queued_discarded_on_stop b, active_cancelled_on_stop b, completed_unconsumed_on_stop b) = counts"

lemma step_stopped:
  assumes "bridge_step c ev b b'" "http_mode c" "stopped_as counts b"
  shows "stopped_as counts b' \<and> accepted [ev] = [] \<and> dispatched [ev] = []"
  using assms
  by (induction rule: bridge_step.induct)
    (auto simp: stopped_as_def bridge_submit_def worker_take_def push_completed_def poll_completed_def bridge_stop_def http_mode_def split: if_splits)

text \<open>
  C12. Requests are posted first in, first out, and the outgoing queue never exceeds its configured
  bound. The bridge has as many workers as are configured, so no more requests than that are under way
  at once; \<open>active_requests\<close> counts them, and the decrement of \<open>push_completed\<close> never starts from zero
  (the assertion of the source).
\<close>

theorem bridge_order_and_bounds:
  assumes "http_mode c" "bridge_run c evs b"
  shows "accepted evs = dispatched evs @ discarded evs @ outgoing b \<and>
    (bc_max_queue c > 0 \<longrightarrow> int (length (outgoing b)) \<le> bc_max_queue c) \<and>
    length (workers b) = nat (bc_worker_count c) \<and>
    active_requests b = length (posting (workers b)) \<and> active_requests b \<le> nat (bc_worker_count c) \<and>
    (\<forall>i resp b'. bridge_step c (Complete i resp) b b' \<longrightarrow> 0 < active_requests b)"
proof -
  have inv: "bridge_inv c evs b" by (rule bridge_run_inv [OF assms(2,1)])
  have workers: "length (workers b) = nat (bc_worker_count c)" by (rule bridge_run_workers [OF assms(2,1)])
  have "0 < active_requests b" if "bridge_step c (Complete i resp) b b'" for i resp b'
  proof -
    from that obtain r where "i < length (workers b)" "workers b ! i = Posting r" by cases auto
    with length_posting_update [of i "workers b" Waiting] inv show ?thesis
      by (auto simp: bridge_inv_def)
  qed
  with inv workers length_posting [of "workers b"] show ?thesis by (simp add: bridge_inv_def)
qed

theorem bridge_order_and_bounds_witness:
  "active_requests demo_bridge = 1 \<and> length (workers demo_bridge) = 1 \<and> accepted [Submit demo_request True, Dispatch 0 demo_request] = [demo_request]"
  using bridge_order_and_bounds [OF demo_http_mode demo_run] by (simp add: demo_bridge_def posting_def)

text \<open>
  C13. A stop is final. At the first \<open>stop\<close> of a run the requests that are accepted and not yet with a
  worker are the discarded ones; in the rest of the run no request is accepted and none handed to a
  worker, and the queue is empty. The three statistics keep the numbers of that moment: requests
  discarded, requests with the workers, and responses not polled.
\<close>

theorem bridge_stop_is_final:
  assumes "http_mode c" "bridge_run c (evs @ [Stop ds] @ rest) b" "\<forall>xs. Stop xs \<notin> set evs"
  shows "stopping b \<and> outgoing b = [] \<and> accepted rest = [] \<and> dispatched rest = [] \<and> accepted evs = dispatched evs @ ds \<and>
    queued_discarded_on_stop b = length ds \<and>
    active_cancelled_on_stop b = length (dispatched evs) - length (answered evs) \<and>
    completed_unconsumed_on_stop b = length (answered evs) - length (polled evs)"
  using assms(2)
proof (induction rest arbitrary: b rule: rev_induct)
  case Nil
  then obtain b0 where b0: "bridge_run c evs b0" "bridge_step c (Stop ds) b0 b" by (auto elim: bridge_run_snocE)
  have run: "running b0" by (rule run_running [OF b0(1) assms(3)])
  have inv: "bridge_inv c evs b0" by (rule bridge_run_inv [OF b0(1) assms(1)])
  then have "size (mset (map rq_tag (dispatched evs))) = size (mset (map rq_tag (posting (workers b0))) + mset (map rs_tag (answered evs)))"
    unfolding bridge_inv_def by metis
  then have "length (dispatched evs) = length (posting (workers b0)) + length (answered evs)" by simp
  with inv have sizes: "length (dispatched evs) = active_requests b0 + length (answered evs)"
    "length (answered evs) = length (polled evs) + length (completed b0)"
    by (simp_all add: bridge_inv_def)
  from b0(2) run have "b = bridge_stop b0" "ds = outgoing b0" by (cases; simp add: running_def)+
  then show ?case using run inv sizes by (auto simp: running_def bridge_inv_def bridge_stop_def)
next
  case (snoc ev rest)
  then obtain b0 where b0: "bridge_run c (evs @ [Stop ds] @ rest) b0" "bridge_step c ev b0 b"
    using bridge_run_snocE [of c "evs @ [Stop ds] @ rest" ev b] by auto
  note IH = snoc.IH [OF b0(1)]
  then show ?case using step_stopped [OF b0(2) assms(1), of "(length ds, length (dispatched evs) - length (answered evs),
      length (answered evs) - length (polled evs))"]
    by (simp add: stopped_as_def)
qed

theorem bridge_stop_is_final_witness:
  "active_cancelled_on_stop (bridge_stop demo_bridge) = 1 \<and> outgoing (bridge_stop demo_bridge) = []"
proof -
  have "bridge_step demo_config (Stop []) demo_bridge (bridge_stop demo_bridge)"
    using bridge_step.stop [of demo_config demo_bridge] by (simp add: demo_bridge_def)
  from bridge_run.stepped [OF demo_run this]
  have "bridge_run demo_config ([Submit demo_request True, Dispatch 0 demo_request] @ [Stop []] @ []) (bridge_stop demo_bridge)" by simp
  from bridge_stop_is_final [OF demo_http_mode this] show ?thesis by simp
qed

section \<open>The request a receiver reads\<close>

text \<open>The lines up to the empty one, without their line ends, and what follows it.\<close>

function http_head :: "string \<Rightarrow> string \<Rightarrow> (string list \<times> string) option" where
  "http_head line s =
    (case s of [] \<Rightarrow> None
     | c # r \<Rightarrow>
         if take 2 s \<noteq> crlf then http_head (line @ [c]) r
         else if line = [] then Some ([], drop 2 s)
         else (case http_head [] (drop 2 s) of None \<Rightarrow> None | Some (ls, body) \<Rightarrow> Some (line # ls, body)))"
  by pat_completeness auto
termination by (relation "measure (\<lambda>(line, s). length s)") auto

declare http_head.simps [simp del]

text \<open>A header line: its name, and what follows the colon and the blank.\<close>

definition header :: "string \<Rightarrow> string \<times> string" where
  "header line = (takeWhile (\<lambda>c. c \<noteq> CHR '':'') line, drop 2 (dropWhile (\<lambda>c. c \<noteq> CHR '':'') line))"

text \<open>
  The words of the first line, the headers, the body, which is as long as \<open>Content-Length\<close> says, and
  the bytes after it.
\<close>

definition http_receive :: "string \<Rightarrow> (string \<times> (string \<times> string) list \<times> string \<times> string) option" where
  "http_receive s =
    (case http_head [] s of
       Some (request_line # lines, r) \<Rightarrow>
         (case map_of (map header lines) ''Content-Length'' of
            None \<Rightarrow> None
          | Some n \<Rightarrow> Some (request_line, map header lines, take (digits_value n) r, drop (digits_value n) r))
     | _ \<Rightarrow> None)"

lemma http_head_chars: "CHR 13 \<notin> set l \<Longrightarrow> http_head line (l @ crlf @ s) = http_head (line @ l) (crlf @ s)"
proof (induction l arbitrary: line)
  case (Cons c l)
  have "http_head line (c # q) = http_head (line @ [c]) q" if "CHR 13 \<noteq> c" for q
    using that by (subst http_head.simps) (auto simp: crlf_def)
  then show ?case using Cons by simp
qed simp

lemma http_head_line:
  "CHR 13 \<notin> set l \<Longrightarrow> l \<noteq> [] \<Longrightarrow> http_head [] (l @ crlf @ s) = (case http_head [] s of None \<Rightarrow> None | Some (ls, body) \<Rightarrow> Some (l # ls, body))"
  by (simp add: http_head_chars) (simp add: http_head.simps [of l] crlf_def)

lemma http_head_end: "http_head [] (crlf @ s) = Some ([], s)"
  by (simp add: http_head.simps crlf_def)

text \<open>
  C15. A POST that is sent puts the HTTP request on the wire, however the socket cuts it. A receiver
  that reads lines up to the empty one and then as many bytes as \<open>Content-Length\<close> says finds the
  request line, the five headers and the JSON body, and no byte is left; so does the planner's own
  search for the body.
\<close>

theorem http_request_on_the_wire:
  assumes "send_all net 0 [] (make_http_request c (make_request_body r)) = Inr wire"
    "CHR 13 \<notin> set (bc_path c)" "CHR 13 \<notin> set (bc_host c)"
  shows "http_receive wire = Some (''POST '' @ bc_path c @ '' HTTP/1.1'',
      [(''Host'', bc_host c @ '':'' @ show_int (bc_port c)), (''Content-Type'', ''application/json''), (''Accept'', ''application/json''),
       (''Connection'', ''close''), (''Content-Length'', show_nat (length (make_request_body r)))], make_request_body r, []) \<and>
    parse_http_body wire = make_request_body r"
proof -
  let ?body = "make_request_body r"
  have wire: "wire = make_http_request c ?body" using send_all_complete [OF assms(1)] by simp
  let ?lines = "[''Host: '' @ bc_host c @ '':'' @ show_int (bc_port c), ''Content-Type: application/json'', ''Accept: application/json'',
      ''Connection: close'', ''Content-Length: '' @ show_nat (length ?body)]"
  have "http_head [] (make_http_request c ?body) = Some ((''POST '' @ bc_path c @ '' HTTP/1.1'') # ?lines, ?body)"
    using http_head_line [of "''POST '' @ bc_path c @ '' HTTP/1.1''"] http_head_line [of "''Host: '' @ bc_host c @ '':'' @ show_int (bc_port c)"]
      http_head_line [of "''Content-Type: application/json''"] http_head_line [of "''Accept: application/json''"]
      http_head_line [of "''Connection: close''"] http_head_line [of "''Content-Length: '' @ show_nat (length ?body)"] http_head_end assms(2,3)
    by (simp add: make_http_request_def)
  moreover have "map header ?lines = [(''Host'', bc_host c @ '':'' @ show_int (bc_port c)), (''Content-Type'', ''application/json''),
      (''Accept'', ''application/json''), (''Connection'', ''close''), (''Content-Length'', show_nat (length ?body))]"
    by (simp add: header_def)
  ultimately have "http_receive wire = Some (''POST '' @ bc_path c @ '' HTTP/1.1'',
      [(''Host'', bc_host c @ '':'' @ show_int (bc_port c)), (''Content-Type'', ''application/json''), (''Accept'', ''application/json''),
       (''Connection'', ''close''), (''Content-Length'', show_nat (length ?body))], ?body, [])"
    unfolding wire http_receive_def by simp
  then show ?thesis using wire parse_http_body_request [OF assms(2,3)] by simp
qed

theorem http_request_on_the_wire_witness:
  "http_receive (make_http_request demo_config (make_request_body demo_request)) =
    Some (''POST / HTTP/1.1'', [(''Host'', ''h:'' @ show_int 80), (''Content-Type'', ''application/json''), (''Accept'', ''application/json''),
      (''Connection'', ''close''), (''Content-Length'', show_nat (length (make_request_body demo_request)))], make_request_body demo_request, [])"
proof -
  have "send_all demo_net 0 [] s = Inr s" for s
    by (subst send_all.simps, simp add: demo_net_def) (subst send_all.simps, simp)
  from http_request_on_the_wire [OF this, of demo_config demo_request] show ?thesis
    by (simp add: demo_config_def)
qed

end
