(* ===== verification/Trigger_Monitor.thy ===== *)
theory Trigger_Monitor
  imports Trigger_Config
begin

text \<open>
  The operations of \<open>LLMTriggerMonitor\<close> of \<open>search_engines/eager_search.cc\<close>: when the search
  asks the LLM controller for help. The monitor keeps a table of statistics per heuristic value
  (a \<^emph>\<open>layer\<close>), the best heuristic value seen and the pending requests, and submits requests
  under a limit, a spacing and a cooldown. The clock, the environment variables and the text of
  a state are read through a \<open>monitor_context\<close>. Log lines are not modelled.
\<close>

record monitor_context =
  cx_environment :: environment
  cx_init_string :: "state_id \<Rightarrow> string"
  cx_now :: int

section \<open>Limits\<close>

definition reached_pending_limit :: "monitor \<Rightarrow> bool" where
  "reached_pending_limit m \<longleftrightarrow> tc_max_pending (tm_config m) > 0 \<and>
     int (card (tm_pending_states m)) \<ge> tc_max_pending (tm_config m)"

definition reached_request_limit :: "monitor \<Rightarrow> bool" where
  "reached_request_limit m \<longleftrightarrow> tc_max_requests (tm_config m) > 0 \<and>
     int (tm_requests_submitted m) \<ge> tc_max_requests (tm_config m)"

definition request_spacing_active :: "monitor \<Rightarrow> bool" where
  "request_spacing_active m \<longleftrightarrow> tm_last_request_expansion m \<ge> 0 \<and>
     tm_expansions m - tm_last_request_expansion m < tc_min_request_gap_expansions (tm_config m)"

definition h_improvement_threshold :: "trigger_config \<Rightarrow> ap_float \<Rightarrow> ap_float \<Rightarrow> ap_float" where
  "h_improvement_threshold c reference_h current_h =
    (if \<not> ap_is_finite reference_h \<or> \<not> ap_is_finite current_h then tc_h_abs_epsilon c
     else ap_max (tc_h_abs_epsilon c)
            (ap_mul (tc_h_relative_epsilon c) (ap_max (ap_abs reference_h) (ap_abs current_h))))"

definition meaningfully_improves_h :: "trigger_config \<Rightarrow> ap_float \<Rightarrow> ap_float \<Rightarrow> bool" where
  "meaningfully_improves_h c reference_h current_h \<longleftrightarrow>
    (if \<not> ap_is_finite reference_h then True
     else ap_lt (h_improvement_threshold c reference_h current_h) (ap_sub reference_h current_h))"

section \<open>Requests\<close>

definition make_request :: "monitor_context \<Rightarrow> state_id \<Rightarrow> string \<Rightarrow> ap_float \<Rightarrow> ap_float \<Rightarrow> monitor \<Rightarrow>
    LLMRequest \<times> monitor" where
  "make_request cx s reason g h m =
    (\<lparr>rq_request_id = tm_run_id m @ ''-p'' @ show_int (tm_anytime_iteration m) @ ''-'' @
        show_nat (state_hash s) @ ''-'' @ show_int (tm_next_request_id m),
      rq_run_id = tm_run_id m, rq_iteration = tm_anytime_iteration m, rq_state_id = s,
      rq_state_index = state_hash s, rq_state_label = state_id_label s,
      rq_problem_id = env_string (cx_environment cx) ''NLM_LLM_PROBLEM_ID''
        (env_string (cx_environment cx) ''NLM_PROBLEM_ID'' []),
      rq_reason = reason, rq_g = g, rq_h = h, rq_search_expansions = tm_expansions m,
      rq_init = cx_init_string cx s\<rparr>,
     m\<lparr>tm_next_request_id := tm_next_request_id m + 1\<rparr>)"

text \<open>The bookkeeping of \<open>request_state\<close> once the bridge has taken the request.\<close>

definition register_request :: "monitor_context \<Rightarrow> state_id \<Rightarrow> string \<Rightarrow> monitor \<Rightarrow> monitor" where
  "register_request cx s reason m =
    (let m = m\<lparr>tm_requests_submitted := Suc (tm_requests_submitted m),
               tm_requests_submitted_by_reason := count_up (tm_requests_submitted_by_reason m) reason,
               tm_first_request_expansion :=
                 (if tm_first_request_expansion m < 0 then tm_expansions m else tm_first_request_expansion m),
               tm_last_request_expansion := tm_expansions m,
               tm_requested_states := insert s (tm_requested_states m)\<rparr>
     in if http_mode (tm_bridge_config m)
        then m\<lparr>tm_pending_states := insert s (tm_pending_states m),
               tm_pending_request_infos := (tm_pending_request_infos m)(s \<mapsto>
                 \<lparr>pi_submitted_at = cx_now cx, pi_expansions_at_submit = tm_expansions m, pi_reason = reason\<rparr>),
               tm_max_pending_observed :=
                 max (tm_max_pending_observed m) (card (insert s (tm_pending_states m)))\<rparr>
        else m)"

definition submit_request :: "monitor_context \<Rightarrow> state_id \<Rightarrow> string \<Rightarrow> ap_float \<Rightarrow> ap_float \<Rightarrow> monitor \<Rightarrow>
    bool \<times> monitor" where
  "submit_request cx s reason g h m =
    (let (r, m) = make_request cx s reason g h m;
         (taken, b) = bridge_submit (tm_bridge_config m) r (tm_bridge m);
         m = m\<lparr>tm_bridge := b\<rparr>
     in if taken then (True, register_request cx s reason m)
        else (False, m\<lparr>tm_requests_rejected_bridge := Suc (tm_requests_rejected_bridge m)\<rparr>))"

definition request_state :: "monitor_context \<Rightarrow> state_id \<Rightarrow> string \<Rightarrow> ap_float \<Rightarrow> ap_float \<Rightarrow> bool \<Rightarrow>
    monitor \<Rightarrow> bool \<times> monitor" where
  "request_state cx s reason g h bypass_spacing m =
    (let m = m\<lparr>tm_request_attempts := Suc (tm_request_attempts m),
               tm_request_attempts_by_reason := count_up (tm_request_attempts_by_reason m) reason\<rparr>
     in if \<not> tc_enabled (tm_config m) \<or> s = no_state then (False, m)
        else if reached_request_limit m
          then (False, m\<lparr>tm_requests_rejected_request_limit := Suc (tm_requests_rejected_request_limit m)\<rparr>)
        else if \<not> bypass_spacing \<and> request_spacing_active m
          then (False, m\<lparr>tm_requests_rejected_spacing := Suc (tm_requests_rejected_spacing m)\<rparr>)
        else if s \<in> tm_requested_states m
          then (False, m\<lparr>tm_requests_rejected_duplicate := Suc (tm_requests_rejected_duplicate m)\<rparr>)
        else if reached_pending_limit m
          then (False, m\<lparr>tm_requests_rejected_pending_limit := Suc (tm_requests_rejected_pending_limit m)\<rparr>)
        else submit_request cx s reason g h m)"

section \<open>The table of layers\<close>

definition h_bucket_width :: "trigger_config \<Rightarrow> ap_float" where
  "h_bucket_width c = ap_max (tc_h_abs_epsilon c) (ap_of_rat (1 / 1000))"

definition quantize_h :: "trigger_config \<Rightarrow> ap_float \<Rightarrow> int" where
  "quantize_h c h = ap_llround (ap_div h (h_bucket_width c))"

definition hash_h_key :: "int \<Rightarrow> nat" where
  "hash_h_key key =
    (let v = word_of_int key :: 64 word;
         v = xor v (drop_bit 33 v);
         v = v * 0xff51afd7ed558ccd;
         v = xor v (drop_bit 33 v)
     in unat (and v (word_of_nat (LAYER_TABLE_CAPACITY - 1))))"

definition initialize_layer :: "int \<Rightarrow> ap_float \<Rightarrow> int \<Rightarrow> LayerStats" where
  "initialize_layer key h now = LayerStats_init\<lparr>ly_occupied := True, ly_h_key := key, ly_h := h,
     ly_last_seen_expansion := now\<rparr>"

definition probe_index :: "int \<Rightarrow> nat \<Rightarrow> nat" where
  "probe_index key probe = (hash_h_key key + probe) mod LAYER_TABLE_CAPACITY"

text \<open>The first probed slot that holds the key or is free.\<close>

definition probe_stops :: "LayerStats list \<Rightarrow> int \<Rightarrow> nat \<Rightarrow> bool" where
  "probe_stops ls key i \<longleftrightarrow> \<not> ly_occupied (ls ! i) \<or> ly_h_key (ls ! i) = key"

definition probe_layers :: "LayerStats list \<Rightarrow> int \<Rightarrow> nat option" where
  "probe_layers ls key = find (probe_stops ls key) (map (probe_index key) [0..<LAYER_TABLE_CAPACITY])"

text \<open>The stalest slot, the first one among equals.\<close>

definition stalest_layer :: "LayerStats list \<Rightarrow> nat" where
  "stalest_layer ls = foldl (\<lambda>victim i.
     if ly_last_seen_expansion (ls ! i) < ly_last_seen_expansion (ls ! victim) then i else victim)
     0 [1..<LAYER_TABLE_CAPACITY]"

text \<open>\<open>layer_for_h\<close>: the slot of the reference it returns, and the monitor.\<close>

definition layer_for_h :: "ap_float \<Rightarrow> monitor \<Rightarrow> nat \<times> monitor" where
  "layer_for_h h m =
    (let key = quantize_h (tm_config m) h; fresh = initialize_layer key h (tm_expansions m)
     in case probe_layers (tm_layers m) key of
       Some i \<Rightarrow> if ly_occupied (tm_layers m ! i) then (i, m)
                 else (i, m\<lparr>tm_layers := (tm_layers m)[i := fresh]\<rparr>)
     | None \<Rightarrow> let victim = stalest_layer (tm_layers m)
               in (victim, m\<lparr>tm_layer_table_evictions := Suc (tm_layer_table_evictions m),
                             tm_layers := (tm_layers m)[victim := fresh]\<rparr>))"

section \<open>One analysis window of a layer\<close>

definition layer_net_growth :: "LayerStats \<Rightarrow> nat" where
  "layer_net_growth l = ly_recent_opened l - ly_recent_expanded l"

definition layer_growth_ratio :: "LayerStats \<Rightarrow> ap_float" where
  "layer_growth_ratio l =
    (if ly_recent_expanded l = 0 then ap_zero False
     else ap_div (ap_of_int (int (ly_recent_opened l))) (ap_of_int (int (ly_recent_expanded l))))"

definition layer_since_request_net_growth :: "LayerStats \<Rightarrow> nat" where
  "layer_since_request_net_growth l = ly_opened_since_request l - ly_expanded_since_request l"

definition reset_layer_episode :: "bool \<Rightarrow> LayerStats \<Rightarrow> LayerStats" where
  "reset_layer_episode reset_cooldown l =
    l\<lparr>ly_opened_history := replicate MAX_ACTIVITY_WINDOWS 0,
      ly_expanded_history := replicate MAX_ACTIVITY_WINDOWS 0,
      ly_recent_opened := 0, ly_recent_expanded := 0,
      ly_opened_since_request := 0, ly_expanded_since_request := 0,
      ly_last_request_expansion := if reset_cooldown then - 1 else ly_last_request_expansion l,
      ly_growth_streak := 0, ly_calm_streak := 0, ly_inactive_streak := 0,
      ly_requests_in_episode := 0, ly_growing := False, ly_ready := False,
      ly_representative_state := no_state, ly_representative_g := ap_zero False,
      ly_representative_expansion := - 1\<rparr>"

text \<open>Moving the current counts into the history and summing the last windows.\<close>

definition shift_window :: "trigger_config \<Rightarrow> nat \<Rightarrow> LayerStats \<Rightarrow> LayerStats" where
  "shift_window c cursor l =
    (let opened = (ly_opened_history l)[cursor := ly_current_opened l];
         expanded = (ly_expanded_history l)[cursor := ly_current_expanded l];
         n = nat (tc_activity_windows c)
     in l\<lparr>ly_opened_history := opened, ly_expanded_history := expanded,
          ly_current_opened := 0, ly_current_expanded := 0,
          ly_inactive_streak := (if ly_current_opened l = 0 then ly_inactive_streak l + 1 else 0),
          ly_recent_opened := sum_list (take n opened),
          ly_recent_expanded := sum_list (take n expanded)\<rparr>)"

definition layer_is_growing :: "trigger_config \<Rightarrow> LayerStats \<Rightarrow> bool" where
  "layer_is_growing c l \<longleftrightarrow> tc_enable_frontier_plateau c \<and>
     int (ly_recent_expanded l) \<ge> tc_layer_min_recent_expanded c \<and>
     int (layer_net_growth l) \<ge> tc_layer_min_recent_net_growth c \<and>
     ap_le (tc_plateau_growth_ratio c) (layer_growth_ratio l)"

definition has_episode_state :: "LayerStats \<Rightarrow> bool" where
  "has_episode_state l \<longleftrightarrow> ly_ready l \<or> ly_requests_in_episode l > 0 \<or>
     ly_opened_since_request l > 0 \<or> ly_expanded_since_request l > 0"

text \<open>
  \<open>update_layer_window\<close>: the layer, and how much \<open>frontier_plateau_events\<close> and
  \<open>layer_episode_resets\<close> grow.
\<close>

definition update_layer_window :: "trigger_config \<Rightarrow> nat \<Rightarrow> LayerStats \<Rightarrow> LayerStats \<times> nat \<times> nat" where
  "update_layer_window c cursor l0 =
    (let l = shift_window c cursor l0; l = l\<lparr>ly_growing := layer_is_growing c l\<rparr>
     in if ly_growing l then
          let l = l\<lparr>ly_growth_streak := ly_growth_streak l + 1, ly_calm_streak := 0\<rparr>
          in if \<not> ly_ready l \<and> ly_growth_streak l \<ge> tc_growth_confirm_windows c
             then (l\<lparr>ly_ready := True\<rparr>, 1, 0) else (l, 0, 0)
        else
          let l = l\<lparr>ly_growth_streak := 0, ly_calm_streak := ly_calm_streak l + 1\<rparr>
          in if ly_inactive_streak l \<ge> tc_layer_reset_windows c \<and>
                (has_episode_state l \<or> ly_last_request_expansion l \<ge> 0)
             then (reset_layer_episode True l, 0, 1)
             else if has_episode_state l \<and> ly_calm_streak l \<ge> tc_layer_reset_windows c
             then (reset_layer_episode False l, 0, 1)
             else (l, 0, 0))"

section \<open>Which layers may be asked about\<close>

definition layer_has_new_evidence :: "trigger_config \<Rightarrow> LayerStats \<Rightarrow> bool" where
  "layer_has_new_evidence c l \<longleftrightarrow>
     \<not> int (ly_expanded_since_request l) < tc_layer_min_since_request_expanded c \<and>
     int (layer_since_request_net_growth l) \<ge> tc_layer_min_since_request_net_growth c"

definition layer_request_eligible :: "monitor \<Rightarrow> LayerStats \<Rightarrow> bool" where
  "layer_request_eligible m l \<longleftrightarrow>
    (if \<not> tc_enable_frontier_plateau (tm_config m) \<or> \<not> ly_occupied l \<or> \<not> ly_ready l \<or>
        \<not> ly_growing l \<or> ly_representative_state l = no_state \<or>
        ly_representative_state l \<in> tm_requested_states m \<or>
        \<not> layer_has_new_evidence (tm_config m) l then False
     else if ly_last_request_expansion l \<ge> 0 \<and>
        tm_expansions m - ly_last_request_expansion l < tc_per_layer_request_gap_expansions (tm_config m)
        then False
     else ly_representative_expansion l > ly_last_request_expansion l)"

definition has_eligible_layer_candidate :: "monitor \<Rightarrow> bool" where
  "has_eligible_layer_candidate m \<longleftrightarrow> list_ex (layer_request_eligible m) (tm_layers m)"

definition layer_priority_better :: "LayerStats \<Rightarrow> LayerStats \<Rightarrow> bool" where
  "layer_priority_better l r \<longleftrightarrow>
    (let ln = layer_net_growth l; rn = layer_net_growth r;
         la = ly_recent_opened l + ly_recent_expanded l; ra = ly_recent_opened r + ly_recent_expanded r
     in if ln \<noteq> rn then ln > rn
        else if la \<noteq> ra then la > ra
        else if ly_last_request_expansion l \<noteq> ly_last_request_expansion r
          then ly_last_request_expansion l < ly_last_request_expansion r
        else ap_lt (ly_h l) (ly_h r))"

text \<open>
  \<open>std::sort\<close> of at most sixteen indices. The order of equivalent elements is not specified by
  the standard; the model keeps it, as the insertion sort of short ranges does.
\<close>

fun insert_sorted :: "('a \<Rightarrow> 'a \<Rightarrow> bool) \<Rightarrow> 'a \<Rightarrow> 'a list \<Rightarrow> 'a list" where
  "insert_sorted better x [] = [x]"
| "insert_sorted better x (y # ys) =
    (if better x y then x # y # ys else y # insert_sorted better x ys)"

definition sort_candidates :: "('a \<Rightarrow> 'a \<Rightarrow> bool) \<Rightarrow> 'a list \<Rightarrow> 'a list" where
  "sort_candidates better xs = foldl (\<lambda>sorted x. insert_sorted better x sorted) [] xs"

definition collect_layer_candidates :: "monitor \<Rightarrow> nat list" where
  "collect_layer_candidates m =
    sort_candidates (\<lambda>i j. layer_priority_better (tm_layers m ! i) (tm_layers m ! j))
      (filter (\<lambda>i. layer_request_eligible m (tm_layers m ! i)) [0..<LAYER_TABLE_CAPACITY])"

definition global_stall_active :: "monitor \<Rightarrow> bool" where
  "global_stall_active m \<longleftrightarrow> tc_enable_global_stall (tm_config m) \<and>
     tc_stall_expansions (tm_config m) > 0 \<and>
     tm_expansions_since_best_h m \<ge> tc_stall_expansions (tm_config m)"

definition global_stall_is_eligible :: "monitor \<Rightarrow> bool" where
  "global_stall_is_eligible m \<longleftrightarrow> global_stall_active m \<and> \<not> tm_global_stall_requested m"

section \<open>Submitting and analysing\<close>

definition note_layer_request :: "nat \<Rightarrow> monitor \<Rightarrow> monitor" where
  "note_layer_request i m =
    m\<lparr>tm_layer_requests_submitted := Suc (tm_layer_requests_submitted m),
      tm_layers := (tm_layers m)[i := (tm_layers m ! i)\<lparr>
        ly_requests_in_episode := ly_requests_in_episode (tm_layers m ! i) + 1,
        ly_last_request_expansion := tm_expansions m,
        ly_opened_since_request := 0, ly_expanded_since_request := 0\<rparr>]\<rparr>"

text \<open>The loop over the considered candidates; \<open>submitted\<close> counts the accepted requests.\<close>

fun submit_candidates :: "monitor_context \<Rightarrow> bool \<Rightarrow> nat list \<Rightarrow> int \<Rightarrow> monitor \<Rightarrow> int \<times> monitor" where
  "submit_candidates cx stall [] submitted m = (submitted, m)"
| "submit_candidates cx stall (i # is) submitted m =
    (if \<not> submitted < tc_requests_per_slot (tm_config m) then (submitted, m)
     else let l = tm_layers m ! i;
              reason = (if stall \<and> submitted = 0 then ''frontier_growth_plateau+global_stall''
                        else ''frontier_growth_plateau'')
          in case request_state cx (ly_representative_state l) reason (ly_representative_g l) (ly_h l)
                    (submitted > 0) m of
            (False, m) \<Rightarrow> submit_candidates cx stall is submitted m
          | (True, m) \<Rightarrow> submit_candidates cx stall is (submitted + 1) (note_layer_request i m))"

definition submit_layer_candidates :: "monitor_context \<Rightarrow> bool \<Rightarrow> state_id \<Rightarrow> ap_float \<Rightarrow> ap_float \<Rightarrow>
    monitor \<Rightarrow> int \<times> monitor" where
  "submit_layer_candidates cx include_global_stall fallback_state fallback_g fallback_h m =
    (if reached_request_limit m \<or> request_spacing_active m then (0, m)
     else let candidates = collect_layer_candidates m;
              considered = take (nat (tc_candidate_layers (tm_config m))) candidates;
              (submitted, m) = submit_candidates cx include_global_stall considered 0 m;
              (submitted, m) =
                (if include_global_stall \<and> submitted = 0 \<and> fallback_state \<noteq> no_state then
                   case request_state cx fallback_state ''global_stall'' fallback_g fallback_h False m of
                     (True, m) \<Rightarrow> (submitted + 1, m) | (False, m) \<Rightarrow> (submitted, m)
                 else (submitted, m));
              m = (if include_global_stall \<and> submitted > 0 then m\<lparr>tm_global_stall_requested := True\<rparr> else m)
          in (submitted, m))"

text \<open>One layer of the loop of \<open>analyze_layers\<close>.\<close>

definition analyze_layer :: "nat \<Rightarrow> monitor \<Rightarrow> monitor" where
  "analyze_layer i m =
    (if \<not> ly_occupied (tm_layers m ! i) then m
     else let (l, plateaus, resets) =
            update_layer_window (tm_config m) (tm_history_cursor m) (tm_layers m ! i)
          in m\<lparr>tm_layers := (tm_layers m)[i := l],
               tm_frontier_plateau_events := tm_frontier_plateau_events m + plateaus,
               tm_layer_episode_resets := tm_layer_episode_resets m + resets\<rparr>)"

definition close_window :: "monitor \<Rightarrow> monitor" where
  "close_window m =
    (let m = fold analyze_layer [0..<LAYER_TABLE_CAPACITY]
               (m\<lparr>tm_analysis_checks := Suc (tm_analysis_checks m)\<rparr>)
     in m\<lparr>tm_history_cursor := Suc (tm_history_cursor m) mod nat (tc_activity_windows (tm_config m)),
          tm_global_stall_events := tm_global_stall_events m +
            (if global_stall_active m \<and> \<not> tm_global_stall_condition_active m then 1 else 0),
          tm_global_stall_condition_active := global_stall_active m\<rparr>)"

definition analyze_layers :: "monitor_context \<Rightarrow> state_id \<Rightarrow> ap_float \<Rightarrow> ap_float \<Rightarrow> monitor \<Rightarrow> monitor" where
  "analyze_layers cx s g h m =
    (let m = close_window m
     in snd (submit_layer_candidates cx (global_stall_is_eligible m) s g h m))"

section \<open>Responses\<close>

text \<open>\<open>chrono::duration<double>\<close> between two readings of the clock, in nanoseconds.\<close>

definition seconds_between :: "int \<Rightarrow> int \<Rightarrow> ap_float" where
  "seconds_between start now = ap_div (ap_of_int (now - start)) (ap_of_int (10 ^ 9))"

definition forget_pending :: "state_id \<Rightarrow> monitor \<Rightarrow> monitor" where
  "forget_pending s m = m\<lparr>tm_pending_states := tm_pending_states m - {s},
     tm_pending_request_infos := (tm_pending_request_infos m)(s := None)\<rparr>"

definition discard_response :: "LLMResponse \<Rightarrow> monitor \<Rightarrow> monitor" where
  "discard_response resp m =
    forget_pending (rs_state_id resp)
      (m\<lparr>tm_responses_discarded_phase_end := Suc (tm_responses_discarded_phase_end m)\<rparr>)"

definition complete_response :: "monitor_context \<Rightarrow> LLMResponse \<Rightarrow> monitor \<Rightarrow> monitor" where
  "complete_response cx resp m =
    (let info = tm_pending_request_infos m (rs_state_id resp);
         seconds = (case info of None \<Rightarrow> ap_zero False
           | Some p \<Rightarrow> seconds_between (pi_submitted_at p) (cx_now cx));
         age = (case info of None \<Rightarrow> 0
           | Some p \<Rightarrow> nat (max 0 (tm_expansions m - pi_expansions_at_submit p)))
     in forget_pending (rs_state_id resp)
       (m\<lparr>tm_responses_completed := Suc (tm_responses_completed m),
          tm_response_transport_failures :=
            tm_response_transport_failures m + (if rs_transport_ok resp then 0 else 1),
          tm_responses_completed_by_reason := (case info of
              None \<Rightarrow> tm_responses_completed_by_reason m
            | Some p \<Rightarrow> count_up (tm_responses_completed_by_reason m) (pi_reason p)),
          tm_total_response_seconds := ap_add (tm_total_response_seconds m) seconds,
          tm_max_response_seconds := ap_max (tm_max_response_seconds m) seconds,
          tm_total_response_age_expansions := tm_total_response_age_expansions m + age,
          tm_max_response_age_expansions := max (tm_max_response_age_expansions m) age\<rparr>))"

definition poll_bridge :: "monitor_context \<Rightarrow> bool \<Rightarrow> monitor \<Rightarrow> LLMResponse list \<times> monitor" where
  "poll_bridge cx discard_for_phase_end m =
    (if \<not> tc_enabled (tm_config m) then ([], m)
     else let (responses, b) = poll_completed (tm_bridge m);
              m = m\<lparr>tm_bridge := b\<rparr>;
              m = (if discard_for_phase_end then fold discard_response responses m
                   else fold (complete_response cx) responses m)
          in (responses, m))"

text \<open>\<open>finalize_and_print\<close>, less the printing.\<close>

definition finalize_monitor :: "monitor_context \<Rightarrow> monitor \<Rightarrow> monitor" where
  "finalize_monitor cx m =
    (if tm_statistics_printed m then m
     else let b = bridge_stop (tm_bridge m);
              m = m\<lparr>tm_statistics_printed := True, tm_bridge := b,
                    tm_completed_unconsumed_phase_end := completed_unconsumed_on_stop b\<rparr>
          in snd (poll_bridge cx True m))"

section \<open>What the search reports\<close>

definition start_bridge :: "monitor \<Rightarrow> monitor" where
  "start_bridge m =
    (if tc_enabled (tm_config m) then m\<lparr>tm_bridge := bridge_start (tm_bridge_config m) (tm_bridge m)\<rparr> else m)"

definition monitor_set_anytime_iteration :: "int \<Rightarrow> monitor \<Rightarrow> monitor" where
  "monitor_set_anytime_iteration iteration m = m\<lparr>tm_anytime_iteration := max 1 iteration\<rparr>"

definition record_usable_response :: "monitor \<Rightarrow> monitor" where
  "record_usable_response m = m\<lparr>tm_usable_responses := Suc (tm_usable_responses m)\<rparr>"

definition record_injected_chain :: "int \<Rightarrow> int \<Rightarrow> monitor \<Rightarrow> monitor" where
  "record_injected_chain applied_actions inserted_count m =
    (if applied_actions \<le> 0 then m
     else m\<lparr>tm_injected_chains := Suc (tm_injected_chains m),
            tm_injected_actions := tm_injected_actions m + nat applied_actions,
            tm_injected_states := tm_injected_states m + nat (max 0 inserted_count)\<rparr>)"

definition has_pending_requests :: "monitor \<Rightarrow> bool" where
  "has_pending_requests m \<longleftrightarrow> tm_pending_states m \<noteq> {}"

definition maybe_request_initial :: "monitor_context \<Rightarrow> state_id \<Rightarrow> ap_float \<Rightarrow> ap_float \<Rightarrow> monitor \<Rightarrow>
    bool \<times> monitor" where
  "maybe_request_initial cx s g h m =
    (if \<not> tc_request_initial (tm_config m) then (False, m)
     else request_state cx s ''initial_replay_test'' g h True m)"

definition count_opened :: "ap_float \<Rightarrow> monitor \<Rightarrow> monitor" where
  "count_opened h m =
    (let (i, m) = layer_for_h h m; l = tm_layers m ! i
     in m\<lparr>tm_layers := (tm_layers m)[i := l\<lparr>ly_current_opened := Suc (ly_current_opened l),
            ly_opened_since_request := Suc (ly_opened_since_request l),
            ly_last_seen_expansion := tm_expansions m\<rparr>]\<rparr>)"

definition note_best_h :: "ap_float \<Rightarrow> monitor \<Rightarrow> monitor" where
  "note_best_h h m =
    (if meaningfully_improves_h (tm_config m) (tm_best_h m) h
     then m\<lparr>tm_best_h := h, tm_expansions_since_best_h := 0,
            tm_global_stall_condition_active := False, tm_global_stall_requested := False\<rparr>
     else m)"

definition record_open_state :: "ap_float \<Rightarrow> monitor \<Rightarrow> monitor" where
  "record_open_state h m =
    (if \<not> tc_enabled (tm_config m) \<or> \<not> ap_is_finite h then m
     else let m = m\<lparr>tm_opened_states := Suc (tm_opened_states m)\<rparr>;
              m = (if tc_enable_frontier_plateau (tm_config m) then count_opened h m else m)
          in note_best_h h m)"

definition record_frontier_reinsert :: "ap_float \<Rightarrow> monitor \<Rightarrow> monitor" where
  "record_frontier_reinsert h m = record_open_state h m"

definition suspend_if_pending :: "state_id \<Rightarrow> monitor \<Rightarrow> bool \<times> monitor" where
  "suspend_if_pending s m =
    (if \<not> tc_enabled (tm_config m) \<or> \<not> tc_skip_pending (tm_config m) \<or> s \<notin> tm_pending_states m
     then (False, m)
     else (True, m\<lparr>tm_suspended_states := insert s (tm_suspended_states m)\<rparr>))"

definition take_suspended :: "state_id \<Rightarrow> monitor \<Rightarrow> bool \<times> monitor" where
  "take_suspended s m =
    (s \<in> tm_suspended_states m, m\<lparr>tm_suspended_states := tm_suspended_states m - {s}\<rparr>)"

definition should_check_ancestor :: "monitor \<Rightarrow> bool \<times> monitor" where
  "should_check_ancestor m =
    (if \<not> tc_enabled (tm_config m) \<or> \<not> tc_enable_ancestor_stagnation (tm_config m) then (False, m)
     else if reached_request_limit m then (False, m)
     else if request_spacing_active m then (False, m)
     else if tm_expansions m - tm_last_ancestor_check_expansion m < tc_ancestor_check_interval (tm_config m)
       then (False, m)
     else let m = m\<lparr>tm_last_ancestor_check_expansion := tm_expansions m\<rparr>
          in if has_eligible_layer_candidate m \<or> global_stall_is_eligible m
             then (False, m\<lparr>tm_ancestor_deferrals := Suc (tm_ancestor_deferrals m)\<rparr>)
             else (True, m\<lparr>tm_ancestor_checks := Suc (tm_ancestor_checks m)\<rparr>))"

definition ancestor_improvement_is_stagnant :: "trigger_config \<Rightarrow> ap_float \<Rightarrow> ap_float \<Rightarrow> bool" where
  "ancestor_improvement_is_stagnant c best_improvement current_h \<longleftrightarrow>
     ap_le best_improvement (h_improvement_threshold c (ap_add current_h best_improvement) current_h)"

definition request_ancestor :: "monitor_context \<Rightarrow> state_id \<Rightarrow> ap_float \<Rightarrow> ap_float \<Rightarrow> monitor \<Rightarrow>
    bool \<times> monitor" where
  "request_ancestor cx s g h m =
    request_state cx s ''ancestor_stagnation'' g h False
      (m\<lparr>tm_ancestor_stagnation_events := Suc (tm_ancestor_stagnation_events m)\<rparr>)"

definition record_expanded_without_h :: "monitor \<Rightarrow> monitor" where
  "record_expanded_without_h m =
    (if \<not> tc_enabled (tm_config m) then m
     else m\<lparr>tm_expansions := tm_expansions m + 1,
            tm_expansions_since_best_h := tm_expansions_since_best_h m + 1\<rparr>)"

definition count_expanded :: "state_id \<Rightarrow> ap_float \<Rightarrow> ap_float \<Rightarrow> monitor \<Rightarrow> monitor" where
  "count_expanded s g h m =
    (let (i, m) = layer_for_h h m; l = tm_layers m ! i
     in m\<lparr>tm_layers := (tm_layers m)[i := l\<lparr>ly_current_expanded := Suc (ly_current_expanded l),
            ly_expanded_since_request := Suc (ly_expanded_since_request l), ly_h := h,
            ly_last_seen_expansion := tm_expansions m, ly_representative_state := s,
            ly_representative_g := g, ly_representative_expansion := tm_expansions m\<rparr>]\<rparr>)"

definition maybe_analyze :: "monitor_context \<Rightarrow> state_id \<Rightarrow> ap_float \<Rightarrow> ap_float \<Rightarrow> monitor \<Rightarrow> monitor" where
  "maybe_analyze cx s g h m =
    (if tm_expansions m - tm_last_analysis_expansion m \<ge> tc_analysis_interval (tm_config m)
     then analyze_layers cx s g h (m\<lparr>tm_last_analysis_expansion := tm_expansions m\<rparr>) else m)"

definition maybe_heartbeat :: "monitor \<Rightarrow> monitor" where
  "maybe_heartbeat m =
    (if tc_heartbeat_interval (tm_config m) > 0 \<and>
        tm_expansions m - tm_last_heartbeat_expansion m \<ge> tc_heartbeat_interval (tm_config m)
     then m\<lparr>tm_last_heartbeat_expansion := tm_expansions m\<rparr> else m)"

definition record_expanded :: "monitor_context \<Rightarrow> state_id \<Rightarrow> ap_float \<Rightarrow> ap_float \<Rightarrow> monitor \<Rightarrow> monitor" where
  "record_expanded cx s g h m =
    (if \<not> tc_enabled (tm_config m) then m
     else if \<not> ap_is_finite h then record_expanded_without_h m
     else let m = record_expanded_without_h m;
              m = (if tc_enable_frontier_plateau (tm_config m) then count_expanded s g h m else m)
          in maybe_heartbeat (maybe_analyze cx s g h m))"

section \<open>Runs\<close>

text \<open>
  The calls of the search thread, and the steps the workers of the bridge make between them.
\<close>

datatype monitor_event =
    Iteration int
  | RequestInitial state_id ap_float ap_float
  | RequestAncestor state_id ap_float ap_float
  | CheckAncestor
  | OpenState ap_float
  | Expanded state_id ap_float ap_float
  | ExpandedWithoutH
  | Suspend state_id
  | Resume state_id
  | PollBridge
  | UsableResponse
  | InjectedChain int int

primrec monitor_call :: "monitor_context \<Rightarrow> monitor_event \<Rightarrow> monitor \<Rightarrow> monitor" where
  "monitor_call cx (Iteration n) m = monitor_set_anytime_iteration n m"
| "monitor_call cx (RequestInitial s g h) m = snd (maybe_request_initial cx s g h m)"
| "monitor_call cx (RequestAncestor s g h) m = snd (request_ancestor cx s g h m)"
| "monitor_call cx CheckAncestor m = snd (should_check_ancestor m)"
| "monitor_call cx (OpenState h) m = record_open_state h m"
| "monitor_call cx (Expanded s g h) m = record_expanded cx s g h m"
| "monitor_call cx ExpandedWithoutH m = record_expanded_without_h m"
| "monitor_call cx (Suspend s) m = snd (suspend_if_pending s m)"
| "monitor_call cx (Resume s) m = snd (take_suspended s m)"
| "monitor_call cx PollBridge m = snd (poll_bridge cx False m)"
| "monitor_call cx UsableResponse m = record_usable_response m"
| "monitor_call cx (InjectedChain a n) m = record_injected_chain a n m"

fun worker_event :: "bridge_event \<Rightarrow> bool" where
  "worker_event (Dispatch i r) = True"
| "worker_event (Leave i) = True"
| "worker_event (Complete i resp) = True"
| "worker_event _ = False"

inductive monitor_run :: "environment \<Rightarrow> monitor \<Rightarrow> bool" for env where
  started: "monitor_run env (start_bridge (monitor_init env))"
| called: "monitor_run env m \<Longrightarrow> monitor_run env (monitor_call cx ev m)"
| worked: "monitor_run env m \<Longrightarrow> bridge_step (tm_bridge_config m) ev (tm_bridge m) b \<Longrightarrow> worker_event ev \<Longrightarrow>
    monitor_run env (m\<lparr>tm_bridge := b\<rparr>)"
| finalized: "monitor_run env m \<Longrightarrow> monitor_run env (finalize_monitor cx m)"

end
