(* ===== verification/Trigger_Laws.thy ===== *)
theory Trigger_Laws
  imports Trigger_Monitor Bridge_Laws
begin

text \<open>
  What the trigger monitor guarantees: the request budget and its bookkeeping, the agreement of
  its pending states with the bridge, and the laws of its layer table.
\<close>

named_theorems monitor_defs \<open>definitions of the calls that make no request\<close>

lemmas [monitor_defs] = monitor_set_anytime_iteration_def record_usable_response_def
  record_injected_chain_def suspend_if_pending_def take_suspended_def should_check_ancestor_def
  record_expanded_without_h_def maybe_heartbeat_def note_best_h_def

section \<open>The configuration\<close>

definition config_ok :: "trigger_config \<Rightarrow> bool" where
  "config_ok c \<longleftrightarrow> 1 \<le> tc_activity_windows c \<and> tc_activity_windows c \<le> int MAX_ACTIVITY_WINDOWS \<and>
     1 \<le> tc_requests_per_slot c \<and> tc_requests_per_slot c \<le> tc_candidate_layers c \<and>
     tc_candidate_layers c \<le> int LAYER_TABLE_CAPACITY \<and> 0 \<le> tc_min_request_gap_expansions c \<and>
     tc_min_request_gap_expansions c \<le> tc_per_layer_request_gap_expansions c \<and>
     1 \<le> tc_growth_confirm_windows c \<and> 1 \<le> tc_layer_reset_windows c \<and>
     1 \<le> tc_analysis_interval c \<and> \<not> lt_values (decode (tc_h_abs_epsilon c)) (Fin 0)"

lemma config_ok_from: "config_ok (trigger_config_from env)"
  by (simp add: config_ok_def trigger_config_from_def Let_def MAX_ACTIVITY_WINDOWS_def
      LAYER_TABLE_CAPACITY_def decode_ap_max_zero) linarith

section \<open>Sorting the candidates\<close>

lemma mset_insert_sorted [simp]: "mset (insert_sorted better x xs) = add_mset x (mset xs)"
  by (induction xs) auto

lemma set_insert_sorted [simp]: "set (insert_sorted better x xs) = insert x (set xs)"
  by (induction xs) auto

lemma mset_sort_candidates: "mset (sort_candidates better xs) = mset xs"
proof -
  have "mset (foldl (\<lambda>sorted x. insert_sorted better x sorted) ys xs) = mset ys + mset xs" for ys
    by (induction xs arbitrary: ys) auto
  then show ?thesis by (simp add: sort_candidates_def)
qed

lemma collect_layer_candidates_bound: "i \<in> set (collect_layer_candidates m) \<Longrightarrow> i < LAYER_TABLE_CAPACITY"
  unfolding collect_layer_candidates_def by (metis (no_types, lifting) mset_sort_candidates set_mset_mset filter_is_subset set_upt atLeastLessThan_iff subsetD)

section \<open>Invariants of the monitor\<close>

text \<open>
  A predicate kept by one request and by the few updates the calls are made of is kept by every
  call the search makes; if the workers and the end of a run keep it too, it holds throughout. The
  states that may be asked about and the calls allowed can be restricted, by \<open>ok_state\<close> and
  \<open>allowed\<close>.
\<close>

fun composed_event :: "monitor_event \<Rightarrow> bool" where
  "composed_event (RequestInitial s g h) = True"
| "composed_event (RequestAncestor s g h) = True"
| "composed_event (OpenState h) = True"
| "composed_event (Expanded s g h) = True"
| "composed_event _ = False"

fun event_states :: "monitor_event \<Rightarrow> state_id set" where
  "event_states (RequestInitial s g h) = {s}"
| "event_states (RequestAncestor s g h) = {s}"
| "event_states (Expanded s g h) = {s}"
| "event_states _ = {}"

locale kept_by_calls =
  fixes P :: "monitor \<Rightarrow> bool" and ok_state :: "state_id \<Rightarrow> bool" and allowed :: "monitor_event \<Rightarrow> bool"
  assumes request: "P m \<Longrightarrow> ok_state s \<Longrightarrow> P (snd (request_state cx s reason g h bypass m))"
    and representative: "P m \<Longrightarrow> i < LAYER_TABLE_CAPACITY \<Longrightarrow> ok_state (ly_representative_state (tm_layers m ! i))"
    and note_layer: "P m \<Longrightarrow> P (note_layer_request i m)"
    and window: "P m \<Longrightarrow> P (close_window m)"
    and opened: "P m \<Longrightarrow> ap_is_finite h \<Longrightarrow> P (count_opened h m)"
    and expanded: "P m \<Longrightarrow> ap_is_finite h \<Longrightarrow> ok_state s \<Longrightarrow> P (count_expanded s g h m)"
    and best: "P m \<Longrightarrow> ap_is_finite h \<Longrightarrow> P (note_best_h h m)"
    and heartbeat: "P m \<Longrightarrow> P (maybe_heartbeat m)"
    and stall_asked: "P m \<Longrightarrow> P (m\<lparr>tm_global_stall_requested := True\<rparr>)"
    and opened_more: "P m \<Longrightarrow> P (m\<lparr>tm_opened_states := Suc (tm_opened_states m)\<rparr>)"
    and analysed: "P m \<Longrightarrow> P (m\<lparr>tm_last_analysis_expansion := tm_expansions m\<rparr>)"
    and stagnated: "P m \<Longrightarrow> P (m\<lparr>tm_ancestor_stagnation_events := n\<rparr>)"
    and simple: "P m \<Longrightarrow> \<not> composed_event ev \<Longrightarrow> allowed ev \<Longrightarrow> P (monitor_call cx ev m)"
    and counting: "allowed ExpandedWithoutH"
begin

lemma candidates: "P m \<Longrightarrow> set is \<subseteq> {..<LAYER_TABLE_CAPACITY} \<Longrightarrow> P (snd (submit_candidates cx stall is n m))"
proof (induction "is" arbitrary: n m)
  case (Cons i "is")
  have step: "P (snd (case r of (False, m) \<Rightarrow> submit_candidates cx stall is n m
      | (True, m) \<Rightarrow> submit_candidates cx stall is (n + 1) (note_layer_request i m)))"
    if "P (snd r)" for r
    using that Cons.IH Cons.prems(2) note_layer by (cases r; cases "fst r") auto
  show ?case
    by (simp only: submit_candidates.simps Let_def if_distrib [of snd] if_distrib [of P])
       (use Cons.prems in \<open>simp add: step request representative\<close>)
qed simp

lemma submit_layers:
  assumes "P m" "ok_state s"
  shows "P (snd (submit_layer_candidates cx stall s g h m))"
proof -
  obtain n m1 where r1: "submit_candidates cx stall
      (take (nat (tc_candidate_layers (tm_config m))) (collect_layer_candidates m)) 0 m = (n, m1)"
    by fastforce
  have "set (take (nat (tc_candidate_layers (tm_config m))) (collect_layer_candidates m)) \<subseteq> {..<LAYER_TABLE_CAPACITY}"
    using collect_layer_candidates_bound by (auto dest!: in_set_takeD)
  then have m1: "P m1" using candidates [OF assms(1)] r1 by (metis snd_conv)
  obtain ok m2 where r2: "request_state cx s ''global_stall'' g h False m1 = (ok, m2)" by fastforce
  then have "P m2" using request [OF m1 assms(2)] by (metis snd_conv)
  with m1 assms show ?thesis
    by (cases ok) (simp_all add: submit_layer_candidates_def Let_def r1 r2 stall_asked)
qed

lemma analysis: "P m \<Longrightarrow> ok_state s \<Longrightarrow> P (maybe_analyze cx s g h m)"
  by (simp add: maybe_analyze_def analyze_layers_def Let_def submit_layers window analysed)

lemma call: "P m \<Longrightarrow> allowed ev \<Longrightarrow> (\<And>s. s \<in> event_states ev \<Longrightarrow> ok_state s) \<Longrightarrow> P (monitor_call cx ev m)"
proof (cases "composed_event ev")
  case True
  assume m: "P m" and ok: "\<And>s. s \<in> event_states ev \<Longrightarrow> ok_state s"
  have "P (record_expanded_without_h m)" using simple [OF m, of ExpandedWithoutH] counting by simp
  with m ok True show ?thesis
    by (cases ev)
       (simp_all add: maybe_request_initial_def request_ancestor_def record_open_state_def
          record_expanded_def Let_def request stagnated opened_more opened best expanded analysis heartbeat)
qed (rule simple)

end

locale kept_by_runs = kept_by_calls +
  fixes env :: environment
  assumes any_state: "ok_state s" and any_call: "allowed call"
    and starts: "P (start_bridge (monitor_init env))"
    and works: "P m \<Longrightarrow> bridge_step (tm_bridge_config m) ev (tm_bridge m) b \<Longrightarrow> worker_event ev \<Longrightarrow>
      P (m\<lparr>tm_bridge := b\<rparr>)"
    and ends: "P m \<Longrightarrow> P (finalize_monitor cx m)"
begin

lemma run: "monitor_run env m \<Longrightarrow> P m"
  by (induction rule: monitor_run.induct) (simp_all add: starts call any_state any_call works ends)

end

section \<open>Request bookkeeping\<close>

text \<open>What a monitor knows of its requests; every call that makes none keeps it.\<close>

definition request_inv :: "monitor \<Rightarrow> bool" where
  "request_inv m \<longleftrightarrow> config_ok (tm_config m) \<and>
     finite (tm_requested_states m) \<and> tm_pending_states m \<subseteq> tm_requested_states m \<and>
     dom (tm_pending_request_infos m) = tm_pending_states m \<and> no_state \<notin> tm_requested_states m \<and>
     tm_requests_submitted m = card (tm_requested_states m) \<and>
     (tc_max_requests (tm_config m) > 0 \<longrightarrow>
        int (tm_requests_submitted m) \<le> tc_max_requests (tm_config m)) \<and>
     (tc_max_pending (tm_config m) > 0 \<longrightarrow>
        int (card (tm_pending_states m)) \<le> tc_max_pending (tm_config m)) \<and>
     tm_requests_submitted m + tm_requests_rejected_duplicate m + tm_requests_rejected_pending_limit m +
       tm_requests_rejected_request_limit m + tm_requests_rejected_spacing m +
       tm_requests_rejected_bridge m \<le> tm_request_attempts m \<and>
     0 \<le> tm_expansions m \<and> tm_last_request_expansion m \<le> tm_expansions m"

definition request_view :: "monitor \<Rightarrow> _" where
  "request_view m = (tm_config m, tm_bridge_config m, tm_bridge m, tm_requested_states m,
     tm_pending_states m, tm_pending_request_infos m, tm_requests_submitted m,
     (tm_requests_rejected_duplicate m, tm_requests_rejected_pending_limit m,
      tm_requests_rejected_request_limit m, tm_requests_rejected_spacing m,
      tm_requests_rejected_bridge m, tm_request_attempts m, tm_last_request_expansion m))"

lemma request_inv_view:
  "request_view m' = request_view m \<Longrightarrow> tm_expansions m \<le> tm_expansions m' \<Longrightarrow>
   request_inv m \<Longrightarrow> request_inv m'"
  by (auto simp: request_view_def request_inv_def)

lemma layer_for_h_view [simp]:
  "request_view (snd (layer_for_h h m)) = request_view m"
  "tm_expansions (snd (layer_for_h h m)) = tm_expansions m"
  by (simp_all add: layer_for_h_def request_view_def Let_def split: option.split)

lemma request_view_updates [simp]:
  "request_view (m\<lparr>tm_layers := ls\<rparr>) = request_view m"
  "request_view (m\<lparr>tm_analysis_checks := n\<rparr>) = request_view m"
  "request_view (m\<lparr>tm_opened_states := n\<rparr>) = request_view m"
  "request_view (m\<lparr>tm_last_analysis_expansion := k\<rparr>) = request_view m"
  "request_view (m\<lparr>tm_global_stall_requested := p\<rparr>) = request_view m"
  "request_view (m\<lparr>tm_ancestor_stagnation_events := n\<rparr>) = request_view m"
  "request_view (maybe_heartbeat m) = request_view m"
  "request_view (note_best_h h m) = request_view m"
  "request_view (monitor_set_anytime_iteration k m) = request_view m"
  "request_view (record_usable_response m) = request_view m"
  "request_view (record_injected_chain i j m) = request_view m"
  "request_view (snd (suspend_if_pending s m)) = request_view m"
  "request_view (snd (take_suspended s m)) = request_view m"
  "request_view (snd (should_check_ancestor m)) = request_view m"
  "request_view (record_expanded_without_h m) = request_view m"
  by (simp_all add: request_view_def monitor_defs Let_def)

lemma expansions_updates [simp]:
  "tm_expansions (maybe_heartbeat m) = tm_expansions m"
  "tm_expansions (note_best_h h m) = tm_expansions m"
  "tm_expansions (monitor_set_anytime_iteration k m) = tm_expansions m"
  "tm_expansions (record_usable_response m) = tm_expansions m"
  "tm_expansions (record_injected_chain i j m) = tm_expansions m"
  "tm_expansions (snd (suspend_if_pending s m)) = tm_expansions m"
  "tm_expansions (snd (take_suspended s m)) = tm_expansions m"
  "tm_expansions (snd (should_check_ancestor m)) = tm_expansions m"
  "tm_expansions m \<le> tm_expansions (record_expanded_without_h m)"
  by (simp_all add: monitor_defs Let_def)

lemma count_view [simp]:
  "request_view (count_opened h m) = request_view m" "tm_expansions (count_opened h m) = tm_expansions m"
  "request_view (count_expanded s g h m) = request_view m"
  "tm_expansions (count_expanded s g h m) = tm_expansions m"
  using layer_for_h_view [of h m]
  by (cases "layer_for_h h m"; simp add: count_opened_def count_expanded_def Let_def)+

lemma analyze_layer_view [simp]:
  "request_view (analyze_layer i m) = request_view m" "tm_expansions (analyze_layer i m) = tm_expansions m"
  by (simp_all add: analyze_layer_def request_view_def Let_def split: prod.split)

lemma fold_analyze_view [simp]:
  "request_view (fold analyze_layer is m) = request_view m"
  "tm_expansions (fold analyze_layer is m) = tm_expansions m"
  by (induction "is" arbitrary: m) simp_all

lemma close_window_view [simp]:
  "request_view (close_window m) = request_view m" "tm_expansions (close_window m) = tm_expansions m"
proof -
  have "request_view (close_window m) =
    request_view (fold analyze_layer [0..<LAYER_TABLE_CAPACITY] (m\<lparr>tm_analysis_checks := Suc (tm_analysis_checks m)\<rparr>))"
    by (simp only: close_window_def Let_def) (simp add: request_view_def)
  then show "request_view (close_window m) = request_view m" by simp
  show "tm_expansions (close_window m) = tm_expansions m"
    by (simp add: close_window_def Let_def)
qed

lemma note_layer_request_view [simp]:
  "request_view (note_layer_request i m) = request_view m"
  "tm_expansions (note_layer_request i m) = tm_expansions m"
  by (simp_all add: note_layer_request_def request_view_def)

lemma request_inv_register:
  assumes "request_inv m" "s \<notin> tm_requested_states m" "s \<noteq> no_state"
    "\<not> reached_request_limit m" "\<not> reached_pending_limit m"
    "tm_requests_submitted m + tm_requests_rejected_duplicate m + tm_requests_rejected_pending_limit m +
       tm_requests_rejected_request_limit m + tm_requests_rejected_spacing m +
       tm_requests_rejected_bridge m < tm_request_attempts m"
  shows "request_inv (register_request cx s reason m)"
proof -
  have "finite (tm_pending_states m)"
    using assms(1) finite_subset by (auto simp: request_inv_def)
  moreover have "s \<notin> tm_pending_states m" using assms(1,2) by (auto simp: request_inv_def)
  ultimately show ?thesis
    using assms
    by (auto simp: request_inv_def register_request_def Let_def reached_request_limit_def
        reached_pending_limit_def)
qed

lemma request_inv_attempt:
  "request_inv m \<Longrightarrow> request_inv (m\<lparr>tm_request_attempts := Suc (tm_request_attempts m),
     tm_request_attempts_by_reason := t\<rparr>)"
  by (auto simp: request_inv_def)

lemma request_inv_request_state:
  assumes "request_inv m"
  shows "request_inv (snd (request_state cx s reason g h bypass m))"
proof -
  let ?m = "m\<lparr>tm_request_attempts := Suc (tm_request_attempts m),
     tm_request_attempts_by_reason := count_up (tm_request_attempts_by_reason m) reason\<rparr>"
  have inv: "request_inv ?m" by (rule request_inv_attempt [OF assms])
  have room: "tm_requests_submitted ?m + tm_requests_rejected_duplicate ?m +
      tm_requests_rejected_pending_limit ?m + tm_requests_rejected_request_limit ?m +
      tm_requests_rejected_spacing ?m + tm_requests_rejected_bridge ?m < tm_request_attempts ?m"
    using assms by (simp add: request_inv_def)
  have sub: "request_inv (snd (submit_request cx s reason g h ?m))"
    if "s \<notin> tm_requested_states ?m" "s \<noteq> no_state" "\<not> reached_request_limit ?m" "\<not> reached_pending_limit ?m"
  proof -
    let ?n = "\<lambda>b. ?m\<lparr>tm_next_request_id := tm_next_request_id m + 1, tm_bridge := b\<rparr>"
    have "request_inv (register_request cx s reason (?n b))" for b
      by (rule request_inv_register)
         (use inv that room in \<open>auto simp: request_inv_def reached_request_limit_def reached_pending_limit_def\<close>)
    moreover have "request_inv (?n b\<lparr>tm_requests_rejected_bridge := Suc (tm_requests_rejected_bridge (?n b))\<rparr>)" for b
      using inv room by (auto simp: request_inv_def)
    ultimately show ?thesis
      by (simp add: submit_request_def make_request_def Let_def split: prod.split)
  qed
  have "request_inv (?m\<lparr>tm_requests_rejected_request_limit := Suc (tm_requests_rejected_request_limit ?m)\<rparr>)"
    "request_inv (?m\<lparr>tm_requests_rejected_spacing := Suc (tm_requests_rejected_spacing ?m)\<rparr>)"
    "request_inv (?m\<lparr>tm_requests_rejected_duplicate := Suc (tm_requests_rejected_duplicate ?m)\<rparr>)"
    "request_inv (?m\<lparr>tm_requests_rejected_pending_limit := Suc (tm_requests_rejected_pending_limit ?m)\<rparr>)"
    using inv room by (auto simp: request_inv_def)
  with inv sub show ?thesis
    by (simp only: request_state_def Let_def) (simp split: if_split)
qed

lemma request_inv_forget: "request_inv m \<Longrightarrow> request_inv (forget_pending s m)"
proof -
  assume m: "request_inv m"
  then have "finite (tm_pending_states m)" using finite_subset by (auto simp: request_inv_def)
  then have "card (tm_pending_states m - {s}) \<le> card (tm_pending_states m)" by (simp add: card_mono)
  with m show ?thesis by (auto simp: request_inv_def forget_pending_def)
qed

lemma request_inv_discard: "request_inv m \<Longrightarrow> request_inv (discard_response resp m)"
  unfolding discard_response_def
  by (rule request_inv_forget, erule request_inv_view [rotated 2]) (simp_all add: request_view_def)

lemma request_inv_complete: "request_inv m \<Longrightarrow> request_inv (complete_response cx resp m)"
  unfolding complete_response_def Let_def
  by (rule request_inv_forget, erule request_inv_view [rotated 2]) (simp_all add: request_view_def)

lemma fold_keeps:
  "P m \<Longrightarrow> (\<And>x m. P m \<Longrightarrow> P (f x m)) \<Longrightarrow> P (fold f xs m)"
  by (induction xs arbitrary: m) auto

lemma request_inv_bridge: "request_inv m \<Longrightarrow> request_inv (m\<lparr>tm_bridge := b\<rparr>)"
  by (auto simp: request_inv_def)

lemma request_inv_poll: "request_inv m \<Longrightarrow> request_inv (snd (poll_bridge cx d m))"
  by (simp add: poll_bridge_def Let_def request_inv_bridge request_inv_discard request_inv_complete
      fold_keeps [of request_inv] split: prod.split)

lemma request_inv_finalize: "request_inv m \<Longrightarrow> request_inv (finalize_monitor cx m)"
  unfolding finalize_monitor_def Let_def
  by (simp add: request_inv_poll, rule impI, rule request_inv_poll) (auto simp: request_inv_def)

lemma request_inv_start: "request_inv (start_bridge (monitor_init env))"
  using config_ok_from [of env]
  by (simp add: start_bridge_def monitor_init_def request_inv_def)

lemma request_inv_simple:
  "request_inv m \<Longrightarrow> \<not> composed_event ev \<Longrightarrow> request_inv (monitor_call cx ev m)"
  by (cases ev) (auto intro: request_inv_view [rotated 2] request_inv_poll)

interpretation requests: kept_by_runs request_inv "\<lambda>_. True" "\<lambda>_. True" env
  by unfold_locales
     (auto intro: request_inv_view [rotated 2] request_inv_request_state request_inv_simple
       request_inv_start request_inv_bridge request_inv_finalize)


section \<open>Pending states and the bridge\<close>

text \<open>The states whose requests are queued, being posted, or answered and not yet polled.\<close>

definition bridge_states :: "bridge \<Rightarrow> state_id multiset" where
  "bridge_states b = image_mset rq_state_id (mset (outgoing b)) +
     image_mset rq_state_id (mset (posting (workers b))) + image_mset rs_state_id (mset (completed b))"

definition flight_inv :: "monitor \<Rightarrow> bool" where
  "flight_inv m \<longleftrightarrow> request_inv m \<and> bridge_states (tm_bridge m) \<subseteq># mset_set (tm_pending_states m) \<and>
     (\<not> stopping (tm_bridge m) \<longrightarrow> bridge_states (tm_bridge m) = mset_set (tm_pending_states m))"

lemma bridge_states_submit:
  "bridge_submit c r b = (ok, b') \<Longrightarrow> bridge_states b' = bridge_states b +
     (if ok \<and> http_mode c then {# rq_state_id r #} else {#}) \<and> stopping b' = stopping b \<and>
     (ok \<and> http_mode c \<longrightarrow> \<not> stopping b)"
  by (auto simp: bridge_submit_def bridge_states_def split: if_splits)

lemma bridge_states_work:
  assumes "bridge_step c ev b b'" "worker_event ev"
  shows "bridge_states b' = bridge_states b \<and> stopping b' = stopping b"
  using assms
proof cases
  case (dispatch i r rest)
  with posting_update [of i "workers b" "Posting r"] show ?thesis
    by (simp add: worker_take_def bridge_states_def)
next
  case (leave i)
  with posting_update [of i "workers b" Exited] show ?thesis
    by (simp add: worker_take_def bridge_states_def)
next
  case (complete i r net resp)
  moreover have "rs_state_id resp = rq_state_id r"
    using post_request_tag [OF complete(5)] by (simp add: rs_tag_def rq_tag_def)
  moreover have "image_mset rq_state_id (mset (posting ((workers b)[i := Waiting]))) + {# rq_state_id r #}
      = image_mset rq_state_id (mset (posting (workers b)))"
    using arg_cong [OF posting_update [of i "workers b" Waiting], of "image_mset rq_state_id"] complete by simp
  ultimately show ?thesis by (simp add: push_completed_def bridge_states_def)
qed simp_all

lemma flight_inv_view:
  "request_view m' = request_view m \<Longrightarrow> tm_expansions m \<le> tm_expansions m' \<Longrightarrow>
   flight_inv m \<Longrightarrow> flight_inv m'"
  unfolding flight_inv_def using request_inv_view [of m' m] by (simp add: request_view_def)

lemma flight_pending_finite: "request_inv m \<Longrightarrow> finite (tm_pending_states m)"
  using finite_subset by (auto simp: request_inv_def)

lemma flight_inv_request:
  assumes "flight_inv m"
  shows "flight_inv (snd (request_state cx s reason g h bypass m))"
proof -
  let ?m = "m\<lparr>tm_request_attempts := Suc (tm_request_attempts m),
     tm_request_attempts_by_reason := count_up (tm_request_attempts_by_reason m) reason\<rparr>"
  obtain r m1 where mk: "make_request cx s reason g h ?m = (r, m1)" by fastforce
  then have eqs: "tm_bridge m1 = tm_bridge m" "tm_bridge_config m1 = tm_bridge_config m" "rq_state_id r = s"
    "tm_pending_states m1 = tm_pending_states m"
    by (auto simp: make_request_def)
  obtain ok b where b: "bridge_submit (tm_bridge_config m) r (tm_bridge m) = (ok, b)" by fastforce
  have "bridge_states (tm_bridge m2) \<subseteq># mset_set (tm_pending_states m2) \<and>
     (\<not> stopping (tm_bridge m2) \<longrightarrow> bridge_states (tm_bridge m2) = mset_set (tm_pending_states m2))"
    if "m2 = snd (submit_request cx s reason g h ?m)" "s \<notin> tm_requested_states m" for m2
  proof -
    have "s \<notin> tm_pending_states m" "finite (tm_pending_states m)"
      using that(2) assms flight_pending_finite by (auto simp: flight_inv_def request_inv_def)
    then have ins: "mset_set (insert s (tm_pending_states m)) = add_mset s (mset_set (tm_pending_states m))"
      by simp
    have m2: "m2 = (if ok then register_request cx s reason (m1\<lparr>tm_bridge := b\<rparr>)
        else m1\<lparr>tm_bridge := b, tm_requests_rejected_bridge := Suc (tm_requests_rejected_bridge m1)\<rparr>)"
      by (simp only: that(1) submit_request_def mk b eqs(1,2) Let_def prod.case) simp
    have "tm_bridge m2 = b"
      by (simp add: m2 register_request_def Let_def)
    moreover have "tm_pending_states m2 =
        (if ok \<and> http_mode (tm_bridge_config m) then insert s (tm_pending_states m) else tm_pending_states m)"
      by (simp add: m2 register_request_def Let_def eqs)
    ultimately show ?thesis
      using bridge_states_submit [OF b] assms by (auto simp: flight_inv_def eqs ins)
  qed
  then have "bridge_states (tm_bridge m3) \<subseteq># mset_set (tm_pending_states m3) \<and>
     (\<not> stopping (tm_bridge m3) \<longrightarrow> bridge_states (tm_bridge m3) = mset_set (tm_pending_states m3))"
    if "m3 = snd (request_state cx s reason g h bypass m)" for m3
    using assms by (simp add: that request_state_def Let_def flight_inv_def)
  with assms show ?thesis by (simp add: flight_inv_def request_inv_request_state)
qed

lemma forget_states: "tm_pending_states (forget_pending s m) = tm_pending_states m - {s}"
  "tm_bridge (forget_pending s m) = tm_bridge m"
  by (simp_all add: forget_pending_def)

lemma fold_respond_states:
  "tm_pending_states (fold discard_response rs m) = tm_pending_states m - rs_state_id ` set rs"
  "tm_bridge (fold discard_response rs m) = tm_bridge m"
  "tm_pending_states (fold (complete_response cx) rs m) = tm_pending_states m - rs_state_id ` set rs"
  "tm_bridge (fold (complete_response cx) rs m) = tm_bridge m"
  by (induction rs arbitrary: m)
     (auto simp: discard_response_def complete_response_def Let_def forget_states)

lemma mset_set_minus:
  assumes "finite A" "X + Y \<subseteq># mset_set A"
  shows "X \<subseteq># mset_set (A - set_mset Y)" "X + Y = mset_set A \<Longrightarrow> X = mset_set (A - set_mset Y)"
proof -
  have c: "count X a + count Y a \<le> (if a \<in> A then 1 else 0)" for a
    using mset_subset_eq_count [OF assms(2), of a] assms(1) by (simp add: count_mset_set')
  show "X \<subseteq># mset_set (A - set_mset Y)"
  proof (rule mset_subset_eqI)
    fix a show "count X a \<le> count (mset_set (A - set_mset Y)) a"
      using c [of a] assms(1) by (auto simp: count_mset_set' split: if_splits simp flip: count_greater_zero_iff)
  qed
  show "X = mset_set (A - set_mset Y)" if "X + Y = mset_set A"
  proof (rule multiset_eqI)
    fix a
    have "count X a + count Y a = (if a \<in> A then 1 else 0)"
      using arg_cong [OF that, of "\<lambda>M. count M a"] assms(1) by (simp add: count_mset_set')
    then show "count X a = count (mset_set (A - set_mset Y)) a"
      using assms(1) by (auto simp: count_mset_set' split: if_splits simp flip: count_greater_zero_iff)
  qed
qed

lemma flight_inv_poll:
  assumes "flight_inv m"
  shows "flight_inv (snd (poll_bridge cx d m))"
proof (cases "tc_enabled (tm_config m)")
  case True
  let ?b = "tm_bridge m" and ?m' = "snd (poll_bridge cx d m)"
  let ?X = "image_mset rq_state_id (mset (outgoing ?b)) + image_mset rq_state_id (mset (posting (workers ?b)))"
  let ?Y = "image_mset rs_state_id (mset (completed ?b))"
  have st: "tm_bridge ?m' = ?b\<lparr>completed := []\<rparr>"
    "tm_pending_states ?m' = tm_pending_states m - set_mset ?Y"
    using True by (simp_all add: poll_bridge_def poll_completed_def Let_def fold_respond_states)
  have "request_inv m" using assms by (simp add: flight_inv_def)
  then have "finite (tm_pending_states m)" by (rule flight_pending_finite)
  moreover have "?X + ?Y \<subseteq># mset_set (tm_pending_states m)"
    using assms by (simp add: flight_inv_def bridge_states_def)
  ultimately have "?X \<subseteq># mset_set (tm_pending_states m - set_mset ?Y)"
    "?X + ?Y = mset_set (tm_pending_states m) \<Longrightarrow> ?X = mset_set (tm_pending_states m - set_mset ?Y)"
    by (rule mset_set_minus)+
  with assms request_inv_poll [OF \<open>request_inv m\<close>] show ?thesis
    by (simp add: flight_inv_def st bridge_states_def)
next
  case False
  with assms show ?thesis by (simp add: poll_bridge_def)
qed

lemma flight_inv_finalize: "flight_inv m \<Longrightarrow> flight_inv (finalize_monitor cx m)"
proof -
  assume m: "flight_inv m"
  let ?m = "m\<lparr>tm_statistics_printed := True, tm_bridge := bridge_stop (tm_bridge m),
    tm_completed_unconsumed_phase_end := completed_unconsumed_on_stop (bridge_stop (tm_bridge m))\<rparr>"
  have "bridge_states (bridge_stop (tm_bridge m)) \<subseteq># bridge_states (tm_bridge m)"
    by (simp add: bridge_stop_def bridge_states_def)
  then have "bridge_states (bridge_stop (tm_bridge m)) \<subseteq># mset_set (tm_pending_states m)"
    using m subset_mset.order_trans by (auto simp: flight_inv_def)
  moreover have "request_inv ?m" using m by (auto simp: flight_inv_def request_inv_def)
  ultimately have "flight_inv ?m" by (simp add: flight_inv_def bridge_stop_def)
  with m show ?thesis
    using flight_inv_poll [of ?m cx True] by (simp add: finalize_monitor_def Let_def)
qed

lemma flight_inv_start: "flight_inv (start_bridge (monitor_init env))"
proof -
  have "bridge_states (tm_bridge (start_bridge (monitor_init env))) = {#}"
    "tm_pending_states (start_bridge (monitor_init env)) = {}"
    by (simp_all add: start_bridge_def monitor_init_def bridge_states_def bridge_start_def bridge_init_def posting_def)
  with request_inv_start show ?thesis by (simp add: flight_inv_def)
qed

lemma flight_inv_work:
  "flight_inv m \<Longrightarrow> bridge_step (tm_bridge_config m) ev (tm_bridge m) b \<Longrightarrow> worker_event ev \<Longrightarrow>
   flight_inv (m\<lparr>tm_bridge := b\<rparr>)"
  using bridge_states_work [of "tm_bridge_config m" ev "tm_bridge m" b]
  by (simp add: flight_inv_def request_inv_bridge)

lemma flight_inv_simple:
  "flight_inv m \<Longrightarrow> \<not> composed_event ev \<Longrightarrow> flight_inv (monitor_call cx ev m)"
  by (cases ev) (auto intro: flight_inv_view [rotated 2] flight_inv_poll)

interpretation flights: kept_by_runs flight_inv "\<lambda>_. True" "\<lambda>_. True" env
  by unfold_locales
     (auto intro: flight_inv_view [rotated 2] flight_inv_request flight_inv_simple
       flight_inv_start flight_inv_work flight_inv_finalize)

end
