(* ===== verification/Layer_Laws.thy ===== *)
theory Layer_Laws
  imports Trigger_Laws
begin

text \<open>
  The layer table of the trigger monitor: a hash table of sixteen slots with linear probing that
  never frees a slot and evicts the stalest one when it is full; the sliding window of counts a
  layer keeps; and the order in which layers are asked about.
\<close>

section \<open>Searching a list\<close>

lemma find_skip:
  "find P xs = Some j \<Longrightarrow> \<not> Q i \<Longrightarrow> i \<noteq> j \<Longrightarrow> (\<And>x. x \<noteq> i \<Longrightarrow> Q x = P x) \<Longrightarrow> find Q xs = Some j"
  by (induction xs) (auto split: if_splits, metis)

lemma find_keep:
  "find P xs = Some i \<Longrightarrow> Q i \<Longrightarrow> (\<And>x. x \<noteq> i \<Longrightarrow> Q x = P x) \<Longrightarrow> find Q xs = Some i"
  by (induction xs) (auto split: if_splits)

lemma find_only: "i \<in> set xs \<Longrightarrow> Q i \<Longrightarrow> (\<And>x. x \<in> set xs \<Longrightarrow> x \<noteq> i \<Longrightarrow> \<not> Q x) \<Longrightarrow> find Q xs = Some i"
  by (induction xs) auto

section \<open>The hash table\<close>

definition layer_key :: "LayerStats \<Rightarrow> int option" where
  "layer_key l = (if ly_occupied l then Some (ly_h_key l) else None)"

text \<open>Every stored key is found in its own slot.\<close>

definition table_inv :: "LayerStats list \<Rightarrow> bool" where
  "table_inv ls \<longleftrightarrow> length ls = LAYER_TABLE_CAPACITY \<and>
     (\<forall>i < length ls. ly_occupied (ls ! i) \<longrightarrow> probe_layers ls (ly_h_key (ls ! i)) = Some i)"

lemma probe_index_bound [simp]: "probe_index key p < LAYER_TABLE_CAPACITY"
  by (simp add: probe_index_def LAYER_TABLE_CAPACITY_def)

lemma probes_every_slot:
  assumes "i < LAYER_TABLE_CAPACITY"
  shows "i \<in> set (map (probe_index key) [0..<LAYER_TABLE_CAPACITY])"
proof -
  let ?p = "(i + LAYER_TABLE_CAPACITY - hash_h_key key mod LAYER_TABLE_CAPACITY) mod LAYER_TABLE_CAPACITY"
  have pos: "0 < LAYER_TABLE_CAPACITY" by (simp add: LAYER_TABLE_CAPACITY_def)
  have "hash_h_key key mod LAYER_TABLE_CAPACITY < LAYER_TABLE_CAPACITY" using pos by simp
  then have "(hash_h_key key mod LAYER_TABLE_CAPACITY +
      (i + LAYER_TABLE_CAPACITY - hash_h_key key mod LAYER_TABLE_CAPACITY)) mod LAYER_TABLE_CAPACITY = i"
    using assms by (metis add_diff_inverse_nat less_imp_le_nat mod_add_self2 mod_less not_less trans_le_add2)
  then have "probe_index key ?p = i" by (simp add: probe_index_def mod_add_right_eq mod_add_left_eq)
  moreover have "?p < LAYER_TABLE_CAPACITY" using pos by simp
  ultimately show ?thesis by (metis (no_types, lifting) atLeastLessThan_iff imageI list.set_map set_upt zero_le)
qed

lemma probe_layers_Some:
  assumes "probe_layers ls key = Some i"
  shows "i < LAYER_TABLE_CAPACITY" "probe_stops ls key i"
  using assms by (auto simp: probe_layers_def find_Some_iff)

lemma probe_layers_None:
  "probe_layers ls key = None \<Longrightarrow> i < LAYER_TABLE_CAPACITY \<Longrightarrow> ly_occupied (ls ! i) \<and> ly_h_key (ls ! i) \<noteq> key"
  using probes_every_slot [of i key] by (auto simp: probe_layers_def find_None_iff probe_stops_def)

lemma probe_stops_keys:
  "length ls' = length ls \<Longrightarrow> (\<And>i. i < length ls \<Longrightarrow> layer_key (ls' ! i) = layer_key (ls ! i)) \<Longrightarrow>
   i < length ls \<Longrightarrow> probe_stops ls' key i = probe_stops ls key i"
  by (fastforce simp: probe_stops_def layer_key_def split: if_splits)

lemma probe_layers_keys:
  assumes "length ls = LAYER_TABLE_CAPACITY" "length ls' = length ls"
    "\<And>i. i < length ls \<Longrightarrow> layer_key (ls' ! i) = layer_key (ls ! i)"
  shows "probe_layers ls' key = probe_layers ls key"
  unfolding probe_layers_def
  by (rule find_cong) (use assms probe_stops_keys [of ls' ls] in auto)

lemma table_inv_keys:
  assumes "table_inv ls" "length ls' = length ls" "\<And>i. i < length ls \<Longrightarrow> layer_key (ls' ! i) = layer_key (ls ! i)"
  shows "table_inv ls'"
proof -
  have "ly_occupied (ls' ! i) = ly_occupied (ls ! i) \<and> (ly_occupied (ls ! i) \<longrightarrow> ly_h_key (ls' ! i) = ly_h_key (ls ! i))"
    if "i < length ls" for i
    using assms(3) [OF that] by (auto simp: layer_key_def split: if_splits)
  then show ?thesis
    using assms probe_layers_keys [of ls ls'] by (auto simp: table_inv_def)
qed

lemma layer_key_update:
  "layer_key l = layer_key (ls ! i) \<Longrightarrow> layer_key (ls[i := l] ! j) = layer_key (ls ! j)"
  by (cases "i = j"; cases "i < length ls") (simp_all add: not_less list_update_beyond)

lemma table_inv_update:
  "table_inv ls \<Longrightarrow> layer_key l = layer_key (ls ! i) \<Longrightarrow> table_inv (ls[i := l])"
  by (erule table_inv_keys) (simp_all add: layer_key_update)

lemma table_inv_insert:
  assumes inv: "table_inv ls" and i: "i < LAYER_TABLE_CAPACITY" and l: "layer_key l = Some key"
    and new: "\<And>j. j < LAYER_TABLE_CAPACITY \<Longrightarrow> ly_occupied (ls ! j) \<Longrightarrow> ly_h_key (ls ! j) \<noteq> key"
    and slot: "probe_layers (ls[i := l]) key = Some i"
  shows "table_inv (ls[i := l])"
proof -
  let ?ls = "ls[i := l]"
  have len: "length ls = LAYER_TABLE_CAPACITY" using inv by (simp add: table_inv_def)
  have lk: "ly_occupied l" "ly_h_key l = key" using l by (simp_all add: layer_key_def split: if_splits)
  have "probe_layers ?ls (ly_h_key (?ls ! j)) = Some j" if j: "j < length ls" "ly_occupied (?ls ! j)" for j
  proof (cases "j = i")
    case True
    then show ?thesis using slot lk i len by simp
  next
    case False
    with j have occ: "ly_occupied (ls ! j)" by simp
    then have "find (probe_stops ls (ly_h_key (ls ! j)))
        (map (probe_index (ly_h_key (ls ! j))) [0..<LAYER_TABLE_CAPACITY]) = Some j"
      using inv j by (simp add: table_inv_def probe_layers_def)
    then have "find (probe_stops ?ls (ly_h_key (ls ! j)))
        (map (probe_index (ly_h_key (ls ! j))) [0..<LAYER_TABLE_CAPACITY]) = Some j"
      by (rule find_skip [where i = i])
         (use False i len lk new [of j] occ j in \<open>auto simp: probe_stops_def\<close>)
    with False show ?thesis by (simp add: probe_layers_def)
  qed
  then show ?thesis using len by (simp add: table_inv_def)
qed

lemma initialize_layer_key [simp]: "layer_key (initialize_layer key h now) = Some key"
  by (simp add: layer_key_def initialize_layer_def)

lemma stalest_layer_bound: "stalest_layer ls < LAYER_TABLE_CAPACITY"
proof -
  have "foldl (\<lambda>v i. if f i < (f v :: int) then i else v) v xs < n"
    if "v < n" "\<forall>x \<in> set xs. x < n" for f v n and xs :: "nat list"
    using that by (induction xs arbitrary: v) auto
  then show ?thesis by (simp add: stalest_layer_def LAYER_TABLE_CAPACITY_def)
qed

lemma layer_for_h_outcome:
  assumes inv: "table_inv (tm_layers m)" and r: "layer_for_h h m = (i, m')"
  shows "i < LAYER_TABLE_CAPACITY" "layer_key (tm_layers m' ! i) = Some (quantize_h (tm_config m) h)"
    "table_inv (tm_layers m')"
    "\<And>j. j \<noteq> i \<Longrightarrow> tm_layers m' ! j = tm_layers m ! j"
    "\<And>j. j < LAYER_TABLE_CAPACITY \<Longrightarrow> layer_key (tm_layers m ! j) = Some (quantize_h (tm_config m) h) \<Longrightarrow>
       i = j \<and> m' = m"
    "tm_layer_table_evictions m' = tm_layer_table_evictions m +
       (if \<forall>j < LAYER_TABLE_CAPACITY. layer_key (tm_layers m ! j) \<notin> {None, Some (quantize_h (tm_config m) h)}
        then 1 else 0)"
proof -
  let ?key = "quantize_h (tm_config m) h" and ?ls = "tm_layers m"
  let ?fresh = "initialize_layer ?key h (tm_expansions m)"
  have len: "length ?ls = LAYER_TABLE_CAPACITY" using inv by (simp add: table_inv_def)
  have own: "probe_layers ?ls ?key = Some j"
    if "j < LAYER_TABLE_CAPACITY" "layer_key (?ls ! j) = Some ?key" for j
    using inv that len by (auto simp: table_inv_def layer_key_def split: if_splits)
  have "i < LAYER_TABLE_CAPACITY \<and> layer_key (tm_layers m' ! i) = Some ?key \<and> table_inv (tm_layers m') \<and>
    (\<forall>j. j \<noteq> i \<longrightarrow> tm_layers m' ! j = ?ls ! j) \<and>
    (\<forall>j < LAYER_TABLE_CAPACITY. layer_key (?ls ! j) = Some ?key \<longrightarrow> i = j \<and> m' = m) \<and>
    tm_layer_table_evictions m' = tm_layer_table_evictions m +
     (if \<forall>j < LAYER_TABLE_CAPACITY. layer_key (?ls ! j) \<notin> {None, Some ?key} then 1 else 0)"
  proof (cases "probe_layers ?ls ?key")
    case None
    have all: "layer_key (?ls ! j) \<notin> {None, Some ?key}" if "j < LAYER_TABLE_CAPACITY" for j
      using probe_layers_None [OF None that] by (simp add: layer_key_def)
    have i: "i = stalest_layer ?ls" "m' = m\<lparr>tm_layer_table_evictions := Suc (tm_layer_table_evictions m),
        tm_layers := ?ls[i := ?fresh]\<rparr>"
      using r None by (auto simp: layer_for_h_def Let_def)
    then have bound: "i < LAYER_TABLE_CAPACITY" by (simp add: stalest_layer_bound)
    have "\<not> probe_stops (?ls[i := ?fresh]) ?key j" if "j < LAYER_TABLE_CAPACITY" "j \<noteq> i" for j
      using all [OF that(1)] that(2) by (auto simp: probe_stops_def layer_key_def split: if_splits)
    moreover have "probe_stops (?ls[i := ?fresh]) ?key i"
      using len bound by (simp add: probe_stops_def initialize_layer_def)
    ultimately have "probe_layers (?ls[i := ?fresh]) ?key = Some i"
      unfolding probe_layers_def by (intro find_only [OF probes_every_slot [OF bound]]) auto
    then have "table_inv (?ls[i := ?fresh])"
      by (rule table_inv_insert [OF inv bound initialize_layer_key, rotated])
         (use all in \<open>fastforce simp: layer_key_def\<close>)
    with i(2) bound len all show ?thesis by (auto simp: layer_key_def initialize_layer_def)
  next
    case (Some j)
    note at_j = probe_layers_Some [OF Some]
    have j: "i = j" using r Some by (auto simp: layer_for_h_def Let_def split: if_splits)
    show ?thesis
    proof (cases "ly_occupied (?ls ! j)")
      case True
      have uniq: "j = k" if "k < LAYER_TABLE_CAPACITY" "layer_key (?ls ! k) = Some ?key" for k
        using own [OF that] Some by simp
      from True have "m' = m" "layer_key (?ls ! j) = Some ?key"
        using r Some at_j by (auto simp: layer_for_h_def Let_def probe_stops_def layer_key_def)
      note same = this
      from same(2) at_j(1) have "\<not> (\<forall>k < LAYER_TABLE_CAPACITY. layer_key (?ls ! k) \<notin> {None, Some ?key})"
        by blast
      then have "tm_layer_table_evictions m' = tm_layer_table_evictions m +
         (if \<forall>k < LAYER_TABLE_CAPACITY. layer_key (?ls ! k) \<notin> {None, Some ?key} then 1 else 0)"
        by (simp only: same(1) if_False add_0_right)
      with same at_j(1) inv uniq show ?thesis unfolding j by blast
    next
      case False
      then have m': "m' = m\<lparr>tm_layers := ?ls[j := ?fresh]\<rparr>"
        using r Some by (auto simp: layer_for_h_def Let_def)
      have absent: "layer_key (?ls ! k) \<noteq> Some ?key" if "k < LAYER_TABLE_CAPACITY" for k
        using own [OF that] Some False by (auto simp: layer_key_def split: if_splits)
      have "probe_layers (?ls[j := ?fresh]) ?key = Some j"
        unfolding probe_layers_def
        by (rule find_keep [where P = "probe_stops ?ls ?key"])
           (use Some at_j len in \<open>auto simp: probe_layers_def probe_stops_def initialize_layer_def\<close>)
      then have "table_inv (?ls[j := ?fresh])"
        by (rule table_inv_insert [OF inv at_j(1) initialize_layer_key, rotated])
           (use absent in \<open>fastforce simp: layer_key_def\<close>)
      then have "table_inv (tm_layers m')" by (simp add: m')
      moreover have "layer_key (?ls ! j) = None" using False by (simp add: layer_key_def)
      then have "\<not> (\<forall>k < LAYER_TABLE_CAPACITY. layer_key (?ls ! k) \<notin> {None, Some ?key})"
        using at_j(1) by blast
      then have "tm_layer_table_evictions m' = tm_layer_table_evictions m +
         (if \<forall>k < LAYER_TABLE_CAPACITY. layer_key (?ls ! k) \<notin> {None, Some ?key} then 1 else 0)"
        by (simp only: if_False add_0_right) (simp add: m')
      moreover have "\<forall>k. k \<noteq> j \<longrightarrow> tm_layers m' ! k = ?ls ! k" "layer_key (tm_layers m' ! j) = Some ?key"
        using len at_j(1) by (simp_all add: m')
      ultimately show ?thesis using absent at_j(1) unfolding j by blast
    qed
  qed
  then show "i < LAYER_TABLE_CAPACITY" "layer_key (tm_layers m' ! i) = Some ?key" "table_inv (tm_layers m')"
    "\<And>j. j \<noteq> i \<Longrightarrow> tm_layers m' ! j = ?ls ! j"
    "\<And>j. j < LAYER_TABLE_CAPACITY \<Longrightarrow> layer_key (?ls ! j) = Some ?key \<Longrightarrow> i = j \<and> m' = m"
    "tm_layer_table_evictions m' = tm_layer_table_evictions m +
     (if \<forall>j < LAYER_TABLE_CAPACITY. layer_key (?ls ! j) \<notin> {None, Some ?key} then 1 else 0)"
    by blast+
qed

section \<open>Layers of a run\<close>

text \<open>The table of a monitor, with finite heuristic values and a history of eight windows.\<close>

definition layer_ok :: "LayerStats \<Rightarrow> bool" where
  "layer_ok l \<longleftrightarrow> ap_is_finite (ly_h l) \<and> length (ly_opened_history l) = MAX_ACTIVITY_WINDOWS \<and>
     length (ly_expanded_history l) = MAX_ACTIVITY_WINDOWS"

definition layers_inv :: "monitor \<Rightarrow> bool" where
  "layers_inv m \<longleftrightarrow> table_inv (tm_layers m) \<and> list_all layer_ok (tm_layers m)"

lemma layers_inv_update:
  "layers_inv m \<Longrightarrow> layer_key l = layer_key (tm_layers m ! i) \<Longrightarrow> layer_ok l \<Longrightarrow>
   layers_inv (m\<lparr>tm_layers := (tm_layers m)[i := l]\<rparr>)"
  using set_update_subset_insert [of "tm_layers m" i l]
  by (auto simp: layers_inv_def table_inv_update list_all_iff)

lemma layers_inv_same: "tm_layers m' = tm_layers m \<Longrightarrow> layers_inv m \<Longrightarrow> layers_inv m'"
  by (simp add: layers_inv_def)

lemma layers_inv_nth: "layers_inv m \<Longrightarrow> i < LAYER_TABLE_CAPACITY \<Longrightarrow> layer_ok (tm_layers m ! i)"
  by (simp add: layers_inv_def table_inv_def list_all_length)

lemma layer_ok_initialize: "ap_is_finite h \<Longrightarrow> layer_ok (initialize_layer key h now)"
  by (simp add: layer_ok_def initialize_layer_def LayerStats_init_def)

lemma layer_for_h_inv:
  assumes m: "layers_inv m" and h: "ap_is_finite h" and r: "layer_for_h h m = (i, m')"
  shows "layers_inv m'"
proof -
  have "table_inv (tm_layers m)" using m by (simp add: layers_inv_def)
  note out = layer_for_h_outcome [OF this r]
  have "tm_layers m' \<in> {tm_layers m} \<union> {(tm_layers m)[i := initialize_layer (quantize_h (tm_config m) h) h (tm_expansions m)]}"
    using r by (auto simp: layer_for_h_def Let_def split: option.splits if_splits)
  then have "list_all layer_ok (tm_layers m')"
    using m layer_ok_initialize [OF h]
      set_update_subset_insert [of "tm_layers m" i "initialize_layer (quantize_h (tm_config m) h) h (tm_expansions m)"]
    by (auto simp: layers_inv_def list_all_iff)
  with out(3) show ?thesis by (simp add: layers_inv_def)
qed

lemma layers_inv_count:
  assumes "layers_inv m" "ap_is_finite h"
  shows "layers_inv (count_opened h m)" "layers_inv (count_expanded s g h m)"
proof -
  obtain i m' where r: "layer_for_h h m = (i, m')" by fastforce
  have m': "layers_inv m'" by (rule layer_for_h_inv [OF assms r])
  have "i < LAYER_TABLE_CAPACITY"
    using assms(1) r by (auto simp: layers_inv_def intro: layer_for_h_outcome(1))
  then have "layer_ok (tm_layers m' ! i)" by (rule layers_inv_nth [OF m'])
  then show "layers_inv (count_opened h m)" "layers_inv (count_expanded s g h m)"
    using assms(2)
    by (simp_all add: count_opened_def count_expanded_def r Let_def layers_inv_update [OF m']
        layer_key_def layer_ok_def)
qed

lemma update_layer_window_shape:
  assumes "update_layer_window c cur l = (l', p, r)"
  shows "layer_key l' = layer_key l" "layer_ok l \<Longrightarrow> layer_ok l'" "ly_h l' = ly_h l"
  using assms
  by (auto simp: update_layer_window_def shift_window_def reset_layer_episode_def layer_key_def layer_ok_def
      Let_def split: if_splits)

lemma layers_inv_analyze: "layers_inv m \<Longrightarrow> layers_inv (analyze_layer i m)"
proof -
  assume m: "layers_inv m"
  obtain l p r where u: "update_layer_window (tm_config m) (tm_history_cursor m) (tm_layers m ! i) = (l, p, r)"
    using prod_cases3 by blast
  have eq: "m\<lparr>tm_layers := ls, tm_frontier_plateau_events := a, tm_layer_episode_resets := b\<rparr> =
    m\<lparr>tm_frontier_plateau_events := a, tm_layer_episode_resets := b, tm_layers := ls\<rparr>" for ls a b by simp
  show ?thesis
  proof (cases "i < LAYER_TABLE_CAPACITY")
    case True
    have "layers_inv (m\<lparr>tm_layers := (tm_layers m)[i := l]\<rparr>)"
      by (rule layers_inv_update [OF m]) (use update_layer_window_shape [OF u] layers_inv_nth [OF m True] in auto)
    then have "layers_inv (m\<lparr>tm_layers := (tm_layers m)[i := l], tm_frontier_plateau_events := a,
        tm_layer_episode_resets := b\<rparr>)" for a b
      by (simp add: layers_inv_def)
    with m show ?thesis by (simp add: analyze_layer_def u Let_def)
  next
    case False
    with m show ?thesis
      by (simp add: analyze_layer_def u Let_def layers_inv_def table_inv_def list_update_beyond)
  qed
qed

lemma fold_analyze_inv: "layers_inv m \<Longrightarrow> layers_inv (fold analyze_layer is m)"
  by (rule fold_keeps [of layers_inv]) (simp_all add: layers_inv_analyze)

lemma layers_inv_window: "layers_inv m \<Longrightarrow> layers_inv (close_window m)"
proof -
  assume "layers_inv m"
  then have "layers_inv (m\<lparr>tm_analysis_checks := Suc (tm_analysis_checks m)\<rparr>)" by (simp add: layers_inv_def)
  from fold_analyze_inv [OF this] show ?thesis
    by (rule layers_inv_same [rotated]) (simp add: close_window_def Let_def)
qed

lemma request_state_layers [simp]: "tm_layers (snd (request_state cx s reason g h bypass m)) = tm_layers m"
  by (simp add: request_state_def submit_request_def make_request_def register_request_def Let_def
      split: prod.split)

lemma respond_layers:
  "tm_layers (discard_response r m) = tm_layers m" "tm_layers (complete_response cx r m) = tm_layers m"
  by (simp_all add: discard_response_def complete_response_def forget_pending_def Let_def)

lemma fold_respond_layers:
  "tm_layers (fold discard_response rs m) = tm_layers m"
  "tm_layers (fold (complete_response cx) rs m) = tm_layers m"
  by (induction rs arbitrary: m) (simp_all add: respond_layers)

lemma poll_layers [simp]: "tm_layers (snd (poll_bridge cx d m)) = tm_layers m"
  by (simp add: poll_bridge_def Let_def fold_respond_layers split: prod.split)

lemma simple_layers: "\<not> composed_event ev \<Longrightarrow> tm_layers (monitor_call cx ev m) = tm_layers m"
  by (cases ev) (simp_all add: monitor_defs Let_def)

lemma layers_inv_note: "layers_inv m \<Longrightarrow> layers_inv (note_layer_request i m)"
proof -
  assume m: "layers_inv m"
  let ?l = "(tm_layers m ! i)\<lparr>ly_requests_in_episode := ly_requests_in_episode (tm_layers m ! i) + 1,
        ly_last_request_expansion := tm_expansions m,
        ly_opened_since_request := 0, ly_expanded_since_request := 0\<rparr>"
  show ?thesis
  proof (cases "i < LAYER_TABLE_CAPACITY")
    case True
    then have "layers_inv (m\<lparr>tm_layers := (tm_layers m)[i := ?l]\<rparr>)"
      using layers_inv_nth [OF m True] by (intro layers_inv_update [OF m]) (simp_all add: layer_key_def layer_ok_def)
    then show ?thesis by (rule layers_inv_same [rotated]) (simp add: note_layer_request_def)
  next
    case False
    with m show ?thesis
      by (simp add: note_layer_request_def layers_inv_def table_inv_def list_update_beyond)
  qed
qed

lemma layers_inv_start: "layers_inv (start_bridge (monitor_init env))"
proof -
  have "tm_layers (start_bridge (monitor_init env)) = replicate LAYER_TABLE_CAPACITY LayerStats_init"
    by (simp add: start_bridge_def monitor_init_def)
  moreover have "ap_is_finite (ap_zero False)" by (simp add: ap_is_finite_decode)
  ultimately show ?thesis
    by (simp add: layers_inv_def table_inv_def layer_ok_def LayerStats_init_def list_all_length)
qed

interpretation tables: kept_by_runs layers_inv "\<lambda>_. True" "\<lambda>_. True" env
  by unfold_locales
     (auto intro: layers_inv_same [rotated] layers_inv_count layers_inv_window layers_inv_note layers_inv_start
       simp: simple_layers monitor_defs finalize_monitor_def Let_def)

section \<open>The sliding window\<close>

text \<open>
  One history of a layer as the analyses see it: each writes its count at the cursor and moves
  the cursor on, modulo the number of windows.
\<close>

definition window_step :: "nat \<Rightarrow> nat \<Rightarrow> nat \<times> nat list \<Rightarrow> nat \<times> nat list" where
  "window_step w x = (\<lambda>(cursor, hist). (Suc cursor mod w, hist[cursor := x]))"

lemma rotate_replace:
  assumes "k < length r"
  shows "rotate (Suc k) (r[k := x]) = tl (rotate k r) @ [x]"
proof -
  have "rotate k r = drop k r @ take k r" using assms by (simp add: rotate_drop_take)
  moreover have "drop k r = r ! k # drop (Suc k) r" using assms by (simp add: Cons_nth_drop_Suc)
  moreover have "rotate (Suc k) (r[k := x]) = drop (Suc k) r @ take k r @ [x]"
  proof (cases "Suc k = length r")
    case True
    then have "rotate (Suc k) (r[k := x]) = r[k := x]" by (simp only: length_list_update mod_self rotate_id)
    moreover have "r[k := x] = take k r @ [x]" using True by (simp add: upd_conv_take_nth_drop)
    ultimately show ?thesis using True by simp
  next
    case False
    with assms have "Suc k < length r" by simp
    then show ?thesis by (simp add: rotate_drop_take upd_conv_take_nth_drop)
  qed
  ultimately show ?thesis by simp
qed

lemma window_fold:
  assumes "0 < w" "w \<le> length hist"
  shows "\<exists>hist'. fold (window_step w) xs (0, hist) = (length xs mod w, hist') \<and> length hist' = length hist \<and>
    rotate (length xs mod w) (take w hist') = drop (length xs) (take w hist @ xs)"
proof (induction xs rule: rev_induct)
  case Nil
  then show ?case using assms by simp
next
  case (snoc x xs)
  let ?k = "length xs mod w"
  obtain hist' where h: "fold (window_step w) xs (0, hist) = (?k, hist')" "length hist' = length hist"
    "rotate ?k (take w hist') = drop (length xs) (take w hist @ xs)"
    using snoc.IH by blast
  have k: "?k < length (take w hist')" using assms h(2) by simp
  have next_k: "Suc (length xs) mod w = (if Suc ?k = w then 0 else Suc ?k)"
    using assms by (simp add: mod_Suc)
  let ?L = "take w hist @ xs"
  have L: "length xs < length ?L" using assms by simp
  have "rotate (Suc ?k) ((take w hist')[?k := x]) = tl (drop (length xs) ?L) @ [x]"
    using rotate_replace [OF k, of x] h(3) by simp
  also have "\<dots> = drop (Suc (length xs)) ?L @ [x]" by (simp only: drop_Suc tl_drop)
  also have "\<dots> = drop (Suc (length xs)) (?L @ [x])"
  proof -
    have "Suc (length xs) - length ?L = 0" using Suc_leI [OF L] by (simp only: diff_is_0_eq)
    then show ?thesis by (simp only: drop_append drop_0)
  qed
  finally have "rotate (Suc ?k) ((take w hist')[?k := x]) = drop (length (xs @ [x])) (take w hist @ xs @ [x])"
    by simp
  moreover have "rotate (Suc (length xs) mod w) ((take w hist')[?k := x]) = rotate (Suc ?k) ((take w hist')[?k := x])"
  proof (cases "Suc ?k = w")
    case True
    let ?r = "(take w hist')[?k := x]"
    have "length ?r = w" using assms h(2) by simp
    then have "rotate (Suc ?k) ?r = ?r" by (intro rotate_id) (simp only: True mod_self)
    with True show ?thesis by (simp add: next_k del: rotate_Suc)
  next
    case False
    then show ?thesis by (simp add: next_k del: rotate_Suc)
  qed
  moreover have "fold (window_step w) (xs @ [x]) (0, hist) = (Suc (length xs) mod w, hist'[?k := x])"
    using h(1) by (simp add: window_step_def mod_Suc_eq)
  ultimately show ?case using h(2) by (simp add: take_update_swap del: rotate_Suc)
qed

lemma window_sum:
  assumes "0 < w" "w \<le> length hist"
  shows "sum_list (take w (snd (fold (window_step w) xs (0, hist)))) = sum_list (drop (length xs) (take w hist @ xs))"
proof -
  have rot1: "sum_list (rotate1 r) = sum_list r" for r :: "nat list" by (cases r) simp_all
  have rot: "sum_list (rotate k r) = sum_list r" for k and r :: "nat list"
    by (induction k) (simp_all add: rot1)
  show ?thesis using window_fold [OF assms, of xs] rot by (metis snd_conv)
qed

section \<open>Sorting candidates\<close>

text \<open>A strict weak order, as \<open>std::sort\<close> requires.\<close>

definition weak_order_on :: "'a set \<Rightarrow> ('a \<Rightarrow> 'a \<Rightarrow> bool) \<Rightarrow> bool" where
  "weak_order_on A better \<longleftrightarrow> (\<forall>x \<in> A. \<forall>y \<in> A. better x y \<longrightarrow> \<not> better y x) \<and>
     (\<forall>x \<in> A. \<forall>y \<in> A. \<forall>z \<in> A. \<not> better x y \<longrightarrow> \<not> better y z \<longrightarrow> \<not> better x z)"

lemma sorted_insert:
  assumes "weak_order_on A better" "insert x (set xs) \<subseteq> A" "sorted_wrt (\<lambda>a b. \<not> better b a) xs"
  shows "sorted_wrt (\<lambda>a b. \<not> better b a) (insert_sorted better x xs)"
  using assms(2,3)
proof (induction xs)
  case (Cons y ys)
  have "\<not> better z x" if "better x y" "z \<in> set ys" for z
  proof
    assume "better z x"
    moreover have "\<not> better z y" using Cons.prems(2) that(2) by simp
    moreover have "\<not> better y x" using assms(1) Cons.prems(1) that(1) by (auto simp: weak_order_on_def)
    ultimately show False
      using assms(1) Cons.prems(1) that(2) by (simp add: weak_order_on_def) (metis subsetD)
  qed
  moreover have "\<not> better y x" if "better x y"
    using assms(1) Cons.prems(1) that by (auto simp: weak_order_on_def)
  ultimately show ?case using Cons by auto
qed simp

lemma sorted_sort_candidates:
  assumes "weak_order_on (set xs) better"
  shows "sorted_wrt (\<lambda>a b. \<not> better b a) (sort_candidates better xs)"
proof -
  have "sorted_wrt (\<lambda>a b. \<not> better b a) (foldl (\<lambda>sorted x. insert_sorted better x sorted) ys zs)"
    if "set ys \<subseteq> set xs" "set zs \<subseteq> set xs" "sorted_wrt (\<lambda>a b. \<not> better b a) ys" for ys zs
    using that
  proof (induction zs arbitrary: ys)
    case (Cons z zs)
    then show ?case using sorted_insert [OF assms, of z ys] by auto
  qed simp
  then show ?thesis by (simp add: sort_candidates_def)
qed

text \<open>Layers with finite heuristic values are weakly ordered by priority.\<close>

lemma ap_lt_negative_trans:
  "ap_is_finite x \<Longrightarrow> ap_is_finite y \<Longrightarrow> ap_is_finite z \<Longrightarrow> \<not> ap_lt x y \<Longrightarrow> \<not> ap_lt y z \<Longrightarrow> \<not> ap_lt x z"
  by (auto simp: ap_is_finite_decode ap_lt_def)

lemma priority_weak_order:
  assumes "\<And>i. i \<in> A \<Longrightarrow> ap_is_finite (ly_h (f i))"
  shows "weak_order_on A (\<lambda>i j. layer_priority_better (f i) (f j))"
  unfolding weak_order_on_def
proof (intro conjI ballI impI)
  fix x y assume "layer_priority_better (f x) (f y)"
  then show "\<not> layer_priority_better (f y) (f x)"
    using ap_lt_asym by (auto simp: layer_priority_better_def Let_def split: if_splits)
next
  fix x y z assume "x \<in> A" "y \<in> A" "z \<in> A"
    and "\<not> layer_priority_better (f x) (f y)" "\<not> layer_priority_better (f y) (f z)"
  then show "\<not> layer_priority_better (f x) (f z)"
    using ap_lt_negative_trans [OF assms assms assms, of x y z]
    by (auto simp: layer_priority_better_def Let_def split: if_splits)
qed

end
