(* ===== verification/Monitor_Laws.thy ===== *)
theory Monitor_Laws
  imports Layer_Laws
begin

text \<open>What one request does, how a slot of requests is filled, the windows of a layer over time, and
  the best heuristic value.\<close>

section \<open>One request\<close>

text \<open>When \<open>request_state\<close> submits.\<close>

definition request_admissible :: "state_id \<Rightarrow> bool \<Rightarrow> monitor \<Rightarrow> bool" where
  "request_admissible s bypass m \<longleftrightarrow> tc_enabled (tm_config m) \<and> s \<noteq> no_state \<and>
     \<not> reached_request_limit m \<and> (bypass \<or> \<not> request_spacing_active m) \<and>
     s \<notin> tm_requested_states m \<and> \<not> reached_pending_limit m"

definition bridge_accepts :: "bridge_config \<Rightarrow> bridge \<Rightarrow> bool" where
  "bridge_accepts c b \<longleftrightarrow> bc_enabled c \<and> (http_mode c \<longrightarrow> \<not> stopping b \<and>
     (bc_max_queue c > 0 \<longrightarrow> int (length (outgoing b)) < bc_max_queue c))"

lemma bridge_submit_outcome:
  "bridge_submit c r b = (bridge_accepts c b,
     if bridge_accepts c b \<and> http_mode c then b\<lparr>outgoing := outgoing b @ [r]\<rparr> else b)"
  by (auto simp: bridge_submit_def bridge_accepts_def)

lemma reached_limits_attempt [simp]:
  "reached_request_limit (m\<lparr>tm_request_attempts := a, tm_request_attempts_by_reason := t\<rparr>) = reached_request_limit m"
  "reached_pending_limit (m\<lparr>tm_request_attempts := a, tm_request_attempts_by_reason := t\<rparr>) = reached_pending_limit m"
  "request_spacing_active (m\<lparr>tm_request_attempts := a, tm_request_attempts_by_reason := t\<rparr>) = request_spacing_active m"
  by (simp_all add: reached_request_limit_def reached_pending_limit_def request_spacing_active_def)

lemma submit_request_outcome:
  assumes "submit_request cx s reason g h m = (ok, m')"
  shows "ok = bridge_accepts (tm_bridge_config m) (tm_bridge m)"
    "tm_requests_submitted m' = tm_requests_submitted m + (if ok then 1 else 0)"
    "tm_requested_states m' = (if ok then insert s (tm_requested_states m) else tm_requested_states m)"
    "tm_last_request_expansion m' = (if ok then tm_expansions m else tm_last_request_expansion m)"
    "tm_bridge m' = (if ok \<and> http_mode (tm_bridge_config m)
       then (tm_bridge m)\<lparr>outgoing := outgoing (tm_bridge m) @ [fst (make_request cx s reason g h m)]\<rparr>
       else tm_bridge m)"
  using assms
  by (auto simp: submit_request_def make_request_def bridge_submit_outcome register_request_def Let_def
      split: if_splits)

lemma make_request_attempt [simp]:
  "fst (make_request cx s reason g h (m\<lparr>tm_request_attempts := a, tm_request_attempts_by_reason := t\<rparr>)) =
   fst (make_request cx s reason g h m)"
  by (simp add: make_request_def)

lemma request_state_admissible:
  "request_admissible s bypass m \<Longrightarrow> request_state cx s reason g h bypass m =
     submit_request cx s reason g h (m\<lparr>tm_request_attempts := Suc (tm_request_attempts m),
       tm_request_attempts_by_reason := count_up (tm_request_attempts_by_reason m) reason\<rparr>)"
  by (cases bypass) (simp_all add: request_state_def request_admissible_def Let_def)

lemma request_state_inadmissible:
  assumes "\<not> request_admissible s bypass m"
  shows "\<not> fst (request_state cx s reason g h bypass m)"
    "tm_requests_submitted (snd (request_state cx s reason g h bypass m)) = tm_requests_submitted m"
    "tm_requested_states (snd (request_state cx s reason g h bypass m)) = tm_requested_states m"
    "tm_last_request_expansion (snd (request_state cx s reason g h bypass m)) = tm_last_request_expansion m"
    "tm_bridge (snd (request_state cx s reason g h bypass m)) = tm_bridge m"
  using assms by (simp_all add: request_state_def request_admissible_def Let_def; blast)+

lemma request_state_attempts:
  "tm_request_attempts (snd (request_state cx s reason g h bypass m)) = Suc (tm_request_attempts m)"
  by (simp add: request_state_def submit_request_def make_request_def register_request_def Let_def
      split: prod.split)

lemma request_state_outcome_lemma:
  assumes "request_state cx s reason g h bypass m = (ok, m')"
  shows "ok = (request_admissible s bypass m \<and> bridge_accepts (tm_bridge_config m) (tm_bridge m))"
    "tm_requests_submitted m' = tm_requests_submitted m + (if ok then 1 else 0)"
    "tm_requested_states m' = (if ok then insert s (tm_requested_states m) else tm_requested_states m)"
    "tm_last_request_expansion m' = (if ok then tm_expansions m else tm_last_request_expansion m)"
    "tm_bridge m' = (if ok \<and> http_mode (tm_bridge_config m)
       then (tm_bridge m)\<lparr>outgoing := outgoing (tm_bridge m) @ [fst (make_request cx s reason g h m)]\<rparr>
       else tm_bridge m)"
proof -
  have "ok = (request_admissible s bypass m \<and> bridge_accepts (tm_bridge_config m) (tm_bridge m)) \<and>
    tm_requests_submitted m' = tm_requests_submitted m + (if ok then 1 else 0) \<and>
    tm_requested_states m' = (if ok then insert s (tm_requested_states m) else tm_requested_states m) \<and>
    tm_last_request_expansion m' = (if ok then tm_expansions m else tm_last_request_expansion m) \<and>
    tm_bridge m' = (if ok \<and> http_mode (tm_bridge_config m)
       then (tm_bridge m)\<lparr>outgoing := outgoing (tm_bridge m) @ [fst (make_request cx s reason g h m)]\<rparr>
       else tm_bridge m)"
  proof (cases "request_admissible s bypass m")
    case True
    note r = assms [unfolded request_state_admissible [OF True]]
    from submit_request_outcome [OF r] True show ?thesis by simp
  next
    case False
    from request_state_inadmissible [OF this, of cx reason g h] False show ?thesis
      by (simp add: assms)
  qed
  then show "ok = (request_admissible s bypass m \<and> bridge_accepts (tm_bridge_config m) (tm_bridge m))"
    "tm_requests_submitted m' = tm_requests_submitted m + (if ok then 1 else 0)"
    "tm_requested_states m' = (if ok then insert s (tm_requested_states m) else tm_requested_states m)"
    "tm_last_request_expansion m' = (if ok then tm_expansions m else tm_last_request_expansion m)"
    "tm_bridge m' = (if ok \<and> http_mode (tm_bridge_config m)
       then (tm_bridge m)\<lparr>outgoing := outgoing (tm_bridge m) @ [fst (make_request cx s reason g h m)]\<rparr>
       else tm_bridge m)"
    by blast+
qed

section \<open>A slot of requests\<close>

lemma request_state_keeps [simp]:
  "tm_config (snd (request_state cx s reason g h bypass m)) = tm_config m"
  "tm_expansions (snd (request_state cx s reason g h bypass m)) = tm_expansions m"
  by (simp_all add: request_state_def submit_request_def make_request_def register_request_def Let_def
      split: prod.split)

definition noted_layer :: "int \<Rightarrow> LayerStats \<Rightarrow> LayerStats" where
  "noted_layer now l = l\<lparr>ly_requests_in_episode := ly_requests_in_episode l + 1,
     ly_last_request_expansion := now, ly_opened_since_request := 0, ly_expanded_since_request := 0\<rparr>"

lemma submit_candidates_outcome:
  assumes "submit_candidates cx stall is n m = (n', m')" "distinct is" "set is \<subseteq> {..<length (tm_layers m)}"
  shows "n \<le> n' \<and> n' \<le> max n (tc_requests_per_slot (tm_config m)) \<and>
    tm_requests_submitted m' = tm_requests_submitted m + nat (n' - n) \<and>
    tm_config m' = tm_config m \<and> tm_expansions m' = tm_expansions m \<and>
    length (tm_layers m') = length (tm_layers m) \<and>
    (\<forall>i. tm_layers m' ! i = tm_layers m ! i \<or>
       i \<in> set is \<and> tm_layers m' ! i = noted_layer (tm_expansions m) (tm_layers m ! i))"
  using assms
proof (induction "is" arbitrary: n m)
  case (Cons i "is")
  show ?case
  proof (cases "n < tc_requests_per_slot (tm_config m)")
    case True
    obtain ok m1 where r: "request_state cx (ly_representative_state (tm_layers m ! i))
      (if stall \<and> n = 0 then ''frontier_growth_plateau+global_stall'' else ''frontier_growth_plateau'')
      (ly_representative_g (tm_layers m ! i)) (ly_h (tm_layers m ! i)) (n > 0) m = (ok, m1)" by fastforce
    have m1: "tm_layers m1 = tm_layers m" "tm_config m1 = tm_config m" "tm_expansions m1 = tm_expansions m"
      using request_state_layers request_state_keeps r by (metis snd_conv)+
    show ?thesis
    proof (cases ok)
      case True
      let ?m2 = "note_layer_request i m1"
      have m2: "tm_layers ?m2 = (tm_layers m)[i := noted_layer (tm_expansions m) (tm_layers m ! i)]"
        "tm_config ?m2 = tm_config m" "tm_expansions ?m2 = tm_expansions m"
        "tm_requests_submitted ?m2 = tm_requests_submitted m + 1"
        using m1 request_state_outcome_lemma(2) [OF r] True
        by (simp_all add: note_layer_request_def noted_layer_def)
      have "submit_candidates cx stall is (n + 1) ?m2 = (n', m')"
        using Cons.prems(1) \<open>n < _\<close> r True by (simp add: Let_def)
      from Cons.IH [OF this] Cons.prems(2,3) m2 \<open>n < _\<close> show ?thesis
        by (auto simp: nat_add_distrib nat_diff_distrib max_def) (metis nth_list_update_eq nth_list_update_neq)+
    next
      case False
      then have "submit_candidates cx stall is n m1 = (n', m')"
        using Cons.prems(1) \<open>n < _\<close> r by (simp add: Let_def)
      from Cons.IH [OF this] Cons.prems(2,3) m1 request_state_outcome_lemma(2) [OF r] False
      show ?thesis by auto
    qed
  next
    case False
    with Cons.prems(1) show ?thesis by auto
  qed
qed auto

lemma collect_distinct: "distinct (collect_layer_candidates m)"
  and collect_eligible: "i \<in> set (collect_layer_candidates m) \<longleftrightarrow>
    i < LAYER_TABLE_CAPACITY \<and> layer_request_eligible m (tm_layers m ! i)"
proof -
  have *: "mset (collect_layer_candidates m) =
      mset (filter (\<lambda>i. layer_request_eligible m (tm_layers m ! i)) [0..<LAYER_TABLE_CAPACITY])"
    by (simp add: collect_layer_candidates_def mset_sort_candidates)
  show "distinct (collect_layer_candidates m)" using mset_eq_imp_distinct_iff [OF *] by simp
  show "i \<in> set (collect_layer_candidates m) \<longleftrightarrow>
    i < LAYER_TABLE_CAPACITY \<and> layer_request_eligible m (tm_layers m ! i)"
    using mset_eq_setD [OF *] by auto
qed

lemma eligible_cooldown:
  "layer_request_eligible m l \<Longrightarrow> ly_last_request_expansion l < 0 \<or>
    tc_per_layer_request_gap_expansions (tm_config m) \<le> tm_expansions m - ly_last_request_expansion l"
  by (auto simp: layer_request_eligible_def split: if_splits)

lemma submit_layer_outcome:
  assumes c: "config_ok (tm_config m)" and len: "length (tm_layers m) = LAYER_TABLE_CAPACITY"
    and r: "submit_layer_candidates cx stall s g h m = (n, m')"
  shows "0 \<le> n \<and> n \<le> tc_requests_per_slot (tm_config m) \<and>
    (n > 0 \<longrightarrow> \<not> reached_request_limit m \<and> \<not> request_spacing_active m) \<and>
    tm_requests_submitted m' = tm_requests_submitted m + nat n \<and>
    (\<forall>i. tm_layers m' ! i = tm_layers m ! i \<or>
       layer_request_eligible m (tm_layers m ! i) \<and>
       tm_layers m' ! i = noted_layer (tm_expansions m) (tm_layers m ! i))"
proof (cases "reached_request_limit m \<or> request_spacing_active m")
  case True
  with r c show ?thesis by (auto simp: submit_layer_candidates_def config_ok_def)
next
  case False
  let ?is = "take (nat (tc_candidate_layers (tm_config m))) (collect_layer_candidates m)"
  obtain n1 m1 where r1: "submit_candidates cx stall ?is 0 m = (n1, m1)" by fastforce
  have sub: "i < LAYER_TABLE_CAPACITY \<and> layer_request_eligible m (tm_layers m ! i)" if "i \<in> set ?is" for i
    using that collect_eligible [of i m] set_take_subset by fastforce
  have out: "0 \<le> n1 \<and> n1 \<le> tc_requests_per_slot (tm_config m) \<and>
    tm_requests_submitted m1 = tm_requests_submitted m + nat n1 \<and>
    (\<forall>i. tm_layers m1 ! i = tm_layers m ! i \<or>
       i \<in> set ?is \<and> tm_layers m1 ! i = noted_layer (tm_expansions m) (tm_layers m ! i))"
    using submit_candidates_outcome [OF r1] collect_distinct [of m] sub len c
    by (auto simp: config_ok_def max_def)
  obtain ok m2 where r2: "request_state cx s ''global_stall'' g h False m1 = (ok, m2)" by fastforce
  have l2: "tm_layers m2 = tm_layers m1" using request_state_layers r2 by (metis snd_conv)
  have s2: "tm_requests_submitted m2 = tm_requests_submitted m1 + (if ok then 1 else 0)"
    by (rule request_state_outcome_lemma(2) [OF r2])
  have slot: "1 \<le> tc_requests_per_slot (tm_config m)" using c by (simp add: config_ok_def)
  have res: "n = n1 + (if stall \<and> n1 = 0 \<and> s \<noteq> no_state \<and> ok then 1 else 0)"
    "tm_layers m' = tm_layers m1"
    "tm_requests_submitted m' = tm_requests_submitted m1 + (if stall \<and> n1 = 0 \<and> s \<noteq> no_state \<and> ok then 1 else 0)"
    using r False l2 s2 by (auto simp: submit_layer_candidates_def Let_def r1 r2 split: if_splits bool.splits)
  with out slot False sub show ?thesis by auto
qed

section \<open>Windows of a layer\<close>

text \<open>Starting anywhere in an empty history is starting at 0 after windows without counts.\<close>

lemma window_idle:
  "0 < w \<Longrightarrow> cur < w \<Longrightarrow>
   fold (window_step w) (replicate cur 0) (0, replicate k 0) = (cur, replicate k 0)"
proof (induction cur)
  case (Suc cur)
  have "(replicate k 0)[cur := 0] = replicate k (0 :: nat)"
    by (cases "cur < k") (simp_all add: list_update_beyond list_update_same_conv)
  moreover have "replicate (Suc cur) (0 :: nat) = replicate cur 0 @ [0]" by (simp add: replicate_append_same)
  ultimately show ?case using Suc by (simp add: window_step_def del: replicate_Suc)
qed simp

lemma window_sum_empty:
  assumes "0 < w" "w \<le> k" "cur < w"
  shows "sum_list (take w (snd (fold (window_step w) ys (cur, replicate k 0)))) =
    sum_list (drop (length ys - w) ys)"
proof -
  let ?zs = "replicate cur 0 @ ys"
  have "fold (window_step w) ys (cur, replicate k 0) = fold (window_step w) ?zs (0, replicate k 0)"
    using window_idle [OF assms(1,3), of k] by simp
  then have "sum_list (take w (snd (fold (window_step w) ys (cur, replicate k 0)))) =
      sum_list (drop (length ?zs) (take w (replicate k 0) @ ?zs))"
    using window_sum [of w "replicate k 0" ?zs] assms by simp
  also have "\<dots> = sum_list (drop (length ys) (replicate w 0 @ ys))"
    using assms by (simp add: sum_list_replicate)
  also have "\<dots> = sum_list (drop (length ys - w) ys)" by (simp add: sum_list_replicate)
  finally show ?thesis .
qed

section \<open>The best heuristic value\<close>

definition best_inv :: "monitor \<Rightarrow> bool" where
  "best_inv m \<longleftrightarrow> config_ok (tm_config m) \<and> (tm_best_h m = ap_inf False \<or> ap_is_finite (tm_best_h m)) \<and>
     0 \<le> tm_expansions_since_best_h m \<and> tm_expansions_since_best_h m \<le> tm_expansions m"

lemma threshold_nonneg:
  assumes "config_ok c"
  shows "\<not> lt_values (decode (h_improvement_threshold c x y)) (Fin 0)"
proof -
  have "\<not> lt_values (decode (tc_h_abs_epsilon c)) (Fin 0)" using assms by (simp add: config_ok_def)
  moreover have "\<not> lt_values a (Fin 0) \<Longrightarrow> lt_values a b \<Longrightarrow> \<not> lt_values b (Fin 0)" for a b
    using lt_values_trans by blast
  ultimately show ?thesis
    by (auto simp: h_improvement_threshold_def ap_max_def ap_lt_def)
qed

lemma meaningful_improvement_lt:
  assumes c: "config_ok c" and x: "x = ap_inf False \<or> ap_is_finite x" and y: "ap_is_finite y"
    and imp: "meaningfully_improves_h c x y"
  shows "ap_lt y x"
proof (cases "ap_is_finite x")
  case True
  let ?t = "decode (h_improvement_threshold c x y)"
  have lt: "lt_values ?t (decode (ap_sub x y))"
    using imp True by (simp add: meaningfully_improves_h_def ap_lt_def)
  moreover have "\<not> lt_values ?t (Fin 0)" by (rule threshold_nonneg [OF c])
  ultimately have "lt_values (Fin 0) (decode (ap_sub x y))"
    using lt_values_total [of ?t "Fin 0"] by (cases ?t; cases "decode (ap_sub x y)") auto
  then show ?thesis by (rule ap_sub_pos)
next
  case False
  with x y show ?thesis by (auto simp: ap_lt_def ap_is_finite_decode)
qed

lemma best_inv_request: "best_inv m \<Longrightarrow> best_inv (snd (request_state cx s reason g h bypass m))"
  by (simp add: best_inv_def) (simp add: request_state_def submit_request_def make_request_def
      register_request_def Let_def split: prod.split)

lemma respond_best:
  "best_inv m \<Longrightarrow> best_inv (discard_response r m)" "best_inv m \<Longrightarrow> best_inv (complete_response cx r m)"
  by (simp_all add: best_inv_def discard_response_def complete_response_def forget_pending_def Let_def)

lemma best_inv_poll: "best_inv m \<Longrightarrow> best_inv (snd (poll_bridge cx d m))"
proof -
  assume m: "best_inv m"
  then have "best_inv (m\<lparr>tm_bridge := b\<rparr>)" for b by (simp add: best_inv_def)
  with m show ?thesis
    by (simp add: poll_bridge_def Let_def respond_best fold_keeps [of best_inv] split: prod.split)
qed

definition best_view :: "monitor \<Rightarrow> _" where
  "best_view m = (tm_config m, tm_best_h m, tm_expansions_since_best_h m, tm_expansions m)"

lemma best_inv_view: "best_view m' = best_view m \<Longrightarrow> best_inv m \<Longrightarrow> best_inv m'"
  by (simp add: best_inv_def best_view_def)

lemma best_view_keeps:
  "best_view (note_layer_request i m) = best_view m" "best_view (maybe_heartbeat m) = best_view m"
  "best_view (snd (layer_for_h h m)) = best_view m" "best_view (analyze_layer i m) = best_view m"
  by (simp_all add: best_view_def note_layer_request_def maybe_heartbeat_def layer_for_h_def
      analyze_layer_def Let_def split: option.split prod.split)

lemma best_view_more:
  "best_view (count_opened h m) = best_view m" "best_view (count_expanded s g h m) = best_view m"
  "best_view (fold analyze_layer is m) = best_view m" "best_view (close_window m) = best_view m"
proof -
  show "best_view (count_opened h m) = best_view m" "best_view (count_expanded s g h m) = best_view m"
    using best_view_keeps(3) [of h m]
    by (cases "layer_for_h h m"; simp add: count_opened_def count_expanded_def Let_def best_view_def)+
  have f: "best_view (fold analyze_layer is m) = best_view m" for "is" m
    by (induction "is" arbitrary: m) (simp_all add: best_view_keeps)
  show "best_view (fold analyze_layer is m) = best_view m" by (rule f)
  have "best_view (close_window m) =
    best_view (fold analyze_layer [0..<LAYER_TABLE_CAPACITY] (m\<lparr>tm_analysis_checks := Suc (tm_analysis_checks m)\<rparr>))"
    by (simp add: close_window_def Let_def best_view_def)
  then show "best_view (close_window m) = best_view m" by (simp add: f) (simp add: best_view_def)
qed

lemma best_inv_simple: "best_inv m \<Longrightarrow> \<not> composed_event ev \<Longrightarrow> best_inv (monitor_call cx ev m)"
proof (cases ev)
  case PollBridge
  assume "best_inv m"
  with PollBridge show ?thesis by (simp add: best_inv_poll)
qed (auto simp: monitor_defs best_inv_def Let_def)

lemma best_inv_note: "best_inv m \<Longrightarrow> ap_is_finite h \<Longrightarrow> best_inv (note_best_h h m)"
  by (simp add: best_inv_def note_best_h_def)

lemma best_inv_start: "best_inv (start_bridge (monitor_init env))"
  using config_ok_from [of env] by (simp add: start_bridge_def monitor_init_def best_inv_def)

lemma best_inv_finalize: "best_inv m \<Longrightarrow> best_inv (finalize_monitor cx m)"
  unfolding finalize_monitor_def Let_def
  by (simp add: best_inv_poll, rule impI, rule best_inv_poll) (simp add: best_inv_def)

interpretation bests: kept_by_runs best_inv "\<lambda>_. True" "\<lambda>_. True" env
  by unfold_locales
     (auto intro: best_inv_view [rotated] best_inv_request best_inv_simple best_inv_start best_inv_note
       best_inv_finalize simp: best_view_keeps best_view_more,
      simp_all add: best_inv_def)

end
