(* ===== verification/Trigger_Properties.thy ===== *)
theory Trigger_Properties
  imports Monitor_Laws
begin

text \<open>The properties of the trigger monitor, with a demonstration run for their witnesses.\<close>

section \<open>A demonstration run\<close>

definition demo_env :: environment where
  "demo_env name = (if name \<in> {''NLM_LLM_TRIGGER'', ''NLM_LLM_REQUEST_INITIAL''} then Some ''1''
     else if name = ''NLM_LLM_COMM_MODE'' then Some ''http'' else None)"

definition demo_context :: monitor_context where
  "demo_context = \<lparr>cx_environment = demo_env, cx_init_string = (\<lambda>_. ''init''), cx_now = 0\<rparr>"

definition demo_start :: monitor where "demo_start = start_bridge (monitor_init demo_env)"

definition demo_monitor :: monitor where
  "demo_monitor = monitor_call demo_context (RequestInitial 0 (ap_zero False) (ap_zero False)) demo_start"

lemma demo_start_run: "monitor_run demo_env demo_start"
  unfolding demo_start_def by (rule monitor_run.started)

lemma demo_monitor_run: "monitor_run demo_env demo_monitor"
  unfolding demo_monitor_def by (rule monitor_run.called [OF demo_start_run])

lemma demo_start_fields:
  "tc_enabled (tm_config demo_start)" "tc_request_initial (tm_config demo_start)"
  "tc_max_requests (tm_config demo_start) = 10" "tc_max_pending (tm_config demo_start) = 0"
  "tc_requests_per_slot (tm_config demo_start) = 1"
  "tm_requests_submitted demo_start = 0" "tm_requested_states demo_start = {}"
  "tm_pending_states demo_start = {}" "bc_enabled (tm_bridge_config demo_start)"
  "http_mode (tm_bridge_config demo_start)" "bc_max_queue (tm_bridge_config demo_start) = 0"
  "\<not> stopping (tm_bridge demo_start)" "tm_expansions demo_start = 0" "tm_last_request_expansion demo_start = - 1"
  "tm_best_h demo_start = ap_inf False" "outgoing (tm_bridge demo_start) = []"
  "tm_layers demo_start = replicate LAYER_TABLE_CAPACITY LayerStats_init"
  by (simp_all add: demo_start_def start_bridge_def monitor_init_def trigger_config_from_def Let_def
      env_enabled_def demo_env_def bridge_config_from_def env_string_def env_int_def http_mode_def
      bridge_start_def bridge_init_def to_lower_def LAYER_TABLE_CAPACITY_def)

lemma demo_request_state:
  "request_admissible 0 bypass demo_start" "bridge_accepts (tm_bridge_config demo_start) (tm_bridge demo_start)"
  by (simp_all add: request_admissible_def bridge_accepts_def reached_request_limit_def no_state_def
      request_spacing_active_def reached_pending_limit_def demo_start_fields)

lemma demo_monitor_fields:
  "tm_requested_states demo_monitor = {0}" "tm_requests_submitted demo_monitor = 1"
  "map rq_state_id (outgoing (tm_bridge demo_monitor)) = [0]" "\<not> stopping (tm_bridge demo_monitor)"
proof -
  obtain ok m where r: "request_state demo_context 0 ''initial_replay_test'' (ap_zero False) (ap_zero False) True
      demo_start = (ok, m)" by fastforce
  have m: "demo_monitor = m" using r by (simp add: demo_monitor_def maybe_request_initial_def demo_start_fields)
  show "tm_requested_states demo_monitor = {0}" "tm_requests_submitted demo_monitor = 1"
    "map rq_state_id (outgoing (tm_bridge demo_monitor)) = [0]" "\<not> stopping (tm_bridge demo_monitor)"
    using request_state_outcome_lemma [OF r]
    by (simp_all add: m demo_request_state demo_start_fields make_request_def)
qed

section \<open>Properties\<close>

text \<open>
  C17. However the search and the workers interleave, the monitor never exceeds its request and
  pending limits, requests no state twice, and knows the submission data of every pending state.
\<close>

theorem monitor_request_budget:
  assumes "monitor_run env m"
  shows "(tc_max_requests (tm_config m) > 0 \<longrightarrow>
      int (tm_requests_submitted m) \<le> tc_max_requests (tm_config m)) \<and>
    (tc_max_pending (tm_config m) > 0 \<longrightarrow>
      int (card (tm_pending_states m)) \<le> tc_max_pending (tm_config m)) \<and>
    tm_requests_submitted m = card (tm_requested_states m) \<and> no_state \<notin> tm_requested_states m \<and>
    tm_pending_states m \<subseteq> tm_requested_states m \<and> dom (tm_pending_request_infos m) = tm_pending_states m"
  using requests.run [OF assms] by (auto simp: request_inv_def)

theorem monitor_request_budget_witness:
  "tm_requests_submitted demo_monitor = 1 \<and> no_state \<notin> tm_requested_states demo_monitor"
  using monitor_request_budget [OF demo_monitor_run] demo_monitor_fields by simp

text \<open>
  C18. Until the bridge is stopped, the pending states of the monitor are exactly the states whose
  requests are queued, being posted or answered but not polled, each once; waiting for the pending
  set to empty therefore waits for the bridge to drain, and for nothing else.
\<close>

theorem monitor_pending_is_in_flight:
  assumes "monitor_run env m" "\<not> stopping (tm_bridge m)"
  shows "mset_set (tm_pending_states m) = image_mset rq_state_id (mset (outgoing (tm_bridge m))) +
      image_mset rq_state_id (mset (posting (workers (tm_bridge m)))) +
      image_mset rs_state_id (mset (completed (tm_bridge m)))"
  using flights.run [OF assms(1)] assms(2) by (simp add: flight_inv_def bridge_states_def)

theorem monitor_pending_is_in_flight_witness: "0 \<in># mset_set (tm_pending_states demo_monitor)"
proof -
  have "0 \<in># image_mset rq_state_id (mset (outgoing (tm_bridge demo_monitor)))"
    using demo_monitor_fields(3) by (metis list.set_intros(1) mset_map set_mset_mset)
  then show ?thesis
    using monitor_pending_is_in_flight [OF demo_monitor_run demo_monitor_fields(4)] by simp
qed

text \<open>
  C19. \<open>request_state\<close> submits exactly when the monitor is enabled, the state is a real one not
  requested before, no limit is reached, the spacing is kept (or bypassed) and the bridge takes the
  request; then, and only then, the state counts as requested and the request is queued last.
\<close>

theorem request_state_outcome:
  assumes "request_state cx s reason g h bypass m = (ok, m')"
  shows "(ok \<longleftrightarrow> tc_enabled (tm_config m) \<and> s \<noteq> no_state \<and> \<not> reached_request_limit m \<and>
      (bypass \<or> \<not> request_spacing_active m) \<and> s \<notin> tm_requested_states m \<and>
      \<not> reached_pending_limit m \<and> fst (bridge_submit (tm_bridge_config m) (fst (make_request cx s reason g h m)) (tm_bridge m))) \<and>
    tm_requests_submitted m' = tm_requests_submitted m + (if ok then 1 else 0) \<and>
    tm_requested_states m' = (if ok then insert s (tm_requested_states m) else tm_requested_states m) \<and>
    tm_last_request_expansion m' = (if ok then tm_expansions m else tm_last_request_expansion m) \<and>
    outgoing (tm_bridge m') = outgoing (tm_bridge m) @
      (if ok \<and> http_mode (tm_bridge_config m) then [fst (make_request cx s reason g h m)] else [])"
  using request_state_outcome_lemma [OF assms]
  by (auto simp: request_admissible_def bridge_submit_outcome)

theorem request_state_outcome_witness:
  "tm_requests_submitted (snd (request_state demo_context 0 ''r'' (ap_zero False) (ap_zero False) False demo_start)) = 1"
proof -
  obtain ok m where r: "request_state demo_context 0 ''r'' (ap_zero False) (ap_zero False) False demo_start = (ok, m)"
    by fastforce
  from request_state_outcome [OF r] demo_request_state(1) [of False] demo_request_state(2) show ?thesis
    by (simp add: r request_admissible_def bridge_submit_outcome demo_start_fields)
qed

text \<open>
  C24. The best heuristic value only ever falls: opening a state either leaves it, or replaces it
  by the smaller value of that state, and then the stall counter starts again.
\<close>

theorem best_h_only_falls:
  assumes "monitor_run env m" "ap_is_finite h" "tc_enabled (tm_config m)"
  shows "if meaningfully_improves_h (tm_config m) (tm_best_h m) h
    then tm_best_h (record_open_state h m) = h \<and> ap_lt h (tm_best_h m) \<and>
      tm_expansions_since_best_h (record_open_state h m) = 0 \<and> \<not> tm_global_stall_requested (record_open_state h m)
    else tm_best_h (record_open_state h m) = tm_best_h m \<and>
      tm_expansions_since_best_h (record_open_state h m) = tm_expansions_since_best_h m"
proof -
  have inv: "best_inv m" by (rule bests.run [OF assms(1)])
  let ?m = "(if tc_enable_frontier_plateau (tm_config m)
     then count_opened h (m\<lparr>tm_opened_states := Suc (tm_opened_states m)\<rparr>)
     else m\<lparr>tm_opened_states := Suc (tm_opened_states m)\<rparr>)"
  have "best_view ?m = best_view m" by (simp add: best_view_more) (simp add: best_view_def)
  then have same: "tm_best_h ?m = tm_best_h m" "tm_config ?m = tm_config m"
    "tm_expansions_since_best_h ?m = tm_expansions_since_best_h m"
    by (simp_all add: best_view_def)
  have rec: "record_open_state h m = note_best_h h ?m"
    using assms(2,3) by (simp add: record_open_state_def Let_def)
  have "ap_lt h (tm_best_h m)" if "meaningfully_improves_h (tm_config m) (tm_best_h m) h"
    using inv that assms(2) by (intro meaningful_improvement_lt) (auto simp: best_inv_def)
  then show ?thesis unfolding rec using same by (simp add: note_best_h_def)
qed

theorem best_h_only_falls_witness: "tm_best_h (record_open_state (ap_zero False) demo_start) = ap_zero False"
proof -
  have "meaningfully_improves_h (tm_config demo_start) (tm_best_h demo_start) (ap_zero False)"
    by (simp add: meaningfully_improves_h_def demo_start_fields ap_is_finite_decode)
  with best_h_only_falls [OF demo_start_run, of "ap_zero False"] show ?thesis
    by (simp add: demo_start_fields ap_is_finite_decode)
qed

end
