(* ===== verification/Layer_Properties.thy ===== *)
theory Layer_Properties
  imports Trigger_Properties
begin

text \<open>
  Properties of the layers of the trigger monitor: which slot of the table a heuristic value gets, what
  the recent counts of a layer are, which layers an analysis considers and in which order, and what its
  requests change.
\<close>

section \<open>The slot of a heuristic value\<close>

lemma stalest_layer_least:
  assumes "j < LAYER_TABLE_CAPACITY"
  shows "ly_last_seen_expansion (ls ! stalest_layer ls) \<le> ly_last_seen_expansion (ls ! j)"
    "j < stalest_layer ls \<Longrightarrow> ly_last_seen_expansion (ls ! stalest_layer ls) < ly_last_seen_expansion (ls ! j)"
proof -
  let ?f = "\<lambda>i. ly_last_seen_expansion (ls ! i)"
  let ?v = "\<lambda>n. foldl (\<lambda>victim i. if ?f i < ?f victim then i else victim) 0 [1..<n]"
  have "?v n < n \<and> (\<forall>j < n. ?f (?v n) \<le> ?f j) \<and> (\<forall>j < ?v n. ?f (?v n) < ?f j)" if "0 < n" for n
    using that
  proof (induction n rule: nat_induct_non_zero)
    case (Suc n)
    then show ?case by (force simp: less_Suc_eq)
  qed simp
  from this [of LAYER_TABLE_CAPACITY] assms
  show "?f (stalest_layer ls) \<le> ?f j" "j < stalest_layer ls \<Longrightarrow> ?f (stalest_layer ls) < ?f j"
    by (auto simp: stalest_layer_def LAYER_TABLE_CAPACITY_def)
qed

text \<open>A slot as a heuristic value that was not in the table finds it.\<close>

definition unused_layer :: "int \<Rightarrow> ap_float \<Rightarrow> int \<Rightarrow> LayerStats" where
  "unused_layer key h now = \<lparr>ly_occupied = True, ly_h_key = key, ly_h = h,
     ly_current_opened = 0, ly_current_expanded = 0,
     ly_opened_history = replicate MAX_ACTIVITY_WINDOWS 0, ly_expanded_history = replicate MAX_ACTIVITY_WINDOWS 0,
     ly_recent_opened = 0, ly_recent_expanded = 0, ly_opened_since_request = 0, ly_expanded_since_request = 0,
     ly_last_seen_expansion = now, ly_last_request_expansion = - 1,
     ly_growth_streak = 0, ly_calm_streak = 0, ly_inactive_streak = 0, ly_requests_in_episode = 0,
     ly_growing = False, ly_ready = False, ly_representative_state = no_state,
     ly_representative_g = ap_zero False, ly_representative_expansion = - 1\<rparr>"

lemma initialize_layer_unused: "initialize_layer key h now = unused_layer key h now"
  by (simp add: initialize_layer_def LayerStats_init_def unused_layer_def)

definition holds_key :: "int \<Rightarrow> LayerStats \<Rightarrow> bool" where
  "holds_key key l \<longleftrightarrow> ly_occupied l \<and> ly_h_key l = key"

text \<open>
  C20. The layer table is a map from quantised heuristic values. When a slot holds the key of the value,
  it is the only one, the lookup returns it and changes nothing. Otherwise exactly the returned slot is
  written, with all its statistics as at the start: a free slot while there is one, and when all
  sixteen are taken the one that was seen last the longest ago (the first of them), and only this
  counts as an eviction.
\<close>

theorem layer_lookup:
  assumes "monitor_run env m" "layer_for_h h m = (i, m')"
  shows "i < LAYER_TABLE_CAPACITY \<and> length (tm_layers m) = LAYER_TABLE_CAPACITY \<and>
    (let key = quantize_h (tm_config m) h; slots = {..<LAYER_TABLE_CAPACITY}; ls = tm_layers m;
         written = ls[i := unused_layer key h (tm_expansions m)]
     in if \<exists>j \<in> slots. holds_key key (ls ! j)
        then m' = m \<and> {j \<in> slots. holds_key key (ls ! j)} = {i}
        else if \<exists>j \<in> slots. \<not> ly_occupied (ls ! j)
        then m' = m\<lparr>tm_layers := written\<rparr> \<and> \<not> ly_occupied (ls ! i)
        else m' = m\<lparr>tm_layers := written, tm_layer_table_evictions := tm_layer_table_evictions m + 1\<rparr> \<and>
          (\<forall>j \<in> slots. ly_last_seen_expansion (ls ! i) \<le> ly_last_seen_expansion (ls ! j) \<and>
             (j < i \<longrightarrow> ly_last_seen_expansion (ls ! i) < ly_last_seen_expansion (ls ! j))))"
proof -
  let ?key = "quantize_h (tm_config m) h" and ?ls = "tm_layers m"
  have inv: "table_inv ?ls" using tables.run [OF assms(1)] by (simp add: layers_inv_def)
  note out = layer_for_h_outcome [OF inv assms(2)]
  have len: "length ?ls = LAYER_TABLE_CAPACITY" using inv by (simp add: table_inv_def)
  have key: "layer_key l = Some k \<longleftrightarrow> holds_key k l" for l k by (simp add: layer_key_def holds_key_def)
  consider (found) "\<exists>j \<in> {..<LAYER_TABLE_CAPACITY}. holds_key ?key (?ls ! j)"
    | (absent) "\<forall>j \<in> {..<LAYER_TABLE_CAPACITY}. \<not> holds_key ?key (?ls ! j)" by blast
  then show ?thesis
  proof cases
    case found
    then have "m' = m \<and> {j \<in> {..<LAYER_TABLE_CAPACITY}. holds_key ?key (?ls ! j)} = {i}"
      using out(5) unfolding key by blast
    with found out(1) len show ?thesis by simp
  next
    case absent
    then have none: "\<not> (\<exists>j \<in> {..<LAYER_TABLE_CAPACITY}. holds_key ?key (?ls ! j))" by blast
    show ?thesis
    proof (cases "probe_layers ?ls ?key")
      case None
      have "\<not> (\<exists>j \<in> {..<LAYER_TABLE_CAPACITY}. \<not> ly_occupied (?ls ! j))" using probe_layers_None [OF None] by blast
      moreover have "i = stalest_layer ?ls" "m' = m\<lparr>tm_layers := ?ls[i := unused_layer ?key h (tm_expansions m)],
          tm_layer_table_evictions := tm_layer_table_evictions m + 1\<rparr>"
        using assms(2) None by (auto simp: layer_for_h_def Let_def initialize_layer_unused)
      ultimately show ?thesis using none out(1) len stalest_layer_least [of _ ?ls] by (simp add: Let_def)
    next
      case (Some j)
      note at_j = probe_layers_Some [OF Some]
      have free: "\<not> ly_occupied (?ls ! j)" using at_j absent by (auto simp: probe_stops_def holds_key_def)
      then have "i = j" "m' = m\<lparr>tm_layers := ?ls[i := unused_layer ?key h (tm_expansions m)]\<rparr>"
        using assms(2) Some by (auto simp: layer_for_h_def Let_def initialize_layer_unused)
      moreover have "\<exists>j \<in> {..<LAYER_TABLE_CAPACITY}. \<not> ly_occupied (?ls ! j)" using free at_j(1) by blast
      ultimately show ?thesis using none out(1) len free by (simp add: Let_def)
    qed
  qed
qed

theorem layer_lookup_witness:
  "\<exists>i < LAYER_TABLE_CAPACITY. layer_for_h (ap_of_int 1) demo_start =
     (i, demo_start\<lparr>tm_layers := (replicate LAYER_TABLE_CAPACITY LayerStats_init)
        [i := unused_layer (quantize_h (tm_config demo_start) (ap_of_int 1)) (ap_of_int 1) 0]\<rparr>)"
proof -
  obtain i m where r: "layer_for_h (ap_of_int 1) demo_start = (i, m)" by fastforce
  have "\<exists>j. j < LAYER_TABLE_CAPACITY" by (rule exI [of _ 0]) (simp add: LAYER_TABLE_CAPACITY_def)
  moreover have "\<not> ly_occupied LayerStats_init" by (simp add: LayerStats_init_def)
  ultimately show ?thesis using layer_lookup [OF demo_start_run r]
    by (simp add: r demo_start_fields Let_def holds_key_def)
qed

section \<open>Windows\<close>












section \<open>Candidates\<close>

text \<open>
  C22. The candidates of an analysis are the layers that are occupied, ready and growing, whose last
  expanded state was not requested before, with enough new evidence since their last request, out of
  their cooldown and expanded again since; each once. They are listed by falling net growth, then
  falling activity, then the oldest request first, then the smaller heuristic value. (Every monitor of
  a run has finite heuristic values in its layers.)
\<close>

theorem layer_candidates_sorted:
  assumes "\<forall>l \<in> set (tm_layers m). ap_is_finite (ly_h l)" "length (tm_layers m) = LAYER_TABLE_CAPACITY"
  shows "distinct (collect_layer_candidates m) \<and>
    set (collect_layer_candidates m) = {i. i < LAYER_TABLE_CAPACITY \<and> tc_enable_frontier_plateau (tm_config m) \<and>
      (let l = tm_layers m ! i in ly_occupied l \<and> ly_ready l \<and> ly_growing l \<and>
         ly_representative_state l \<noteq> no_state \<and> ly_representative_state l \<notin> tm_requested_states m \<and>
         tc_layer_min_since_request_expanded (tm_config m) \<le> int (ly_expanded_since_request l) \<and>
         tc_layer_min_since_request_net_growth (tm_config m) \<le> max 0 (int (ly_opened_since_request l) - int (ly_expanded_since_request l)) \<and>
         (ly_last_request_expansion l < 0 \<or>
          tc_per_layer_request_gap_expansions (tm_config m) \<le> tm_expansions m - ly_last_request_expansion l) \<and>
         ly_last_request_expansion l < ly_representative_expansion l)} \<and>
    sorted_wrt (\<lambda>i j. let a = tm_layers m ! i; b = tm_layers m ! j;
         growth = (\<lambda>l. max 0 (int (ly_recent_opened l) - int (ly_recent_expanded l)));
         activity = (\<lambda>l. ly_recent_opened l + ly_recent_expanded l)
       in growth a > growth b \<or> growth a = growth b \<and> (activity a > activity b \<or> activity a = activity b \<and>
         (ly_last_request_expansion a < ly_last_request_expansion b \<or> ly_last_request_expansion a = ly_last_request_expansion b \<and>
           ap_le (ly_h a) (ly_h b))))
      (collect_layer_candidates m)"
proof (intro conjI)
  show "distinct (collect_layer_candidates m)" by (rule collect_distinct)
  have growth: "max 0 (int a - int b) = int (a - b)" for a b by simp
  show "set (collect_layer_candidates m) = {i. i < LAYER_TABLE_CAPACITY \<and> tc_enable_frontier_plateau (tm_config m) \<and>
      (let l = tm_layers m ! i in ly_occupied l \<and> ly_ready l \<and> ly_growing l \<and>
         ly_representative_state l \<noteq> no_state \<and> ly_representative_state l \<notin> tm_requested_states m \<and>
         tc_layer_min_since_request_expanded (tm_config m) \<le> int (ly_expanded_since_request l) \<and>
         tc_layer_min_since_request_net_growth (tm_config m) \<le> max 0 (int (ly_opened_since_request l) - int (ly_expanded_since_request l)) \<and>
         (ly_last_request_expansion l < 0 \<or>
          tc_per_layer_request_gap_expansions (tm_config m) \<le> tm_expansions m - ly_last_request_expansion l) \<and>
         ly_last_request_expansion l < ly_representative_expansion l)}"
    unfolding growth
    by (auto simp: collect_eligible layer_request_eligible_def layer_has_new_evidence_def layer_since_request_net_growth_def Let_def
        split: if_splits)
  let ?xs = "filter (\<lambda>i. layer_request_eligible m (tm_layers m ! i)) [0..<LAYER_TABLE_CAPACITY]"
  have finite_h: "ap_is_finite (ly_h (tm_layers m ! i))" if "i < LAYER_TABLE_CAPACITY" for i
    using assms that by simp
  then have "weak_order_on (set ?xs) (\<lambda>i j. layer_priority_better (tm_layers m ! i) (tm_layers m ! j))"
    by (intro priority_weak_order) auto
  then have "sorted_wrt (\<lambda>i j. \<not> layer_priority_better (tm_layers m ! j) (tm_layers m ! i)) (collect_layer_candidates m)"
    unfolding collect_layer_candidates_def by (rule sorted_sort_candidates)
  moreover have "ap_le (ly_h (tm_layers m ! i)) (ly_h (tm_layers m ! j))"
    if "\<not> ap_lt (ly_h (tm_layers m ! j)) (ly_h (tm_layers m ! i))" "i < LAYER_TABLE_CAPACITY" "j < LAYER_TABLE_CAPACITY" for i j
    using finite_h [OF that(2)] finite_h [OF that(3)] that(1) by (auto simp: ap_is_finite_decode ap_lt_def ap_le_def ap_eq_def)
  ultimately show "sorted_wrt (\<lambda>i j. let a = tm_layers m ! i; b = tm_layers m ! j;
         growth = (\<lambda>l. max 0 (int (ly_recent_opened l) - int (ly_recent_expanded l)));
         activity = (\<lambda>l. ly_recent_opened l + ly_recent_expanded l)
       in growth a > growth b \<or> growth a = growth b \<and> (activity a > activity b \<or> activity a = activity b \<and>
         (ly_last_request_expansion a < ly_last_request_expansion b \<or> ly_last_request_expansion a = ly_last_request_expansion b \<and>
           ap_le (ly_h a) (ly_h b))))
      (collect_layer_candidates m)"
    unfolding growth
    by (elim sorted_wrt_mono_rel [rotated])
       (auto simp: layer_priority_better_def layer_net_growth_def Let_def collect_eligible split: if_splits)
qed

text \<open>Two layers that may be asked about; the second grows faster.\<close>

definition growing_layer :: "nat \<Rightarrow> state_id \<Rightarrow> LayerStats" where
  "growing_layer n s = (initialize_layer (int n) (ap_zero False) 0)\<lparr>ly_ready := True, ly_growing := True,
     ly_recent_opened := n + 1, ly_recent_expanded := 1, ly_opened_since_request := n + 1, ly_expanded_since_request := 1,
     ly_representative_state := s, ly_representative_expansion := 5\<rparr>"

definition growing_monitor :: monitor where
  "growing_monitor = demo_start\<lparr>tm_expansions := 6,
     tm_config := (tm_config demo_start)\<lparr>tc_enable_frontier_plateau := True, tc_layer_min_since_request_expanded := 1,
       tc_layer_min_since_request_net_growth := 1\<rparr>,
     tm_layers := [growing_layer 3 0, growing_layer 5 1] @ replicate 14 LayerStats_init\<rparr>"

theorem layer_candidates_sorted_witness: "collect_layer_candidates growing_monitor = [1, 0]"
proof -
  let ?c = "collect_layer_candidates growing_monitor"
  have layer_at: "tm_layers growing_monitor ! i = (if i = 0 then growing_layer 3 0 else if i = 1 then growing_layer 5 1 else LayerStats_init)"
    if "i < 16" for i
    using that by (auto simp: growing_monitor_def nth_Cons split: nat.split)
  have "\<forall>l \<in> set (tm_layers growing_monitor). ap_is_finite (ly_h l)" "length (tm_layers growing_monitor) = LAYER_TABLE_CAPACITY"
    by (auto simp: growing_monitor_def growing_layer_def initialize_layer_def LayerStats_init_def ap_is_finite_decode LAYER_TABLE_CAPACITY_def)
  note out = layer_candidates_sorted [OF this]
  have eligible: "layer_request_eligible growing_monitor (growing_layer 3 0)" "layer_request_eligible growing_monitor (growing_layer 5 1)"
    "\<not> layer_request_eligible growing_monitor LayerStats_init"
    by (simp_all add: layer_request_eligible_def layer_has_new_evidence_def layer_since_request_net_growth_def growing_monitor_def
        growing_layer_def initialize_layer_def LayerStats_init_def no_state_def demo_start_fields)
  have "i \<in> set ?c \<longleftrightarrow> i = 0 \<or> i = 1" for i
    by (cases "i < 16"; cases "i = 0"; cases "i = 1"; simp add: collect_eligible LAYER_TABLE_CAPACITY_def layer_at eligible)
  then have set: "set ?c = {0, 1}" by (intro set_eqI) simp
  then have "length ?c = 2" using out distinct_card [of ?c] by simp
  then obtain a b where ab: "?c = [a, b]" by (metis One_nat_def length_0_conv length_Suc_conv numeral_2_eq_2)
  from set ab have "a = 0 \<and> b = 1 \<or> a = 1 \<and> b = 0" by (auto simp: doubleton_eq_iff)
  with out [THEN conjunct2, THEN conjunct2] show ?thesis unfolding ab by (auto simp: layer_at growing_layer_def Let_def)
qed

section \<open>The requests of an analysis\<close>



end
