(* ===== verification/Segmented_Vector.thy ===== *)
theory Segmented_Vector
  imports Ap_Float
begin

text \<open>
  \<open>SegmentedVector\<close> and \<open>SegmentedArrayVector\<close> of \<open>segmented_vector.h\<close>, the containers behind the
  state pool and the per-state information: elements live in fixed-size segments that are never
  released before destruction. Memory is a list of cells, \<open>None\<close> where nothing is constructed.
  Both containers implement a plain sequence, which is the view the rest of the development takes.
\<close>

section \<open>The sequence interface\<close>

locale growing_sequence =
  fixes inv :: "'s \<Rightarrow> bool"
    and items :: "'s \<Rightarrow> 'a list"
    and admits :: "'a \<Rightarrow> bool"
    and push :: "'a \<Rightarrow> 's \<Rightarrow> 's"
    and pop :: "'s \<Rightarrow> 's"
    and grow :: "nat \<Rightarrow> 'a \<Rightarrow> 's \<Rightarrow> 's"
    and shrink :: "nat \<Rightarrow> 's \<Rightarrow> 's"
  assumes push_inv: "inv s \<Longrightarrow> admits a \<Longrightarrow> inv (push a s)"
    and items_push: "inv s \<Longrightarrow> admits a \<Longrightarrow> items (push a s) = items s @ [a]"
    and pop_inv: "inv s \<Longrightarrow> items s \<noteq> [] \<Longrightarrow> inv (pop s)"
    and items_pop: "inv s \<Longrightarrow> items s \<noteq> [] \<Longrightarrow> items (pop s) = butlast (items s)"
    and grow_iff: "grow n a s = (if length (items s) < n then grow n a (push a s) else s)"
    and shrink_iff: "shrink n s = (if n < length (items s) then shrink n (pop s) else s)"
begin

lemma grow_items:
  "inv s \<Longrightarrow> admits a \<Longrightarrow> inv (grow n a s) \<and> items (grow n a s) = items s @ replicate (n - length (items s)) a"
proof (induction "n - length (items s)" arbitrary: s)
  case 0
  then show ?case by (simp add: grow_iff [of n a s])
next
  case (Suc k)
  then have "k = n - length (items (push a s))" by (simp add: items_push)
  then have "inv (grow n a (push a s)) \<and>
      items (grow n a (push a s)) = items (push a s) @ replicate (n - length (items (push a s))) a"
    using Suc push_inv by blast
  moreover have "replicate (n - length (items s)) a = a # replicate (n - length (items (push a s))) a"
    using Suc.hyps(2) Suc.prems by (simp add: items_push) (metis Suc_diff_Suc diff_Suc_Suc replicate_Suc zero_less_Suc zero_less_diff)
  ultimately show ?case using Suc by (simp add: grow_iff [of n a s] items_push)
qed

lemma shrink_items:
  "inv s \<Longrightarrow> inv (shrink n s) \<and> items (shrink n s) = take n (items s)"
proof (induction "length (items s) - n" arbitrary: s)
  case 0
  then show ?case by (simp add: shrink_iff [of n s])
next
  case (Suc k)
  then have ne: "items s \<noteq> []" by auto
  then have len: "length (items (pop s)) = length (items s) - 1" using Suc.prems by (simp add: items_pop)
  then have "inv (shrink n (pop s)) \<and> items (shrink n (pop s)) = take n (items (pop s))"
    using Suc.hyps(2) pop_inv [OF Suc.prems ne] by (intro Suc.hyps(1)) auto
  then show ?case using Suc ne by (simp add: shrink_iff [of n s] items_pop take_butlast)
qed

text \<open>The resizing of both containers: shrink, then grow.\<close>

lemma resize_items:
  "inv s \<Longrightarrow> admits a \<Longrightarrow> inv (grow n a (shrink n s)) \<and>
    items (grow n a (shrink n s)) = take n (items s) @ replicate (n - length (items s)) a"
  using shrink_items [of s n] grow_items [of "shrink n s" a n] by (auto simp: min_def)

end

section \<open>SegmentedVector\<close>

definition SEGMENT_BYTES :: nat where "SEGMENT_BYTES = 8192"

definition SEGMENT_ELEMENTS :: "nat \<Rightarrow> nat" where
  "SEGMENT_ELEMENTS entry_bytes = (if 1 \<le> SEGMENT_BYTES div entry_bytes then SEGMENT_BYTES div entry_bytes else 1)"

record 'a SegmentedVector =
  sv_elements :: nat
  sv_segments :: "'a option list list"
  sv_size :: nat

definition sv_empty :: "nat \<Rightarrow> 'a SegmentedVector" where
  "sv_empty entry_bytes = \<lparr>sv_elements = SEGMENT_ELEMENTS entry_bytes, sv_segments = [], sv_size = 0\<rparr>"

definition sv_get_segment :: "'a SegmentedVector \<Rightarrow> nat \<Rightarrow> nat" where
  "sv_get_segment s index = index div sv_elements s"

definition sv_get_offset :: "'a SegmentedVector \<Rightarrow> nat \<Rightarrow> nat" where
  "sv_get_offset s index = index mod sv_elements s"

definition sv_cell :: "'a SegmentedVector \<Rightarrow> nat \<Rightarrow> 'a option" where
  "sv_cell s index = sv_segments s ! sv_get_segment s index ! sv_get_offset s index"

definition sv_at :: "'a SegmentedVector \<Rightarrow> nat \<Rightarrow> 'a" where "sv_at s index = the (sv_cell s index)"

definition sv_put :: "nat \<Rightarrow> 'a option \<Rightarrow> 'a SegmentedVector \<Rightarrow> 'a SegmentedVector" where
  "sv_put index c s =
    s\<lparr>sv_segments := (sv_segments s)[sv_get_segment s index :=
      (sv_segments s ! sv_get_segment s index)[sv_get_offset s index := c]]\<rparr>"

definition sv_add_segment :: "'a SegmentedVector \<Rightarrow> 'a SegmentedVector" where
  "sv_add_segment s = s\<lparr>sv_segments := sv_segments s @ [replicate (sv_elements s) None]\<rparr>"

definition sv_push_back :: "'a \<Rightarrow> 'a SegmentedVector \<Rightarrow> 'a SegmentedVector" where
  "sv_push_back entry s =
    (let s' = if sv_get_segment s (sv_size s) = length (sv_segments s) then sv_add_segment s else s
     in (sv_put (sv_size s) (Some entry) s')\<lparr>sv_size := Suc (sv_size s)\<rparr>)"

definition sv_pop_back :: "'a SegmentedVector \<Rightarrow> 'a SegmentedVector" where
  "sv_pop_back s = (sv_put (sv_size s - 1) None s)\<lparr>sv_size := sv_size s - 1\<rparr>"

function sv_shrink :: "nat \<Rightarrow> 'a SegmentedVector \<Rightarrow> 'a SegmentedVector" where
  "sv_shrink new_size s = (if new_size < sv_size s then sv_shrink new_size (sv_pop_back s) else s)"
  by pat_completeness auto
termination by (relation "measure (\<lambda>(n, s). sv_size s - n)") (auto simp: sv_pop_back_def)

function sv_grow :: "nat \<Rightarrow> 'a \<Rightarrow> 'a SegmentedVector \<Rightarrow> 'a SegmentedVector" where
  "sv_grow new_size entry s = (if sv_size s < new_size then sv_grow new_size entry (sv_push_back entry s) else s)"
  by pat_completeness auto
termination by (relation "measure (\<lambda>(n, e, s). n - sv_size s)") (auto simp: sv_push_back_def Let_def)

declare sv_shrink.simps [simp del] sv_grow.simps [simp del]

definition sv_resize :: "nat \<Rightarrow> 'a \<Rightarrow> 'a SegmentedVector \<Rightarrow> 'a SegmentedVector" where
  "sv_resize new_size entry s = sv_grow new_size entry (sv_shrink new_size s)"

text \<open>The sequence a vector stands for.\<close>

definition sv_items :: "'a SegmentedVector \<Rightarrow> 'a list" where
  "sv_items s = map (sv_at s) [0..<sv_size s]"

definition sv_inv :: "'a SegmentedVector \<Rightarrow> bool" where
  "sv_inv s \<longleftrightarrow> 0 < sv_elements s \<and> (\<forall>seg \<in> set (sv_segments s). length seg = sv_elements s) \<and>
    sv_size s \<le> sv_elements s * length (sv_segments s) \<and> (\<forall>i < sv_size s. sv_cell s i \<noteq> None)"

lemma segment_in_bounds: "i < n * k \<Longrightarrow> i div n < (k::nat)"
  by (simp add: less_mult_imp_div_less mult.commute)

lemma sv_cell_put:
  assumes "0 < sv_elements s" "\<forall>seg \<in> set (sv_segments s). length seg = sv_elements s"
    "i < sv_elements s * length (sv_segments s)" "j < sv_elements s * length (sv_segments s)"
  shows "sv_cell (sv_put i c s) j = (if j = i then c else sv_cell s j)"
proof -
  have i: "i div sv_elements s < length (sv_segments s)" and j: "j div sv_elements s < length (sv_segments s)"
    using assms(3,4) by (simp_all add: segment_in_bounds)
  have len: "length (sv_segments s ! (i div sv_elements s)) = sv_elements s" using assms(2) i by simp
  have "i = j \<longleftrightarrow> i div sv_elements s = j div sv_elements s \<and> i mod sv_elements s = j mod sv_elements s"
    by (metis div_mult_mod_eq)
  then show ?thesis
    using i j len assms(1)
    by (auto simp: sv_cell_def sv_put_def sv_get_segment_def sv_get_offset_def nth_list_update split: if_splits)
qed

lemma sv_put_simps [simp]:
  "sv_elements (sv_put i c s) = sv_elements s" "sv_size (sv_put i c s) = sv_size s"
  "length (sv_segments (sv_put i c s)) = length (sv_segments s)"
  by (simp_all add: sv_put_def)

lemma sv_put_lengths:
  "\<forall>seg \<in> set (sv_segments s). length seg = sv_elements s \<Longrightarrow> \<forall>seg \<in> set (sv_segments (sv_put i c s)). length seg = sv_elements s"
  by (cases "sv_get_segment s i < length (sv_segments s)")
    (auto simp: sv_put_def list_update_beyond dest!: set_update_subset_insert [THEN subsetD])

lemma sv_cell_size [simp]: "sv_cell (s\<lparr>sv_size := n\<rparr>) i = sv_cell s i"
  by (simp add: sv_cell_def sv_get_segment_def sv_get_offset_def)

lemma sv_room:
  assumes "sv_inv s"
  defines "s' \<equiv> (if sv_get_segment s (sv_size s) = length (sv_segments s) then sv_add_segment s else s)"
  shows "sv_elements s' = sv_elements s" "sv_size s' = sv_size s" "\<forall>seg \<in> set (sv_segments s'). length seg = sv_elements s'"
    "sv_size s < sv_elements s * length (sv_segments s')"
    "length (sv_segments s) \<le> length (sv_segments s')"
    "i < sv_size s \<Longrightarrow> sv_cell s' i = sv_cell s i"
proof -
  have pos: "0 < sv_elements s" and le: "sv_size s \<le> sv_elements s * length (sv_segments s)" using assms(1) by (simp_all add: sv_inv_def)
  show "sv_elements s' = sv_elements s" "sv_size s' = sv_size s" "\<forall>seg \<in> set (sv_segments s'). length seg = sv_elements s'"
    "length (sv_segments s) \<le> length (sv_segments s')"
    using assms(1) by (auto simp: s'_def sv_add_segment_def sv_inv_def)
  have "sv_size s div sv_elements s \<le> length (sv_segments s)" using le pos by (metis div_le_mono nonzero_mult_div_cancel_left less_not_refl)
  then show "sv_size s < sv_elements s * length (sv_segments s')"
    using pos le by (auto simp: s'_def sv_add_segment_def sv_get_segment_def)
      (metis div_less_iff_less_mult le_neq_implies_less mult.commute)
  show "sv_cell s' i = sv_cell s i" if "i < sv_size s"
  proof -
    have "i div sv_elements s < length (sv_segments s)" using that le by (intro segment_in_bounds) simp
    then show ?thesis by (simp add: s'_def sv_add_segment_def sv_cell_def sv_get_segment_def sv_get_offset_def nth_append)
  qed
qed

interpretation segmented: growing_sequence sv_inv sv_items "\<lambda>_. True" sv_push_back sv_pop_back sv_grow sv_shrink
proof unfold_locales
  fix s :: "'a SegmentedVector" and a
  assume inv: "sv_inv s"
  define s' where "s' = (if sv_get_segment s (sv_size s) = length (sv_segments s) then sv_add_segment s else s)"
  note room = sv_room [OF inv, folded s'_def]
  have push: "sv_push_back a s = (sv_put (sv_size s) (Some a) s')\<lparr>sv_size := Suc (sv_size s)\<rparr>"
    by (simp add: sv_push_back_def s'_def Let_def)
  have cell: "sv_cell (sv_push_back a s) i = (if i = sv_size s then Some a else sv_cell s i)" if "i \<le> sv_size s" for i
    using sv_cell_put [of s' "sv_size s" i "Some a"] room that inv by (auto simp: push sv_inv_def)
  have lens: "\<forall>seg \<in> set (sv_segments (sv_put (sv_size s) (Some a) s')). length seg = sv_elements s"
    using sv_put_lengths [OF room(3)] room(1) by simp
  show "sv_inv (sv_push_back a s)"
    using inv cell lens room(1,4) by (auto simp: sv_inv_def less_Suc_eq_le push)
  show "sv_items (sv_push_back a s) = sv_items s @ [a]"
    using cell by (auto simp: sv_items_def sv_at_def push intro!: nth_equalityI)
next
  fix s :: "'a SegmentedVector"
  assume inv: "sv_inv s" and ne: "sv_items s \<noteq> []"
  then obtain n where n: "sv_size s = Suc n" by (cases "sv_size s") (auto simp: sv_items_def)
  have pop: "sv_pop_back s = (sv_put n None s)\<lparr>sv_size := n\<rparr>" by (simp add: sv_pop_back_def n)
  have cell: "sv_cell (sv_pop_back s) i = sv_cell s i" if "i < n" for i
    using sv_cell_put [of s n i None] inv that n by (auto simp: pop sv_inv_def)
  have lens: "\<forall>seg \<in> set (sv_segments (sv_put n None s)). length seg = sv_elements s"
    using sv_put_lengths inv by (auto simp: sv_inv_def)
  show "sv_inv (sv_pop_back s)"
    using inv cell n lens by (auto simp: sv_inv_def pop)
  show "sv_items (sv_pop_back s) = butlast (sv_items s)"
    using cell n by (auto simp: sv_items_def sv_at_def pop butlast_append)
next
  fix n a and s :: "'a SegmentedVector"
  show "sv_grow n a s = (if length (sv_items s) < n then sv_grow n a (sv_push_back a s) else s)"
    by (simp add: sv_items_def sv_grow.simps [of n a s])
  show "sv_shrink n s = (if n < length (sv_items s) then sv_shrink n (sv_pop_back s) else s)"
    by (simp add: sv_items_def sv_shrink.simps [of n s])
qed

section \<open>SegmentedArrayVector\<close>

text \<open>Arrays of a fixed length, written element by element into the cells of a segment.\<close>

record 'a SegmentedArrayVector =
  elements_per_array :: nat
  arrays_per_segment :: nat
  elements_per_segment :: nat
  sav_segments :: "'a option list list"
  sav_size :: nat

definition sav_empty :: "nat \<Rightarrow> nat \<Rightarrow> 'a SegmentedArrayVector" where
  "sav_empty element_bytes n =
    (let per_segment = max (SEGMENT_BYTES div (n * element_bytes)) 1
     in \<lparr>elements_per_array = n, arrays_per_segment = per_segment, elements_per_segment = n * per_segment,
         sav_segments = [], sav_size = 0\<rparr>)"

definition sav_get_segment :: "'a SegmentedArrayVector \<Rightarrow> nat \<Rightarrow> nat" where
  "sav_get_segment s index = index div arrays_per_segment s"

definition sav_get_offset :: "'a SegmentedArrayVector \<Rightarrow> nat \<Rightarrow> nat" where
  "sav_get_offset s index = index mod arrays_per_segment s * elements_per_array s"

text \<open>The array behind the pointer \<open>operator[]\<close> returns.\<close>

definition sav_at :: "'a SegmentedArrayVector \<Rightarrow> nat \<Rightarrow> 'a list" where
  "sav_at s index =
    map (\<lambda>k. the (sav_segments s ! sav_get_segment s index ! (sav_get_offset s index + k))) [0..<elements_per_array s]"

definition sav_put :: "nat \<Rightarrow> (nat \<Rightarrow> 'a option) \<Rightarrow> 'a SegmentedArrayVector \<Rightarrow> 'a SegmentedArrayVector" where
  "sav_put index f s =
    s\<lparr>sav_segments := (sav_segments s)[sav_get_segment s index :=
      fold (\<lambda>k seg. seg[sav_get_offset s index + k := f k]) [0..<elements_per_array s]
        (sav_segments s ! sav_get_segment s index)]\<rparr>"

definition sav_add_segment :: "'a SegmentedArrayVector \<Rightarrow> 'a SegmentedArrayVector" where
  "sav_add_segment s = s\<lparr>sav_segments := sav_segments s @ [replicate (elements_per_segment s) None]\<rparr>"

definition sav_push_back :: "'a list \<Rightarrow> 'a SegmentedArrayVector \<Rightarrow> 'a SegmentedArrayVector" where
  "sav_push_back entry s =
    (let s' = if sav_get_segment s (sav_size s) = length (sav_segments s) then sav_add_segment s else s
     in (sav_put (sav_size s) (\<lambda>k. Some (entry ! k)) s')\<lparr>sav_size := Suc (sav_size s)\<rparr>)"

definition sav_pop_back :: "'a SegmentedArrayVector \<Rightarrow> 'a SegmentedArrayVector" where
  "sav_pop_back s = (sav_put (sav_size s - 1) (\<lambda>k. None) s)\<lparr>sav_size := sav_size s - 1\<rparr>"

function sav_shrink :: "nat \<Rightarrow> 'a SegmentedArrayVector \<Rightarrow> 'a SegmentedArrayVector" where
  "sav_shrink new_size s = (if new_size < sav_size s then sav_shrink new_size (sav_pop_back s) else s)"
  by pat_completeness auto
termination by (relation "measure (\<lambda>(n, s). sav_size s - n)") (auto simp: sav_pop_back_def)

function sav_grow :: "nat \<Rightarrow> 'a list \<Rightarrow> 'a SegmentedArrayVector \<Rightarrow> 'a SegmentedArrayVector" where
  "sav_grow new_size entry s = (if sav_size s < new_size then sav_grow new_size entry (sav_push_back entry s) else s)"
  by pat_completeness auto
termination by (relation "measure (\<lambda>(n, e, s). n - sav_size s)") (auto simp: sav_push_back_def Let_def)

declare sav_shrink.simps [simp del] sav_grow.simps [simp del]

definition sav_resize :: "nat \<Rightarrow> 'a list \<Rightarrow> 'a SegmentedArrayVector \<Rightarrow> 'a SegmentedArrayVector" where
  "sav_resize new_size entry s = sav_grow new_size entry (sav_shrink new_size s)"

definition sav_items :: "'a SegmentedArrayVector \<Rightarrow> 'a list list" where
  "sav_items s = map (sav_at s) [0..<sav_size s]"

definition sav_shape :: "'a SegmentedArrayVector \<Rightarrow> bool" where
  "sav_shape s \<longleftrightarrow> 0 < arrays_per_segment s \<and>
    elements_per_segment s = elements_per_array s * arrays_per_segment s \<and>
    (\<forall>seg \<in> set (sav_segments s). length seg = elements_per_segment s)"

definition sav_inv :: "nat \<Rightarrow> 'a SegmentedArrayVector \<Rightarrow> bool" where
  "sav_inv n s \<longleftrightarrow> sav_shape s \<and> elements_per_array s = n \<and> sav_size s \<le> arrays_per_segment s * length (sav_segments s)"

lemma length_fold_update [simp]: "length (fold (\<lambda>k seg. seg[g k := f k]) ks seg) = length seg"
  by (induction ks arbitrary: seg) simp_all

lemma nth_fold_update:
  "m + n \<le> length seg \<Longrightarrow> j < length seg \<Longrightarrow>
    fold (\<lambda>k seg. seg[m + k := f k]) [0..<n] seg ! j = (if m \<le> j \<and> j < m + n then f (j - m) else seg ! j)"
  by (induction n) (auto simp: nth_list_update)

lemma sav_put_simps [simp]:
  "elements_per_array (sav_put i f s) = elements_per_array s" "arrays_per_segment (sav_put i f s) = arrays_per_segment s"
  "elements_per_segment (sav_put i f s) = elements_per_segment s" "sav_size (sav_put i f s) = sav_size s"
  "length (sav_segments (sav_put i f s)) = length (sav_segments s)"
  by (simp_all add: sav_put_def)

lemma sav_at_size [simp]: "sav_at (s\<lparr>sav_size := n\<rparr>) = sav_at s"
  by (simp add: fun_eq_iff sav_at_def sav_get_segment_def sav_get_offset_def)

lemma sav_shape_size [simp]: "sav_shape (s\<lparr>sav_size := n\<rparr>) = sav_shape s"
  by (simp add: sav_shape_def)

lemma sav_shape_put:
  "sav_shape s \<Longrightarrow> sav_get_segment s i < length (sav_segments s) \<Longrightarrow> sav_shape (sav_put i f s)"
  by (auto simp: sav_shape_def sav_put_def dest!: set_update_subset_insert [THEN subsetD])

text \<open>Blocks of different indices do not overlap.\<close>

lemma block_bound: "0 < a \<Longrightarrow> i mod a * n + n \<le> n * (a::nat)"
  by (metis Suc_leI add.commute mod_less_divisor mult.commute mult_Suc mult_le_mono2)

lemma block_disjoint:
  assumes "i mod a \<noteq> j mod (a::nat)" "k < n"
  shows "\<not> (i mod a * n \<le> j mod a * n + k \<and> j mod a * n + k < i mod a * n + n)"
proof (cases "i mod a < j mod a")
  case True
  then have "i mod a * n + n \<le> j mod a * n" by (metis Suc_leI add.commute mult_Suc mult_le_mono1)
  then show ?thesis by simp
next
  case False
  then have "j mod a * n + n \<le> i mod a * n" using assms(1) by (metis Suc_leI add.commute linorder_neqE_nat mult_Suc mult_le_mono1)
  then show ?thesis using assms(2) by simp
qed

lemma sav_at_put:
  assumes "sav_shape s" "i < arrays_per_segment s * length (sav_segments s)" "j < arrays_per_segment s * length (sav_segments s)"
  shows "sav_at (sav_put i f s) j = (if j = i then map (\<lambda>k. the (f k)) [0..<elements_per_array s] else sav_at s j)"
proof -
  let ?a = "arrays_per_segment s" and ?n = "elements_per_array s"
  have i: "i div ?a < length (sav_segments s)" and j: "j div ?a < length (sav_segments s)" and pos: "0 < ?a"
    using assms by (simp_all add: segment_in_bounds sav_shape_def)
  have len: "length (sav_segments s ! (i div ?a)) = ?n * ?a" using assms(1) i by (simp add: sav_shape_def)
  have bounds: "i mod ?a * ?n + ?n \<le> ?n * ?a" "j mod ?a * ?n + ?n \<le> ?n * ?a" using block_bound pos by blast+
  have eq: "i = j \<longleftrightarrow> i div ?a = j div ?a \<and> i mod ?a = j mod ?a" by (metis div_mult_mod_eq)
  have cell: "sav_segments (sav_put i f s) ! (j div ?a) ! (j mod ?a * ?n + k) =
      (if j = i then f k else sav_segments s ! (j div ?a) ! (j mod ?a * ?n + k))" if k: "k < ?n" for k
  proof (cases "i div ?a = j div ?a")
    case True
    then have "j \<noteq> i \<Longrightarrow> \<not> (i mod ?a * ?n \<le> j mod ?a * ?n + k \<and> j mod ?a * ?n + k < i mod ?a * ?n + ?n)"
      using eq block_disjoint [OF _ k, of i ?a j] by auto
    then show ?thesis
      using True i len bounds k
      by (cases "j = i") (auto simp: sav_put_def sav_get_segment_def sav_get_offset_def nth_fold_update)
  next
    case False
    then show ?thesis using i eq by (auto simp: sav_put_def sav_get_segment_def)
  qed
  then show ?thesis by (auto simp: sav_at_def sav_get_segment_def sav_get_offset_def)
qed

lemma sav_room:
  assumes "sav_inv n s"
  defines "s' \<equiv> (if sav_get_segment s (sav_size s) = length (sav_segments s) then sav_add_segment s else s)"
  shows "sav_shape s'" "elements_per_array s' = n" "arrays_per_segment s' = arrays_per_segment s" "sav_size s' = sav_size s"
    "sav_size s < arrays_per_segment s * length (sav_segments s')"
    "i < sav_size s \<Longrightarrow> sav_at s' i = sav_at s i"
proof -
  have shape: "sav_shape s" and pos: "0 < arrays_per_segment s" and le: "sav_size s \<le> arrays_per_segment s * length (sav_segments s)"
    using assms(1) by (simp_all add: sav_inv_def sav_shape_def)
  show "sav_shape s'" "elements_per_array s' = n" "arrays_per_segment s' = arrays_per_segment s" "sav_size s' = sav_size s"
    using shape assms(1) by (auto simp: s'_def sav_add_segment_def sav_inv_def sav_shape_def)
  show "sav_size s < arrays_per_segment s * length (sav_segments s')"
    using pos le by (auto simp: s'_def sav_add_segment_def sav_get_segment_def)
      (metis div_less_iff_less_mult le_neq_implies_less mult.commute nonzero_mult_div_cancel_left less_not_refl)
  show "sav_at s' i = sav_at s i" if "i < sav_size s"
  proof -
    have "i div arrays_per_segment s < length (sav_segments s)" using that le by (intro segment_in_bounds) simp
    then show ?thesis
      by (simp add: s'_def sav_add_segment_def sav_at_def sav_get_segment_def sav_get_offset_def nth_append)
  qed
qed

interpretation segmented_arrays: growing_sequence "sav_inv n" sav_items "\<lambda>a. length a = n" sav_push_back sav_pop_back sav_grow sav_shrink
  for n
proof unfold_locales
  fix s :: "'a SegmentedArrayVector" and a :: "'a list"
  assume inv: "sav_inv n s" and a: "length a = n"
  define s' where "s' = (if sav_get_segment s (sav_size s) = length (sav_segments s) then sav_add_segment s else s)"
  note room = sav_room [OF inv, folded s'_def]
  have push: "sav_push_back a s = (sav_put (sav_size s) (\<lambda>k. Some (a ! k)) s')\<lparr>sav_size := Suc (sav_size s)\<rparr>"
    by (simp add: sav_push_back_def s'_def Let_def)
  have item: "sav_at (sav_push_back a s) i = (if i = sav_size s then a else sav_at s i)" if "i \<le> sav_size s" for i
  proof -
    have "map ((!) a) [0..<n] = a" using a map_nth [of a] by simp
    then show ?thesis
      using sav_at_put [OF room(1), of "sav_size s" i "\<lambda>k. Some (a ! k)"] room(2-6) that by (simp add: push)
  qed
  have "sav_get_segment s' (sav_size s) < length (sav_segments s')"
    using room(3,5) by (simp add: sav_get_segment_def segment_in_bounds)
  then show "sav_inv n (sav_push_back a s)"
    using sav_shape_put [OF room(1)] room(2,3,5) by (simp add: sav_inv_def push)
  show "sav_items (sav_push_back a s) = sav_items s @ [a]"
    using item by (auto simp: sav_items_def push intro!: nth_equalityI)
next
  fix s :: "'a SegmentedArrayVector"
  assume inv: "sav_inv n s" and ne: "sav_items s \<noteq> []"
  then obtain m where m: "sav_size s = Suc m" by (cases "sav_size s") (auto simp: sav_items_def)
  have pop: "sav_pop_back s = (sav_put m (\<lambda>k. None) s)\<lparr>sav_size := m\<rparr>" by (simp add: sav_pop_back_def m)
  have shape: "sav_shape s" and le: "m < arrays_per_segment s * length (sav_segments s)" using inv m by (simp_all add: sav_inv_def)
  have item: "sav_at (sav_pop_back s) i = sav_at s i" if "i < m" for i
    using sav_at_put [OF shape le, of i "\<lambda>k. None"] that le by (auto simp: pop)
  show "sav_inv n (sav_pop_back s)"
    using sav_shape_put [OF shape, of m] inv le by (simp add: sav_inv_def pop sav_get_segment_def segment_in_bounds)
  show "sav_items (sav_pop_back s) = butlast (sav_items s)"
    using item m by (auto simp: sav_items_def pop butlast_append)
next
  fix m a and s :: "'a SegmentedArrayVector"
  show "sav_grow m a s = (if length (sav_items s) < m then sav_grow m a (sav_push_back a s) else s)"
    by (simp add: sav_items_def sav_grow.simps [of m a s])
  show "sav_shrink m s = (if m < length (sav_items s) then sav_shrink m (sav_pop_back s) else s)"
    by (simp add: sav_items_def sav_shrink.simps [of m s])
qed

section \<open>Properties\<close>

lemma sv_inv_empty: "sv_inv (sv_empty k)" "sv_items (sv_empty k) = []"
  by (simp_all add: sv_inv_def sv_empty_def SEGMENT_ELEMENTS_def sv_items_def)

lemma sav_inv_empty: "sav_inv n (sav_empty k n)" "sav_items (sav_empty k n) = []"
  by (simp_all add: sav_inv_def sav_shape_def sav_empty_def Let_def sav_items_def)

text \<open>
  C31. Both segmented vectors behave as plain sequences, whatever the size of an element is. They start
  empty; an element pushed is found at the end, also when it needs a new segment or is the very first,
  and the others stay where they are; a pop of a vector that is not empty removes the last one; and
  resizing cuts or pads with the given element.
\<close>

theorem segmented_vectors_are_sequences:
  assumes "sv_inv s" "sav_inv n a" "length e = n"
  shows "sv_inv (sv_empty bytes :: 'a SegmentedVector) \<and> sv_items (sv_empty bytes :: 'a SegmentedVector) = [] \<and>
    sv_items (sv_push_back x s) = sv_items s @ [x] \<and> sv_inv (sv_push_back x s) \<and>
    (sv_items s \<noteq> [] \<longrightarrow> sv_items (sv_pop_back s) = butlast (sv_items s) \<and> sv_inv (sv_pop_back s)) \<and>
    sv_items (sv_resize m x s) = take m (sv_items s) @ replicate (m - length (sv_items s)) x \<and> sv_inv (sv_resize m x s) \<and>
    sav_inv n (sav_empty bytes n :: 'b SegmentedArrayVector) \<and> sav_items (sav_empty bytes n :: 'b SegmentedArrayVector) = [] \<and>
    sav_items (sav_push_back e a) = sav_items a @ [e] \<and> sav_inv n (sav_push_back e a) \<and>
    (sav_items a \<noteq> [] \<longrightarrow> sav_items (sav_pop_back a) = butlast (sav_items a) \<and> sav_inv n (sav_pop_back a)) \<and>
    sav_items (sav_resize m e a) = take m (sav_items a) @ replicate (m - length (sav_items a)) e \<and> sav_inv n (sav_resize m e a)"
  using segmented.push_inv [OF assms(1)] segmented.items_push [OF assms(1)] segmented.pop_inv [OF assms(1)]
    segmented.items_pop [OF assms(1)] segmented.resize_items [OF assms(1), where a = x and n = m]
    segmented_arrays.push_inv [OF assms(2,3)] segmented_arrays.items_push [OF assms(2,3)]
    segmented_arrays.pop_inv [OF assms(2)] segmented_arrays.items_pop [OF assms(2)]
    segmented_arrays.resize_items [OF assms(2,3)]
  by (simp add: sv_resize_def sav_resize_def sv_inv_empty sav_inv_empty)

theorem segmented_vectors_are_sequences_witness:
  "sv_items (sv_push_back (7::nat) (sv_empty 4096)) = [7] \<and> sav_items (sav_resize 2 [1, 2::nat] (sav_empty 2048 2)) = [[1, 2], [1, 2]]"
  using segmented_vectors_are_sequences [OF sv_inv_empty(1) [where k = 4096] sav_inv_empty(1) [where k = 2048 and n = 2], of "[1, 2::nat]" _ "7::nat" 2]
  by (simp add: sv_inv_empty sav_inv_empty numeral_2_eq_2)

end
