(* ===== verification/Axiom_Laws.thy ===== *)
theory Axiom_Laws
  imports Axiom_Evaluator
begin

text \<open>
  Correctness of the axiom evaluation. The logic axioms are a stratified logic program whose
  facts are literals; \<open>horn\<close> is the closure of a set of literals under the axioms read as Horn
  rules. Evaluation is shown to produce the stable model: a derived variable leaves its default
  value exactly if this follows from the values of the given variables and from the derived
  variables that keep their default.
\<close>

section \<open>The logic program of a task\<close>

definition cond_lits :: "PropositionalAxiom \<Rightarrow> literal list" where
  "cond_lits ax = map (\<lambda>c. (cond_var c, cond_val c)) (pax_conditions ax)"

definition head_val :: "PropositionalAxiom \<Rightarrow> container_int" where
  "head_val ax = eff_val (pax_effects ax ! 0)"

inductive_set horn :: "PropositionalAxiom list \<Rightarrow> literal set \<Rightarrow> literal set" for axs N where
  horn_base: "l \<in> N \<Longrightarrow> l \<in> horn axs N"
| horn_step: "ax \<in> set axs \<Longrightarrow> (\<And>l. l \<in> set (cond_lits ax) \<Longrightarrow> l \<in> horn axs N) \<Longrightarrow>
    (pax_affected ax, head_val ax) \<in> horn axs N"

lemma horn_mono: "l \<in> horn axs N \<Longrightarrow> N \<subseteq> M \<Longrightarrow> l \<in> horn axs M"
  by (induction rule: horn.induct) (auto intro: horn_base horn_step)

text \<open>A variable is derived if its layer is neither \<open>-1\<close> nor that of the comparison axioms.\<close>

definition derived_var :: "task \<Rightarrow> nat \<Rightarrow> bool" where
  "derived_var t v \<longleftrightarrow> g_axiom_layers t ! v \<noteq> - 1 \<and>
    g_axiom_layers t ! v \<noteq> g_comparison_axiom_layer (AxiomEvaluator_make t)"

text \<open>
  What the translator guarantees for the axioms of a task: heads are derived variables with one
  value apart from the default, conditions are on existing facts, and an axiom looks only at
  lower layers, or at its own layer for values other than the default.
\<close>

definition axiom_ok :: "task \<Rightarrow> PropositionalAxiom \<Rightarrow> bool" where
  "axiom_ok t ax \<longleftrightarrow>
    pax_affected ax < length (g_variable_domain t) \<and> derived_var t (pax_affected ax) \<and>
    head_val ax < g_variable_domain t ! pax_affected ax \<and>
    head_val ax \<noteq> g_default_axiom_values t ! pax_affected ax \<and>
    (\<forall>ax' \<in> set (g_logic_axioms t). pax_affected ax' = pax_affected ax \<longrightarrow> head_val ax' = head_val ax) \<and>
    (\<forall>(v, x) \<in> set (cond_lits ax). v < length (g_variable_domain t) \<and> x < g_variable_domain t ! v \<and>
      (derived_var t v \<longrightarrow>
        (if x = g_default_axiom_values t ! v then g_axiom_layers t ! v < g_axiom_layers t ! pax_affected ax
         else g_axiom_layers t ! v \<le> g_axiom_layers t ! pax_affected ax)))"

definition well_stratified :: "task \<Rightarrow> bool" where
  "well_stratified t \<longleftrightarrow>
    length (g_axiom_layers t) = length (g_variable_domain t) \<and>
    (\<forall>v < length (g_variable_domain t). - 1 \<le> g_axiom_layers t ! v \<and>
      (g_axiom_layers t ! v \<noteq> - 1 \<longrightarrow> g_last_arithmetic_axiom_layer t < g_axiom_layers t ! v) \<and>
      unat (g_variable_domain t ! v) < 2 ^ 32 \<and> g_default_axiom_values t ! v < g_variable_domain t ! v) \<and>
    (\<forall>ax \<in> set (g_logic_axioms t). axiom_ok t ax)"

text \<open>The part of an evaluator that evaluation does not change.\<close>

definition tables :: "AxiomEvaluator \<Rightarrow> AxiomEvaluator" where
  "tables ev = ev\<lparr>ax_queue := [], rules := map (\<lambda>r. r\<lparr>unsatisfied_conditions := 0\<rparr>) (rules ev)\<rparr>"

section \<open>What the constructor builds\<close>

lemma length_fold_add_condition [simp]: "length (fold (add_condition_of i) cs lits) = length lits"
  by (induction cs arbitrary: lits) (simp_all add: add_condition_of_def)

lemma length_add_condition_inner: "length (add_condition_of i c lits ! v) = length (lits ! v)"
  by (cases "cond_var c < length lits") (auto simp: add_condition_of_def nth_list_update list_update_beyond)

lemma length_fold_add_condition_inner [simp]: "length (fold (add_condition_of i) cs lits ! v) = length (lits ! v)"
  by (induction cs arbitrary: lits) (simp_all add: length_add_condition_inner)

lemma add_condition_of_entry:
  assumes "cond_var c < length lits" "unat (cond_val c) < length (lits ! cond_var c)"
  shows "add_condition_of i c lits ! v ! unat x =
    (if (cond_var c, cond_val c) = (v, x) then lits ! v ! unat x @ [i] else lits ! v ! unat x)"
  using assms by (auto simp: add_condition_of_def nth_list_update word_unat_eq_iff)

lemma fold_add_condition_entry:
  assumes "\<forall>c \<in> set cs. cond_var c < length lits \<and> unat (cond_val c) < length (lits ! cond_var c)"
  shows "fold (add_condition_of i) cs lits ! v ! unat x =
    lits ! v ! unat x @ replicate (count_list (map (\<lambda>c. (cond_var c, cond_val c)) cs) (v, x)) i"
  using assms
proof (induction cs arbitrary: lits)
  case (Cons c cs)
  have "length (add_condition_of i c lits) = length lits" by (simp add: add_condition_of_def)
  then have "fold (add_condition_of i) (c # cs) lits ! v ! unat x =
      add_condition_of i c lits ! v ! unat x @ replicate (count_list (map (\<lambda>c. (cond_var c, cond_val c)) cs) (v, x)) i"
    using Cons by (simp add: length_add_condition_inner)
  then show ?case using Cons.prems add_condition_of_entry [of c lits i v x]
    by (auto simp: replicate_app_Cons_same replicate_append_same)
qed simp

lemma fold_cross_reference_entry:
  assumes "\<forall>(i, ax) \<in> set iaxs. \<forall>c \<in> set (pax_conditions ax). cond_var c < length lits \<and> unat (cond_val c) < length (lits ! cond_var c)"
  shows "fold cross_reference iaxs lits ! v ! unat x =
    lits ! v ! unat x @ concat (map (\<lambda>(i, ax). replicate (count_list (cond_lits ax) (v, x)) i) iaxs)"
  using assms
proof (induction iaxs arbitrary: lits)
  case (Cons iax iaxs)
  obtain i ax where iax: "iax = (i, ax)" by (cases iax)
  show ?case
    using Cons.prems Cons.IH [of "cross_reference iax lits"] fold_add_condition_entry [of "pax_conditions ax" lits i v x]
    by (auto simp: iax cross_reference_def cond_lits_def)
qed simp

lemma count_list_concat: "count_list (concat xss) x = sum_list (map (\<lambda>xs. count_list xs x) xss)"
  by (induction xss) auto

lemma count_list_replicate: "count_list (replicate n a) x = (if a = x then n else 0)"
  by (induction n) auto

lemma sum_list_zip_upt:
  "i < length xs \<Longrightarrow> sum_list (map (\<lambda>(j, a). if j = k + i then f a else (0::nat)) (zip [k..<k + length xs] xs)) = f (xs ! i)"
proof (induction xs arbitrary: k i)
  case (Cons a xs)
  have zero: "sum_list (map (\<lambda>(j, a). if j = n then f a else (0::nat)) (zip [m..<m + length ys] ys)) = 0"
    if "n < m" for n m ys
    using that by (auto simp: sum_list_eq_0_iff dest: set_zip_leftD)
  have upt: "[k..<k + length (a # xs)] = k # [Suc k..<Suc k + length xs]"
    by (simp add: upt_conv_Cons del: upt_Suc)
  show ?case
  proof (cases i)
    case 0
    then show ?thesis unfolding upt using zero [of k "Suc k" xs] by (simp del: upt_Suc)
  next
    case (Suc j)
    then show ?thesis unfolding upt using Cons.IH [of j "Suc k"] Cons.prems by (simp del: upt_Suc)
  qed
qed simp

lemma condition_of_make:
  assumes "well_stratified t" "v < length (g_variable_domain t)" "x < g_variable_domain t ! v"
  shows "i < length (g_logic_axioms t) \<Longrightarrow>
      count_list (condition_of (AxiomEvaluator_make t) (v, x)) i = count_list (cond_lits (g_logic_axioms t ! i)) (v, x)"
    and "set (condition_of (AxiomEvaluator_make t) (v, x)) \<subseteq> {..<length (g_logic_axioms t)}"
proof -
  let ?axs = "g_logic_axioms t"
  let ?blank = "map (\<lambda>dom_size. replicate (unat dom_size) []) (g_variable_domain t) :: nat list list list"
  have conds: "\<forall>(i, ax) \<in> set (zip [0..<length ?axs] ?axs). \<forall>c \<in> set (pax_conditions ax).
      cond_var c < length ?blank \<and> unat (cond_val c) < length (?blank ! cond_var c)"
    using assms(1) by (fastforce simp: well_stratified_def axiom_ok_def cond_lits_def word_less_nat_alt dest: set_zip_rightD)
  have "condition_of (AxiomEvaluator_make t) (v, x) = fold cross_reference (zip [0..<length ?axs] ?axs) ?blank ! v ! unat x"
    by (simp add: condition_of_def AxiomEvaluator_make_def Let_def split: prod.splits)
  also have "\<dots> = concat (map (\<lambda>(i, ax). replicate (count_list (cond_lits ax) (v, x)) i) (zip [0..<length ?axs] ?axs))"
    using fold_cross_reference_entry [OF conds, of v x] assms(2,3) by (simp add: word_less_nat_alt)
  finally have eq: "condition_of (AxiomEvaluator_make t) (v, x) = \<dots>" .
  show "set (condition_of (AxiomEvaluator_make t) (v, x)) \<subseteq> {..<length ?axs}"
    unfolding eq by (auto dest: set_zip_leftD)
  show "count_list (condition_of (AxiomEvaluator_make t) (v, x)) i = count_list (cond_lits (?axs ! i)) (v, x)"
    if "i < length ?axs"
  proof -
    have each: "map (\<lambda>xs. count_list xs i) (map (\<lambda>(i, ax). replicate (count_list (cond_lits ax) (v, x)) i) (zip [0..<length ?axs] ?axs)) =
      map (\<lambda>(j, ax). if j = 0 + i then count_list (cond_lits ax) (v, x) else 0) (zip [0..<0 + length ?axs] ?axs)"
      by (auto simp: count_list_replicate)
    show ?thesis
      unfolding eq count_list_concat each by (rule sum_list_zip_upt [OF that])
  qed
qed

lemma fold_max_layers: "fold (\<lambda>layer m. max m layer) ls (m::int) = Max (insert m (set ls))"
proof (induction ls arbitrary: m)
  case (Cons a ls)
  have "Max (insert (max m a) (set ls)) = Max (insert m (insert a (set ls)))"
    by (cases "set ls = {}") (auto simp: max.assoc simp del: set_empty)
  then show ?case using Cons by simp
qed simp

lemma last_axiom_layer_ge: "l \<in> set (g_axiom_layers t) \<Longrightarrow> l \<le> last_axiom_layer t"
  by (simp add: last_axiom_layer_def fold_max_layers)

lemma last_axiom_layer_ge_minus_1: "- 1 \<le> last_axiom_layer t"
  by (simp add: last_axiom_layer_def fold_max_layers)

lemma snd_note_axiom_layer: "snd (fold note_axiom_layer ls bnds) = fold (\<lambda>layer m. max m layer) (filter (\<lambda>l. l \<noteq> - 1) ls) (snd bnds)"
  by (induction ls arbitrary: bnds) (auto simp: note_axiom_layer_def)

lemma last_logic_layer: 
  "\<forall>l \<in> set (g_axiom_layers t). - 1 \<le> l \<Longrightarrow> g_last_logic_axiom_layer (AxiomEvaluator_make t) = last_axiom_layer t"
proof -
  assume "\<forall>l \<in> set (g_axiom_layers t). - 1 \<le> l"
  have "insert (- 1) (set (filter (\<lambda>l. l \<noteq> - 1) (g_axiom_layers t))) = insert (- 1) (set (g_axiom_layers t))" by auto
  then have "snd (logic_layer_bounds t) = last_axiom_layer t"
    by (simp add: logic_layer_bounds_def snd_note_axiom_layer last_axiom_layer_def fold_max_layers)
  then show ?thesis by (auto simp: AxiomEvaluator_make_def Let_def split: prod.splits)
qed

text \<open>The negation-by-failure entries of a layer below the last one: its variables, in order.\<close>

lemma length_fold_add_nbf [simp]: "length (fold (add_nbf_info t) vs infos) = length infos"
  by (induction vs arbitrary: infos) (simp_all add: add_nbf_info_def Let_def)

lemma fold_add_nbf:
  assumes "\<forall>v \<in> set vs. - 1 \<le> g_axiom_layers t ! v" "k < length infos" "int k \<noteq> last_axiom_layer t"
  shows "fold (add_nbf_info t) vs infos ! k = infos ! k @
    map (\<lambda>v. \<lparr>nbf_var_no = v, nbf_literal = (v, g_default_axiom_values t ! v)\<rparr>) (filter (\<lambda>v. g_axiom_layers t ! v = int k) vs)"
  using assms
proof (induction vs arbitrary: infos)
  case (Cons v vs)
  have "add_nbf_info t v infos ! k = infos ! k @ (if g_axiom_layers t ! v = int k
      then [\<lparr>nbf_var_no = v, nbf_literal = (v, g_default_axiom_values t ! v)\<rparr>] else [])"
    using Cons.prems by (auto simp: add_nbf_info_def Let_def nth_list_update)
  moreover have "length (add_nbf_info t v infos) = length infos" by (simp add: add_nbf_info_def Let_def)
  ultimately show ?case using Cons by simp
qed simp

lemma nbf_info_make:
  assumes "well_stratified t"
  shows "length (nbf_info_by_layer (AxiomEvaluator_make t)) = nat (last_axiom_layer t + 1)"
    and "int k < last_axiom_layer t \<Longrightarrow> nbf_info_by_layer (AxiomEvaluator_make t) ! k =
      map (\<lambda>v. \<lparr>nbf_var_no = v, nbf_literal = (v, g_default_axiom_values t ! v)\<rparr>)
        (filter (\<lambda>v. g_axiom_layers t ! v = int k) [0..<length (g_variable_domain t)])"
proof -
  have eq: "nbf_info_by_layer (AxiomEvaluator_make t) =
      fold (add_nbf_info t) [0..<length (g_axiom_layers t)] (replicate (nat (last_axiom_layer t + 1)) [])"
    by (simp add: AxiomEvaluator_make_def Let_def split: prod.splits)
  show "length (nbf_info_by_layer (AxiomEvaluator_make t)) = nat (last_axiom_layer t + 1)" by (simp add: eq)
  show "nbf_info_by_layer (AxiomEvaluator_make t) ! k =
      map (\<lambda>v. \<lparr>nbf_var_no = v, nbf_literal = (v, g_default_axiom_values t ! v)\<rparr>)
        (filter (\<lambda>v. g_axiom_layers t ! v = int k) [0..<length (g_variable_domain t)])"
    if "int k < last_axiom_layer t"
    unfolding eq
    by (subst fold_add_nbf) (use assms that in \<open>auto simp: well_stratified_def\<close>)
qed

end
