(* ===== verification/Axiom_Stable.thy ===== *)
theory Axiom_Stable
  imports Axiom_Laws
begin

text \<open>
  The evaluation loop of the logic axioms keeps an invariant over the literals that have been
  queued so far; at its end the invariant gives the stable model.
\<close>

abbreviation num_vars :: "task \<Rightarrow> nat" where
  "num_vars t \<equiv> length (g_variable_domain t)"

abbreviation axiom_at :: "task \<Rightarrow> nat \<Rightarrow> PropositionalAxiom" where
  "axiom_at t i \<equiv> g_logic_axioms t ! i"

definition buffer_ok :: "task \<Rightarrow> packing \<Rightarrow> container_int list \<Rightarrow> bool" where
  "buffer_ok t p b \<longleftrightarrow> pack_bins (statespace_sizes t) = Some p \<and> length b = num_bins p"

lemma sizes_domain:
  "v < num_vars t \<Longrightarrow> statespace_sizes t ! v = g_variable_domain t ! v"
  "num_vars t \<le> length (statespace_sizes t)"
  by (simp_all add: statespace_sizes_def Let_def nth_append)

lemma buffer_set:
  assumes "well_stratified t" "buffer_ok t p b" "v < num_vars t" "x < g_variable_domain t ! v"
  shows "buffer_ok t p (packer_set p b v x)"
    and "packer_get p (packer_set p b v x) v = x"
    and "w < length (statespace_sizes t) \<Longrightarrow> w \<noteq> v \<Longrightarrow> packer_get p (packer_set p b v x) w = packer_get p b w"
proof -
  have adm: "v < length (statespace_sizes t) \<and> in_domain (statespace_sizes t ! v) x"
    using assms sizes_domain(1) [of v t] sizes_domain(2) [of t] by (auto simp: in_domain_def well_stratified_def)
  note ok = assms(2) [unfolded buffer_ok_def]
  show "buffer_ok t p (packer_set p b v x)" unfolding buffer_ok_def by (rule packed.valid_put [OF ok adm])
  show "packer_get p (packer_set p b v x) v = x" by (rule packed.get_put_same [OF ok adm])
  show "w < length (statespace_sizes t) \<Longrightarrow> w \<noteq> v \<Longrightarrow> packer_get p (packer_set p b v x) w = packer_get p b w"
    by (rule packed.get_put_other [OF ok adm])
qed

section \<open>Rules and tables\<close>

definition same_tables :: "task \<Rightarrow> AxiomEvaluator \<Rightarrow> bool" where
  "same_tables t ev \<longleftrightarrow> tables ev = tables (AxiomEvaluator_make t)"

lemma rules_make: "rules (AxiomEvaluator_make t) = map AxiomRule_of (g_logic_axioms t)"
  by (simp add: AxiomEvaluator_make_def Let_def split: prod.splits)

lemma same_tablesD:
  assumes "same_tables t ev"
  shows "length (rules ev) = length (g_logic_axioms t)"
    and "condition_of ev = condition_of (AxiomEvaluator_make t)"
    and "nbf_info_by_layer ev = nbf_info_by_layer (AxiomEvaluator_make t)"
    and "g_comparison_axiom_layer ev = g_comparison_axiom_layer (AxiomEvaluator_make t)"
    and "g_last_logic_axiom_layer ev = g_last_logic_axiom_layer (AxiomEvaluator_make t)"
    and "i < length (g_logic_axioms t) \<Longrightarrow> effect_var (rules ev ! i) = pax_affected (axiom_at t i) \<and>
      effect_val (rules ev ! i) = head_val (axiom_at t i) \<and>
      effect_literal (rules ev ! i) = (pax_affected (axiom_at t i), head_val (axiom_at t i)) \<and>
      condition_count (rules ev ! i) = int (length (cond_lits (axiom_at t i)))"
proof -
  let ?z = "\<lambda>r. r\<lparr>unsatisfied_conditions := 0\<rparr>" and ?m = "AxiomEvaluator_make t"
  have eq: "tables ev = tables ?m" using assms by (simp add: same_tables_def)
  have all: "map ?z (rules ev) = map ?z (rules ?m) \<and> axiom_literals ev = axiom_literals ?m \<and>
      nbf_info_by_layer ev = nbf_info_by_layer ?m \<and> g_comparison_axiom_layer ev = g_comparison_axiom_layer ?m \<and>
      g_last_logic_axiom_layer ev = g_last_logic_axiom_layer ?m"
    using arg_cong [OF eq, of rules] arg_cong [OF eq, of axiom_literals] arg_cong [OF eq, of nbf_info_by_layer]
      arg_cong [OF eq, of g_comparison_axiom_layer] arg_cong [OF eq, of g_last_logic_axiom_layer]
    by (simp add: tables_def)
  then show len: "length (rules ev) = length (g_logic_axioms t)" using map_eq_imp_length_eq rules_make by fastforce
  show "nbf_info_by_layer ev = nbf_info_by_layer ?m" "g_comparison_axiom_layer ev = g_comparison_axiom_layer ?m"
    "g_last_logic_axiom_layer ev = g_last_logic_axiom_layer ?m" "condition_of ev = condition_of ?m"
    using all by (simp_all add: fun_eq_iff condition_of_def)
  assume i: "i < length (g_logic_axioms t)"
  then have "?z (rules ev ! i) = ?z (AxiomRule_of (axiom_at t i))"
    using all len by (metis (no_types, lifting) nth_map rules_make length_map)
  then have "effect_var (?z (rules ev ! i)) = effect_var (?z (AxiomRule_of (axiom_at t i))) \<and>
      effect_val (?z (rules ev ! i)) = effect_val (?z (AxiomRule_of (axiom_at t i))) \<and>
      effect_literal (?z (rules ev ! i)) = effect_literal (?z (AxiomRule_of (axiom_at t i))) \<and>
      condition_count (?z (rules ev ! i)) = condition_count (?z (AxiomRule_of (axiom_at t i)))"
    by simp
  then show "effect_var (rules ev ! i) = pax_affected (axiom_at t i) \<and>
      effect_val (rules ev ! i) = head_val (axiom_at t i) \<and>
      effect_literal (rules ev ! i) = (pax_affected (axiom_at t i), head_val (axiom_at t i)) \<and>
      condition_count (rules ev ! i) = int (length (cond_lits (axiom_at t i)))"
    by (simp add: AxiomRule_of_def Let_def head_val_def cond_lits_def)
qed

lemma same_tables_queue [simp]: "same_tables t (ev\<lparr>ax_queue := q\<rparr>) = same_tables t ev"
  by (simp add: same_tables_def tables_def)

lemma same_tables_make [simp]: "same_tables t (AxiomEvaluator_make t)"
  by (simp add: same_tables_def)

lemma same_tables_counter [simp]:
  "same_tables t (ev\<lparr>rules := (rules ev)[i := (rules ev ! i)\<lparr>unsatisfied_conditions := c\<rparr>]\<rparr>) = same_tables t ev"
proof -
  have "map (\<lambda>r. r\<lparr>unsatisfied_conditions := 0\<rparr>) ((rules ev)[i := (rules ev ! i)\<lparr>unsatisfied_conditions := c\<rparr>]) =
      map (\<lambda>r. r\<lparr>unsatisfied_conditions := 0\<rparr>) (rules ev)"
    by (cases "i < length (rules ev)") (auto intro!: nth_equalityI simp: nth_list_update list_update_beyond)
  then show ?thesis by (simp add: same_tables_def tables_def)
qed

lemma stratifiedD:
  assumes "well_stratified t" "i < length (g_logic_axioms t)"
  shows "pax_affected (axiom_at t i) < num_vars t" "derived_var t (pax_affected (axiom_at t i))"
    "head_val (axiom_at t i) < g_variable_domain t ! pax_affected (axiom_at t i)"
    "head_val (axiom_at t i) \<noteq> g_default_axiom_values t ! pax_affected (axiom_at t i)"
    "ax' \<in> set (g_logic_axioms t) \<Longrightarrow> pax_affected ax' = pax_affected (axiom_at t i) \<Longrightarrow> head_val ax' = head_val (axiom_at t i)"
    "(v, x) \<in> set (cond_lits (axiom_at t i)) \<Longrightarrow> v < num_vars t \<and> x < g_variable_domain t ! v"
    "(v, x) \<in> set (cond_lits (axiom_at t i)) \<Longrightarrow> derived_var t v \<Longrightarrow>
      (if x = g_default_axiom_values t ! v then g_axiom_layers t ! v < g_axiom_layers t ! pax_affected (axiom_at t i)
       else g_axiom_layers t ! v \<le> g_axiom_layers t ! pax_affected (axiom_at t i))"
proof -
  have ok: "axiom_ok t (axiom_at t i)" using assms by (simp add: well_stratified_def)
  then show "pax_affected (axiom_at t i) < num_vars t" "derived_var t (pax_affected (axiom_at t i))"
    "head_val (axiom_at t i) < g_variable_domain t ! pax_affected (axiom_at t i)"
    "head_val (axiom_at t i) \<noteq> g_default_axiom_values t ! pax_affected (axiom_at t i)"
    "ax' \<in> set (g_logic_axioms t) \<Longrightarrow> pax_affected ax' = pax_affected (axiom_at t i) \<Longrightarrow> head_val ax' = head_val (axiom_at t i)"
    by (simp_all add: axiom_ok_def)
  assume vx: "(v, x) \<in> set (cond_lits (axiom_at t i))"
  have "\<forall>(v, x) \<in> set (cond_lits (axiom_at t i)). v < num_vars t \<and> x < g_variable_domain t ! v \<and>
      (derived_var t v \<longrightarrow>
        (if x = g_default_axiom_values t ! v then g_axiom_layers t ! v < g_axiom_layers t ! pax_affected (axiom_at t i)
         else g_axiom_layers t ! v \<le> g_axiom_layers t ! pax_affected (axiom_at t i)))"
    using ok unfolding axiom_ok_def by (elim conjE)
  from bspec [OF this vx] show "v < num_vars t \<and> x < g_variable_domain t ! v"
    "derived_var t v \<Longrightarrow>
      (if x = g_default_axiom_values t ! v then g_axiom_layers t ! v < g_axiom_layers t ! pax_affected (axiom_at t i)
       else g_axiom_layers t ! v \<le> g_axiom_layers t ! pax_affected (axiom_at t i))"
    by simp_all
qed

lemma derived_layer_nonneg:
  "well_stratified t \<Longrightarrow> v < num_vars t \<Longrightarrow> derived_var t v \<Longrightarrow> 0 \<le> g_axiom_layers t ! v"
  unfolding well_stratified_def derived_var_def by force

section \<open>The invariant\<close>

text \<open>
  \<open>seen\<close> are the literals taken from the queue so far, \<open>cur\<close> is the one being processed, \<open>k\<close> the
  layer. Queued literals are true and have a derivation; every given value and every value other
  than the default has been queued, a default only below layer \<open>k\<close>.
\<close>

definition lits :: "literal set \<Rightarrow> ax_state \<Rightarrow> literal set" where
  "lits seen s = seen \<union> set (ax_queue (fst s))"

definition base_lits :: "task \<Rightarrow> literal set \<Rightarrow> literal set" where
  "base_lits t L = {(v, x) \<in> L. \<not> derived_var t v \<or> x = g_default_axiom_values t ! v}"

definition true_lits :: "task \<Rightarrow> packing \<Rightarrow> container_int list \<Rightarrow> literal set" where
  "true_lits t p b = {(v, x). v < num_vars t \<and> x < g_variable_domain t ! v \<and> packer_get p b v = x}"

definition above_layer :: "task \<Rightarrow> int \<Rightarrow> literal set \<Rightarrow> bool" where
  "above_layer t k L \<longleftrightarrow> k = 0 \<or> (\<forall>(v, x) \<in> L. derived_var t v \<and>
    (if x = g_default_axiom_values t ! v then g_axiom_layers t ! v = k - 1 else k \<le> g_axiom_layers t ! v))"

definition derived_ok :: "task \<Rightarrow> packing \<Rightarrow> int \<Rightarrow> literal set \<Rightarrow> container_int list \<Rightarrow> nat \<Rightarrow> bool" where
  "derived_ok t p k L b v \<longleftrightarrow>
    (if packer_get p b v = g_default_axiom_values t ! v
     then (v, packer_get p b v) \<in> L \<longleftrightarrow> g_axiom_layers t ! v < k
     else (v, packer_get p b v) \<in> L)"

definition ax_core :: "task \<Rightarrow> packing \<Rightarrow> container_int list \<Rightarrow> int \<Rightarrow> literal set \<Rightarrow> literal set \<Rightarrow> ax_state \<Rightarrow> bool" where
  "ax_core t p b0 k seen cur s \<longleftrightarrow>
    same_tables t (fst s) \<and> buffer_ok t p (snd s) \<and>
    distinct (ax_queue (fst s)) \<and> set (ax_queue (fst s)) \<inter> seen = {} \<and>
    lits seen s \<subseteq> true_lits t p (snd s) \<and>
    (\<forall>v < num_vars t. if derived_var t v then derived_ok t p k (lits seen s) (snd s) v
      else (v, packer_get p (snd s) v) \<in> lits seen s) \<and>
    above_layer t k (set (ax_queue (fst s)) \<union> cur) \<and>
    lits seen s \<subseteq> horn (g_logic_axioms t) (base_lits t (lits seen s)) \<and>
    (\<forall>v < length (statespace_sizes t). v < num_vars t \<and> derived_var t v \<or> packer_get p (snd s) v = packer_get p b0 v)"

lemma ax_coreD:
  assumes "ax_core t p b0 k seen cur s"
  shows "same_tables t (fst s)" "buffer_ok t p (snd s)" "distinct (ax_queue (fst s))"
    "set (ax_queue (fst s)) \<inter> seen = {}" "lits seen s \<subseteq> true_lits t p (snd s)"
    "v < num_vars t \<Longrightarrow> derived_var t v \<Longrightarrow> derived_ok t p k (lits seen s) (snd s) v"
    "v < num_vars t \<Longrightarrow> \<not> derived_var t v \<Longrightarrow> (v, packer_get p (snd s) v) \<in> lits seen s"
    "above_layer t k (set (ax_queue (fst s)) \<union> cur)"
    "lits seen s \<subseteq> horn (g_logic_axioms t) (base_lits t (lits seen s))"
    "v < length (statespace_sizes t) \<Longrightarrow> \<not> (v < num_vars t \<and> derived_var t v) \<Longrightarrow> packer_get p (snd s) v = packer_get p b0 v"
  using assms by (auto simp: ax_core_def)

text \<open>A literal of a derived variable that is not its default was derived by an axiom for it.\<close>

lemma derived_literal_head:
  assumes "(v, x) \<in> horn axs N" "(v, x) \<notin> N"
  shows "\<exists>ax \<in> set axs. pax_affected ax = v \<and> head_val ax = x"
  using assms by (cases rule: horn.cases) auto

lemma head_unique:
  assumes "well_stratified t" "ax_core t p b0 k seen cur s" "i < length (g_logic_axioms t)"
    "(pax_affected (axiom_at t i), x) \<in> lits seen s"
  shows "x = head_val (axiom_at t i) \<or> x = g_default_axiom_values t ! pax_affected (axiom_at t i)"
proof (rule ccontr)
  let ?v = "pax_affected (axiom_at t i)"
  assume contra: "\<not> ?thesis"
  then have "(?v, x) \<notin> base_lits t (lits seen s)"
    using stratifiedD(2) [OF assms(1,3)] by (simp add: base_lits_def)
  moreover have "(?v, x) \<in> horn (g_logic_axioms t) (base_lits t (lits seen s))"
    using ax_coreD(9) [OF assms(2)] assms(4) by blast
  ultimately obtain ax where "ax \<in> set (g_logic_axioms t)" "pax_affected ax = ?v" "head_val ax = x"
    using derived_literal_head by blast
  then show False using stratifiedD(5) [OF assms(1,3)] contra by auto
qed

lemma trigger_rule_core:
  assumes wf: "well_stratified t" and core: "ax_core t p b0 k seen cur s" and i: "i < length (g_logic_axioms t)"
    and r: "effect_var r = pax_affected (axiom_at t i)" "effect_val r = head_val (axiom_at t i)"
      "effect_literal r = (pax_affected (axiom_at t i), head_val (axiom_at t i))"
    and conds: "set (cond_lits (axiom_at t i)) \<subseteq> seen"
    and layer: "k \<le> g_axiom_layers t ! pax_affected (axiom_at t i)"
  shows "ax_core t p b0 k seen cur (trigger_rule p r s)"
    and "packer_get p (snd (trigger_rule p r s)) (pax_affected (axiom_at t i)) = head_val (axiom_at t i)"
    and "j < length (g_logic_axioms t) \<Longrightarrow>
      packer_get p (snd s) (pax_affected (axiom_at t j)) = head_val (axiom_at t j) \<Longrightarrow>
      packer_get p (snd (trigger_rule p r s)) (pax_affected (axiom_at t j)) = head_val (axiom_at t j)"
proof -
  let ?v = "pax_affected (axiom_at t i)" and ?x = "head_val (axiom_at t i)"
  let ?L = "lits seen s" and ?b = "snd s"
  note h = stratifiedD [OF wf i] and c = ax_coreD [OF core]
  show "ax_core t p b0 k seen cur (trigger_rule p r s)"
    and "packer_get p (snd (trigger_rule p r s)) ?v = ?x"
    and "j < length (g_logic_axioms t) \<Longrightarrow>
      packer_get p (snd s) (pax_affected (axiom_at t j)) = head_val (axiom_at t j) \<Longrightarrow>
      packer_get p (snd (trigger_rule p r s)) (pax_affected (axiom_at t j)) = head_val (axiom_at t j)"
  proof (atomize (full), cases "packer_get p ?b ?v = ?x")
    case True
    then have "trigger_rule p r s = s" by (cases s) (simp add: trigger_rule_def Let_def r)
    then show "ax_core t p b0 k seen cur (trigger_rule p r s) \<and>
      packer_get p (snd (trigger_rule p r s)) ?v = ?x \<and>
      (j < length (g_logic_axioms t) \<longrightarrow>
        packer_get p (snd s) (pax_affected (axiom_at t j)) = head_val (axiom_at t j) \<longrightarrow>
        packer_get p (snd (trigger_rule p r s)) (pax_affected (axiom_at t j)) = head_val (axiom_at t j))"
      using core True by simp
  next
    case False
    let ?b' = "packer_set p ?b ?v ?x"
    let ?s' = "((fst s)\<lparr>ax_queue := (?v, ?x) # ax_queue (fst s)\<rparr>, ?b')"
    have s': "trigger_rule p r s = ?s'"
      using False by (cases s) (simp add: trigger_rule_def Let_def r)
    note set = buffer_set [OF wf c(2) h(1,3)]
    have dflt: "packer_get p ?b ?v = g_default_axiom_values t ! ?v"
      using c(6) [OF h(1,2)] head_unique [OF wf core i] False by (auto simp: derived_ok_def split: if_splits)
    have fresh: "(?v, y) \<notin> ?L" for y
      using c(5) c(6) [OF h(1,2)] layer dflt by (auto simp: derived_ok_def true_lits_def)
    have L': "lits seen ?s' = insert (?v, ?x) ?L" by (auto simp: lits_def)
    have other: "packer_get p ?b' w = packer_get p ?b w" if "w < num_vars t" "w \<noteq> ?v" for w
      using set(3) [of w] that sizes_domain(2) [of t] by simp
    have base: "base_lits t (insert (?v, ?x) ?L) = base_lits t ?L"
      using h(2,4) by (auto simp: base_lits_def)
    have derivable: "(?v, ?x) \<in> horn (g_logic_axioms t) (base_lits t ?L)"
      by (rule horn_step) (use i conds c(9) in \<open>auto simp: lits_def\<close>)
    have "ax_core t p b0 k seen cur ?s'"
      unfolding ax_core_def L' base
    proof (intro conjI allI impI)
      show "same_tables t (fst ?s')" "buffer_ok t p (snd ?s')" using c(1) set(1) by simp_all
      show "distinct (ax_queue (fst ?s'))" "set (ax_queue (fst ?s')) \<inter> seen = {}"
        using c(3,4) fresh by (auto simp: lits_def)
      show "insert (?v, ?x) ?L \<subseteq> true_lits t p (snd ?s')"
        using c(5) fresh h(1,3) set(2) other by (auto simp: true_lits_def)
      show "insert (?v, ?x) ?L \<subseteq> horn (g_logic_axioms t) (base_lits t ?L)"
        using derivable c(9) by blast
      show "above_layer t k (set (ax_queue (fst ?s')) \<union> cur)"
        using c(8) layer h(2,4) by (auto simp: above_layer_def)
    next
      fix w assume w: "w < num_vars t"
      show "if derived_var t w then derived_ok t p k (insert (?v, ?x) ?L) (snd ?s') w
        else (w, packer_get p (snd ?s') w) \<in> insert (?v, ?x) ?L"
        using c(6) [OF w] c(7) [OF w] other [OF w] set(2) h(2,4) by (cases "w = ?v") (auto simp: derived_ok_def)
    next
      fix w assume w: "w < length (statespace_sizes t)"
      show "w < num_vars t \<and> derived_var t w \<or> packer_get p (snd ?s') w = packer_get p b0 w"
        using c(10) [OF w] set(3) [OF w] h(1,2) by (cases "w = ?v") auto
    qed
    moreover have "packer_get p ?b' (pax_affected (axiom_at t j)) = head_val (axiom_at t j)"
      if "j < length (g_logic_axioms t)" "packer_get p ?b (pax_affected (axiom_at t j)) = head_val (axiom_at t j)"
    proof (cases "pax_affected (axiom_at t j) = ?v")
      case True
      then show ?thesis using h(5) [of "axiom_at t j"] that(1) set(2) by simp
    next
      case False
      then show ?thesis using other that stratifiedD(1) [OF wf that(1)] by simp
    qed
    ultimately show "ax_core t p b0 k seen cur (trigger_rule p r s) \<and>
      packer_get p (snd (trigger_rule p r s)) ?v = ?x \<and>
      (j < length (g_logic_axioms t) \<longrightarrow>
        packer_get p (snd s) (pax_affected (axiom_at t j)) = head_val (axiom_at t j) \<longrightarrow>
        packer_get p (snd (trigger_rule p r s)) (pax_affected (axiom_at t j)) = head_val (axiom_at t j))"
      unfolding s' using set(2) by simp
  qed
qed

section \<open>The counters\<close>

text \<open>
  A counter holds the conditions not seen yet, and the occurrences of its rule in the rest of the
  list being processed; a rule whose counter is zero has fired.
\<close>

definition counters_ok :: "task \<Rightarrow> packing \<Rightarrow> literal set \<Rightarrow> nat list \<Rightarrow> nat \<Rightarrow> ax_state \<Rightarrow> bool" where
  "counters_ok t p seen rest m s \<longleftrightarrow> (\<forall>i < m.
    unsatisfied_conditions (rules (fst s) ! i) =
      int (length (filter (\<lambda>l. l \<notin> seen) (cond_lits (axiom_at t i))) + count_list rest i) \<and>
    (unsatisfied_conditions (rules (fst s) ! i) = 0 \<longrightarrow>
      packer_get p (snd s) (pax_affected (axiom_at t i)) = head_val (axiom_at t i)))"

definition ax_inv :: "task \<Rightarrow> packing \<Rightarrow> container_int list \<Rightarrow> int \<Rightarrow> literal set \<Rightarrow> literal set \<Rightarrow> nat list \<Rightarrow> ax_state \<Rightarrow> bool" where
  "ax_inv t p b0 k seen cur rest s \<longleftrightarrow>
    ax_core t p b0 k seen cur s \<and> counters_ok t p seen rest (length (g_logic_axioms t)) s"

lemma ax_core_cong:
  "same_tables t ev' \<Longrightarrow> ax_queue ev' = ax_queue ev \<Longrightarrow> ax_core t p b0 k seen cur (ev, b) \<Longrightarrow> ax_core t p b0 k seen cur (ev', b)"
proof -
  assume queue: "ax_queue ev' = ax_queue ev"
  then have "lits seen (ev', b) = lits seen (ev, b)" by (simp add: lits_def)
  then show "same_tables t ev' \<Longrightarrow> ax_core t p b0 k seen cur (ev, b) \<Longrightarrow> ax_core t p b0 k seen cur (ev', b)"
    using queue by (simp add: ax_core_def cong: if_cong)
qed

lemma above_layer_head:
  assumes "well_stratified t" "i < length (g_logic_axioms t)" "above_layer t k L" "l \<in> L" "l \<in> set (cond_lits (axiom_at t i))"
  shows "k \<le> g_axiom_layers t ! pax_affected (axiom_at t i)"
proof (cases "k = 0")
  case True
  then show ?thesis using derived_layer_nonneg stratifiedD(1,2) assms by simp
next
  case False
  obtain v x where l: "l = (v, x)" by (cases l)
  have "derived_var t v \<and> (if x = g_default_axiom_values t ! v then g_axiom_layers t ! v = k - 1 else k \<le> g_axiom_layers t ! v)"
    using assms(3,4) False unfolding above_layer_def l by fast
  then show ?thesis using stratifiedD(7) [OF assms(1,2), of v x] assms(5) unfolding l by (auto split: if_splits)
qed

lemma satisfy_condition_inv:
  assumes wf: "well_stratified t" and inv: "ax_inv t p b0 k seen {l} (i # rest) s"
    and i: "i < length (g_logic_axioms t)" "l \<in> set (cond_lits (axiom_at t i))" "l \<in> seen"
  shows "ax_inv t p b0 k seen {l} rest (satisfy_condition p i s)"
proof -
  let ?ev = "fst s" and ?r = "rules (fst s) ! i" and ?n = "length (g_logic_axioms t)"
  let ?left = "unsatisfied_conditions ?r - 1"
  let ?s' = "(?ev\<lparr>rules := (rules ?ev)[i := ?r\<lparr>unsatisfied_conditions := ?left\<rparr>]\<rparr>, snd s)"
  have core: "ax_core t p b0 k seen {l} s" and cnt: "counters_ok t p seen (i # rest) ?n s"
    using inv by (simp_all add: ax_inv_def)
  note len = same_tablesD(1) [OF ax_coreD(1) [OF core]] and static = same_tablesD(6) [OF ax_coreD(1) [OF core] i(1)]
  have core': "ax_core t p b0 k seen {l} ?s'"
    by (rule ax_core_cong [of _ _ ?ev]) (use core ax_coreD(1) [OF core] in simp_all)
  have left: "?left = int (length (filter (\<lambda>l. l \<notin> seen) (cond_lits (axiom_at t i))) + count_list rest i)"
    using cnt i(1) unfolding counters_ok_def by force
  have same: "unsatisfied_conditions (rules (fst ?s') ! j) = (if j = i then ?left else unsatisfied_conditions (rules ?ev ! j))"
    if "j < ?n" for j
    using that len by (simp add: nth_list_update)
  have step: "satisfy_condition p i s = (if ?left = 0 then trigger_rule p ?r ?s' else ?s')"
    using i(1) len by (simp add: satisfy_condition_def Let_def)
  have j: "unsatisfied_conditions (rules ?ev ! j) =
      int (length (filter (\<lambda>l. l \<notin> seen) (cond_lits (axiom_at t j))) + count_list rest j) \<and>
      (unsatisfied_conditions (rules ?ev ! j) = 0 \<longrightarrow> packer_get p (snd s) (pax_affected (axiom_at t j)) = head_val (axiom_at t j))"
    if "j < ?n" "j \<noteq> i" for j
    using cnt that unfolding counters_ok_def by force
  show ?thesis
  proof (cases "?left = 0")
    case True
    then have "int (length (filter (\<lambda>l. l \<notin> seen) (cond_lits (axiom_at t i)))) = 0" using left by linarith
    then have "filter (\<lambda>l. l \<notin> seen) (cond_lits (axiom_at t i)) = []" by simp
    then have seen: "set (cond_lits (axiom_at t i)) \<subseteq> seen" by (auto simp: filter_empty_conv)
    have "above_layer t k (set (ax_queue ?ev) \<union> {l})" using ax_coreD(8) [OF core] .
    then have "k \<le> g_axiom_layers t ! pax_affected (axiom_at t i)"
      by (rule above_layer_head [OF wf i(1) _ _ i(2)]) simp
    note trig = trigger_rule_core [OF wf core' i(1) _ _ _ seen this, of ?r]
    have "counters_ok t p seen rest ?n (trigger_rule p ?r ?s')"
      unfolding counters_ok_def
    proof (intro allI impI)
      fix j assume jn: "j < ?n"
      show "unsatisfied_conditions (rules (fst (trigger_rule p ?r ?s')) ! j) =
          int (length (filter (\<lambda>l. l \<notin> seen) (cond_lits (axiom_at t j))) + count_list rest j) \<and>
        (unsatisfied_conditions (rules (fst (trigger_rule p ?r ?s')) ! j) = 0 \<longrightarrow>
          packer_get p (snd (trigger_rule p ?r ?s')) (pax_affected (axiom_at t j)) = head_val (axiom_at t j))"
      proof (cases "j = i")
        case True
        have c: "unsatisfied_conditions (rules (fst (trigger_rule p ?r ?s')) ! i) = ?left"
          using same [OF i(1)] by (simp only: trigger_rule_rules if_True simp_thms)
        show ?thesis unfolding True c using left trig(2) static by (simp only: simp_thms)
      next
        case False
        then have c: "unsatisfied_conditions (rules (fst (trigger_rule p ?r ?s')) ! j) = unsatisfied_conditions (rules (fst s) ! j)"
          using same [OF jn] by (simp only: trigger_rule_rules if_False)
        show ?thesis unfolding c using j [OF jn False] trig(3) [of j] jn static by simp
      qed
    qed
    then show ?thesis using trig(1) static True by (simp add: ax_inv_def step)
  next
    case False
    have "counters_ok t p seen rest ?n ?s'"
      unfolding counters_ok_def
    proof (intro allI impI)
      fix j assume jn: "j < ?n"
      show "unsatisfied_conditions (rules (fst ?s') ! j) =
          int (length (filter (\<lambda>l. l \<notin> seen) (cond_lits (axiom_at t j))) + count_list rest j) \<and>
        (unsatisfied_conditions (rules (fst ?s') ! j) = 0 \<longrightarrow>
          packer_get p (snd ?s') (pax_affected (axiom_at t j)) = head_val (axiom_at t j))"
        using same [OF jn] left False j [OF jn] by (cases "j = i") simp_all
    qed
    then show ?thesis using core' False by (simp add: ax_inv_def step)
  qed
qed

lemma fold_satisfy_inv:
  assumes "well_stratified t" "l \<in> seen"
    "\<forall>i \<in> set rest. i < length (g_logic_axioms t) \<and> l \<in> set (cond_lits (axiom_at t i))"
    "ax_inv t p b0 k seen {l} rest s"
  shows "ax_inv t p b0 k seen {l} [] (fold (satisfy_condition p) rest s)"
  using assms(3,4)
proof (induction rest arbitrary: s)
  case (Cons i rest)
  then show ?case using satisfy_condition_inv [OF assms(1) Cons.prems(2)] assms(2) by simp
qed simp

lemma length_filter_insert:
  "l \<notin> seen \<Longrightarrow> length (filter (\<lambda>x. x \<notin> seen) xs) = length (filter (\<lambda>x. x \<notin> insert l seen) xs) + count_list xs l"
  by (induction xs) auto

lemma pop_literal_inv:
  assumes wf: "well_stratified t" and inv: "ax_inv t p b0 k seen {} [] s" and queue: "ax_queue (fst s) = l # q"
  shows "ax_inv t p b0 k (insert l seen) {} [] (pop_literal p s)"
proof -
  let ?n = "length (g_logic_axioms t)"
  let ?s' = "((fst s)\<lparr>ax_queue := q\<rparr>, snd s)" and ?cond = "condition_of (AxiomEvaluator_make t) l"
  have core: "ax_core t p b0 k seen {} s" and cnt: "counters_ok t p seen [] ?n s"
    using inv by (simp_all add: ax_inv_def)
  obtain v x where l: "l = (v, x)" by (cases l)
  have vx: "v < num_vars t" "x < g_variable_domain t ! v" and fresh: "l \<notin> seen"
    using ax_coreD(4,5) [OF core] queue l by (auto simp: lits_def true_lits_def)
  note cond = condition_of_make [OF wf vx, folded l]
  have conds: "\<forall>i \<in> set ?cond. i < ?n \<and> l \<in> set (cond_lits (axiom_at t i))"
  proof
    fix i assume "i \<in> set ?cond"
    then have "i < ?n" "count_list ?cond i \<noteq> 0" using cond(2) by (auto simp: count_list_0_iff)
    then show "i < ?n \<and> l \<in> set (cond_lits (axiom_at t i))" using cond(1) [of i] by (auto simp: count_list_0_iff)
  qed
  have same: "lits (insert l seen) ?s' = lits seen s" using queue by (auto simp: lits_def)
  have "above_layer t k (set (ax_queue (fst s)))" using ax_coreD(8) [OF core] by simp
  then have above: "above_layer t k (set q \<union> {l})" using queue by simp
  have "ax_core t p b0 k (insert l seen) {l} ?s'"
    using core [unfolded ax_core_def] above queue fresh unfolding ax_core_def same by simp
  moreover have "counters_ok t p (insert l seen) ?cond ?n ?s'"
    using cnt cond(1) length_filter_insert [OF fresh] by (simp add: counters_ok_def)
  ultimately have "ax_inv t p b0 k (insert l seen) {l} ?cond ?s'" by (simp add: ax_inv_def)
  then have "ax_inv t p b0 k (insert l seen) {l} [] (fold (satisfy_condition p) ?cond ?s')"
    by (intro fold_satisfy_inv [OF wf _ conds]) simp_all
  moreover have "pop_literal p s = fold (satisfy_condition p) ?cond ?s'"
    using same_tablesD(2) [OF ax_coreD(1) [OF core]] queue by (simp add: pop_literal_def Let_def)
  ultimately show ?thesis by (auto simp: ax_inv_def ax_core_def above_layer_def)
qed

lemma horn_loop_inv:
  assumes "well_stratified t" "ax_inv t p b0 k seen {} [] s"
  shows "\<exists>seen'. ax_inv t p b0 k seen' {} [] (horn_loop p s) \<and> ax_queue (fst (horn_loop p s)) = []"
  using assms(2)
proof (induction p s arbitrary: seen rule: horn_loop.induct)
  case (1 p s)
  show ?case
  proof (cases "ax_queue (fst s)")
    case Nil
    then show ?thesis using 1 by (auto simp: horn_loop.simps [of p s])
  next
    case (Cons l q)
    then show ?thesis using 1(1) [OF _ pop_literal_inv [OF assms(1) 1(2) Cons]] by (simp add: horn_loop.simps [of p s])
  qed
qed

section \<open>Negation by failure\<close>

abbreviation default_lit :: "task \<Rightarrow> nat \<Rightarrow> literal" where
  "default_lit t v \<equiv> (v, g_default_axiom_values t ! v)"

lemma fold_apply_nbf:
  "fold (apply_nbf t p) (map (\<lambda>v. \<lparr>nbf_var_no = v, nbf_literal = default_lit t v\<rparr>) vs) (ev, b) =
    (ev\<lparr>ax_queue := rev (map (default_lit t) (filter (\<lambda>v. packer_get p b v = g_default_axiom_values t ! v) vs)) @ ax_queue ev\<rparr>, b)"
  by (induction vs arbitrary: ev) (auto simp: apply_nbf_def)

text \<open>The comparison axioms must have been evaluated: their variables have a value of their own.\<close>

definition comparisons_set :: "task \<Rightarrow> packing \<Rightarrow> container_int list \<Rightarrow> bool" where
  "comparisons_set t p b \<longleftrightarrow> (\<forall>v < num_vars t. g_axiom_layers t ! v \<noteq> - 1 \<longrightarrow> \<not> derived_var t v \<longrightarrow>
    packer_get p b v \<noteq> g_default_axiom_values t ! v)"

lemma evaluate_layer_inv:
  assumes wf: "well_stratified t" and cmp: "comparisons_set t p b0" and inv: "ax_inv t p b0 (int k) seen {} [] s"
    and k: "int k < last_axiom_layer t"
  shows "\<exists>seen'. ax_inv t p b0 (int (Suc k)) seen' {} [] (evaluate_layer t p k s)"
proof -
  obtain seen' where inv': "ax_inv t p b0 (int k) seen' {} [] (horn_loop p s)" and empty: "ax_queue (fst (horn_loop p s)) = []"
    using horn_loop_inv [OF wf inv] by blast
  obtain ev b where s': "horn_loop p s = (ev, b)" by (cases "horn_loop p s")
  have core: "ax_core t p b0 (int k) seen' {} (ev, b)" and cnt: "counters_ok t p seen' [] (length (g_logic_axioms t)) (ev, b)"
    using inv' s' by (simp_all add: ax_inv_def)
  note c = ax_coreD [OF core, simplified]
  have q: "ax_queue ev = []" using empty s' by simp
  then have L: "lits seen' (ev, b) = seen'" by (simp add: lits_def)
  let ?vs = "filter (\<lambda>v. packer_get p b v = g_default_axiom_values t ! v)
    (filter (\<lambda>v. g_axiom_layers t ! v = int k) [0..<num_vars t])"
  let ?q = "rev (map (default_lit t) ?vs)"
  let ?s = "(ev\<lparr>ax_queue := ?q\<rparr>, b)"
  have derived: "derived_var t v" if "v \<in> set ?vs" for v
  proof (rule ccontr)
    assume nd: "\<not> derived_var t v"
    have v: "v < num_vars t" "g_axiom_layers t ! v \<noteq> - 1" "packer_get p b v = g_default_axiom_values t ! v" using that by auto
    then have "packer_get p b v = packer_get p b0 v" using c(10) [of v] nd sizes_domain(2) [of t] by auto
    then show False using cmp v nd unfolding comparisons_set_def by metis
  qed
  have queue: "l \<in> set ?q \<longleftrightarrow> (\<exists>v. l = default_lit t v \<and> v < num_vars t \<and> g_axiom_layers t ! v = int k \<and>
      packer_get p b v = g_default_axiom_values t ! v \<and> derived_var t v)" for l
    using derived by auto
  have fresh: "default_lit t v \<notin> seen'" if "v \<in> set ?vs" for v
    using c(6) [OF _ derived [OF that]] that L by (auto simp: derived_ok_def)
  have lits: "lits seen' ?s = seen' \<union> set ?q" by (simp add: lits_def)
  have base: "base_lits t (seen' \<union> set ?q) = base_lits t seen' \<union> set ?q" by (auto simp: base_lits_def)
  have "ax_core t p b0 (int (Suc k)) seen' {} ?s"
    unfolding ax_core_def lits
  proof (intro conjI allI impI)
    show "same_tables t (fst ?s)" "buffer_ok t p (snd ?s)" using c(1,2) by simp_all
    show "distinct (ax_queue (fst ?s))" by (simp add: distinct_map inj_on_def)
    show "set (ax_queue (fst ?s)) \<inter> seen' = {}" using fresh by auto
    show "seen' \<union> set ?q \<subseteq> true_lits t p (snd ?s)"
      using c(5) L wf unfolding queue [symmetric] by (auto simp: true_lits_def well_stratified_def)
    show "above_layer t (int (Suc k)) (set (ax_queue (fst ?s)) \<union> {})"
      using derived by (auto simp: above_layer_def)
    show "seen' \<union> set ?q \<subseteq> horn (g_logic_axioms t) (base_lits t (seen' \<union> set ?q))"
    proof
      fix l assume "l \<in> seen' \<union> set ?q"
      then show "l \<in> horn (g_logic_axioms t) (base_lits t (seen' \<union> set ?q))"
        unfolding base using c(9) L by (auto intro: horn_base elim: horn_mono)
    qed
  next
    fix v assume v: "v < num_vars t"
    show "if derived_var t v then derived_ok t p (int (Suc k)) (seen' \<union> set ?q) (snd ?s) v
      else (v, packer_get p (snd ?s) v) \<in> seen' \<union> set ?q"
      using c(6,7) [OF v] L v by (auto simp: derived_ok_def)
  next
    fix v assume "v < length (statespace_sizes t)"
    then show "v < num_vars t \<and> derived_var t v \<or> packer_get p (snd ?s) v = packer_get p b0 v"
      using c(10) [of v] by auto
  qed
  moreover have "counters_ok t p seen' [] (length (g_logic_axioms t)) ?s" using cnt by (simp add: counters_ok_def)
  moreover have "evaluate_layer t p k s = ?s"
    using k s' q nbf_info_make [OF wf] fold_apply_nbf [of t p "filter (\<lambda>v. g_axiom_layers t ! v = int k) [0..<num_vars t]" ev b]
    by (simp add: evaluate_layer_def Let_def same_tablesD(3) [OF c(1)])
  ultimately show ?thesis by (auto simp: ax_inv_def)
qed

lemma evaluate_layers_inv:
  assumes "well_stratified t" "comparisons_set t p b0" "ax_inv t p b0 0 {} {} [] s"
  shows "int k \<le> last_axiom_layer t \<Longrightarrow> \<exists>seen. ax_inv t p b0 (int k) seen {} [] (fold (evaluate_layer t p) [0..<k] s)"
proof (induction k)
  case 0
  then show ?case using assms(3) by auto
next
  case (Suc k)
  then obtain seen where "ax_inv t p b0 (int k) seen {} [] (fold (evaluate_layer t p) [0..<k] s)" by auto
  then show ?case using evaluate_layer_inv [OF assms(1,2)] Suc.prems by simp
qed

section \<open>The first two loops\<close>

lemma reset_rules_inv:
  assumes wf: "well_stratified t" and core: "ax_core t p b0 0 {} {} s"
  shows "m \<le> length (g_logic_axioms t) \<Longrightarrow>
    ax_core t p b0 0 {} {} (fold (reset_rule p) [0..<m] s) \<and> counters_ok t p {} [] m (fold (reset_rule p) [0..<m] s)"
proof (induction m)
  case 0
  then show ?case using core by (simp add: counters_ok_def)
next
  case (Suc m)
  let ?s = "fold (reset_rule p) [0..<m] s"
  let ?ev = "fst ?s" and ?r = "rules (fst ?s) ! m"
  let ?s' = "(?ev\<lparr>rules := (rules ?ev)[m := ?r\<lparr>unsatisfied_conditions := condition_count ?r\<rparr>]\<rparr>, snd ?s)"
  have m: "m < length (g_logic_axioms t)" and c: "ax_core t p b0 0 {} {} ?s" and cnt: "counters_ok t p {} [] m ?s"
    using Suc by simp_all
  note len = same_tablesD(1) [OF ax_coreD(1) [OF c]] and static = same_tablesD(6) [OF ax_coreD(1) [OF c] m]
  have c': "ax_core t p b0 0 {} {} ?s'"
    by (rule ax_core_cong [of _ _ ?ev]) (use c ax_coreD(1) [OF c] in simp_all)
  have cnt': "unsatisfied_conditions (rules (fst ?s') ! j) = int (length (cond_lits (axiom_at t j)))" if "j < Suc m" for j
    using cnt that len m static by (cases "j = m") (simp_all add: counters_ok_def)
  have old: "packer_get p (snd ?s) (pax_affected (axiom_at t j)) = head_val (axiom_at t j)"
    if "j < m" "cond_lits (axiom_at t j) = []" for j
    using cnt that by (simp add: counters_ok_def)
  have step: "fold (reset_rule p) [0..<Suc m] s = (if condition_count ?r = 0 then trigger_rule p ?r ?s' else ?s')"
    by (simp add: reset_rule_def Let_def)
  show ?case
  proof (cases "condition_count ?r = 0")
    case True
    then have none: "cond_lits (axiom_at t m) = []" using static by simp
    have "0 \<le> g_axiom_layers t ! pax_affected (axiom_at t m)"
      using derived_layer_nonneg [OF wf] stratifiedD(1,2) [OF wf m] by simp
    note trig = trigger_rule_core [OF wf c' m _ _ _ _ this, of ?r]
    have fired: "packer_get p (snd (trigger_rule p ?r ?s')) (pax_affected (axiom_at t j)) = head_val (axiom_at t j)"
      if "j < Suc m" "cond_lits (axiom_at t j) = []" for j
      using trig(2) trig(3) [of j] old [of j] that m static none by (cases "j = m") simp_all
    have "counters_ok t p {} [] (Suc m) (trigger_rule p ?r ?s')"
      unfolding counters_ok_def trigger_rule_rules using cnt' fired by simp
    then show ?thesis using trig(1) True static none step by simp
  next
    case False
    then have "cond_lits (axiom_at t m) \<noteq> []" using static by simp
    then have "counters_ok t p {} [] (Suc m) ?s'"
      unfolding counters_ok_def using cnt' old by (auto simp: less_Suc_eq)
    then show ?thesis using c' False step by simp
  qed
qed

text \<open>The queue and the buffer after the first loop over the variables \<open>vs\<close>.\<close>

lemma seed_variables_eq:
  assumes wf: "well_stratified t"
  shows "distinct vs \<Longrightarrow> \<forall>v \<in> set vs. v < num_vars t \<Longrightarrow> same_tables t ev \<Longrightarrow> buffer_ok t p b \<Longrightarrow>
    \<exists>b'. seed_variables t p vs (ev, b) =
        Inr (ev\<lparr>ax_queue := rev (map (\<lambda>v. (v, packer_get p b v)) (filter (\<lambda>v. \<not> derived_var t v) vs)) @ ax_queue ev\<rparr>, b') \<and>
      buffer_ok t p b' \<and>
      (\<forall>v < length (statespace_sizes t). packer_get p b' v =
        (if v \<in> set vs \<and> derived_var t v then g_default_axiom_values t ! v else packer_get p b v))"
proof (induction vs arbitrary: ev b)
  case (Cons v vs)
  have v: "v < num_vars t" "v < length (statespace_sizes t)" using Cons.prems(2) sizes_domain(2) [of t] by auto
  have wfv: "- 1 \<le> g_axiom_layers t ! v" "g_axiom_layers t ! v \<noteq> - 1 \<longrightarrow> g_last_arithmetic_axiom_layer t < g_axiom_layers t ! v"
    "g_default_axiom_values t ! v < g_variable_domain t ! v" "v < length (g_axiom_layers t)"
    using wf v(1) by (simp_all add: well_stratified_def)
  note tab = same_tablesD(4,5) [OF Cons.prems(3)]
  have "\<forall>l \<in> set (g_axiom_layers t). - 1 \<le> l" using wf by (auto simp: well_stratified_def in_set_conv_nth)
  then have last: "g_axiom_layers t ! v \<le> g_last_logic_axiom_layer ev"
    using last_axiom_layer_ge [of "g_axiom_layers t ! v" t] wfv(4) by (simp add: tab last_logic_layer)
  show ?case
  proof (cases "derived_var t v")
    case True
    let ?b = "packer_set p b v (g_default_axiom_values t ! v)"
    note set = buffer_set [OF wf Cons.prems(4) v(1) wfv(3)]
    have step: "seed_variable t p v (ev, b) = Inr (ev, ?b)"
      using True wfv(2) last by (auto simp: seed_variable_def Let_def derived_var_def tab)
    obtain b' where b': "seed_variables t p vs (ev, ?b) =
          Inr (ev\<lparr>ax_queue := rev (map (\<lambda>v. (v, packer_get p ?b v)) (filter (\<lambda>v. \<not> derived_var t v) vs)) @ ax_queue ev\<rparr>, b')"
        "buffer_ok t p b'" "\<forall>w < length (statespace_sizes t). packer_get p b' w =
          (if w \<in> set vs \<and> derived_var t w then g_default_axiom_values t ! w else packer_get p ?b w)"
      using Cons.IH [of ev ?b] Cons.prems set(1) by auto
    have get: "packer_get p ?b w = packer_get p b w" if "w \<in> set vs" for w
    proof (rule set(3))
      have "w < num_vars t" using Cons.prems(2) that by simp
      then show "w < length (statespace_sizes t)" using sizes_domain(2) [of t] by simp
      show "w \<noteq> v" using Cons.prems(1) that by auto
    qed
    then have "map (\<lambda>v. (v, packer_get p ?b v)) (filter (\<lambda>v. \<not> derived_var t v) vs) =
        map (\<lambda>v. (v, packer_get p b v)) (filter (\<lambda>v. \<not> derived_var t v) vs)" by simp
    then show ?thesis
      using b' step True set(2) set(3) Cons.prems(1) by (intro exI [of _ b']) auto
  next
    case False
    let ?ev = "ev\<lparr>ax_queue := (v, packer_get p b v) # ax_queue ev\<rparr>"
    have step: "seed_variable t p v (ev, b) = Inr (?ev, b)"
      using False wfv(2) by (auto simp: seed_variable_def Let_def derived_var_def tab)
    then show ?thesis using Cons.IH [of ?ev b] Cons.prems False by auto
  qed
qed simp

lemma seeded_core:
  assumes wf: "well_stratified t" and ev: "same_tables t ev" "ax_queue ev = []" and b: "buffer_ok t p b"
    and given: "\<forall>v < num_vars t. \<not> derived_var t v \<longrightarrow> packer_get p b v < g_variable_domain t ! v"
  shows "\<exists>s. seed_variables t p [0..<length (g_axiom_layers t)] (ev, b) = Inr s \<and> ax_core t p b 0 {} {} s"
proof -
  let ?q = "rev (map (\<lambda>v. (v, packer_get p b v)) (filter (\<lambda>v. \<not> derived_var t v) [0..<num_vars t]))"
  have len: "length (g_axiom_layers t) = num_vars t" using wf by (simp add: well_stratified_def)
  obtain b' where s: "seed_variables t p [0..<num_vars t] (ev, b) = Inr (ev\<lparr>ax_queue := ?q\<rparr>, b')" "buffer_ok t p b'"
    and get: "\<forall>v < length (statespace_sizes t). packer_get p b' v =
        (if v < num_vars t \<and> derived_var t v then g_default_axiom_values t ! v else packer_get p b v)"
    using seed_variables_eq [OF wf _ _ ev(1) b, of "[0..<num_vars t]"] ev(2) by auto
  let ?s = "(ev\<lparr>ax_queue := ?q\<rparr>, b')"
  have getv: "packer_get p b' v = (if derived_var t v then g_default_axiom_values t ! v else packer_get p b v)"
    if "v < num_vars t" for v
    using get that sizes_domain(2) [of t] by simp
  have L: "lits {} ?s = {(v, packer_get p b v) | v. v < num_vars t \<and> \<not> derived_var t v}" by (auto simp: lits_def)
  have "ax_core t p b 0 {} {} ?s"
    unfolding ax_core_def
  proof (intro conjI allI impI)
    show "same_tables t (fst ?s)" "buffer_ok t p (snd ?s)" "set (ax_queue (fst ?s)) \<inter> {} = {}"
      "above_layer t 0 (set (ax_queue (fst ?s)) \<union> {})"
      using ev s(2) by (simp_all add: above_layer_def)
    show "distinct (ax_queue (fst ?s))" by (simp add: distinct_map inj_on_def)
    show "lits {} ?s \<subseteq> true_lits t p (snd ?s)" using getv given by (auto simp: L true_lits_def)
    show "lits {} ?s \<subseteq> horn (g_logic_axioms t) (base_lits t (lits {} ?s))"
      by (auto simp: L base_lits_def intro!: horn_base)
  next
    fix v assume v: "v < num_vars t"
    show "if derived_var t v then derived_ok t p 0 (lits {} ?s) (snd ?s) v else (v, packer_get p (snd ?s) v) \<in> lits {} ?s"
      using getv [OF v] v derived_layer_nonneg [OF wf v] by (auto simp: L derived_ok_def)
  next
    fix v assume "v < length (statespace_sizes t)"
    then show "v < num_vars t \<and> derived_var t v \<or> packer_get p (snd ?s) v = packer_get p b v" using get by auto
  qed
  then show ?thesis using s(1) len by auto
qed

section \<open>The stable model\<close>

text \<open>The literals a state takes for granted: the given values, and the defaults that were kept.\<close>

definition assumed_lits :: "task \<Rightarrow> packing \<Rightarrow> container_int list \<Rightarrow> literal set" where
  "assumed_lits t p b = base_lits t (true_lits t p b)"

lemma final_state_closed:
  assumes wf: "well_stratified t" and inv: "ax_inv t p b0 (last_axiom_layer t) seen {} [] s" and empty: "ax_queue (fst s) = []"
    and l: "l \<in> horn (g_logic_axioms t) (assumed_lits t p (snd s))"
  shows "l \<in> true_lits t p (snd s)"
  using l
proof (induction rule: horn.induct)
  case (horn_base l)
  then show ?case by (auto simp: assumed_lits_def base_lits_def)
next
  case (horn_step ax)
  obtain i where i: "i < length (g_logic_axioms t)" "axiom_at t i = ax" using horn_step(1) by (auto simp: in_set_conv_nth)
  have core: "ax_core t p b0 (last_axiom_layer t) seen {} s" and cnt: "counters_ok t p seen [] (length (g_logic_axioms t)) s"
    using inv by (simp_all add: ax_inv_def)
  have L: "lits seen s = seen" using empty by (simp add: lits_def)
  note h = stratifiedD [OF wf i(1)] and c = ax_coreD [OF core, unfolded L]
  have "l \<in> seen" if lc: "l \<in> set (cond_lits ax)" for l
  proof -
    obtain v x where vx: "l = (v, x)" by (cases l)
    have true: "v < num_vars t" "packer_get p (snd s) v = x" using horn_step.IH [OF lc] by (simp_all add: vx true_lits_def)
    have top: "g_axiom_layers t ! pax_affected ax \<le> last_axiom_layer t"
      using h(1) wf i(2) by (intro last_axiom_layer_ge) (simp add: well_stratified_def)
    show ?thesis
    proof (cases "derived_var t v")
      case True
      then show ?thesis
        using c(6) [OF true(1)] h(7) [of v x] lc top true(2) i(2) by (auto simp: vx derived_ok_def split: if_splits)
    next
      case False
      then show ?thesis using c(7) [OF true(1)] true(2) by (simp add: vx)
    qed
  qed
  then have "filter (\<lambda>l. l \<notin> seen) (cond_lits ax) = []" by (simp add: filter_empty_conv)
  then have "packer_get p (snd s) (pax_affected ax) = head_val ax"
    using cnt i unfolding counters_ok_def by force
  then show ?case using h(1,3) i(2) by (simp add: true_lits_def)
qed

lemma evaluate_logic_axioms_stable:
  assumes wf: "well_stratified t" and axs: "has_logic_axioms t" and ev: "same_tables t ev" "ax_queue ev = []"
    and b: "buffer_ok t p b" and cmp: "comparisons_set t p b"
    and given: "\<forall>v < num_vars t. \<not> derived_var t v \<longrightarrow> packer_get p b v < g_variable_domain t ! v"
  shows "\<exists>ev' b'. evaluate_logic_axioms t p ev b = Inr (ev', b') \<and>
    same_tables t ev' \<and> ax_queue ev' = [] \<and> buffer_ok t p b' \<and>
    (\<forall>v < length (statespace_sizes t). v < num_vars t \<and> derived_var t v \<or> packer_get p b' v = packer_get p b v) \<and>
    true_lits t p b' = horn (g_logic_axioms t) (assumed_lits t p b') \<and>
    (\<forall>v < num_vars t. packer_get p b' v < g_variable_domain t ! v)"
proof -
  obtain s where s: "seed_variables t p [0..<length (g_axiom_layers t)] (ev, b) = Inr s" "ax_core t p b 0 {} {} s"
    using seeded_core [OF wf ev b given] by blast
  let ?n = "length (g_logic_axioms t)"
  let ?s1 = "fold (reset_rule p) [0..<?n] s"
  have "ax_inv t p b 0 {} {} [] ?s1" using reset_rules_inv [OF wf s(2), of ?n] by (simp add: ax_inv_def)
  note layers = evaluate_layers_inv [OF wf cmp this]
  obtain ax where ax: "ax \<in> set (g_logic_axioms t)" using axs by (cases "g_logic_axioms t") (auto simp: has_logic_axioms_def)
  then obtain i where i: "i < ?n" "axiom_at t i = ax" by (auto simp: in_set_conv_nth)
  have "0 \<le> g_axiom_layers t ! pax_affected ax"
    using derived_layer_nonneg [OF wf] stratifiedD(1,2) [OF wf i(1)] i(2) by simp
  moreover have "g_axiom_layers t ! pax_affected ax \<le> last_axiom_layer t"
    using wf stratifiedD(1) [OF wf i(1)] i(2) by (intro last_axiom_layer_ge) (simp add: well_stratified_def)
  ultimately have last: "0 \<le> last_axiom_layer t" by simp
  let ?k = "nat (last_axiom_layer t)"
  let ?s2 = "fold (evaluate_layer t p) [0..<?k] ?s1"
  obtain seen where "ax_inv t p b (last_axiom_layer t) seen {} [] ?s2" using layers [of ?k] last by auto
  from horn_loop_inv [OF wf this] obtain seen' where
    inv: "ax_inv t p b (last_axiom_layer t) seen' {} [] (horn_loop p ?s2)" and empty: "ax_queue (fst (horn_loop p ?s2)) = []"
    by blast
  obtain ev' b' where s3: "horn_loop p ?s2 = (ev', b')" by (cases "horn_loop p ?s2")
  have core: "ax_core t p b (last_axiom_layer t) seen' {} (ev', b')" using inv s3 by (simp add: ax_inv_def)
  note c = ax_coreD [OF core, simplified]
  have size: "length (nbf_info_by_layer e) = Suc ?k" if "same_tables t e" for e
    using nbf_info_make(1) [OF wf] same_tablesD(3) [OF that] last by simp
  have "evaluate_layer t p ?k ?s2 = (ev', b')" using size [OF c(1)] by (simp add: evaluate_layer_def Let_def s3)
  then have result: "evaluate_logic_axioms t p ev b = Inr (ev', b')"
    using s(1) axs same_tablesD(1) [OF ev(1)] by (simp add: evaluate_logic_axioms_def size [OF ev(1)])
  have L: "lits seen' (ev', b') = seen'" using empty s3 by (simp add: lits_def)
  have "true_lits t p b' \<subseteq> horn (g_logic_axioms t) (assumed_lits t p b')"
  proof
    fix l assume l: "l \<in> true_lits t p b'"
    obtain v x where vx: "l = (v, x)" "v < num_vars t" "packer_get p b' v = x" using l by (auto simp: true_lits_def)
    show "l \<in> horn (g_logic_axioms t) (assumed_lits t p b')"
    proof (cases "derived_var t v \<and> x \<noteq> g_default_axiom_values t ! v")
      case True
      then have "l \<in> seen'" using c(6) [OF vx(2)] L vx by (simp add: derived_ok_def)
      then have "l \<in> horn (g_logic_axioms t) (base_lits t seen')" using c(9) L by auto
      then show ?thesis by (rule horn_mono) (use c(5) L in \<open>auto simp: assumed_lits_def base_lits_def\<close>)
    next
      case False
      then show ?thesis using l vx(1) by (auto simp: assumed_lits_def base_lits_def intro!: horn_base)
    qed
  qed
  moreover have "horn (g_logic_axioms t) (assumed_lits t p b') \<subseteq> true_lits t p b'"
    using final_state_closed [OF wf inv empty] s3 by auto
  moreover have "packer_get p b' v < g_variable_domain t ! v" if v: "v < num_vars t" for v
  proof (cases "derived_var t v \<and> packer_get p b' v = g_default_axiom_values t ! v")
    case True
    then show ?thesis using wf v by (simp add: well_stratified_def)
  next
    case False
    then have "(v, packer_get p b' v) \<in> seen'" using c(6,7) [OF v] L by (auto simp: derived_ok_def split: if_splits)
    then show ?thesis using c(5) L by (auto simp: true_lits_def)
  qed
  ultimately show ?thesis
    using result c(1,2,10) empty s3 by (auto intro!: exI [of _ ev'] exI [of _ b'])
qed

end
