(* ===== verification/Axiom_Properties.thy ===== *)
theory Axiom_Properties
  imports Axiom_Stable
begin

text \<open>
  Properties of the axiom evaluation: the arithmetic axioms, the comparison axioms and the logic
  axioms together, and the tables of inverse and mirrored comparisons.
\<close>

section \<open>Comparison axioms\<close>

text \<open>
  Every variable of the comparison layer is set by exactly one comparison axiom, and its default
  is neither of the two results.
\<close>

definition comparisons_ok :: "task \<Rightarrow> bool" where
  "comparisons_ok t \<longleftrightarrow>
    distinct (map cax_affected (g_comp_axioms t)) \<and>
    (\<forall>ax \<in> set (g_comp_axioms t). cax_affected ax < num_vars t \<and> 1 < g_variable_domain t ! cax_affected ax \<and>
      \<not> derived_var t (cax_affected ax)) \<and>
    (\<forall>v < num_vars t. g_axiom_layers t ! v \<noteq> - 1 \<longrightarrow> \<not> derived_var t v \<longrightarrow>
      v \<in> cax_affected ` set (g_comp_axioms t) \<and> g_default_axiom_values t ! v \<notin> {0, 1})"

lemma evaluate_comparison_writes:
  "evaluate_comparison_axioms t p b num =
    foldl (\<lambda>b (v, x). packer_set p b v x) b (map (\<lambda>ax. (cax_affected ax, comparison_value num ax)) (g_comp_axioms t))"
  by (simp add: evaluate_comparison_axioms_def foldl_map)

lemma comparison_value_cases: "comparison_value num ax = 0 \<or> comparison_value num ax = 1"
  by (simp add: comparison_value_def)

lemma comparison_admits:
  assumes "well_stratified t" "comparisons_ok t"
    "(v, x) \<in> set (map (\<lambda>ax. (cax_affected ax, comparison_value num ax)) (g_comp_axioms t))"
  shows "v < length (statespace_sizes t) \<and> in_domain (statespace_sizes t ! v) x" "x < g_variable_domain t ! v" "v < num_vars t"
proof -
  obtain ax where ax: "ax \<in> set (g_comp_axioms t)" "v = cax_affected ax" "x = comparison_value num ax" using assms(3) by auto
  then have v: "v < num_vars t" "1 < g_variable_domain t ! v" using assms(2) by (simp_all add: comparisons_ok_def)
  have "x = 0 \<or> x = 1" using ax(3) comparison_value_cases by simp
  then show x: "x < g_variable_domain t ! v" using v(2) by (auto simp: word_less_nat_alt)
  show "v < num_vars t" by (rule v)
  have "v < length (statespace_sizes t)" using v(1) sizes_domain(2) [of t] by simp
  then show "v < length (statespace_sizes t) \<and> in_domain (statespace_sizes t ! v) x"
    using x v assms(1) by (simp add: in_domain_def sizes_domain(1) well_stratified_def)
qed

lemma comparison_axioms_evaluated:
  assumes wf: "well_stratified t" and cmp: "comparisons_ok t" and b: "buffer_ok t p b"
  shows "buffer_ok t p (evaluate_comparison_axioms t p b num)"
    and "ax \<in> set (g_comp_axioms t) \<Longrightarrow>
      packer_get p (evaluate_comparison_axioms t p b num) (cax_affected ax) = comparison_value num ax"
    and "v < length (statespace_sizes t) \<Longrightarrow> v \<notin> cax_affected ` set (g_comp_axioms t) \<Longrightarrow>
      packer_get p (evaluate_comparison_axioms t p b num) v = packer_get p b v"
proof -
  let ?ws = "map (\<lambda>ax. (cax_affected ax, comparison_value num ax)) (g_comp_axioms t)"
  note ok = b [unfolded buffer_ok_def] and adm = comparison_admits(1) [OF wf cmp]
  have dist: "distinct (map fst ?ws)" using cmp by (simp add: comparisons_ok_def comp_def)
  show "buffer_ok t p (evaluate_comparison_axioms t p b num)"
    unfolding buffer_ok_def evaluate_comparison_writes by (rule packed.valid_writes [OF ok adm])
  have get: "packer_get p (evaluate_comparison_axioms t p b num) v =
      (case map_of ?ws v of None \<Rightarrow> packer_get p b v | Some x \<Rightarrow> x)" if "v < length (statespace_sizes t)" for v
    unfolding evaluate_comparison_writes using packed.get_writes_distinct [OF ok adm that dist] .
  show "packer_get p (evaluate_comparison_axioms t p b num) (cax_affected ax) = comparison_value num ax"
    if ax: "ax \<in> set (g_comp_axioms t)"
  proof -
    have "cax_affected ax < length (statespace_sizes t)"
      using adm [of "cax_affected ax" "comparison_value num ax" num] ax by force
    moreover have "map_of ?ws (cax_affected ax) = Some (comparison_value num ax)"
      using ax by (intro map_of_is_SomeI dist) force
    ultimately show ?thesis using get by simp
  qed
  show "packer_get p (evaluate_comparison_axioms t p b num) v = packer_get p b v"
    if "v < length (statespace_sizes t)" "v \<notin> cax_affected ` set (g_comp_axioms t)"
  proof -
    have "map_of ?ws v = None" using that(2) by (force simp: map_of_eq_None_iff)
    then show ?thesis using get [OF that(1)] by simp
  qed
qed

lemma evaluate_axioms_stable:
  assumes "well_stratified t" "comparisons_ok t" "has_logic_axioms t \<or> (\<forall>v < num_vars t. \<not> derived_var t v)" "buffer_ok t p b"
    "same_tables t ev" "ax_queue ev = []"
    "\<forall>v < num_vars t. g_axiom_layers t ! v = - 1 \<longrightarrow> packer_get p b v < g_variable_domain t ! v"
  shows "\<exists>ev' b'. evaluate_axioms t p ev b num = Inr (ev', b') \<and>
    same_tables t ev' \<and> ax_queue ev' = [] \<and> buffer_ok t p b' \<and>
    (\<forall>ax \<in> set (g_comp_axioms t). packer_get p b' (cax_affected ax) =
      (if compare_values (cax_op ax) (num ! cax_lhs ax) (num ! cax_rhs ax) then 0 else 1)) \<and>
    (\<forall>v < length (statespace_sizes t). \<not> (v < num_vars t \<and> derived_var t v) \<longrightarrow>
      v \<notin> cax_affected ` set (g_comp_axioms t) \<longrightarrow> packer_get p b' v = packer_get p b v) \<and>
    true_lits t p b' = horn (g_logic_axioms t) (assumed_lits t p b') \<and>
    (\<forall>v < num_vars t. packer_get p b' v < g_variable_domain t ! v)"
proof -
  let ?b = "evaluate_comparison_axioms t p b num"
  note cmp = comparison_axioms_evaluated [OF assms(1,2,4), where num = num]
  have b: "(if has_numeric_axioms t then ?b else b) = ?b"
    by (simp add: has_numeric_axioms_def evaluate_comparison_axioms_def)
  have given: "packer_get p ?b v < g_variable_domain t ! v" if v: "v < num_vars t" "\<not> derived_var t v" for v
  proof (cases "v \<in> cax_affected ` set (g_comp_axioms t)")
    case True
    then obtain ax where "ax \<in> set (g_comp_axioms t)" "v = cax_affected ax" by auto
    then show ?thesis using cmp(2) [of ax] comparison_admits(2) [OF assms(1,2), of v "comparison_value num ax" num] by auto
  next
    case False
    then have "g_axiom_layers t ! v = - 1" using assms(2) v unfolding comparisons_ok_def by blast
    then show ?thesis using cmp(3) [of v] False assms(7) v(1) sizes_domain(2) [of t] by simp
  qed
  have set: "comparisons_set t p ?b"
    unfolding comparisons_set_def
  proof (intro allI impI)
    fix v assume v: "v < num_vars t" "g_axiom_layers t ! v \<noteq> - 1" "\<not> derived_var t v"
    then obtain ax where ax: "ax \<in> set (g_comp_axioms t)" "v = cax_affected ax" and "g_default_axiom_values t ! v \<notin> {0, 1}"
      using assms(2) unfolding comparisons_ok_def by blast
    then show "packer_get p ?b v \<noteq> g_default_axiom_values t ! v"
      using cmp(2) [OF ax(1)] comparison_value_cases [of num ax] by auto
  qed
  have "\<exists>ev' b'. evaluate_axioms t p ev b num = Inr (ev', b') \<and>
    same_tables t ev' \<and> ax_queue ev' = [] \<and> buffer_ok t p b' \<and>
    (\<forall>v < length (statespace_sizes t). v < num_vars t \<and> derived_var t v \<or> packer_get p b' v = packer_get p ?b v) \<and>
    true_lits t p b' = horn (g_logic_axioms t) (assumed_lits t p b') \<and>
    (\<forall>v < num_vars t. packer_get p b' v < g_variable_domain t ! v)"
  proof (cases "has_logic_axioms t")
    case True
    then have "evaluate_axioms t p ev b num = evaluate_logic_axioms t p ev ?b"
      using b by (simp add: evaluate_axioms_def has_axioms_def Let_def)
    then show ?thesis
      using evaluate_logic_axioms_stable [OF assms(1) True assms(5,6) cmp(1) set] given by simp
  next
    case False
    then have axs: "g_logic_axioms t = []" by (simp add: has_logic_axioms_def)
    have base: "assumed_lits t p ?b = true_lits t p ?b"
      using assms(3) False by (auto simp: assumed_lits_def base_lits_def true_lits_def)
    have "horn [] N = N" for N
      by (auto elim: horn.cases intro: horn_base)
    moreover have "evaluate_axioms t p ev b num = Inr (ev, ?b)"
      using False b by (simp add: evaluate_axioms_def has_axioms_def Let_def)
        (simp add: evaluate_comparison_axioms_def has_numeric_axioms_def)
    ultimately show ?thesis
      using assms(3,5,6) False cmp(1) given axs base by simp
  qed
  then obtain ev' b' where r: "evaluate_axioms t p ev b num = Inr (ev', b')" "same_tables t ev'" "ax_queue ev' = []" "buffer_ok t p b'"
    and same: "\<forall>v < length (statespace_sizes t). v < num_vars t \<and> derived_var t v \<or> packer_get p b' v = packer_get p ?b v"
    and model: "true_lits t p b' = horn (g_logic_axioms t) (assumed_lits t p b')"
    and dom: "\<forall>v < num_vars t. packer_get p b' v < g_variable_domain t ! v"
    by blast
  have "packer_get p b' (cax_affected ax) =
      (if compare_values (cax_op ax) (num ! cax_lhs ax) (num ! cax_rhs ax) then 0 else 1)" if ax: "ax \<in> set (g_comp_axioms t)" for ax
  proof -
    have v: "cax_affected ax < num_vars t" "\<not> derived_var t (cax_affected ax)"
      using assms(2) ax by (simp_all add: comparisons_ok_def)
    then have "cax_affected ax < length (statespace_sizes t)" using sizes_domain(2) [of t] by simp
    then have "packer_get p b' (cax_affected ax) = packer_get p ?b (cax_affected ax)" using same v(2) by blast
    then show ?thesis using cmp(2) [OF ax] by (simp add: comparison_value_def)
  qed
  moreover have "packer_get p b' v = packer_get p b v"
    if "v < length (statespace_sizes t)" "\<not> (v < num_vars t \<and> derived_var t v)" "v \<notin> cax_affected ` set (g_comp_axioms t)" for v
    using same cmp(3) that by auto
  ultimately show ?thesis using r model dom by blast
qed

section \<open>Arithmetic axioms\<close>

text \<open>
  The axioms are ordered by layer: no axiom writes a variable that an axiom up to it reads, and
  no two write the same variable.
\<close>

fun layered :: "AssignmentAxiom list \<Rightarrow> bool" where
  "layered [] = True"
| "layered (ax # axs) \<longleftrightarrow> aax_affected ax \<noteq> aax_lhs ax \<and> aax_affected ax \<noteq> aax_rhs ax \<and>
    (\<forall>ax' \<in> set axs. aax_affected ax' \<notin> {aax_lhs ax, aax_rhs ax, aax_affected ax}) \<and> layered axs"

lemma arithmetic_frame:
  "v \<notin> aax_affected ` set axs \<Longrightarrow> foldl apply_assignment_axiom num axs ! v = num ! v"
  by (induction axs arbitrary: num) (auto simp: apply_assignment_axiom_def)

lemma arithmetic_length [simp]: "length (foldl apply_assignment_axiom num axs) = length num"
  by (induction axs arbitrary: num) (auto simp: apply_assignment_axiom_def)

lemma arithmetic_solves:
  assumes "layered axs" "\<forall>ax \<in> set axs. aax_affected ax < length num" "ax \<in> set axs"
  shows "foldl apply_assignment_axiom num axs ! aax_affected ax =
    calculate (aax_op ax) (foldl apply_assignment_axiom num axs ! aax_lhs ax) (foldl apply_assignment_axiom num axs ! aax_rhs ax)"
  using assms
proof (induction axs arbitrary: num)
  case (Cons a axs)
  have len: "length (apply_assignment_axiom num a) = length num" by (simp add: apply_assignment_axiom_def)
  show ?case
  proof (cases "ax \<in> set axs")
    case True
    then show ?thesis using Cons.IH [of "apply_assignment_axiom num a"] Cons.prems len by simp
  next
    case False
    then have "ax = a" using Cons.prems(3) by simp
    moreover have "aax_affected a \<notin> aax_affected ` set axs" "aax_lhs a \<notin> aax_affected ` set axs"
      "aax_rhs a \<notin> aax_affected ` set axs"
      using Cons.prems(1) by auto
    ultimately have "foldl apply_assignment_axiom num (a # axs) ! v = apply_assignment_axiom num a ! v"
      if "v \<in> {aax_affected a, aax_lhs a, aax_rhs a}" for v
      using that arithmetic_frame [of v axs "apply_assignment_axiom num a"] by auto
    then show ?thesis unfolding \<open>ax = a\<close> using Cons.prems(1,2)
      by (simp del: foldl_Cons) (simp add: apply_assignment_axiom_def)
  qed
qed simp

section \<open>Properties\<close>

text \<open>
  C29. On a task whose axioms are stratified (and that has no derived variables if it has no logic axioms), evaluation of all axioms never fails and leaves a
  state that is the stable model of the axioms: every comparison variable holds the result of its
  comparison, the given variables keep their values, and the facts that hold are exactly those
  that follow by the axioms from the given values and from the derived variables at their default.
\<close>

theorem axioms_stable_model:
  assumes "well_stratified t" "comparisons_ok t" "has_logic_axioms t \<or> (\<forall>v < num_vars t. \<not> derived_var t v)" "buffer_ok t p b"
    "same_tables t ev" "ax_queue ev = []"
    "\<forall>v < num_vars t. g_axiom_layers t ! v = - 1 \<longrightarrow> packer_get p b v < g_variable_domain t ! v"
  shows "\<exists>ev' b'. evaluate_axioms t p ev b num = Inr (ev', b') \<and>
    same_tables t ev' \<and> ax_queue ev' = [] \<and> buffer_ok t p b' \<and>
    (\<forall>ax \<in> set (g_comp_axioms t). packer_get p b' (cax_affected ax) =
      (if compare_values (cax_op ax) (num ! cax_lhs ax) (num ! cax_rhs ax) then 0 else 1)) \<and>
    (\<forall>v < length (statespace_sizes t). \<not> (v < num_vars t \<and> derived_var t v) \<longrightarrow>
      v \<notin> cax_affected ` set (g_comp_axioms t) \<longrightarrow> packer_get p b' v = packer_get p b v) \<and>
    true_lits t p b' = horn (g_logic_axioms t) (assumed_lits t p b')"
  using evaluate_axioms_stable [OF assms, of num] by blast

text \<open>A task with one axiom: variable 2 becomes 0 when variable 0 is 0 and the comparison holds.\<close>

definition demo_task :: task where
  "demo_task = \<lparr>g_use_metric = False, g_metric_minimizes = True, g_metric_fluent_id = - 1,
    g_min_action_cost = ap_of_int 1, g_max_action_cost = ap_of_int 1,
    g_variable_name = [''a'', ''b'', ''c''], g_variable_domain = [2, 3, 2],
    g_fact_names = [[''a0'', ''a1''], [''b0'', ''b1'', ''b2''], [''c0'', ''c1'']],
    g_axiom_layers = [- 1, 0, 1], g_default_axiom_values = [0, 2, 1],
    g_numeric_axiom_layers = [- 1, - 1], g_numeric_var_names = [''x'', ''y''],
    g_numeric_var_types = [num_regular, num_regular],
    g_inconsistent_facts = [[{}, {}], [{}, {}, {}], [{}, {}]], g_mutex_group = [],
    g_initial_state_data = [0, 2, 1], g_initial_state_numeric = [ap_of_int 1, ap_of_int 2],
    g_init_constant_facts = [], g_goal = [(2, 0)], g_operators = [],
    g_logic_axioms = [\<lparr>pax_affected = 2, pax_layer = - 1,
      pax_conditions = [\<lparr>cond_var = 0, cond_val = 0\<rparr>, \<lparr>cond_var = 1, cond_val = 0\<rparr>],
      pax_effects = [\<lparr>eff_var = 2, eff_val = 0, eff_conditions = []\<rparr>]\<rparr>],
    g_axioms_as_operator = [], g_comp_axioms = [\<lparr>cax_affected = 1, cax_lhs = 0, cax_rhs = 1, cax_op = comp_lt\<rparr>],
    g_ass_axioms = [], g_global_constraint_var_id = 0, g_global_constraint_val = 0,
    g_last_arithmetic_axiom_layer = - 1\<rparr>"

lemma demo_comparison_layer: "g_comparison_axiom_layer (AxiomEvaluator_make demo_task) = 0"
  by (simp add: AxiomEvaluator_make_def demo_task_def logic_layer_bounds_def note_axiom_layer_def)

lemma demo_derived: "derived_var demo_task v \<longleftrightarrow> g_axiom_layers demo_task ! v \<noteq> - 1 \<and> g_axiom_layers demo_task ! v \<noteq> 0"
  by (simp add: derived_var_def demo_comparison_layer)

lemma demo_ok: "well_stratified demo_task" "comparisons_ok demo_task" "has_logic_axioms demo_task"
  "statespace_sizes demo_task = [2, 3, 2, - 1, - 1]"
proof -
  show "well_stratified demo_task"
    unfolding well_stratified_def axiom_ok_def demo_derived by (simp add: demo_task_def cond_lits_def head_val_def All_less_Suc word_less_nat_alt)
  show "comparisons_ok demo_task"
    unfolding comparisons_ok_def demo_derived by (simp add: demo_task_def All_less_Suc word_less_nat_alt)
  show "has_logic_axioms demo_task" "statespace_sizes demo_task = [2, 3, 2, - 1, - 1]"
    by (simp_all add: demo_task_def has_logic_axioms_def statespace_sizes_def Let_def)
qed

lemma demo_packing: "\<exists>p. pack_bins [2, 3, 2, - 1, - 1] = Some p"
  using pack_bins_returns [of "[2, 3, 2, - 1, - 1]"]
  by (simp add: get_bit_size_for_range_def bit_size_from.simps BITS_PER_BIN_def)

lemma packer_get_zero:
  assumes "pack_bins ranges = Some p" "v < length ranges"
  shows "packer_get p (replicate (num_bins p) 0) v = 0"
proof -
  have "nat (vi_bin_index (var_infos p ! v)) < num_bins p"
    using packed_info_ok(1) [OF assms] by (auto simp: info_ok_def)
  then show ?thesis by (simp add: packer_get_def VariableInfo_get_def)
qed

theorem axioms_stable_model_witness:
  "\<exists>p ev b. evaluate_axioms demo_task p (AxiomEvaluator_make demo_task) (replicate (num_bins p) 0) [ap_of_int 1, ap_of_int 2] =
     Inr (ev, b) \<and> packer_get p b 2 = 0"
proof -
  obtain p where p: "pack_bins (statespace_sizes demo_task) = Some p" using demo_packing demo_ok(4) by auto
  let ?b = "replicate (num_bins p) 0" and ?num = "[ap_of_int 1, ap_of_int 2]"
  have zero: "packer_get p ?b v = 0" if "v < 5" for v
    using packer_get_zero [OF p, of v] that demo_ok(4) by simp
  let ?ev = "AxiomEvaluator_make demo_task" and ?ax = "\<lparr>cax_affected = 1, cax_lhs = 0, cax_rhs = 1, cax_op = comp_lt\<rparr>"
  have small: "num_vars demo_task = 3" "g_comp_axioms demo_task = [?ax]" "g_axiom_layers demo_task = [- 1, 0, 1]"
    "g_variable_domain demo_task = [2, 3, 2]"
    by (simp_all add: demo_task_def)
  have queue: "ax_queue ?ev = []" by (simp add: AxiomEvaluator_make_def Let_def split: prod.splits)
  have given: "\<forall>v < num_vars demo_task. g_axiom_layers demo_task ! v = - 1 \<longrightarrow> packer_get p ?b v < g_variable_domain demo_task ! v"
    using zero by (simp add: small numeral_3_eq_3 All_less_Suc word_less_nat_alt)
  have ok: "buffer_ok demo_task p ?b" using p by (simp add: buffer_ok_def)
  obtain ev b where r: "evaluate_axioms demo_task p ?ev ?b ?num = Inr (ev, b)"
    and cmp: "\<forall>ax \<in> set (g_comp_axioms demo_task). packer_get p b (cax_affected ax) =
      (if compare_values (cax_op ax) (?num ! cax_lhs ax) (?num ! cax_rhs ax) then 0 else 1)"
    and same: "\<forall>v < length (statespace_sizes demo_task). \<not> (v < num_vars demo_task \<and> derived_var demo_task v) \<longrightarrow>
      v \<notin> cax_affected ` set (g_comp_axioms demo_task) \<longrightarrow> packer_get p b v = packer_get p ?b v"
    and model: "true_lits demo_task p b = horn (g_logic_axioms demo_task) (assumed_lits demo_task p b)"
    using axioms_stable_model [OF demo_ok(1,2) disjI1 [OF demo_ok(3)] ok same_tables_make queue given, of ?num] by blast
  have "ap_lt (ap_of_int 1) (ap_of_int 2)" by (simp add: ap_lt_def decode_ap_of_int)
  then have "packer_get p b 1 = 0" using bspec [OF cmp, of ?ax] by (simp add: small(2))
  moreover have "packer_get p b 0 = 0"
    using spec [OF same, of 0] zero [of 0] by (simp add: small demo_ok(4) demo_derived)
  ultimately have "(0, 0) \<in> true_lits demo_task p b" "(1, 0) \<in> true_lits demo_task p b"
    by (simp_all add: true_lits_def small word_less_nat_alt)
  then have "(2, 0) \<in> horn (g_logic_axioms demo_task) (assumed_lits demo_task p b)"
    unfolding model using horn_step [of "g_logic_axioms demo_task ! 0" "g_logic_axioms demo_task" "assumed_lits demo_task p b"]
    by (auto simp: demo_task_def cond_lits_def head_val_def)
  then show ?thesis using r unfolding model [symmetric] by (auto simp: true_lits_def)
qed

text \<open>
  C30. After the arithmetic axioms have been evaluated in layer order every one of them holds as
  an equation, the variables no axiom writes are unchanged, and evaluating again changes nothing.
\<close>

theorem arithmetic_axioms_hold:
  assumes "layered (g_ass_axioms t)" "\<forall>ax \<in> set (g_ass_axioms t). aax_affected ax < length num"
  shows "(\<forall>ax \<in> set (g_ass_axioms t). evaluate_arithmetic_axioms t num ! aax_affected ax =
      calculate (aax_op ax) (evaluate_arithmetic_axioms t num ! aax_lhs ax) (evaluate_arithmetic_axioms t num ! aax_rhs ax)) \<and>
    (\<forall>v. v \<notin> aax_affected ` set (g_ass_axioms t) \<longrightarrow> evaluate_arithmetic_axioms t num ! v = num ! v) \<and>
    evaluate_arithmetic_axioms t (evaluate_arithmetic_axioms t num) = evaluate_arithmetic_axioms t num"
proof (intro conjI ballI allI impI)
  show "evaluate_arithmetic_axioms t num ! aax_affected ax =
      calculate (aax_op ax) (evaluate_arithmetic_axioms t num ! aax_lhs ax) (evaluate_arithmetic_axioms t num ! aax_rhs ax)"
    if "ax \<in> set (g_ass_axioms t)" for ax
    using arithmetic_solves [OF assms that] by (simp add: evaluate_arithmetic_axioms_def)
  show "evaluate_arithmetic_axioms t num ! v = num ! v" if "v \<notin> aax_affected ` set (g_ass_axioms t)" for v
    using arithmetic_frame [OF that] by (simp add: evaluate_arithmetic_axioms_def)
  have "foldl apply_assignment_axiom num' axs = num'"
    if "\<forall>ax \<in> set axs. num' ! aax_affected ax = calculate (aax_op ax) (num' ! aax_lhs ax) (num' ! aax_rhs ax)" for axs num'
    using that by (induction axs) (simp_all add: apply_assignment_axiom_def flip: list_update_id, metis list_update_id)
  then show "evaluate_arithmetic_axioms t (evaluate_arithmetic_axioms t num) = evaluate_arithmetic_axioms t num"
    using arithmetic_solves [OF assms] by (simp add: evaluate_arithmetic_axioms_def)
qed

theorem arithmetic_axioms_hold_witness:
  "let t = demo_task\<lparr>g_ass_axioms := [\<lparr>aax_affected = 2, aax_lhs = 0, aax_rhs = 1, aax_op = cal_sum\<rparr>,
      \<lparr>aax_affected = 3, aax_lhs = 2, aax_rhs = 0, aax_op = cal_mult\<rparr>]\<rparr>;
    num = evaluate_arithmetic_axioms t [ap_of_int 2, ap_of_int 3, ap_zero False, ap_zero False]
   in num ! 3 = ap_mul (num ! 2) (num ! 0)"
  using arithmetic_axioms_hold [of "demo_task\<lparr>g_ass_axioms := [\<lparr>aax_affected = 2, aax_lhs = 0, aax_rhs = 1, aax_op = cal_sum\<rparr>,
      \<lparr>aax_affected = 3, aax_lhs = 2, aax_rhs = 0, aax_op = cal_mult\<rparr>]\<rparr>" "[ap_of_int 2, ap_of_int 3, ap_zero False, ap_zero False]"]
  by (simp add: Let_def)

text \<open>
  The inverse of a comparison is its negation and the mirrored comparison has the same result
  on exchanged arguments, for all numbers that are not NaN; with a NaN the inverse is not the
  negation.
\<close>

theorem comparison_operator_tables:
  "compare_values (get_mirror_op cmp) y x = compare_values cmp x y \<and>
   get_mirror_op (get_mirror_op cmp) = cmp \<and> get_inverse_op (get_inverse_op cmp) = cmp \<and>
   (if decode x = NaN \<or> decode y = NaN
    then compare_values (get_inverse_op cmp) x y = compare_values cmp x y \<or> cmp \<in> {comp_eq, comp_ue}
    else compare_values (get_inverse_op cmp) x y = (\<not> compare_values cmp x y))"
proof -
  have total: "lt_values a b \<or> a = b \<or> lt_values b a" if "a \<noteq> NaN" "b \<noteq> NaN" for a b
    using lt_values_total that .
  have nan: "\<not> lt_values a NaN" for a by (cases a) simp_all
  show ?thesis
    using total [of "decode x" "decode y"] ap_lt_asym [of x y]
    by (cases cmp) (auto simp: ap_lt_def ap_le_def ap_eq_def nan)
qed

end
