(* ===== verification/Registry_Laws.thy ===== *)
theory Registry_Laws
  imports State_Registry Axiom_Properties
begin

text \<open>
  Laws of the state registry: the pool never holds two equal states and only grows, and the
  successor of a state is the state its operator describes.
\<close>

section \<open>Evaluation keeps the length of a buffer\<close>

named_theorems buffer_length \<open>operations that keep the length of a buffer\<close>

lemma length_packer_set [buffer_length]: "length (packer_set p b v x) = length b"
  by (simp add: packer_set_def VariableInfo_set_def)

lemma length_packer_setDouble [buffer_length]: "length (packer_setDouble p b v x) = length b"
  by (simp add: packer_setDouble_def VariableInfo_set_def)

lemma length_foldl [buffer_length]: "(\<And>b x. length (f b x) = length b) \<Longrightarrow> length (foldl f b xs) = length b"
  by (induction xs arbitrary: b) simp_all

lemma fold_snd_length:
  "(\<And>x s. length (snd (f x s)) = length (snd s)) \<Longrightarrow> length (snd (fold f xs s)) = length (snd s)"
  by (induction xs arbitrary: s) simp_all

lemma length_trigger_rule [buffer_length]: "length (snd (trigger_rule p r s)) = length (snd s)"
  by (cases s) (simp add: trigger_rule_def Let_def buffer_length)

lemma length_horn_loop [buffer_length]: "length (snd (horn_loop p s)) = length (snd s)"
proof (induction p s rule: horn_loop.induct)
  case (1 p s)
  have "length (snd (satisfy_condition p i s)) = length (snd s)" for i s
    by (simp add: satisfy_condition_def Let_def buffer_length)
  then have "length (snd (pop_literal p s)) = length (snd s)" by (simp add: pop_literal_def Let_def fold_snd_length)
  then show ?case using 1 by (simp add: horn_loop.simps [of p s])
qed

lemma length_evaluate_layer [buffer_length]: "length (snd (evaluate_layer t p k s)) = length (snd s)"
proof -
  have "length (snd (apply_nbf t p info s)) = length (snd s)" for info s by (cases s) (simp add: apply_nbf_def Let_def)
  then show ?thesis by (simp add: evaluate_layer_def Let_def fold_snd_length buffer_length)
qed

lemma length_seed_variables: "seed_variables t p vs s = Inr s' \<Longrightarrow> length (snd s') = length (snd s)"
proof (induction vs arbitrary: s)
  case (Cons v vs)
  have "seed_variable t p v s = Inr s1 \<Longrightarrow> length (snd s1) = length (snd s)" for s1
    by (cases s) (auto simp: seed_variable_def Let_def buffer_length split: if_splits)
  then show ?case using Cons by (auto simp: result_iff)
qed simp

lemma length_evaluate_axioms: "evaluate_axioms t p ev b num = Inr (ev', b') \<Longrightarrow> length b' = length b"
proof -
  assume eval: "evaluate_axioms t p ev b num = Inr (ev', b')"
  let ?b = "if has_numeric_axioms t then evaluate_comparison_axioms t p b num else b"
  have b: "length ?b = length b" by (simp add: evaluate_comparison_axioms_def buffer_length)
  have reset: "length (snd (reset_rule p i s)) = length (snd s)" for i s by (simp add: reset_rule_def Let_def buffer_length)
  have "length b' = length ?b" if logic: "evaluate_logic_axioms t p ev ?b = Inr (ev', b')"
  proof (cases "has_logic_axioms t")
    case True
    then obtain s where s: "seed_variables t p [0..<length (g_axiom_layers t)] (ev, ?b) = Inr s"
      and r: "fold (evaluate_layer t p) [0..<length (nbf_info_by_layer ev)] (fold (reset_rule p) [0..<length (rules ev)] s) = (ev', b')"
      using logic by (auto simp: evaluate_logic_axioms_def result_iff simp del: seed_variables.simps)
    have "length (snd (ev', b')) = length (snd s)"
      unfolding r [symmetric] by (simp only: fold_snd_length [of "evaluate_layer t p", OF length_evaluate_layer]
        fold_snd_length [of "reset_rule p", OF reset])
    then show ?thesis using length_seed_variables [OF s] by simp
  qed (use logic in \<open>simp add: evaluate_logic_axioms_def\<close>)
  then show "length b' = length b"
    using eval b by (auto simp: evaluate_axioms_def Let_def split: if_splits)
qed

section \<open>The registry\<close>

definition registry_inv :: "world \<Rightarrow> bool" where
  "registry_inv w \<longleftrightarrow> (let r = w_registry w; pool = state_data_pool r in
    pack_bins (statespace_sizes (w_task w)) = Some (w_packer w) \<and>
    (\<forall>b \<in> set pool. length b = num_bins (w_packer w)) \<and> distinct pool \<and>
    distinct (registered_states r) \<and> set (registered_states r) = {..<length pool} \<and>
    (\<forall>i. cached_initial_state r = Some i \<longrightarrow> i < length pool))"

lemma registry_invD:
  assumes "registry_inv w"
  shows "pack_bins (statespace_sizes (w_task w)) = Some (w_packer w)" "distinct (state_data_pool (w_registry w))"
    "registry_size w = length (state_data_pool (w_registry w))"
    "i < registry_size w \<Longrightarrow> buffer_ok (w_task w) (w_packer w) (packed_buffer w i)"
proof -
  have "distinct (registered_states (w_registry w))"
    "set (registered_states (w_registry w)) = {..<length (state_data_pool (w_registry w))}"
    using assms by (simp_all add: registry_inv_def Let_def)
  from distinct_card [OF this(1)] this(2) show size: "registry_size w = length (state_data_pool (w_registry w))"
    by (simp add: registry_size_def)
  show "pack_bins (statespace_sizes (w_task w)) = Some (w_packer w)" "distinct (state_data_pool (w_registry w))"
    "i < registry_size w \<Longrightarrow> buffer_ok (w_task w) (w_packer w) (packed_buffer w i)"
    using assms size by (simp_all add: registry_inv_def Let_def buffer_ok_def packed_buffer_def)
qed

text \<open>Inserting a packed state at the end of the pool finds it there or adds it.\<close>

lemma insert_id_or_pop_state_cases:
  assumes "set (registered_states r) = {..<length pool}" "distinct pool"
    "state_data_pool r = pool" "add_state r b = (i, r')"
  shows "state_data_pool r' = (if b \<in> set pool then pool else pool @ [b])"
    "registered_states r' = (if b \<in> set pool then registered_states r else length pool # registered_states r)"
    "i < length (state_data_pool r')" "state_data_pool r' ! i = b"
    "r' = r\<lparr>state_data_pool := state_data_pool r', registered_states := registered_states r'\<rparr>"
proof -
  have same: "find (\<lambda>j. (pool @ [b]) ! j = (pool @ [b]) ! length pool) (registered_states r) =
      find (\<lambda>j. pool ! j = b) (registered_states r)"
    using assms(1) by (intro find_cong) (auto simp: nth_append)
  have "state_data_pool r' = (if b \<in> set pool then pool else pool @ [b]) \<and>
    registered_states r' = (if b \<in> set pool then registered_states r else length pool # registered_states r) \<and>
    i < length (state_data_pool r') \<and> state_data_pool r' ! i = b \<and>
    r' = r\<lparr>state_data_pool := state_data_pool r', registered_states := registered_states r'\<rparr>"
  proof (cases "find (\<lambda>j. pool ! j = b) (registered_states r)")
    case None
    then have "b \<notin> set pool" using assms(1) by (auto simp: find_None_iff in_set_conv_nth)
    then show ?thesis using assms(3,4) None same by (auto simp: add_state_def insert_id_or_pop_state_def Let_def)
  next
    case (Some j)
    then have "j \<in> set (registered_states r)" "pool ! j = b" by (auto simp: find_Some_iff)
    then have "j < length pool" "pool ! j = b" using assms(1) by simp_all
    then show ?thesis using assms(3,4) Some same by (auto simp: add_state_def insert_id_or_pop_state_def Let_def)
  qed
  then show "state_data_pool r' = (if b \<in> set pool then pool else pool @ [b])"
    "registered_states r' = (if b \<in> set pool then registered_states r else length pool # registered_states r)"
    "i < length (state_data_pool r')" "state_data_pool r' ! i = b"
    "r' = r\<lparr>state_data_pool := state_data_pool r', registered_states := registered_states r'\<rparr>"
    by blast+
qed

text \<open>What one registration does to a world with registry invariant.\<close>

definition registers :: "world \<Rightarrow> container_int list \<Rightarrow> nat \<Rightarrow> world \<Rightarrow> bool" where
  "registers w b i w' \<longleftrightarrow> registry_inv w' \<and> i < registry_size w' \<and> packed_buffer w' i = b \<and>
    state_data_pool (w_registry w') =
      (if b \<in> set (state_data_pool (w_registry w)) then state_data_pool (w_registry w)
       else state_data_pool (w_registry w) @ [b])"

lemma add_state_registers:
  assumes inv: "registry_inv w" and b: "length b = num_bins (w_packer w)"
    and ins: "add_state r b = (i, r')"
    and r: "registered_states r = registered_states (w_registry w)" "state_data_pool r = state_data_pool (w_registry w)"
      "cached_initial_state r = cached_initial_state (w_registry w)"
    and w': "state_data_pool (w_registry w') = state_data_pool r'" "registered_states (w_registry w') = registered_states r'"
      "cached_initial_state (w_registry w') \<in> {cached_initial_state r', Some i}"
      "statespace_sizes (w_task w') = statespace_sizes (w_task w)" "w_packer w' = w_packer w"
  shows "registers w b i w'"
proof -
  let ?pool = "state_data_pool (w_registry w)"
  have reg: "set (registered_states r) = {..<length ?pool}" and dist: "distinct ?pool"
    using inv r(1) by (simp_all add: registry_inv_def Let_def)
  note c = insert_id_or_pop_state_cases [OF reg dist r(2) ins]
  have "cached_initial_state r' = cached_initial_state r" using arg_cong [OF c(5), of cached_initial_state] by simp
  then have cached: "\<forall>j. cached_initial_state (w_registry w') = Some j \<longrightarrow> j < length (state_data_pool r')"
    using inv w'(3) c(1,3) r(3) by (fastforce simp: registry_inv_def Let_def)
  have inv': "registry_inv w'"
    using inv b c(1,2) r(1) w' cached by (auto simp: registry_inv_def Let_def)
  then show ?thesis
    using c(1,3,4) w'(1) by (simp add: registers_def registry_invD(3) packed_buffer_def)
qed

lemma set_cost_information_simps [simp]:
  "w_registry (set_cost_information i x w) = w_registry w" "w_task (set_cost_information i x w) = w_task w"
  "w_packer (set_cost_information i x w) = w_packer w" "w_axioms (set_cost_information i x w) = w_axioms w"
  by (simp_all add: set_cost_information_def)

lemma keep_metric_simps [simp]:
  "w_registry (keep_metric m i x y a b w) = w_registry w" "w_task (keep_metric m i x y a b w) = w_task w"
  "w_packer (keep_metric m i x y a b w) = w_packer w" "w_axioms (keep_metric m i x y a b w) = w_axioms w"
  by (simp_all add: keep_metric_def Let_def)

lemma statespace_sizes_initial [simp]: "statespace_sizes (t\<lparr>g_initial_state_numeric := n\<rparr>) = statespace_sizes t"
  by (simp add: statespace_sizes_def)

lemma length_set_values [simp]: "length (set_values p vals) = num_bins p"
  unfolding set_values_def by (subst length_foldl) (auto simp: buffer_length)

lemma store_buffer_length:
  "length (ns_buffer (store_initial_var t p vals i s)) = length (ns_buffer s)"
  "length (ns_buffer (store_registered_var t p vals i s)) = length (ns_buffer s)"
  by (simp_all add: store_initial_var_def store_registered_var_def store_regular_def store_instrumentation_def
      store_constant_def buffer_length split: numType.splits)

lemma fold_buffer_length:
  "length (ns_buffer (fold (store_initial_var t p vals) vs s)) = length (ns_buffer s)"
  "length (ns_buffer (fold (store_registered_var t p vals) vs s)) = length (ns_buffer s)"
  by (induction vs arbitrary: s) (simp_all add: store_buffer_length)

lemma length_successor_buffer:
  assumes "get_numeric_successor_packed t p ev r vals metric oper b prev = Inr (x, ev', b')"
  shows "length b' = length b"
proof -
  have step: "length (snd (apply_assign_effect_packed t p r prev s e)) = length (snd s)" for s e
    by (simp add: apply_assign_effect_packed_def Let_def buffer_length)
  have "length (snd (foldl (apply_assign_effect_packed t p r prev) s es)) = length (snd s)" for s es
    by (induction es arbitrary: s) (simp_all add: step)
  from this [of "((vals, metric), b)" "assign_effects oper"] show ?thesis
    using assms by (auto simp: get_numeric_successor_packed_def Let_def result_iff dest!: length_evaluate_axioms)
qed

lemma length_apply_effects [buffer_length]: "length (apply_effects p f b es) = length b"
  unfolding apply_effects_def by (rule length_foldl) (simp add: buffer_length)

text \<open>Every operation that returns a state has registered exactly one packed state.\<close>

lemma get_initial_state_registers:
  assumes "registry_inv w" "get_initial_state w = Inr (i, w')"
  shows "\<exists>b. registers w b i w'"
proof (cases "cached_initial_state (w_registry w)")
  case (Some j)
  then have "j < length (state_data_pool (w_registry w))" "i = j" "w' = w"
    using assms by (auto simp: registry_inv_def Let_def get_initial_state_def)
  then show ?thesis using assms(1) registry_invD(3) [OF assms(1)] by (auto simp: registers_def packed_buffer_def)
next
  case None
  let ?t = "w_task w" and ?p = "w_packer w"
  let ?s = "initial_store ?t ?p (w_registry w)" and ?num = "evaluate_arithmetic_axioms ?t (g_initial_state_numeric ?t)"
  let ?r = "(w_registry w)\<lparr>numeric_indices := ns_indices ?s, numeric_constants := ns_constants ?s\<rparr>"
  obtain res where eval: "evaluate_axioms ?t ?p (w_axioms w) (ns_buffer ?s) ?num = Inr res"
    and i: "i = fst (add_state ?r (snd res))" and w': "w_registry w' = (snd (add_state ?r (snd res)))\<lparr>cached_initial_state := Some i\<rparr>"
      "statespace_sizes (w_task w') = statespace_sizes ?t" "w_packer w' = ?p"
    using assms(2) None by (auto simp: get_initial_state_def Let_def result_iff)
  have "length (snd res) = num_bins ?p"
    using length_evaluate_axioms [of ?t ?p "w_axioms w" "ns_buffer ?s" ?num "fst res" "snd res"] eval
    by (simp add: initial_store_def Let_def fold_buffer_length)
  from add_state_registers [OF assms(1) this, of ?r i "snd (add_state ?r (snd res))" w']
  have "registers w (snd res) i w'" using i w' by (simp add: prod_eq_iff)
  then show ?thesis ..
qed

lemma get_successor_state_registers:
  assumes "registry_inv w" "s < registry_size w" "get_successor_state w s oper = Inr (i, w')"
  shows "\<exists>b. registers w b i w'"
proof -
  let ?t = "w_task w" and ?p = "w_packer w" and ?r = "w_registry w"
  let ?b0 = "apply_effects ?p (state_value w s) (packed_buffer w s) (op_effects oper)"
  obtain res where
    eval: "get_numeric_successor_packed ?t ?p (w_axioms w) ?r (get_numeric_vars w s) (cost_information w s) oper ?b0 (packed_buffer w s) = Inr res"
    and i: "i = fst (add_state ?r (snd (snd res)))" and w': "w_registry w' = snd (add_state ?r (snd (snd res)))" "w_task w' = ?t" "w_packer w' = ?p"
    using assms(3) by (auto simp: get_successor_state_def Let_def result_iff split: if_split_asm)
  have "length (snd (snd res)) = num_bins ?p"
    using length_successor_buffer [of _ _ _ _ _ _ _ _ _ "fst res" "fst (snd res)" "snd (snd res)"] eval registry_invD(4) [OF assms(1,2)]
    by (simp add: buffer_length buffer_ok_def)
  from add_state_registers [OF assms(1) this, of ?r i "snd (add_state ?r (snd (snd res)))" w']
  have "registers w (snd (snd res)) i w'" using i w' by (simp add: prod_eq_iff)
  then show ?thesis ..
qed

lemma register_state_registers:
  assumes "registry_inv w" "register_state w vals num = Inr (i, w')"
  shows "\<exists>b. registers w b i w'"
proof -
  let ?t = "w_task w" and ?p = "w_packer w"
  let ?s = "registered_store ?t ?p (w_registry w) vals num" and ?num = "evaluate_arithmetic_axioms ?t num"
  let ?r = "(w_registry w)\<lparr>numeric_indices := ns_indices ?s\<rparr>"
  obtain res where eval: "evaluate_axioms ?t ?p (w_axioms w) (ns_buffer ?s) ?num = Inr res"
    and i: "i = fst (add_state ?r (snd res))" and w': "w_registry w' = snd (add_state ?r (snd res))" "w_task w' = ?t" "w_packer w' = ?p"
    using assms(2) by (auto simp: register_state_def Let_def result_iff split: if_split_asm)
  have "length (snd res) = num_bins ?p"
    using length_evaluate_axioms [of ?t ?p "w_axioms w" "ns_buffer ?s" ?num "fst res" "snd res"] eval
    by (simp add: registered_store_def fold_buffer_length)
  from add_state_registers [OF assms(1) this, of ?r i "snd (add_state ?r (snd res))" w']
  have "registers w (snd res) i w'" using i w' by (simp add: prod_eq_iff)
  then show ?thesis ..
qed

end
