(* ===== verification/Registry_Numeric.thy ===== *)
theory Registry_Numeric
  imports Registry_Laws
begin

text \<open>
  The numeric part of a registered state: where the variables are stored, what is read back, and
  how the assignment effects of an operator change it.
\<close>

section \<open>Well-formed numeric tasks and the layout of their variables\<close>

abbreviation num_numeric :: "task \<Rightarrow> nat" where
  "num_numeric t \<equiv> length (g_numeric_var_types t)"

abbreviation var_type :: "task \<Rightarrow> nat \<Rightarrow> numType" where
  "var_type t k \<equiv> g_numeric_var_types t ! k"

definition numeric_task_ok :: "task \<Rightarrow> bool" where
  "numeric_task_ok t \<longleftrightarrow>
    length (g_numeric_var_names t) = num_numeric t \<and> length (g_initial_state_numeric t) = num_numeric t \<and>
    length (g_initial_state_data t) = num_vars t \<and> num_unknown \<notin> set (g_numeric_var_types t) \<and>
    (\<forall>ax \<in> set (g_ass_axioms t). aax_affected ax < num_numeric t \<and> var_type t (aax_affected ax) = num_derived)"

definition type_rank :: "task \<Rightarrow> numType \<Rightarrow> nat \<Rightarrow> nat" where
  "type_rank t ty k = length (filter (\<lambda>j. var_type t j = ty) [0..<k])"

definition slot_index :: "task \<Rightarrow> nat \<Rightarrow> int" where
  "slot_index t k = (case var_type t k of
     num_regular \<Rightarrow> int (num_vars t + type_rank t num_regular k)
   | num_instrumentation \<Rightarrow> int (type_rank t num_instrumentation k)
   | num_constant \<Rightarrow> int (type_rank t num_constant k)
   | _ \<Rightarrow> - 1)"

definition layout_ok :: "task \<Rightarrow> StateRegistry \<Rightarrow> bool" where
  "layout_ok t r \<longleftrightarrow> (\<forall>k < num_numeric t. numeric_indices r ! k = slot_index t k)"

lemma type_rank_Suc: "type_rank t ty (Suc k) = type_rank t ty k + (if var_type t k = ty then 1 else 0)"
  by (simp add: type_rank_def)

lemma type_rank_mono: "j \<le> k \<Longrightarrow> type_rank t ty j \<le> type_rank t ty k"
  by (induction k) (auto simp: type_rank_Suc le_Suc_eq)

lemma type_rank_less: "j < k \<Longrightarrow> var_type t j = ty \<Longrightarrow> type_rank t ty j < type_rank t ty k"
  using type_rank_mono [of "Suc j" k t ty] by (simp add: type_rank_Suc)

lemma type_rank_inj: "var_type t j = ty \<Longrightarrow> var_type t k = ty \<Longrightarrow> type_rank t ty j = type_rank t ty k \<longleftrightarrow> j = k"
  using type_rank_less [of j k t ty] type_rank_less [of k j t ty] by (cases j k rule: linorder_cases) auto

lemma type_rank_all: "type_rank t ty (num_numeric t) = length (filter (\<lambda>x. x = ty) (g_numeric_var_types t))"
proof -
  have "filter (\<lambda>x. x = ty) (map (\<lambda>j. var_type t j) [0..<num_numeric t]) =
      map (\<lambda>j. var_type t j) (filter (\<lambda>j. var_type t j = ty) [0..<num_numeric t])"
    by (simp add: filter_map comp_def)
  then show ?thesis by (simp add: map_nth type_rank_def)
qed

lemma types_partition:
  "length (filter (\<lambda>x. x = num_regular) xs) + length (filter (\<lambda>x. x = num_constant) xs) +
    length (filter (\<lambda>x. x = num_instrumentation) xs) \<le> length xs"
  by (induction xs) auto

lemma regular_slot:
  assumes "numeric_task_ok t" "k < num_numeric t" "var_type t k = num_regular"
  shows "num_vars t + type_rank t num_regular k < length (statespace_sizes t)"
    "statespace_sizes t ! (num_vars t + type_rank t num_regular k) = - 1"
proof -
  have "type_rank t num_regular k < length (filter (\<lambda>x. x = num_regular) (g_numeric_var_types t))"
    using type_rank_less [OF assms(2,3)] type_rank_all by simp
  then have "type_rank t num_regular k < length (g_numeric_var_names t) -
      length (filter (\<lambda>x. x = num_constant) (g_numeric_var_types t)) -
      length (filter (\<lambda>x. x = num_instrumentation) (g_numeric_var_types t))"
    using types_partition [of "g_numeric_var_types t"] assms(1) by (simp add: numeric_task_ok_def)
  then show "num_vars t + type_rank t num_regular k < length (statespace_sizes t)"
    "statespace_sizes t ! (num_vars t + type_rank t num_regular k) = - 1"
    by (simp_all add: statespace_sizes_def Let_def nth_append)
qed

text \<open>The field of a regular variable.\<close>

definition slot :: "task \<Rightarrow> nat \<Rightarrow> nat" where "slot t k = num_vars t + type_rank t num_regular k"

lemma layout_slot:
  "layout_ok t r \<Longrightarrow> k < num_numeric t \<Longrightarrow> var_type t k = num_regular \<Longrightarrow> nat (numeric_indices r ! k) = slot t k"
  by (simp add: layout_ok_def slot_index_def slot_def)

lemma slot_inj: "var_type t j = num_regular \<Longrightarrow> var_type t k = num_regular \<Longrightarrow> slot t j = slot t k \<longleftrightarrow> j = k"
  by (simp add: slot_def type_rank_inj)

lemma buffer_setDouble:
  assumes "numeric_task_ok t" "buffer_ok t p b" "k < num_numeric t" "var_type t k = num_regular"
  shows "buffer_ok t p (packer_setDouble p b (slot t k) x)"
    and "packer_getDouble p (packer_setDouble p b (slot t k) x) (slot t k) = x"
    and "w < length (statespace_sizes t) \<Longrightarrow> w \<noteq> slot t k \<Longrightarrow>
      packer_get p (packer_setDouble p b (slot t k) x) w = packer_get p b w"
proof -
  have adm: "slot t k < length (statespace_sizes t) \<and> in_domain (statespace_sizes t ! slot t k) (packDouble x)"
    using regular_slot [OF assms(1,3,4)] by (simp add: slot_def in_domain_def)
  have eq: "packer_setDouble p b (slot t k) x = packer_set p b (slot t k) (packDouble x)"
    by (simp add: packer_setDouble_def packer_set_def)
  note ok = assms(2) [unfolded buffer_ok_def]
  show "buffer_ok t p (packer_setDouble p b (slot t k) x)"
    unfolding buffer_ok_def eq by (rule packed.valid_put [OF ok adm])
  show "packer_getDouble p (packer_setDouble p b (slot t k) x) (slot t k) = x"
    using packed.get_put_same [OF ok adm]
    by (simp add: eq packer_getDouble_def packer_get_def unpackDouble_def packDouble_def)
  show "packer_get p (packer_setDouble p b (slot t k) x) w = packer_get p b w"
    if "w < length (statespace_sizes t)" "w \<noteq> slot t k"
    unfolding eq by (rule packed.get_put_other [OF ok adm that])
qed

lemma packer_getDouble_cong: "packer_get p b v = packer_get p b' v \<Longrightarrow> packer_getDouble p b v = packer_getDouble p b' v"
  by (simp add: packer_getDouble_def packer_get_def)

section \<open>Reading the numeric variables\<close>

lemma concat_singletons: "(\<And>i. i \<in> set is \<Longrightarrow> f i = [g i]) \<Longrightarrow> concat (map f is) = map g is"
  by (induction "is") simp_all

definition raw_numeric_var :: "world \<Rightarrow> nat \<Rightarrow> nat \<Rightarrow> ap_float" where
  "raw_numeric_var w i k = hd (numeric_var (w_task w) (w_packer w) (w_registry w) (cost_information w i) (packed_buffer w i) k)"

lemma get_numeric_vars_raw:
  assumes "numeric_task_ok (w_task w)"
  shows "get_numeric_vars w i = (let raw = map (raw_numeric_var w i) [0..<num_numeric (w_task w)]
    in if has_numeric_axioms (w_task w) then evaluate_arithmetic_axioms (w_task w) raw else raw)"
proof -
  have "concat (map (numeric_var (w_task w) (w_packer w) (w_registry w) (cost_information w i) (packed_buffer w i)) [0..<num_numeric (w_task w)]) =
      map (raw_numeric_var w i) [0..<num_numeric (w_task w)]"
  proof (rule concat_singletons)
    fix k assume "k \<in> set [0..<num_numeric (w_task w)]"
    then have "var_type (w_task w) k \<noteq> num_unknown" using assms by (auto simp: numeric_task_ok_def in_set_conv_nth)
    then show "numeric_var (w_task w) (w_packer w) (w_registry w) (cost_information w i) (packed_buffer w i) k = [raw_numeric_var w i k]"
      by (cases "var_type (w_task w) k") (simp_all add: raw_numeric_var_def numeric_var_def Let_def)
  qed
  then show ?thesis by (simp add: get_numeric_vars_def Let_def)
qed

lemma evaluate_arithmetic_frame:
  assumes "numeric_task_ok t" "k < num_numeric t \<Longrightarrow> var_type t k \<noteq> num_derived"
  shows "evaluate_arithmetic_axioms t num ! k = num ! k"
  unfolding evaluate_arithmetic_axioms_def
  by (rule arithmetic_frame) (use assms in \<open>auto simp: numeric_task_ok_def\<close>)

lemma length_evaluate_arithmetic [simp]: "length (evaluate_arithmetic_axioms t num) = length num"
  by (simp add: evaluate_arithmetic_axioms_def)

lemma get_numeric_vars_nth:
  assumes "numeric_task_ok (w_task w)"
  shows "length (get_numeric_vars w i) = num_numeric (w_task w)"
    and "k < num_numeric (w_task w) \<Longrightarrow> var_type (w_task w) k \<noteq> num_derived \<Longrightarrow> get_numeric_vars w i ! k = raw_numeric_var w i k"
  using assms by (simp_all add: get_numeric_vars_raw Let_def evaluate_arithmetic_frame)

lemma get_numeric_vars_regular:
  assumes "numeric_task_ok (w_task w)" "layout_ok (w_task w) (w_registry w)" "k < num_numeric (w_task w)" "var_type (w_task w) k = num_regular"
  shows "get_numeric_vars w i ! k = packer_getDouble (w_packer w) (packed_buffer w i) (slot (w_task w) k)"
  using assms get_numeric_vars_nth(2) [OF assms(1,3)] layout_slot [OF assms(2-4)]
  by (simp add: raw_numeric_var_def numeric_var_def Let_def)

section \<open>Assignment effects\<close>

definition assign_ok :: "task \<Rightarrow> AssignEffect \<Rightarrow> bool" where
  "assign_ok t e \<longleftrightarrow> aff_var e < num_numeric t \<and> ass_var e < num_numeric t \<and>
    var_type t (aff_var e) \<in> {num_regular, num_instrumentation}"

text \<open>The two variants of the numeric successor agree, and the buffer holds the regular variables.\<close>

lemma packed_assignments:
  assumes t: "numeric_task_ok t" and layout: "layout_ok t r" and es: "\<forall>e \<in> set es. assign_ok t e"
    and old: "\<forall>k < num_numeric t. var_type t k = num_regular \<longrightarrow> packer_getDouble p prev (slot t k) = old k"
    and b: "buffer_ok t p (snd s)" and len: "length (fst (fst s)) = num_numeric t"
    and regular: "\<forall>k < num_numeric t. var_type t k = num_regular \<longrightarrow> packer_getDouble p (snd s) (slot t k) = fst (fst s) ! k"
  shows "fst (foldl (apply_assign_effect_packed t p r prev) s es) = foldl (apply_assign_effect t r old) (fst s) es \<and>
    buffer_ok t p (snd (foldl (apply_assign_effect_packed t p r prev) s es)) \<and>
    (\<forall>k < num_numeric t. var_type t k = num_regular \<longrightarrow>
      packer_getDouble p (snd (foldl (apply_assign_effect_packed t p r prev) s es)) (slot t k) =
      fst (foldl (apply_assign_effect t r old) (fst s) es) ! k) \<and>
    (\<forall>v < num_vars t. packer_get p (snd (foldl (apply_assign_effect_packed t p r prev) s es)) v = packer_get p (snd s) v)"
  using es b len regular
proof (induction es arbitrary: s)
  case (Cons e es)
  obtain vals metric b where s: "s = ((vals, metric), b)" by (cases s) auto
  let ?s' = "apply_assign_effect_packed t p r prev s e" and ?vm = "apply_assign_effect t r old (vals, metric) e"
  have e: "aff_var e < num_numeric t" "ass_var e < num_numeric t" "var_type t (aff_var e) \<in> {num_regular, num_instrumentation}"
    using Cons.prems(1) by (simp_all add: assign_ok_def)
  have same: "apply_assign_effect t r (\<lambda>v. packer_getDouble p prev (nat (numeric_indices r ! v))) (vals, metric) e = ?vm"
  proof -
    have "packer_getDouble p prev (nat (numeric_indices r ! ass_var e)) = old (ass_var e)"
      if "var_type t (ass_var e) = num_regular"
      using old e(2) layout_slot [OF layout e(2) that] that by simp
    then show ?thesis by (simp add: apply_assign_effect_def cong: if_cong)
  qed
  have len': "length (fst ?vm) = num_numeric t"
    using Cons.prems(3) by (simp add: apply_assign_effect_def Let_def s split: numType.splits)
  have step: "fst ?s' = ?vm \<and> buffer_ok t p (snd ?s') \<and>
    (\<forall>k < num_numeric t. var_type t k = num_regular \<longrightarrow> packer_getDouble p (snd ?s') (slot t k) = fst ?vm ! k) \<and>
    (\<forall>v < num_vars t. packer_get p (snd ?s') v = packer_get p b v)"
  proof (cases "var_type t (aff_var e) = num_regular")
    case True
    let ?x = "fst ?vm ! aff_var e"
    note set = buffer_setDouble [OF t _ e(1) True, where p = p and b = b and x = ?x]
    have b: "buffer_ok t p b" using Cons.prems(2) s by simp
    have s': "?s' = (?vm, packer_setDouble p b (slot t (aff_var e)) ?x)"
      using True same layout_slot [OF layout e(1) True] by (simp add: apply_assign_effect_packed_def Let_def s)
    have vals: "fst ?vm ! k = vals ! k" if "k \<noteq> aff_var e" for k
      using that True by (simp add: apply_assign_effect_def Let_def)
    have reg: "packer_getDouble p (snd ?s') (slot t k) = fst ?vm ! k" if k: "k < num_numeric t" "var_type t k = num_regular" for k
    proof (cases "k = aff_var e")
      case True
      then show ?thesis using set(2) [OF b] by (simp only: s' snd_conv)
    next
      case False
      then have "slot t k \<noteq> slot t (aff_var e)" using slot_inj k(2) True by simp
      moreover have "slot t k < length (statespace_sizes t)" using regular_slot(1) [OF t k] by (simp add: slot_def)
      ultimately have "packer_get p (snd ?s') (slot t k) = packer_get p b (slot t k)"
        using set(3) [OF b] by (simp only: s' snd_conv)
      moreover have "packer_getDouble p b (slot t k) = vals ! k" using Cons.prems(4) k s by simp
      ultimately show ?thesis using vals [OF False] packer_getDouble_cong by metis
    qed
    have "\<forall>v < num_vars t. packer_get p (snd ?s') v = packer_get p b v"
    proof (intro allI impI)
      fix v assume that: "v < num_vars t"
      have "v < length (statespace_sizes t)" "v \<noteq> slot t (aff_var e)" using that sizes_domain(2) [of t] by (simp_all add: slot_def)
      then show "packer_get p (snd ?s') v = packer_get p b v" using set(3) [OF b] by (simp only: s' snd_conv)
    qed
    moreover have "fst ?s' = ?vm" "buffer_ok t p (snd ?s')" using set(1) [OF b] by (simp_all only: s' fst_conv snd_conv)
    ultimately show ?thesis using reg by blast
  next
    case False
    then have "?s' = (?vm, b)" using same by (simp add: apply_assign_effect_packed_def Let_def s)
    moreover have "fst ?vm ! k = vals ! k" if "var_type t k = num_regular" for k
    proof -
      have "k \<noteq> aff_var e" using that False by auto
      then show ?thesis using False e(3) by (simp add: apply_assign_effect_def Let_def)
    qed
    ultimately show ?thesis using Cons.prems(2,4) s by simp
  qed
  have "fst (foldl (apply_assign_effect_packed t p r prev) ?s' es) = foldl (apply_assign_effect t r old) (fst ?s') es \<and>
    buffer_ok t p (snd (foldl (apply_assign_effect_packed t p r prev) ?s' es)) \<and>
    (\<forall>k < num_numeric t. var_type t k = num_regular \<longrightarrow>
      packer_getDouble p (snd (foldl (apply_assign_effect_packed t p r prev) ?s' es)) (slot t k) =
      fst (foldl (apply_assign_effect t r old) (fst ?s') es) ! k) \<and>
    (\<forall>v < num_vars t. packer_get p (snd (foldl (apply_assign_effect_packed t p r prev) ?s' es)) v = packer_get p (snd ?s') v)"
    using Cons.prems(1) step len' by (intro Cons.IH) simp_all
  then show ?case using step s by simp
qed simp

section \<open>Propositional effects\<close>

definition fired_effects :: "valuation \<Rightarrow> GlobalOperator \<Rightarrow> (nat \<times> container_int) list" where
  "fired_effects state oper = map (\<lambda>e. (eff_var e, eff_val e)) (filter (does_fire state) (op_effects oper))"

lemma apply_effects_writes:
  "apply_effects p state b (op_effects oper) = foldl (\<lambda>b (v, x). packer_set p b v x) b (fired_effects state oper)"
proof -
  have "foldl (\<lambda>b e. if does_fire state e then packer_set p b (eff_var e) (eff_val e) else b) b es =
      foldl (\<lambda>b (v, x). packer_set p b v x) b (map (\<lambda>e. (eff_var e, eff_val e)) (filter (does_fire state) es))" for es
    by (induction es arbitrary: b) simp_all
  then show ?thesis by (simp add: apply_effects_def fired_effects_def)
qed

definition operator_ok :: "task \<Rightarrow> GlobalOperator \<Rightarrow> bool" where
  "operator_ok t oper \<longleftrightarrow>
    (\<forall>e \<in> set (op_effects oper). eff_var e < num_vars t \<and> eff_val e < g_variable_domain t ! eff_var e \<and>
      g_axiom_layers t ! eff_var e = - 1 \<and> eff_var e \<notin> cax_affected ` set (g_comp_axioms t)) \<and>
    (\<forall>e \<in> set (assign_effects oper). assign_ok t e)"

lemma fired_effects_ok:
  "operator_ok t oper \<Longrightarrow> (v, x) \<in> set (fired_effects state oper) \<Longrightarrow> v < num_vars t \<and> x < g_variable_domain t ! v"
  by (auto simp: operator_ok_def fired_effects_def)

lemma apply_effects_result:
  assumes wf: "well_stratified t" and op: "operator_ok t oper" and b: "buffer_ok t p b"
  shows "buffer_ok t p (apply_effects p state b (op_effects oper))"
    and "w < length (statespace_sizes t) \<Longrightarrow> packer_get p (apply_effects p state b (op_effects oper)) w =
      (case map_of (rev (fired_effects state oper)) w of None \<Rightarrow> packer_get p b w | Some x \<Rightarrow> x)"
proof -
  have adm: "v < length (statespace_sizes t) \<and> in_domain (statespace_sizes t ! v) x"
    if vx: "(v, x) \<in> set (fired_effects state oper)" for v x
  proof -
    have v: "v < num_vars t" "x < g_variable_domain t ! v" using fired_effects_ok [OF op vx] by simp_all
    then show ?thesis using wf sizes_domain(2) [of t] by (simp add: in_domain_def sizes_domain(1) well_stratified_def)
  qed
  note ok = b [unfolded buffer_ok_def]
  show "buffer_ok t p (apply_effects p state b (op_effects oper))"
    unfolding buffer_ok_def apply_effects_writes by (rule packed.valid_writes [OF ok adm])
  show "packer_get p (apply_effects p state b (op_effects oper)) w =
      (case map_of (rev (fired_effects state oper)) w of None \<Rightarrow> packer_get p b w | Some x \<Rightarrow> x)"
    if "w < length (statespace_sizes t)"
    unfolding apply_effects_writes by (rule packed.get_writes [OF ok adm that])
qed

lemma fired_effects_none:
  assumes "operator_ok t oper" "w \<ge> num_vars t"
  shows "map_of (rev (fired_effects state oper)) w = None"
proof -
  have "w \<notin> fst ` set (fired_effects state oper)" using fired_effects_ok [OF assms(1)] assms(2) by fastforce
  then show ?thesis by (simp add: map_of_eq_None_iff)
qed

end
