(* ===== verification/Registry_Properties.thy ===== *)
theory Registry_Properties
  imports Registry_Numeric
begin

text \<open>
  Properties of the state registry: states are registered once and never change, successors have
  the values their operator and the axioms give them, and what becomes of the metric of a state
  that is reached again.
\<close>

definition evaluator_ok :: "world \<Rightarrow> bool" where
  "evaluator_ok w \<longleftrightarrow> same_tables (w_task w) (w_axioms w) \<and> ax_queue (w_axioms w) = []"

definition task_ok :: "task \<Rightarrow> bool" where
  "task_ok t \<longleftrightarrow> well_stratified t \<and> comparisons_ok t \<and>
    (has_logic_axioms t \<or> (\<forall>v < num_vars t. \<not> derived_var t v)) \<and> numeric_task_ok t \<and>
    0 \<le> g_metric_fluent_id t \<and> g_metric_fluent_id t < int (num_numeric t)"

definition states_in_domain :: "world \<Rightarrow> bool" where
  "states_in_domain w \<longleftrightarrow> (\<forall>s < registry_size w. \<forall>v < num_vars (w_task w).
    state_value w s v < g_variable_domain (w_task w) ! v)"

text \<open>What holds between two operations of the search.\<close>

definition world_ok :: "world \<Rightarrow> bool" where
  "world_ok w \<longleftrightarrow> task_ok (w_task w) \<and> registry_inv w \<and> evaluator_ok w \<and> layout_ok (w_task w) (w_registry w) \<and> states_in_domain w"

lemma world_okD:
  assumes "world_ok w"
  shows "well_stratified (w_task w)" "comparisons_ok (w_task w)"
    "has_logic_axioms (w_task w) \<or> (\<forall>v < num_vars (w_task w). \<not> derived_var (w_task w) v)"
    "numeric_task_ok (w_task w)" "0 \<le> g_metric_fluent_id (w_task w)" "g_metric_fluent_id (w_task w) < int (num_numeric (w_task w))"
    "registry_inv w" "same_tables (w_task w) (w_axioms w)" "ax_queue (w_axioms w) = []"
    "layout_ok (w_task w) (w_registry w)"
    "s < registry_size w \<Longrightarrow> v < num_vars (w_task w) \<Longrightarrow> state_value w s v < g_variable_domain (w_task w) ! v"
  using assms by (auto simp: world_ok_def task_ok_def evaluator_ok_def states_in_domain_def)

section \<open>The packed successor\<close>

lemma successor_buffer:
  assumes w: "world_ok w" and s: "s < registry_size w" and op: "operator_ok (w_task w) oper"
  defines "t \<equiv> w_task w" and "p \<equiv> w_packer w" and "vals \<equiv> get_numeric_vars w s" and "inst \<equiv> cost_information w s"
  defines "succ \<equiv> get_numeric_successor t (w_registry w) vals inst oper"
  shows "\<exists>ev b. get_numeric_successor_packed t p (w_axioms w) (w_registry w) vals inst oper
      (apply_effects p (state_value w s) (packed_buffer w s) (op_effects oper)) (packed_buffer w s) = Inr (succ, ev, b) \<and>
    length (fst succ) = num_numeric t \<and>
    same_tables t ev \<and> ax_queue ev = [] \<and> buffer_ok t p b \<and>
    (\<forall>v < num_vars t. packer_get p b v < g_variable_domain t ! v) \<and>
    (\<forall>v < num_vars t. g_axiom_layers t ! v = - 1 \<longrightarrow> v \<notin> cax_affected ` set (g_comp_axioms t) \<longrightarrow>
      packer_get p b v = (case map_of (rev (fired_effects (state_value w s) oper)) v of None \<Rightarrow> state_value w s v | Some x \<Rightarrow> x)) \<and>
    (\<forall>k < num_numeric t. var_type t k = num_regular \<longrightarrow> packer_getDouble p b (slot t k) = fst succ ! k) \<and>
    (\<forall>ax \<in> set (g_comp_axioms t). packer_get p b (cax_affected ax) =
      (if compare_values (cax_op ax) (fst succ ! cax_lhs ax) (fst succ ! cax_rhs ax) then 0 else 1)) \<and>
    true_lits t p b = horn (g_logic_axioms t) (assumed_lits t p b)"
proof -
  note wd = world_okD [OF w, folded t_def p_def]
  let ?r = "w_registry w" and ?prev = "packed_buffer w s" and ?state = "state_value w s"
  let ?b1 = "apply_effects p ?state ?prev (op_effects oper)"
  let ?S = "foldl (apply_assign_effect_packed t p ?r ?prev) ((vals, inst), ?b1) (assign_effects oper)"
  let ?A = "foldl (apply_assign_effect t ?r (\<lambda>v. vals ! v)) (vals, inst) (assign_effects oper)"
  have prev: "buffer_ok t p ?prev" using registry_invD(4) [OF wd(7) s] by (simp add: t_def p_def)
  note eff = apply_effects_result [OF wd(1) op [folded t_def] prev, where state = ?state]
  have len: "length vals = num_numeric t" using get_numeric_vars_nth(1) [of w s] wd(4) by (simp add: vals_def t_def)
  have old: "\<forall>k < num_numeric t. var_type t k = num_regular \<longrightarrow> packer_getDouble p ?prev (slot t k) = vals ! k"
    using get_numeric_vars_regular [of w] wd(4,10) by (simp add: vals_def t_def p_def)
  have reg: "\<forall>k < num_numeric t. var_type t k = num_regular \<longrightarrow> packer_getDouble p ?b1 (slot t k) = fst (fst ((vals, inst), ?b1)) ! k"
  proof (intro allI impI)
    fix k assume k: "k < num_numeric t" "var_type t k = num_regular"
    have "slot t k < length (statespace_sizes t)" using regular_slot(1) [OF wd(4) k] by (simp add: slot_def)
    then have "packer_get p ?b1 (slot t k) = packer_get p ?prev (slot t k)"
      using eff(2) fired_effects_none [OF op [folded t_def], of "slot t k"] by (simp add: slot_def)
    then have "packer_getDouble p ?b1 (slot t k) = packer_getDouble p ?prev (slot t k)"
      by (rule packer_getDouble_cong)
    then show "packer_getDouble p ?b1 (slot t k) = fst (fst ((vals, inst), ?b1)) ! k" using old k by simp
  qed
  have es: "\<forall>e \<in> set (assign_effects oper). assign_ok t e" using op by (simp add: operator_ok_def t_def)
  have S: "fst ?S = ?A \<and> buffer_ok t p (snd ?S) \<and>
    (\<forall>k < num_numeric t. var_type t k = num_regular \<longrightarrow> packer_getDouble p (snd ?S) (slot t k) = fst ?A ! k) \<and>
    (\<forall>v < num_vars t. packer_get p (snd ?S) v = packer_get p ?b1 v)"
    using packed_assignments [OF wd(4,10) es old, of "((vals, inst), ?b1)"] eff(1) len reg by simp
  let ?vals' = "evaluate_arithmetic_axioms t (fst ?A)"
  have succ: "succ = (?vals', snd ?A)" by (simp add: succ_def get_numeric_successor_def Let_def)
  have lenA: "length (fst (foldl (apply_assign_effect t ?r f) s es)) = length (fst s)" for f s es
  proof (induction es arbitrary: s)
    case (Cons e es)
    have "length (fst (apply_assign_effect t ?r f s e)) = length (fst s)"
      by (cases s) (simp add: apply_assign_effect_def Let_def split: numType.splits)
    then show ?case using Cons by simp
  qed simp
  have b1: "packer_get p ?b1 v = (case map_of (rev (fired_effects ?state oper)) v of None \<Rightarrow> ?state v | Some x \<Rightarrow> x)"
    if "v < num_vars t" for v
  proof -
    have "?state v = packer_get p ?prev v" by (simp add: state_value_def p_def)
    then show ?thesis using eff(2) [of v] that sizes_domain(2) [of t] by (simp split: option.split)
  qed
  have dom: "packer_get p ?b1 v < g_variable_domain t ! v" if v: "v < num_vars t" for v
  proof (cases "map_of (rev (fired_effects ?state oper)) v")
    case None
    then show ?thesis using b1 [OF v] wd(11) [OF s] v by simp
  next
    case (Some x)
    then have "(v, x) \<in> set (fired_effects ?state oper)" using map_of_SomeD by fastforce
    then show ?thesis using b1 [OF v] Some fired_effects_ok [OF op [folded t_def]] by simp
  qed
  have given: "\<forall>v < num_vars t. g_axiom_layers t ! v = - 1 \<longrightarrow> packer_get p (snd ?S) v < g_variable_domain t ! v"
    using S dom by simp
  obtain ev b where ev: "evaluate_axioms t p (w_axioms w) (snd ?S) ?vals' = Inr (ev, b)" "same_tables t ev" "ax_queue ev = []" "buffer_ok t p b"
    and cmp: "\<forall>ax \<in> set (g_comp_axioms t). packer_get p b (cax_affected ax) =
      (if compare_values (cax_op ax) (?vals' ! cax_lhs ax) (?vals' ! cax_rhs ax) then 0 else 1)"
    and same: "\<forall>v < length (statespace_sizes t). \<not> (v < num_vars t \<and> derived_var t v) \<longrightarrow>
      v \<notin> cax_affected ` set (g_comp_axioms t) \<longrightarrow> packer_get p b v = packer_get p (snd ?S) v"
    and model: "true_lits t p b = horn (g_logic_axioms t) (assumed_lits t p b)"
    and domb: "\<forall>v < num_vars t. packer_get p b v < g_variable_domain t ! v"
    using evaluate_axioms_stable [OF wd(1-3) _ wd(8,9) given, of ?vals'] S by blast
  have packed: "get_numeric_successor_packed t p (w_axioms w) ?r vals inst oper ?b1 ?prev = Inr (succ, ev, b)"
    using S ev(1) by (simp add: get_numeric_successor_packed_def Let_def succ)
  have given': "packer_get p b v = (case map_of (rev (fired_effects ?state oper)) v of None \<Rightarrow> ?state v | Some x \<Rightarrow> x)"
    if v: "v < num_vars t" "g_axiom_layers t ! v = - 1" "v \<notin> cax_affected ` set (g_comp_axioms t)" for v
  proof -
    have "v < length (statespace_sizes t)" using v(1) sizes_domain(2) [of t] by simp
    moreover have "\<not> derived_var t v" using v(2) by (simp add: derived_var_def)
    ultimately have "packer_get p b v = packer_get p (snd ?S) v" using same v(3) by blast
    then show ?thesis using S b1 [OF v(1)] v(1) by simp
  qed
  have regular: "packer_getDouble p b (slot t k) = fst succ ! k" if k: "k < num_numeric t" "var_type t k = num_regular" for k
  proof -
    have "slot t k < length (statespace_sizes t)" using regular_slot(1) [OF wd(4) k] by (simp add: slot_def)
    moreover have "\<not> slot t k < num_vars t" by (simp add: slot_def)
    moreover have "slot t k \<notin> cax_affected ` set (g_comp_axioms t)"
      using wd(2) \<open>\<not> slot t k < num_vars t\<close> by (auto simp: comparisons_ok_def)
    ultimately have "packer_get p b (slot t k) = packer_get p (snd ?S) (slot t k)" using same by blast
    then have "packer_getDouble p b (slot t k) = packer_getDouble p (snd ?S) (slot t k)" by (rule packer_getDouble_cong)
    also have "\<dots> = fst ?A ! k" using S k by simp
    also have "\<dots> = fst succ ! k" using evaluate_arithmetic_frame [OF wd(4), of k] k by (simp add: succ)
    finally show ?thesis .
  qed
  have lens: "length (fst succ) = num_numeric t" using len by (simp add: succ lenA)
  show ?thesis
    using packed lens ev(2-4) domb given' regular cmp model by (auto simp: succ)
qed

section \<open>Registering the successor\<close>

lemma evaluate_metric_ok:
  "0 \<le> g_metric_fluent_id t \<Longrightarrow> g_metric_fluent_id t < int (length num) \<Longrightarrow>
    evaluate_metric t num = Inr (num ! nat (g_metric_fluent_id t))"
  by (simp add: evaluate_metric_def)

lemma add_state_same:
  assumes "registry_inv w" "add_state (w_registry w) b = (i, r')"
  shows "numeric_indices r' = numeric_indices (w_registry w)" "numeric_constants r' = numeric_constants (w_registry w)"
proof -
  have "set (registered_states (w_registry w)) = {..<length (state_data_pool (w_registry w))}" "distinct (state_data_pool (w_registry w))"
    using assms(1) by (simp_all add: registry_inv_def Let_def)
  note c = insert_id_or_pop_state_cases(5) [OF this refl assms(2)]
  show "numeric_indices r' = numeric_indices (w_registry w)" "numeric_constants r' = numeric_constants (w_registry w)"
    using arg_cong [OF c, of numeric_indices] arg_cong [OF c, of numeric_constants] by simp_all
qed

text \<open>A packed state with valid values can be added to a world without breaking it.\<close>

lemma world_ok_add:
  assumes w: "world_ok w" and reg: "registers w b i w'" and b: "\<forall>v < num_vars (w_task w). packer_get (w_packer w) b v < g_variable_domain (w_task w) ! v"
    and same: "w_task w' = w_task w" "w_packer w' = w_packer w" "evaluator_ok w'"
      "numeric_indices (w_registry w') = numeric_indices (w_registry w)"
  shows "world_ok w'"
    and "j < registry_size w \<Longrightarrow> packed_buffer w' j = packed_buffer w j"
proof -
  let ?pool = "state_data_pool (w_registry w)" and ?pool' = "state_data_pool (w_registry w')"
  have pool: "?pool' = (if b \<in> set ?pool then ?pool else ?pool @ [b])" and inv': "registry_inv w'" using reg by (simp_all add: registers_def)
  have size: "registry_size w = length ?pool" "registry_size w' = length ?pool'"
    using registry_invD(3) world_okD(7) [OF w] inv' by blast+
  show old: "packed_buffer w' j = packed_buffer w j" if "j < registry_size w" for j
    using that pool size by (simp add: packed_buffer_def nth_append)
  have "state_value w' s v < g_variable_domain (w_task w) ! v" if s: "s < registry_size w'" and v: "v < num_vars (w_task w)" for s v
  proof (cases "s < registry_size w")
    case True
    then show ?thesis using world_okD(11) [OF w True v] old same by (simp add: state_value_def)
  next
    case False
    then have "packed_buffer w' s = b" using s pool size by (auto simp: packed_buffer_def nth_append split: if_splits)
    then show ?thesis using b v same by (simp add: state_value_def)
  qed
  then have "states_in_domain w'" using same by (simp add: states_in_domain_def)
  then show "world_ok w'"
    using w inv' same by (simp add: world_ok_def layout_ok_def)
qed

definition numeric_value :: "world \<Rightarrow> nat \<Rightarrow> nat \<Rightarrow> ap_float" where
  "numeric_value w s k = packer_getDouble (w_packer w) (packed_buffer w s) (slot (w_task w) k)"

lemma successor_state:
  assumes w: "world_ok w" and s: "s < registry_size w" and op: "operator_ok (w_task w) oper"
  defines "t \<equiv> w_task w" and "p \<equiv> w_packer w"
  defines "succ \<equiv> fst (get_numeric_successor t (w_registry w) (get_numeric_vars w s) (cost_information w s) oper)"
  shows "\<exists>i w'. get_successor_state w s oper = Inr (i, w') \<and> world_ok w' \<and> i < registry_size w' \<and>
    (\<forall>j < registry_size w. packed_buffer w' j = packed_buffer w j) \<and>
    (\<forall>v < num_vars t. g_axiom_layers t ! v = - 1 \<longrightarrow> v \<notin> cax_affected ` set (g_comp_axioms t) \<longrightarrow>
      state_value w' i v = (case map_of (rev (fired_effects (state_value w s) oper)) v of None \<Rightarrow> state_value w s v | Some x \<Rightarrow> x)) \<and>
    (\<forall>k < num_numeric t. var_type t k = num_regular \<longrightarrow> get_numeric_vars w' i ! k = succ ! k) \<and>
    (\<forall>ax \<in> set (g_comp_axioms t). state_value w' i (cax_affected ax) =
      (if compare_values (cax_op ax) (succ ! cax_lhs ax) (succ ! cax_rhs ax) then 0 else 1)) \<and>
    true_lits t p (packed_buffer w' i) = horn (g_logic_axioms t) (assumed_lits t p (packed_buffer w' i))"
proof -
  let ?S = "get_numeric_successor t (w_registry w) (get_numeric_vars w s) (cost_information w s) oper"
  note wd = world_okD [OF w, folded t_def p_def]
  obtain ev b where eval: "get_numeric_successor_packed t p (w_axioms w) (w_registry w) (get_numeric_vars w s) (cost_information w s) oper
      (apply_effects p (state_value w s) (packed_buffer w s) (op_effects oper)) (packed_buffer w s) = Inr (?S, ev, b)"
    and len: "length succ = num_numeric t" and ev: "same_tables t ev" "ax_queue ev = []" "buffer_ok t p b"
    and dom: "\<forall>v < num_vars t. packer_get p b v < g_variable_domain t ! v"
    and given: "\<forall>v < num_vars t. g_axiom_layers t ! v = - 1 \<longrightarrow> v \<notin> cax_affected ` set (g_comp_axioms t) \<longrightarrow>
      packer_get p b v = (case map_of (rev (fired_effects (state_value w s) oper)) v of None \<Rightarrow> state_value w s v | Some x \<Rightarrow> x)"
    and regular: "\<forall>k < num_numeric t. var_type t k = num_regular \<longrightarrow> packer_getDouble p b (slot t k) = succ ! k"
    and cmp: "\<forall>ax \<in> set (g_comp_axioms t). packer_get p b (cax_affected ax) =
      (if compare_values (cax_op ax) (succ ! cax_lhs ax) (succ ! cax_rhs ax) then 0 else 1)"
    and model: "true_lits t p b = horn (g_logic_axioms t) (assumed_lits t p b)"
    using successor_buffer [OF w s op] unfolding succ_def t_def p_def by blast
  obtain i r' where add: "add_state (w_registry w) b = (i, r')" by (cases "add_state (w_registry w) b")
  let ?w1 = "w\<lparr>w_axioms := ev, w_registry := r'\<rparr>"
  note same = add_state_same [OF wd(7) add]
  have metric: "\<exists>x. evaluate_metric t (get_numeric_vars ?w1 s) = Inr x" "\<exists>x. evaluate_metric t succ = Inr x"
    using get_numeric_vars_nth(1) [of ?w1 s] wd(4-6) len by (simp_all add: evaluate_metric_ok t_def [symmetric])
  obtain w' where res: "get_successor_state w s oper = Inr (i, w')"
    and w': "w_registry w' = r'" "w_axioms w' = ev" "w_task w' = t" "w_packer w' = p"
  proof (cases "i = length (state_data_pool r') - 1")
    case True
    have "get_successor_state w s oper = Inr (i, set_cost_information i (snd ?S) ?w1)"
      using eval add True by (simp add: get_successor_state_def Let_def t_def p_def)
    then show ?thesis using that by (simp add: t_def p_def)
  next
    case False
    obtain x y where xy: "evaluate_metric t (get_numeric_vars ?w1 s) = Inr x" "evaluate_metric t succ = Inr y" using metric by blast
    have "get_successor_state w s oper =
        Inr (i, keep_metric (g_metric_minimizes t) i (cost_information ?w1 i) (snd ?S) x y ?w1)"
      using eval add False xy by (simp add: get_successor_state_def Let_def t_def p_def succ_def)
    then show ?thesis using that by (simp add: t_def p_def)
  qed
  have "length b = num_bins p" using ev(3) by (simp add: buffer_ok_def)
  then have reg: "registers w b i w'"
    using add_state_registers [OF wd(7) _ add, of w'] w' by (simp add: t_def p_def)
  have evw': "evaluator_ok w'" using ev(1,2) w' by (simp add: evaluator_ok_def)
  have "numeric_indices (w_registry w') = numeric_indices (w_registry w)" using same(1) w' by simp
  note ok = world_ok_add [OF w reg dom [unfolded t_def p_def] w'(3) [unfolded t_def] w'(4) [unfolded p_def] evw' this]
  have i: "i < registry_size w'" "packed_buffer w' i = b" using reg by (simp_all add: registers_def)
  have val: "state_value w' i v = packer_get p b v" for v by (simp add: state_value_def i(2) w'(4))
  have "layout_ok t (w_registry w')" using world_okD(10) [OF ok(1)] w'(3) by simp
  then have num: "get_numeric_vars w' i ! k = succ ! k" if "k < num_numeric t" "var_type t k = num_regular" for k
    using get_numeric_vars_regular [of w' k i] wd(4) that regular w'(3,4) i(2) by simp
  show ?thesis
    using res ok i(1) given num cmp model by (intro exI [of _ i] exI [of _ w']) (simp add: val i(2))
qed

lemma length_info_set: "length (info_set n d i x xs) = max n (length xs)"
  by (simp add: info_set_def)

lemma info_get_set:
  "i < n \<Longrightarrow> info_get d j (info_set n d i x xs) = (if j = i then x else info_get d j xs)"
  by (auto simp: info_get_def info_set_def nth_list_update nth_append)

lemma cost_information_set:
  "i < registry_size w \<Longrightarrow> cost_information (set_cost_information i x w) j = (if j = i then x else cost_information w j)"
  by (simp add: cost_information_def set_cost_information_def info_get_set)

lemma registry_size_simps [simp]:
  "registry_size (set_cost_information i x w) = registry_size w" "registry_size (keep_metric m i x y a b w) = registry_size w"
  by (simp_all add: registry_size_def)

lemma cost_information_keep:
  "i < registry_size w \<Longrightarrow> cost_information (keep_metric minimizes i old_metric inst_vals old_val new_val w) j =
    (if j = i then if \<not> minimizes \<and> ap_lt new_val old_val then old_metric else inst_vals else cost_information w j)"
  by (simp add: keep_metric_def Let_def cost_information_set)

lemma world_size [simp]:
  "registry_size (w\<lparr>w_axioms := ev, w_registry := r\<rparr>) = length (registered_states r)"
  by (simp add: registry_size_def)

section \<open>Properties\<close>

text \<open>
  C32. A state is registered once: whatever operation returns a state, the registry grows by at most
  one entry, the entries it had keep their place and content, no two of them are equal, and the
  id returned is that of the packed state.
\<close>

theorem registry_has_no_duplicates:
  assumes "registry_inv w" "s < registry_size w"
    "get_initial_state w = Inr (i, w') \<or> get_successor_state w s oper = Inr (i, w') \<or> register_state w vals num = Inr (i, w')"
  shows "registry_inv w' \<and> i < registry_size w' \<and> registry_size w \<le> registry_size w' \<and> registry_size w' \<le> Suc (registry_size w) \<and>
    (\<forall>j < registry_size w. packed_buffer w' j = packed_buffer w j) \<and>
    (\<forall>j < registry_size w'. packed_buffer w' j = packed_buffer w' i \<longrightarrow> j = i)"
proof -
  obtain b where reg: "registers w b i w'"
    using assms get_initial_state_registers [of w i w'] get_successor_state_registers [of w s oper i w']
      register_state_registers [of w vals num i w'] by blast
  then have inv': "registry_inv w'" by (simp add: registers_def)
  note size = registry_invD(3) [OF assms(1)] registry_invD(3) [OF inv'] and dist = registry_invD(2) [OF inv']
  have "j = i" if "j < registry_size w'" "packed_buffer w' j = packed_buffer w' i" for j
  proof -
    have "i < registry_size w'" using reg by (simp add: registers_def)
    then show ?thesis using nth_eq_iff_index_eq [OF dist, of j i] that size(2) by (simp add: packed_buffer_def)
  qed
  moreover have "packed_buffer w' j = packed_buffer w j" if "j < registry_size w" for j
    using that reg size(1) by (simp add: registers_def packed_buffer_def nth_append)
  moreover have "registry_size w \<le> registry_size w'" "registry_size w' \<le> Suc (registry_size w)"
    using reg size by (simp_all add: registers_def)
  moreover have "i < registry_size w'" using reg by (simp add: registers_def)
  ultimately show ?thesis using inv' by blast
qed

text \<open>
  C33. On a well-formed task \<open>get_successor_state\<close> always returns a state, keeps the world well
  formed and leaves every registered state alone; the successor has, for every given variable,
  the value of the last effect that fires on it and the old value if none does, for every regular
  numeric variable the value the assignment effects compute, for every comparison variable the
  result of the comparison on the new numeric values, and it is the stable model of the axioms.
\<close>

theorem successor_state_correct:
  assumes "world_ok w" "s < registry_size w" "operator_ok (w_task w) oper"
  shows "\<exists>i w'. get_successor_state w s oper = Inr (i, w') \<and> world_ok w' \<and> i < registry_size w' \<and>
    (\<forall>j < registry_size w. packed_buffer w' j = packed_buffer w j) \<and>
    (\<forall>v < num_vars (w_task w). g_axiom_layers (w_task w) ! v = - 1 \<longrightarrow> v \<notin> cax_affected ` set (g_comp_axioms (w_task w)) \<longrightarrow>
      state_value w' i v = (case map_of (rev (fired_effects (state_value w s) oper)) v of None \<Rightarrow> state_value w s v | Some x \<Rightarrow> x)) \<and>
    (\<forall>k < num_numeric (w_task w). var_type (w_task w) k = num_regular \<longrightarrow> get_numeric_vars w' i ! k =
      fst (get_numeric_successor (w_task w) (w_registry w) (get_numeric_vars w s) (cost_information w s) oper) ! k) \<and>
    (\<forall>ax \<in> set (g_comp_axioms (w_task w)). state_value w' i (cax_affected ax) =
      (if compare_values (cax_op ax)
          (fst (get_numeric_successor (w_task w) (w_registry w) (get_numeric_vars w s) (cost_information w s) oper) ! cax_lhs ax)
          (fst (get_numeric_successor (w_task w) (w_registry w) (get_numeric_vars w s) (cost_information w s) oper) ! cax_rhs ax)
       then 0 else 1)) \<and>
    true_lits (w_task w) (w_packer w) (packed_buffer w' i) =
      horn (g_logic_axioms (w_task w)) (assumed_lits (w_task w) (w_packer w) (packed_buffer w' i))"
  by (rule successor_state [OF assms])

text \<open>
  A world with one registered state, all of whose fields are zero, and an operator that sets
  variable 0 and assigns the second numeric variable to the first.
\<close>

definition demo_world :: "packing \<Rightarrow> world" where
  "demo_world p = \<lparr>w_task = demo_task\<lparr>g_metric_fluent_id := 0\<rparr>, w_packer = p, w_axioms = AxiomEvaluator_make demo_task,
    w_registry = \<lparr>state_data_pool = [replicate (num_bins p) 0], numeric_constants = [], numeric_indices = [3, 4],
      registered_states = [0], cached_initial_state = Some 0\<rparr>,
    g_cost_information = []\<rparr>"

definition demo_operator :: GlobalOperator where
  "demo_operator = \<lparr>is_an_axiom = False, preconditions = [],
    op_effects = [\<lparr>eff_var = 0, eff_val = 1, eff_conditions = []\<rparr>],
    assign_effects = [\<lparr>aff_var = 0, ass_fop = assign, ass_var = 1, is_conditional_effect = False, ass_conditions = []\<rparr>],
    op_name = ''go'', op_cost = ap_of_int 1\<rparr>"

lemma make_metric [simp]: "AxiomEvaluator_make (t\<lparr>g_metric_fluent_id := k\<rparr>) = AxiomEvaluator_make t"
proof -
  have "add_nbf_info (t\<lparr>g_metric_fluent_id := k\<rparr>) = add_nbf_info t"
    by (simp add: fun_eq_iff add_nbf_info_def last_axiom_layer_def Let_def)
  then show ?thesis by (simp add: AxiomEvaluator_make_def logic_layer_bounds_def last_axiom_layer_def)
qed

lemma derived_metric [simp]: "derived_var (t\<lparr>g_metric_fluent_id := k\<rparr>) = derived_var t"
  by (simp add: fun_eq_iff derived_var_def)

lemma ok_metric:
  "well_stratified (t\<lparr>g_metric_fluent_id := k\<rparr>) = well_stratified t"
  "comparisons_ok (t\<lparr>g_metric_fluent_id := k\<rparr>) = comparisons_ok t"
  "has_logic_axioms (t\<lparr>g_metric_fluent_id := k\<rparr>) = has_logic_axioms t"
  "statespace_sizes (t\<lparr>g_metric_fluent_id := k\<rparr>) = statespace_sizes t"
  by (simp_all add: well_stratified_def axiom_ok_def comparisons_ok_def has_logic_axioms_def statespace_sizes_def)

lemma ax_queue_make [simp]: "ax_queue (AxiomEvaluator_make t) = []"
  by (simp add: AxiomEvaluator_make_def Let_def split: prod.splits)

lemma demo_world_ok:
  assumes "pack_bins (statespace_sizes demo_task) = Some p"
  shows "world_ok (demo_world p)" "registry_size (demo_world p) = 1" "operator_ok (w_task (demo_world p)) demo_operator"
    "state_value (demo_world p) 0 v = packer_get p (replicate (num_bins p) 0) v"
proof -
  show "registry_size (demo_world p) = 1" by (simp add: demo_world_def registry_size_def)
  show val: "state_value (demo_world p) 0 v = packer_get p (replicate (num_bins p) 0) v" for v
    by (simp add: state_value_def packed_buffer_def demo_world_def)
  show "operator_ok (w_task (demo_world p)) demo_operator"
    by (simp add: operator_ok_def demo_operator_def demo_world_def demo_task_def assign_ok_def)
  have "task_ok (w_task (demo_world p))"
    using demo_ok by (simp add: task_ok_def demo_world_def ok_metric) (simp add: demo_task_def numeric_task_ok_def)
  moreover have "registry_inv (demo_world p)"
    using assms by (auto simp: registry_inv_def demo_world_def ok_metric)
  moreover have "evaluator_ok (demo_world p)"
    by (simp add: evaluator_ok_def demo_world_def same_tables_def)
  moreover have "layout_ok (w_task (demo_world p)) (w_registry (demo_world p))"
    by (simp add: layout_ok_def demo_world_def demo_task_def All_less_Suc slot_index_def type_rank_def)
  moreover have "states_in_domain (demo_world p)"
  proof -
    have zero: "packer_get p (replicate (num_bins p) 0) v = 0" if "v < 3" for v
      using packer_get_zero [OF assms, of v] that demo_ok(4) by simp
    show ?thesis
      using zero [of 0] zero [of "Suc 0"] zero [of "Suc (Suc 0)"]
      by (simp add: states_in_domain_def registry_size_def demo_world_def demo_task_def state_value_def packed_buffer_def
          All_less_Suc word_less_nat_alt)
  qed
  ultimately show "world_ok (demo_world p)" by (simp add: world_ok_def)
qed

theorem successor_state_correct_witness:
  "\<exists>p i w'. get_successor_state (demo_world p) 0 demo_operator = Inr (i, w') \<and> state_value w' i 0 = 1"
proof -
  obtain p where p: "pack_bins (statespace_sizes demo_task) = Some p" using demo_packing demo_ok(4) by auto
  note ok = demo_world_ok [OF p]
  have small: "num_vars (w_task (demo_world p)) = 3" "g_axiom_layers (w_task (demo_world p)) = [- 1, 0, 1]"
    "map cax_affected (g_comp_axioms (w_task (demo_world p))) = [1]"
    by (simp_all add: demo_world_def demo_task_def)
  have "0 \<notin> cax_affected ` set (g_comp_axioms (w_task (demo_world p)))" using small(3) by (metis list.set(1,2) list.set_map singletonD zero_neq_one)
  moreover have "map_of (rev (fired_effects (state_value (demo_world p) 0) demo_operator)) 0 = Some 1"
    by (simp add: fired_effects_def demo_operator_def does_fire_def)
  ultimately show ?thesis
    using successor_state_correct [OF ok(1) _ ok(3), of 0] ok(2) small by fastforce
qed

theorem registry_has_no_duplicates_witness:
  "\<exists>p i w'. get_successor_state (demo_world p) 0 demo_operator = Inr (i, w') \<and> registry_size w' \<le> 2"
proof -
  obtain p where p: "pack_bins (statespace_sizes demo_task) = Some p" using demo_packing demo_ok(4) by auto
  note ok = demo_world_ok [OF p]
  obtain i w' where res: "get_successor_state (demo_world p) 0 demo_operator = Inr (i, w')"
    using successor_state [OF ok(1) _ ok(3), of 0] ok(2) by auto
  then show ?thesis
    using registry_has_no_duplicates [of "demo_world p" 0 i w' demo_operator "[]" "[]"] world_okD(7) [OF ok(1)] ok(2)
    by (intro exI [of _ p] exI [of _ i] exI [of _ w']) simp
qed

end
