(* ===== verification/Registry_Initial.thy ===== *)
theory Registry_Initial
  imports Registry_Properties
begin

text \<open>The initial state of the registry, and the metric of states that are reached again.\<close>

section \<open>Storing the numeric variables\<close>

definition stored :: "task \<Rightarrow> packing \<Rightarrow> container_int list \<Rightarrow> ap_float list \<Rightarrow> nat \<Rightarrow> numeric_store \<Rightarrow> bool" where
  "stored t p b0 vals m s \<longleftrightarrow>
    length (ns_indices s) = num_numeric t \<and> (\<forall>k < m. ns_indices s ! k = slot_index t k) \<and>
    (\<forall>k < num_numeric t. m \<le> k \<longrightarrow> ns_indices s ! k = - 1) \<and>
    ns_regular_index s = num_vars t + type_rank t num_regular m \<and>
    ns_constant_index s = type_rank t num_constant m \<and>
    length (ns_constants s) = type_rank t num_constant (num_numeric t) \<and>
    ns_instrumentation s = map (\<lambda>k. vals ! k) (filter (\<lambda>k. var_type t k = num_instrumentation) [0..<m]) \<and>
    (\<forall>k < m. var_type t k = num_constant \<longrightarrow> ns_constants s ! type_rank t num_constant k = vals ! k) \<and>
    buffer_ok t p (ns_buffer s) \<and>
    (\<forall>k < m. var_type t k = num_regular \<longrightarrow> packer_getDouble p (ns_buffer s) (slot t k) = vals ! k) \<and>
    (\<forall>v < num_vars t. packer_get p (ns_buffer s) v = packer_get p b0 v)"

lemma filter_upt_nth_rank:
  "k < m \<Longrightarrow> var_type t k = ty \<Longrightarrow> filter (\<lambda>k. var_type t k = ty) [0..<m] ! type_rank t ty k = k"
proof (induction m)
  case (Suc m)
  show ?case
  proof (cases "k = m")
    case True
    then show ?thesis using Suc.prems by (simp add: type_rank_def nth_append)
  next
    case False
    then have "type_rank t ty k < length (filter (\<lambda>k. var_type t k = ty) [0..<m])"
      using Suc.prems type_rank_less [of k m t ty] by (simp add: type_rank_def)
    then show ?thesis using Suc False by (simp add: nth_append)
  qed
qed simp

lemma stored_step:
  assumes t: "numeric_task_ok t" and m: "m < num_numeric t" and s: "stored t p b0 vals m s"
  shows "stored t p b0 vals (Suc m) (store_initial_var t p vals m s)"
proof -
  have h: "length (ns_indices s) = num_numeric t" "\<forall>k < m. ns_indices s ! k = slot_index t k"
    "\<forall>k < num_numeric t. m \<le> k \<longrightarrow> ns_indices s ! k = - 1"
    "ns_regular_index s = num_vars t + type_rank t num_regular m" "ns_constant_index s = type_rank t num_constant m"
    "length (ns_constants s) = type_rank t num_constant (num_numeric t)"
    "ns_instrumentation s = map (\<lambda>k. vals ! k) (filter (\<lambda>k. var_type t k = num_instrumentation) [0..<m])"
    "\<forall>k < m. var_type t k = num_constant \<longrightarrow> ns_constants s ! type_rank t num_constant k = vals ! k"
    "buffer_ok t p (ns_buffer s)"
    "\<forall>k < m. var_type t k = num_regular \<longrightarrow> packer_getDouble p (ns_buffer s) (slot t k) = vals ! k"
    "\<forall>v < num_vars t. packer_get p (ns_buffer s) v = packer_get p b0 v"
    using s by (simp_all add: stored_def)
  show ?thesis
  proof (cases "var_type t m")
    case num_unknown
    then show ?thesis using t m by (auto simp: numeric_task_ok_def in_set_conv_nth)
  next
    case num_constant
    have "type_rank t numType.num_constant m < length (ns_constants s)"
      using type_rank_less [OF m num_constant] h(6) by simp
    then have "list_update (ns_constants s) (type_rank t numType.num_constant m) (vals ! m) ! type_rank t numType.num_constant k = vals ! k"
      if "k < Suc m" "var_type t k = numType.num_constant" for k
      using that h(8) type_rank_inj [OF that(2) num_constant] by (cases "k = m") (simp_all add: nth_list_update)
    then show ?thesis
      using h(1-7,9-) m num_constant
      by (auto simp: stored_def store_initial_var_def store_constant_def type_rank_Suc slot_index_def less_Suc_eq nth_list_update)
  next
    case num_derived
    then show ?thesis
      using h m by (auto simp: stored_def store_initial_var_def type_rank_Suc slot_index_def less_Suc_eq)
  next
    case num_instrumentation
    then show ?thesis
      using h m by (auto simp: stored_def store_initial_var_def store_instrumentation_def type_rank_Suc slot_index_def
          less_Suc_eq nth_list_update) (simp_all add: type_rank_def)
  next
    case num_regular
    have slot: "ns_regular_index s = slot t m" using h(4) by (simp add: slot_def)
    have eq: "packer_set p (ns_buffer s) (slot t m) (packDouble (vals ! m)) = packer_setDouble p (ns_buffer s) (slot t m) (vals ! m)"
      by (simp add: packer_setDouble_def packer_set_def)
    note set = buffer_setDouble [OF t h(9) m num_regular, where x = "vals ! m"]
    have reg: "packer_getDouble p (packer_setDouble p (ns_buffer s) (slot t m) (vals ! m)) (slot t k) = vals ! k"
      if k: "k < Suc m" "var_type t k = numType.num_regular" for k
    proof (cases "k = m")
      case False
      then have "slot t k \<noteq> slot t m" using slot_inj k(2) num_regular by blast
      moreover have "slot t k < length (statespace_sizes t)"
        using regular_slot(1) [OF t _ k(2)] k(1) m by (simp add: slot_def)
      ultimately have "packer_getDouble p (packer_setDouble p (ns_buffer s) (slot t m) (vals ! m)) (slot t k) =
          packer_getDouble p (ns_buffer s) (slot t k)"
        using set(3) by (intro packer_getDouble_cong) simp
      then show ?thesis using h(10) k False by simp
    qed (use set(2) in simp)
    have keep: "packer_get p (packer_setDouble p (ns_buffer s) (slot t m) (vals ! m)) v = packer_get p b0 v"
      if "v < num_vars t" for v
      using set(3) [where w = v] that h(11) sizes_domain(2) [of t] by (simp add: slot_def)
    show ?thesis
      using h(1-8) m num_regular set(1) reg keep
      by (auto simp: stored_def store_initial_var_def store_regular_def slot eq type_rank_Suc slot_index_def less_Suc_eq nth_list_update)
        (simp_all add: slot_def eq [unfolded slot_def])
  qed
qed

lemma stored_fold:
  assumes "numeric_task_ok t" "stored t p b0 vals 0 s"
  shows "m \<le> num_numeric t \<Longrightarrow> stored t p b0 vals m (fold (store_initial_var t p vals) [0..<m] s)"
  by (induction m) (use assms stored_step [OF assms(1)] in auto)

text \<open>A registry nothing has been stored in yet.\<close>

definition fresh_world :: "world \<Rightarrow> bool" where
  "fresh_world w \<longleftrightarrow> task_ok (w_task w) \<and> registry_inv w \<and> evaluator_ok w \<and> g_cost_information w = [] \<and>
    w_registry w = StateRegistry_make (w_task w) (type_rank (w_task w) num_constant (num_numeric (w_task w))) \<and>
    (\<forall>v < num_vars (w_task w). g_initial_state_data (w_task w) ! v < g_variable_domain (w_task w) ! v)"

lemma set_values_ok:
  assumes "well_stratified t" "pack_bins (statespace_sizes t) = Some p" "length vals = num_vars t"
    "\<forall>v < num_vars t. vals ! v < g_variable_domain t ! v"
  shows "buffer_ok t p (set_values p vals)" "v < num_vars t \<Longrightarrow> packer_get p (set_values p vals) v = vals ! v"
proof -
  let ?ws = "zip [0..<length vals] vals"
  have ok: "pack_bins (statespace_sizes t) = Some p \<and> length (replicate (num_bins p) (0::container_int)) = num_bins p"
    using assms(2) by simp
  have adm: "v < length (statespace_sizes t) \<and> in_domain (statespace_sizes t ! v) x" if "(v, x) \<in> set ?ws" for v x
  proof -
    have "v < num_vars t" "x = vals ! v" using that assms(3) by (auto simp: set_zip)
    then show ?thesis using assms(1,4) sizes_domain(2) [of t] by (simp add: in_domain_def sizes_domain(1) well_stratified_def)
  qed
  have dist: "distinct (map fst ?ws)" by (simp add: map_fst_zip)
  show "buffer_ok t p (set_values p vals)"
    unfolding buffer_ok_def set_values_def by (rule packed.valid_writes [OF ok adm])
  assume v: "v < num_vars t"
  then have "(v, vals ! v) \<in> set ?ws" using assms(3) by (simp add: set_zip) (rule exI [of _ v], simp)
  then have "map_of ?ws v = Some (vals ! v)" by (intro map_of_is_SomeI dist)
  moreover have "v < length (statespace_sizes t)" using v sizes_domain(2) [of t] by simp
  ultimately show "packer_get p (set_values p vals) v = vals ! v"
    unfolding set_values_def using packed.get_writes_distinct [OF ok adm _ dist, of v] by simp
qed

lemma stored_start:
  assumes "fresh_world w"
  shows "stored (w_task w) (w_packer w) (set_values (w_packer w) (g_initial_state_data (w_task w)))
    (g_initial_state_numeric (w_task w)) (num_numeric (w_task w)) (initial_store (w_task w) (w_packer w) (w_registry w))"
proof -
  let ?t = "w_task w" and ?p = "w_packer w"
  let ?s = "\<lparr>ns_indices = numeric_indices (w_registry w), ns_constants = numeric_constants (w_registry w), ns_instrumentation = [],
        ns_regular_index = length (g_initial_state_data ?t), ns_constant_index = 0,
        ns_buffer = set_values ?p (g_initial_state_data ?t)\<rparr>"
  have t: "numeric_task_ok ?t" "well_stratified ?t" and inv: "pack_bins (statespace_sizes ?t) = Some ?p"
    using assms registry_invD(1) by (auto simp: fresh_world_def task_ok_def)
  then have len: "length (g_initial_state_data ?t) = num_vars ?t" "length (g_initial_state_numeric ?t) = num_numeric ?t"
    by (simp_all add: numeric_task_ok_def)
  have "stored ?t ?p (set_values ?p (g_initial_state_data ?t)) (g_initial_state_numeric ?t) 0 ?s"
    using assms len set_values_ok(1) [OF t(2) inv len(1)]
    by (simp add: stored_def fresh_world_def StateRegistry_make_def type_rank_def)
  from stored_fold [OF t(1) this, of "num_numeric ?t"] show ?thesis
    by (simp add: initial_store_def Let_def len)
qed

lemma add_state_fields:
  assumes "set (registered_states r) = {..<length (state_data_pool r)}" "distinct (state_data_pool r)" "add_state r b = (i, r')"
  shows "numeric_indices r' = numeric_indices r" "numeric_constants r' = numeric_constants r"
  using arg_cong [OF insert_id_or_pop_state_cases(5) [OF assms(1,2) refl assms(3)], of numeric_indices]
    arg_cong [OF insert_id_or_pop_state_cases(5) [OF assms(1,2) refl assms(3)], of numeric_constants]
  by simp_all

text \<open>The tables of the evaluator do not depend on the initial numeric values.\<close>

lemma make_initial [simp]: "AxiomEvaluator_make (t\<lparr>g_initial_state_numeric := vals\<rparr>) = AxiomEvaluator_make t"
proof -
  have "add_nbf_info (t\<lparr>g_initial_state_numeric := vals\<rparr>) = add_nbf_info t"
    by (simp add: fun_eq_iff add_nbf_info_def last_axiom_layer_def Let_def)
  then show ?thesis by (simp add: AxiomEvaluator_make_def logic_layer_bounds_def last_axiom_layer_def)
qed

lemma same_tables_initial [simp]: "same_tables (t\<lparr>g_initial_state_numeric := vals\<rparr>) ev = same_tables t ev"
  by (simp add: same_tables_def)

lemma layout_ok_initial [simp]: "layout_ok (t\<lparr>g_initial_state_numeric := vals\<rparr>) r = layout_ok t r"
proof -
  have "slot_index (t\<lparr>g_initial_state_numeric := vals\<rparr>) k = slot_index t k" for k
    by (cases "var_type t k") (simp_all add: slot_index_def type_rank_def)
  then show ?thesis by (simp add: layout_ok_def)
qed

lemma derived_initial [simp]: "derived_var (t\<lparr>g_initial_state_numeric := vals\<rparr>) = derived_var t"
  by (simp add: fun_eq_iff derived_var_def)

lemma ok_initial [simp]:
  "well_stratified (t\<lparr>g_initial_state_numeric := vals\<rparr>) = well_stratified t"
  "comparisons_ok (t\<lparr>g_initial_state_numeric := vals\<rparr>) = comparisons_ok t"
  "has_logic_axioms (t\<lparr>g_initial_state_numeric := vals\<rparr>) = has_logic_axioms t"
  by (simp_all add: well_stratified_def axiom_ok_def comparisons_ok_def has_logic_axioms_def)

lemma task_ok_initial: "task_ok t \<Longrightarrow> length vals = num_numeric t \<Longrightarrow> task_ok (t\<lparr>g_initial_state_numeric := vals\<rparr>)"
  unfolding task_ok_def ok_initial derived_initial by (simp add: numeric_task_ok_def)

lemma initial_state_facts:
  assumes w: "fresh_world w"
  shows "\<exists>i w'. get_initial_state w = Inr (i, w') \<and> get_initial_state w' = Inr (i, w') \<and> world_ok w' \<and>
    (\<exists>vals. w_task w' = (w_task w)\<lparr>g_initial_state_numeric := vals\<rparr>) \<and>
    registry_inv w' \<and> i < registry_size w' \<and> layout_ok (w_task w) (w_registry w') \<and>
    (\<forall>v < num_vars (w_task w). g_axiom_layers (w_task w) ! v = - 1 \<longrightarrow> v \<notin> cax_affected ` set (g_comp_axioms (w_task w)) \<longrightarrow>
      state_value w' i v = g_initial_state_data (w_task w) ! v) \<and>
    (\<forall>k < num_numeric (w_task w). var_type (w_task w) k \<noteq> num_derived \<longrightarrow>
      get_numeric_vars w' i ! k = g_initial_state_numeric (w_task w) ! k) \<and>
    (\<forall>ax \<in> set (g_comp_axioms (w_task w)). state_value w' i (cax_affected ax) =
      (let vals = evaluate_arithmetic_axioms (w_task w) (g_initial_state_numeric (w_task w))
       in if compare_values (cax_op ax) (vals ! cax_lhs ax) (vals ! cax_rhs ax) then 0 else 1)) \<and>
    true_lits (w_task w) (w_packer w) (packed_buffer w' i) =
      horn (g_logic_axioms (w_task w)) (assumed_lits (w_task w) (w_packer w) (packed_buffer w' i))"
proof -
  let ?t = "w_task w" and ?p = "w_packer w" and ?r = "w_registry w" and ?num = "g_initial_state_numeric (w_task w)"
  let ?b0 = "set_values ?p (g_initial_state_data ?t)" and ?s = "initial_store ?t ?p ?r"
  have ok: "well_stratified ?t" "comparisons_ok ?t" "has_logic_axioms ?t \<or> (\<forall>v < num_vars ?t. \<not> derived_var ?t v)"
    "numeric_task_ok ?t" "registry_inv w" "same_tables ?t (w_axioms w)" "ax_queue (w_axioms w) = []"
    using w by (simp_all add: fresh_world_def task_ok_def evaluator_ok_def)
  have none: "cached_initial_state ?r = None" and empty: "state_data_pool ?r = []" "registered_states ?r = []"
    using w by (simp_all add: fresh_world_def StateRegistry_make_def)
  have len: "length (g_initial_state_data ?t) = num_vars ?t" using ok(4) by (simp add: numeric_task_ok_def)
  note b0 = set_values_ok [OF ok(1) registry_invD(1) [OF ok(5)] len]
  have dom: "\<forall>v < num_vars ?t. g_initial_state_data ?t ! v < g_variable_domain ?t ! v" using w by (simp add: fresh_world_def)
  have s: "\<forall>k < num_numeric ?t. ns_indices ?s ! k = slot_index ?t k"
    "ns_instrumentation ?s = map (\<lambda>k. ?num ! k) (filter (\<lambda>k. var_type ?t k = num_instrumentation) [0..<num_numeric ?t])"
    "\<forall>k < num_numeric ?t. var_type ?t k = num_constant \<longrightarrow> ns_constants ?s ! type_rank ?t num_constant k = ?num ! k"
    "buffer_ok ?t ?p (ns_buffer ?s)"
    "\<forall>k < num_numeric ?t. var_type ?t k = num_regular \<longrightarrow> packer_getDouble ?p (ns_buffer ?s) (slot ?t k) = ?num ! k"
    "\<forall>v < num_vars ?t. packer_get ?p (ns_buffer ?s) v = packer_get ?p ?b0 v"
    using stored_start [OF w] by (simp_all add: stored_def)
  have given: "\<forall>v < num_vars ?t. g_axiom_layers ?t ! v = - 1 \<longrightarrow> packer_get ?p (ns_buffer ?s) v < g_variable_domain ?t ! v"
    using s(6) b0(2) dom by simp
  obtain ev b where eval: "evaluate_axioms ?t ?p (w_axioms w) (ns_buffer ?s) (evaluate_arithmetic_axioms ?t ?num) = Inr (ev, b)"
    and b: "buffer_ok ?t ?p b" and ev: "same_tables ?t ev" "ax_queue ev = []" and domb: "\<forall>v < num_vars ?t. packer_get ?p b v < g_variable_domain ?t ! v"
    and same: "\<forall>v < length (statespace_sizes ?t). \<not> (v < num_vars ?t \<and> derived_var ?t v) \<longrightarrow>
      v \<notin> cax_affected ` set (g_comp_axioms ?t) \<longrightarrow> packer_get ?p b v = packer_get ?p (ns_buffer ?s) v"
    and cmp: "\<forall>ax \<in> set (g_comp_axioms ?t). packer_get ?p b (cax_affected ax) =
      (if compare_values (cax_op ax) (evaluate_arithmetic_axioms ?t ?num ! cax_lhs ax) (evaluate_arithmetic_axioms ?t ?num ! cax_rhs ax) then 0 else 1)"
    and model: "true_lits ?t ?p b = horn (g_logic_axioms ?t) (assumed_lits ?t ?p b)"
    using evaluate_axioms_stable [OF ok(1-3) s(4) ok(6,7) given, of "evaluate_arithmetic_axioms ?t ?num"] by blast
  let ?r0 = "?r\<lparr>numeric_indices := ns_indices ?s, numeric_constants := ns_constants ?s\<rparr>"
  obtain i r' where add: "add_state ?r0 b = (i, r')" by (cases "add_state ?r0 b")
  have regs: "set (registered_states ?r0) = {..<length (state_data_pool ?r0)}" "distinct (state_data_pool ?r0)"
    using empty by simp_all
  note fields = add_state_fields [OF regs add]
  let ?w1 = "set_cost_information i (ns_instrumentation ?s) (w\<lparr>w_axioms := ev, w_registry := r'\<lparr>cached_initial_state := Some i\<rparr>\<rparr>)"
  let ?w' = "?w1\<lparr>w_task := ?t\<lparr>g_initial_state_numeric := get_numeric_vars ?w1 i\<rparr>\<rparr>"
  have res: "get_initial_state w = Inr (i, ?w')" using none eval add by (simp add: get_initial_state_def Let_def)
  then have inv: "registry_inv ?w'" "i < registry_size ?w'"
    using get_initial_state_registers [OF ok(5)] by (auto simp: registers_def)
  have again: "get_initial_state ?w' = Inr (i, ?w')" by (simp add: get_initial_state_def)
  have buf: "packed_buffer ?w' i = b"
    using insert_id_or_pop_state_cases(4) [OF regs refl add] by (simp add: packed_buffer_def)
  have cost: "cost_information ?w' i = ns_instrumentation ?s"
  proof -
    have "i < registry_size (w\<lparr>w_axioms := ev, w_registry := r'\<lparr>cached_initial_state := Some i\<rparr>\<rparr>)"
      using inv(2) by (simp add: registry_size_def)
    from cost_information_set [OF this, of "ns_instrumentation ?s" i] show ?thesis by (simp add: cost_information_def)
  qed
  have layout: "layout_ok ?t (w_registry ?w')" using s(1) fields by (simp add: layout_ok_def)
  have val: "state_value ?w' i v = g_initial_state_data ?t ! v"
    if v: "v < num_vars ?t" "g_axiom_layers ?t ! v = - 1" "v \<notin> cax_affected ` set (g_comp_axioms ?t)" for v
  proof -
    have "v < length (statespace_sizes ?t)" "\<not> derived_var ?t v" using v sizes_domain(2) [of ?t] by (simp_all add: derived_var_def)
    then have "packer_get ?p b v = packer_get ?p (ns_buffer ?s) v" using same v(3) by blast
    then show ?thesis using s(6) b0(2) [OF dom v(1)] v(1) by (simp add: state_value_def buf)
  qed
  have num_ok: "numeric_task_ok (w_task ?w')"
    using ok(4) get_numeric_vars_nth(1) [of ?w1 i] by (simp add: numeric_task_ok_def)
  have num: "get_numeric_vars ?w' i ! k = ?num ! k" if k: "k < num_numeric ?t" "var_type ?t k \<noteq> num_derived" for k
  proof -
    have "get_numeric_vars ?w' i ! k = raw_numeric_var ?w' i k" using get_numeric_vars_nth(2) [OF num_ok, of k i] k by simp
    also have "\<dots> = ?num ! k"
    proof (cases "var_type ?t k")
      case num_unknown
      then show ?thesis using ok(4) k(1) by (auto simp: numeric_task_ok_def in_set_conv_nth)
    next
      case num_constant
      then show ?thesis using s(1,3) k(1) fields
        by (simp add: raw_numeric_var_def numeric_var_def Let_def slot_index_def)
    next
      case num_instrumentation
      have "type_rank ?t numType.num_instrumentation k < length (filter (\<lambda>k. var_type ?t k = numType.num_instrumentation) [0..<num_numeric ?t])"
        using type_rank_less [OF k(1) num_instrumentation] by (simp add: type_rank_def)
      then have "ns_instrumentation ?s ! type_rank ?t numType.num_instrumentation k = ?num ! k"
        unfolding s(2) using filter_upt_nth_rank [OF k(1) num_instrumentation] by simp
      moreover have "numeric_indices (w_registry ?w') ! k = int (type_rank ?t numType.num_instrumentation k)"
        using s(1) k(1) fields num_instrumentation by (simp add: slot_index_def)
      then have "raw_numeric_var ?w' i k = cost_information ?w' i ! type_rank ?t numType.num_instrumentation k"
        using num_instrumentation by (simp add: raw_numeric_var_def numeric_var_def Let_def)
      ultimately show ?thesis unfolding cost by simp
    next
      case num_regular
      have "slot ?t k < length (statespace_sizes ?t)" using regular_slot(1) [OF ok(4) k(1) num_regular] by (simp add: slot_def)
      moreover have out: "\<not> slot ?t k < num_vars ?t" by (simp add: slot_def)
      moreover have "slot ?t k \<notin> cax_affected ` set (g_comp_axioms ?t)" using ok(2) out by (auto simp: comparisons_ok_def)
      ultimately have "packer_get ?p b (slot ?t k) = packer_get ?p (ns_buffer ?s) (slot ?t k)" using same by blast
      then have "packer_getDouble ?p b (slot ?t k) = ?num ! k" using packer_getDouble_cong s(5) k(1) num_regular by metis
      moreover have "nat (numeric_indices (w_registry ?w') ! k) = slot ?t k" by (rule layout_slot [OF layout k(1) num_regular])
      ultimately show ?thesis
        using num_regular by (simp add: raw_numeric_var_def numeric_var_def Let_def buf)
    qed (use k(2) in simp)
    finally show ?thesis .
  qed
  have world: "world_ok ?w'"
  proof -
    have "registry_size ?w' = length (state_data_pool r')" using registry_invD(3) [OF inv(1)] by simp
    then have "packed_buffer ?w' s = b" if "s < registry_size ?w'" for s
      using that insert_id_or_pop_state_cases(1) [OF regs refl add] empty by (simp add: packed_buffer_def split: if_splits)
    then have "states_in_domain ?w'" using domb by (simp add: states_in_domain_def state_value_def)
    moreover have "task_ok (w_task ?w')"
    proof -
      have "length (get_numeric_vars ?w1 i) = num_numeric ?t" using get_numeric_vars_nth(1) [of ?w1 i] ok(4) by simp
      moreover have "task_ok ?t" using w by (simp add: fresh_world_def)
      ultimately show ?thesis using task_ok_initial [of ?t "get_numeric_vars ?w1 i"] by simp
    qed
    moreover have "layout_ok (w_task ?w') (w_registry ?w')" using layout by simp
    ultimately show ?thesis using inv(1) ev by (simp add: world_ok_def evaluator_ok_def)
  qed
  have task: "\<exists>vals. w_task ?w' = ?t\<lparr>g_initial_state_numeric := vals\<rparr>" by auto
  show ?thesis
    using res again world task inv layout val num model cmp
    by (intro exI [of _ i] exI [of _ ?w']) (simp add: buf state_value_def Let_def)
qed

text \<open>What the arithmetic axioms compute depends only on the variables they do not write.\<close>

lemma arithmetic_agree:
  assumes "layered axs" "\<forall>ax \<in> set axs. aax_lhs ax < length xs \<and> aax_rhs ax < length xs" "length ys = length xs"
    "\<forall>k < length xs. k \<notin> aax_affected ` set axs \<longrightarrow> ys ! k = xs ! k"
  shows "foldl apply_assignment_axiom ys axs = foldl apply_assignment_axiom xs axs"
  using assms
proof (induction axs arbitrary: xs ys)
  case Nil
  then show ?case by (auto intro: nth_equalityI)
next
  case (Cons a axs)
  have "aax_lhs a \<notin> aax_affected ` set (a # axs)" "aax_rhs a \<notin> aax_affected ` set (a # axs)"
    using Cons.prems(1) by force+
  then have args: "ys ! aax_lhs a = xs ! aax_lhs a" "ys ! aax_rhs a = xs ! aax_rhs a"
    using Cons.prems(2,4) by simp_all
  show ?case unfolding foldl_Cons
  proof (rule Cons.IH)
    show "\<forall>k < length (apply_assignment_axiom xs a). k \<notin> aax_affected ` set axs \<longrightarrow>
        apply_assignment_axiom ys a ! k = apply_assignment_axiom xs a ! k"
    proof (intro allI impI)
      fix k assume "k < length (apply_assignment_axiom xs a)" "k \<notin> aax_affected ` set axs"
      then show "apply_assignment_axiom ys a ! k = apply_assignment_axiom xs a ! k"
        using Cons.prems(3,4) args by (cases "k = aax_affected a") (simp_all add: apply_assignment_axiom_def)
    qed
  qed (use Cons.prems in \<open>auto simp: apply_assignment_axiom_def\<close>)
qed

definition derived_vars_computed :: "task \<Rightarrow> bool" where
  "derived_vars_computed t \<longleftrightarrow> layered (g_ass_axioms t) \<and>
     (\<forall>ax \<in> set (g_ass_axioms t). aax_lhs ax < num_numeric t \<and> aax_rhs ax < num_numeric t) \<and>
     (\<forall>k < num_numeric t. var_type t k = num_derived \<longrightarrow> k \<in> aax_affected ` set (g_ass_axioms t))"

lemma numeric_vars_computed:
  assumes t: "numeric_task_ok (w_task w)" "derived_vars_computed (w_task w)" and len: "length num = num_numeric (w_task w)"
    and same: "\<forall>k < num_numeric (w_task w). var_type (w_task w) k \<noteq> num_derived \<longrightarrow> get_numeric_vars w i ! k = num ! k"
  shows "get_numeric_vars w i = evaluate_arithmetic_axioms (w_task w) num"
proof -
  let ?t = "w_task w" and ?raw = "map (raw_numeric_var w i) [0..<num_numeric (w_task w)]"
  have raw: "?raw ! k = num ! k" if "k < num_numeric ?t" "k \<notin> aax_affected ` set (g_ass_axioms ?t)" for k
  proof -
    have "var_type ?t k \<noteq> num_derived" using t(2) that by (auto simp: derived_vars_computed_def)
    then show ?thesis using same get_numeric_vars_nth(2) [OF t(1) that(1), of i] that(1) by simp
  qed
  have "foldl apply_assignment_axiom ?raw (g_ass_axioms ?t) = foldl apply_assignment_axiom num (g_ass_axioms ?t)"
    by (rule arithmetic_agree) (use t(2) len raw in \<open>auto simp: derived_vars_computed_def\<close>)
  moreover have "has_numeric_axioms ?t \<or> g_ass_axioms ?t = []" by (simp add: has_numeric_axioms_def)
  ultimately show ?thesis using get_numeric_vars_raw [OF t(1), of i]
    by (auto simp: Let_def evaluate_arithmetic_axioms_def)
qed

section \<open>Properties\<close>

text \<open>
  C34. The initial state: on a well-formed task \<open>get_initial_state\<close> succeeds on a fresh registry,
  the state has the initial value of every given variable, its constants, instrumentation and regular
  variables read back as the initial values, its derived numeric variables solve the arithmetic axioms,
  every comparison variable holds the result of its comparison on these values, and the other derived
  variables are the stable model of the axioms. Asking again returns the same state and changes
  nothing.
\<close>

theorem initial_state_correct:
  assumes w: "fresh_world w" "derived_vars_computed (w_task w)"
  shows "\<exists>i w'. get_initial_state w = Inr (i, w') \<and> get_initial_state w' = Inr (i, w') \<and>
    registry_inv w' \<and> i < registry_size w' \<and> layout_ok (w_task w) (w_registry w') \<and>
    (\<forall>v < num_vars (w_task w). g_axiom_layers (w_task w) ! v = - 1 \<longrightarrow> v \<notin> cax_affected ` set (g_comp_axioms (w_task w)) \<longrightarrow>
      state_value w' i v = g_initial_state_data (w_task w) ! v) \<and>
    (\<forall>k < num_numeric (w_task w). var_type (w_task w) k \<noteq> num_derived \<longrightarrow>
      get_numeric_vars w' i ! k = g_initial_state_numeric (w_task w) ! k) \<and>
    (\<forall>ax \<in> set (g_ass_axioms (w_task w)). get_numeric_vars w' i ! aax_affected ax =
      calculate (aax_op ax) (get_numeric_vars w' i ! aax_lhs ax) (get_numeric_vars w' i ! aax_rhs ax)) \<and>
    (\<forall>ax \<in> set (g_comp_axioms (w_task w)). state_value w' i (cax_affected ax) =
      (if compare_values (cax_op ax) (get_numeric_vars w' i ! cax_lhs ax) (get_numeric_vars w' i ! cax_rhs ax) then 0 else 1)) \<and>
    true_lits (w_task w) (w_packer w) (packed_buffer w' i) =
      horn (g_logic_axioms (w_task w)) (assumed_lits (w_task w) (w_packer w) (packed_buffer w' i))"
proof -
  let ?t = "w_task w" and ?num = "g_initial_state_numeric (w_task w)"
  obtain i w' vals where res: "get_initial_state w = Inr (i, w')" "get_initial_state w' = Inr (i, w')" "world_ok w'"
    "registry_inv w'" "i < registry_size w'" "layout_ok ?t (w_registry w')" and task: "w_task w' = ?t\<lparr>g_initial_state_numeric := vals\<rparr>"
    and given: "\<forall>v < num_vars ?t. g_axiom_layers ?t ! v = - 1 \<longrightarrow> v \<notin> cax_affected ` set (g_comp_axioms ?t) \<longrightarrow>
      state_value w' i v = g_initial_state_data ?t ! v"
    and num: "\<forall>k < num_numeric ?t. var_type ?t k \<noteq> num_derived \<longrightarrow> get_numeric_vars w' i ! k = ?num ! k"
    and cmp: "\<forall>ax \<in> set (g_comp_axioms ?t). state_value w' i (cax_affected ax) =
      (let vals = evaluate_arithmetic_axioms ?t ?num in if compare_values (cax_op ax) (vals ! cax_lhs ax) (vals ! cax_rhs ax) then 0 else 1)"
    and model: "true_lits ?t (w_packer w) (packed_buffer w' i) = horn (g_logic_axioms ?t) (assumed_lits ?t (w_packer w) (packed_buffer w' i))"
    using initial_state_facts [OF w(1)] by blast
  have t: "numeric_task_ok ?t" "numeric_task_ok (w_task w')" using w(1) res(3) by (simp_all add: fresh_world_def world_ok_def task_ok_def)
  have "derived_vars_computed (w_task w')" using w(2) unfolding task by (simp add: derived_vars_computed_def)
  then have "get_numeric_vars w' i = evaluate_arithmetic_axioms (w_task w') ?num"
    by (rule numeric_vars_computed [OF t(2)]) (use t(1) num in \<open>simp_all add: task numeric_task_ok_def\<close>)
  then have vals: "get_numeric_vars w' i = evaluate_arithmetic_axioms ?t ?num" by (simp add: task evaluate_arithmetic_axioms_def)
  have "evaluate_arithmetic_axioms ?t ?num ! aax_affected ax =
      calculate (aax_op ax) (evaluate_arithmetic_axioms ?t ?num ! aax_lhs ax) (evaluate_arithmetic_axioms ?t ?num ! aax_rhs ax)"
    if "ax \<in> set (g_ass_axioms ?t)" for ax
    using arithmetic_solves [OF _ _ that, of ?num] w(2) t(1)
    by (simp add: evaluate_arithmetic_axioms_def derived_vars_computed_def numeric_task_ok_def)
  with res given num cmp model show ?thesis unfolding vals [symmetric] Let_def by blast
qed

text \<open>The same demonstration task with nothing registered yet.\<close>

definition fresh_demo_world :: "packing \<Rightarrow> world" where
  "fresh_demo_world p = \<lparr>w_task = demo_task\<lparr>g_metric_fluent_id := 0\<rparr>, w_packer = p,
    w_axioms = AxiomEvaluator_make demo_task, w_registry = StateRegistry_make (demo_task\<lparr>g_metric_fluent_id := 0\<rparr>) 0,
    g_cost_information = []\<rparr>"

theorem initial_state_correct_witness:
  "\<exists>p i w'. get_initial_state (fresh_demo_world p) = Inr (i, w') \<and> state_value w' i 0 = 0 \<and>
    get_numeric_vars w' i ! 1 = ap_of_int 2 \<and> state_value w' i 1 = 0"
proof -
  obtain p where p: "pack_bins (statespace_sizes demo_task) = Some p" using demo_packing demo_ok(4) by auto
  have small: "num_vars (w_task (fresh_demo_world p)) = 3" "g_axiom_layers (w_task (fresh_demo_world p)) = [- 1, 0, 1]"
    "map cax_affected (g_comp_axioms (w_task (fresh_demo_world p))) = [1]"
    "num_numeric (w_task (fresh_demo_world p)) = 2" "var_type (w_task (fresh_demo_world p)) 1 = num_regular"
    "g_initial_state_data (w_task (fresh_demo_world p)) = [0, 2, 1]"
    "g_initial_state_numeric (w_task (fresh_demo_world p)) = [ap_of_int 1, ap_of_int 2]"
    by (simp_all add: fresh_demo_world_def demo_task_def)
  have "task_ok (w_task (fresh_demo_world p))"
    using demo_ok by (simp add: task_ok_def fresh_demo_world_def ok_metric) (simp add: demo_task_def numeric_task_ok_def)
  moreover have "registry_inv (fresh_demo_world p)"
    using p by (auto simp: registry_inv_def fresh_demo_world_def ok_metric StateRegistry_make_def)
  moreover have "evaluator_ok (fresh_demo_world p)"
    by (simp add: evaluator_ok_def fresh_demo_world_def same_tables_def)
  ultimately have "fresh_world (fresh_demo_world p)"
    by (simp add: fresh_world_def) (simp add: fresh_demo_world_def demo_task_def All_less_Suc word_less_nat_alt type_rank_def)
  moreover have "derived_vars_computed (w_task (fresh_demo_world p))"
    by (simp add: derived_vars_computed_def fresh_demo_world_def demo_task_def All_less_Suc)
  ultimately obtain i w' where res: "get_initial_state (fresh_demo_world p) = Inr (i, w')"
    and vals: "\<forall>v < 3. [- 1, 0, 1] ! v = (- 1::int) \<longrightarrow> v \<notin> cax_affected ` set (g_comp_axioms (w_task (fresh_demo_world p))) \<longrightarrow>
      state_value w' i v = [0, 2, 1] ! v"
    and nums: "\<forall>k < 2. var_type (w_task (fresh_demo_world p)) k \<noteq> num_derived \<longrightarrow>
      get_numeric_vars w' i ! k = [ap_of_int 1, ap_of_int 2] ! k"
    and cmp: "\<forall>ax \<in> set (g_comp_axioms (w_task (fresh_demo_world p))). state_value w' i (cax_affected ax) =
      (if compare_values (cax_op ax) (get_numeric_vars w' i ! cax_lhs ax) (get_numeric_vars w' i ! cax_rhs ax) then 0 else 1)"
    using initial_state_correct [of "fresh_demo_world p"] unfolding small by blast
  have comp: "g_comp_axioms (w_task (fresh_demo_world p)) = [\<lparr>cax_affected = 1, cax_lhs = 0, cax_rhs = 1, cax_op = comp_lt\<rparr>]"
    "var_type (w_task (fresh_demo_world p)) 0 \<noteq> num_derived"
    by (simp_all add: fresh_demo_world_def demo_task_def)
  have "get_numeric_vars w' i ! 0 = ap_of_int 1" "get_numeric_vars w' i ! 1 = ap_of_int 2"
    using spec [OF nums, of 0] spec [OF nums, of 1] small(5) comp(2) by simp_all
  moreover from this have "state_value w' i 1 = 0"
    using cmp by (simp add: comp ap_lt_def decode_ap_of_int)
  moreover have "0 \<notin> cax_affected ` set (g_comp_axioms (w_task (fresh_demo_world p)))" by (simp add: comp)
  ultimately show ?thesis using res spec [OF vals, of 0] by auto
qed

end
