(* ===== verification/Successor_Generator.thy ===== *)
theory Successor_Generator
  imports Planning_Task
begin

text \<open>
  \<open>SuccessorGenerator\<close> of \<open>successor_generator.cc\<close>: a decision tree over the variables that lists
  the operators applicable in a state. Operators are their indices in \<open>g_operators\<close>; the iterator
  \<open>next_condition_by_op[op]\<close> is the list of conditions of \<open>op\<close> that are still to be tested, which
  travels with the operator in the queues. Values of variables are C \<open>int\<close>s here, cut from the
  64-bit values of the state.
\<close>

section \<open>The generator\<close>

definition as_int :: "container_int \<Rightarrow> int" where "as_int x = sint (ucast x :: 32 word)"

type_synonym fact = "nat \<times> int"
type_synonym operator_queue = "(nat \<times> fact list) list"

datatype generator =
  GeneratorSwitch nat "nat list" "generator list" generator
| GeneratorLeaf "nat list"
| GeneratorEmpty

primrec generate_applicable_ops :: "generator \<Rightarrow> valuation \<Rightarrow> nat list" where
  "generate_applicable_ops (GeneratorSwitch switch_var immediate generator_for_value default_generator) state =
    immediate @ (map (\<lambda>g. generate_applicable_ops g state) generator_for_value ! nat (as_int (state switch_var))) @
    generate_applicable_ops default_generator state"
| "generate_applicable_ops (GeneratorLeaf opers) state = opers"
| "generate_applicable_ops GeneratorEmpty state = []"

section \<open>Construction\<close>

record distribution =
  operators_for_val :: "operator_queue list"
  default_operators :: operator_queue
  applicable_operators :: "nat list"
  all_ops_are_immediate :: bool
  var_is_interesting :: bool

definition dispatch_operator :: "nat \<Rightarrow> nat \<times> fact list \<Rightarrow> distribution \<Rightarrow> distribution" where
  "dispatch_operator switch_var entry d =
    (case snd entry of
       [] \<Rightarrow> d\<lparr>var_is_interesting := True, applicable_operators := applicable_operators d @ [fst entry]\<rparr>
     | c # cs \<Rightarrow>
         if fst c = switch_var
         then d\<lparr>all_ops_are_immediate := False, var_is_interesting := True,
           operators_for_val := (operators_for_val d)[nat (snd c) := operators_for_val d ! nat (snd c) @
             [(fst entry, dropWhile (\<lambda>c'. fst c' = switch_var) (c # cs))]]\<rparr>
         else d\<lparr>all_ops_are_immediate := False, default_operators := default_operators d @ [entry]\<rparr>)"

definition distribute_operators :: "nat \<Rightarrow> nat \<Rightarrow> operator_queue \<Rightarrow> distribution" where
  "distribute_operators switch_var number_of_children queue =
    fold (dispatch_operator switch_var) queue
      \<lparr>operators_for_val = replicate number_of_children [], default_operators = [], applicable_operators = [],
       all_ops_are_immediate = True, var_is_interesting = False\<rparr>"

text \<open>
  The loop of \<open>construct_recursive\<close> with its recursive calls; the check for an empty queue at the
  entry is the one of the recursive call. The variable never exceeds the number of variables.
\<close>

function construct_loop :: "nat list \<Rightarrow> nat \<Rightarrow> operator_queue \<Rightarrow> generator" where
  "construct_loop domains switch_var queue =
    (if length domains \<le> switch_var then GeneratorLeaf (map fst queue)
     else let d = distribute_operators switch_var (domains ! switch_var) queue;
              child = (\<lambda>ops. if ops = [] then GeneratorEmpty else construct_loop domains (Suc switch_var) ops)
       in if all_ops_are_immediate d then GeneratorLeaf (applicable_operators d)
          else if var_is_interesting d
          then GeneratorSwitch switch_var (applicable_operators d) (map child (operators_for_val d)) (child (default_operators d))
          else construct_loop domains (Suc switch_var) (default_operators d))"
  by pat_completeness auto
termination by (relation "measure (\<lambda>(domains, switch_var, queue). length domains - switch_var)") auto

declare construct_loop.simps [simp del]

definition construct_recursive :: "nat list \<Rightarrow> nat \<Rightarrow> operator_queue \<Rightarrow> generator" where
  "construct_recursive domains switch_var queue =
    (if queue = [] then GeneratorEmpty else construct_loop domains switch_var queue)"

text \<open>The conditions of an operator in the order of their variables.\<close>

definition sorted_conditions :: "GlobalOperator \<Rightarrow> fact list" where
  "sorted_conditions oper = sort_key fst (map (\<lambda>c. (cond_var c, as_int (cond_val c))) (preconditions oper))"

definition SuccessorGenerator_make :: "task \<Rightarrow> generator" where
  "SuccessorGenerator_make t =
    construct_recursive (map (\<lambda>x. nat (as_int x)) (g_variable_domain t)) 0
      (zip [0..<length (g_operators t)] (map sorted_conditions (g_operators t)))"

section \<open>What the distribution holds\<close>

definition tests_var :: "nat \<Rightarrow> nat \<times> fact list \<Rightarrow> bool" where
  "tests_var v entry \<longleftrightarrow> snd entry \<noteq> [] \<and> fst (hd (snd entry)) = v"

definition tests_fact :: "nat \<Rightarrow> nat \<Rightarrow> nat \<times> fact list \<Rightarrow> bool" where
  "tests_fact v k entry \<longleftrightarrow> tests_var v entry \<and> nat (snd (hd (snd entry))) = k"

definition drop_tests :: "nat \<Rightarrow> nat \<times> fact list \<Rightarrow> nat \<times> fact list" where
  "drop_tests v entry = (fst entry, dropWhile (\<lambda>c. fst c = v) (snd entry))"

lemma dispatch_operator_simps:
  "snd e = [] \<Longrightarrow> dispatch_operator v e d = d\<lparr>var_is_interesting := True, applicable_operators := applicable_operators d @ [fst e]\<rparr>"
  "tests_var v e \<Longrightarrow> dispatch_operator v e d = d\<lparr>all_ops_are_immediate := False, var_is_interesting := True,
    operators_for_val := (operators_for_val d)[nat (snd (hd (snd e))) := operators_for_val d ! nat (snd (hd (snd e))) @ [drop_tests v e]]\<rparr>"
  "snd e \<noteq> [] \<Longrightarrow> \<not> tests_var v e \<Longrightarrow> dispatch_operator v e d =
    d\<lparr>all_ops_are_immediate := False, default_operators := default_operators d @ [e]\<rparr>"
  by (auto simp: dispatch_operator_def tests_var_def drop_tests_def split: list.split)

lemma fold_dispatch:
  "default_operators (fold (dispatch_operator v) queue d) = default_operators d @ filter (\<lambda>e. snd e \<noteq> [] \<and> \<not> tests_var v e) queue"
  "applicable_operators (fold (dispatch_operator v) queue d) = applicable_operators d @ map fst (filter (\<lambda>e. snd e = []) queue)"
  "all_ops_are_immediate (fold (dispatch_operator v) queue d) \<longleftrightarrow> all_ops_are_immediate d \<and> (\<forall>e \<in> set queue. snd e = [])"
  "var_is_interesting (fold (dispatch_operator v) queue d) \<longleftrightarrow> var_is_interesting d \<or> (\<exists>e \<in> set queue. snd e = [] \<or> tests_var v e)"
  "length (operators_for_val (fold (dispatch_operator v) queue d)) = length (operators_for_val d)"
proof (induction queue arbitrary: d)
  case (Cons e queue)
  consider "snd e = []" "\<not> tests_var v e" | "snd e \<noteq> []" "tests_var v e" | "snd e \<noteq> []" "\<not> tests_var v e"
    by (cases "snd e") (auto simp: tests_var_def)
  note case_e = this
  { case 1 show ?case using case_e by cases (simp_all add: dispatch_operator_simps Cons.IH) }
  { case 2 show ?case using case_e by cases (simp_all add: dispatch_operator_simps Cons.IH) }
  { case 3 show ?case using case_e by cases (simp_all add: dispatch_operator_simps Cons.IH) }
  { case 4 show ?case using case_e by cases (simp_all add: dispatch_operator_simps Cons.IH) }
  { case 5 show ?case using case_e by cases (simp_all add: dispatch_operator_simps Cons.IH) }
qed simp_all

lemma fold_dispatch_for_val:
  "k < length (operators_for_val d) \<Longrightarrow>
    operators_for_val (fold (dispatch_operator v) queue d) ! k =
      operators_for_val d ! k @ map (drop_tests v) (filter (tests_fact v k) queue)"
proof (induction queue arbitrary: d)
  case (Cons e queue)
  consider "snd e = []" "\<not> tests_var v e" | "snd e \<noteq> []" "tests_var v e" | "snd e \<noteq> []" "\<not> tests_var v e"
    by (cases "snd e") (auto simp: tests_var_def)
  then show ?case
    by cases (use Cons.prems in \<open>simp_all add: dispatch_operator_simps Cons.IH tests_fact_def nth_list_update\<close>)
qed simp

lemmas distribution_fields = fold_dispatch fold_dispatch_for_val

section \<open>Correctness of the tree\<close>

text \<open>The entries a queue may hold when variable \<open>v\<close> is tested: one condition per variable, in order.\<close>

definition entry_ok :: "nat list \<Rightarrow> nat \<Rightarrow> nat \<times> fact list \<Rightarrow> bool" where
  "entry_ok domains v entry \<longleftrightarrow> sorted_wrt (\<lambda>a b. fst a < fst b) (snd entry) \<and>
    (\<forall>c \<in> set (snd entry). v \<le> fst c \<and> fst c < length domains \<and> 0 \<le> snd c \<and> nat (snd c) < domains ! fst c)"

definition satisfied :: "valuation \<Rightarrow> nat \<times> fact list \<Rightarrow> bool" where
  "satisfied state entry \<longleftrightarrow> (\<forall>c \<in> set (snd entry). as_int (state (fst c)) = snd c)"

definition in_domains :: "nat list \<Rightarrow> valuation \<Rightarrow> bool" where
  "in_domains domains state \<longleftrightarrow> (\<forall>v < length domains. 0 \<le> as_int (state v) \<and> nat (as_int (state v)) < domains ! v)"

lemma entry_ok_Nil: "entry_ok domains v (i, [])" by (simp add: entry_ok_def)

lemma drop_tests_hd:
  assumes "entry_ok domains v e" "tests_var v e"
  shows "drop_tests v e = (fst e, tl (snd e))" "entry_ok domains (Suc v) (drop_tests v e)"
proof -
  obtain c cs where e: "snd e = c # cs" "fst c = v" using assms(2) by (cases "snd e") (auto simp: tests_var_def)
  then have "\<forall>c' \<in> set cs. v < fst c'" using assms(1) by (auto simp: entry_ok_def)
  then have "dropWhile (\<lambda>c. fst c = v) cs = cs" by (cases cs) auto
  then show eq: "drop_tests v e = (fst e, tl (snd e))" using e by (simp add: drop_tests_def)
  show "entry_ok domains (Suc v) (drop_tests v e)" using assms(1) e by (auto simp: eq entry_ok_def Suc_le_eq)
qed

lemma entry_ok_later:
  assumes "entry_ok domains v e" "\<not> tests_var v e"
  shows "entry_ok domains (Suc v) e"
proof (cases "snd e")
  case (Cons c cs)
  then have "v < fst c" using assms by (auto simp: entry_ok_def tests_var_def)
  then show ?thesis using assms(1) Cons by (auto simp: entry_ok_def)
qed (simp add: entry_ok_def)

lemma satisfied_tests:
  assumes "entry_ok domains v e" "tests_var v e"
  shows "satisfied state e \<longleftrightarrow> as_int (state v) = snd (hd (snd e)) \<and> satisfied state (drop_tests v e)"
proof -
  obtain c cs where "snd e = c # cs" "fst c = v" using assms(2) by (cases "snd e") (auto simp: tests_var_def)
  then show ?thesis by (auto simp: satisfied_def drop_tests_hd(1) [OF assms])
qed

lemma nth_map_ifempty: "k < length xs \<Longrightarrow> map f xs ! k = f (xs ! k)" by simp

text \<open>The operators whose tests fail are not listed, the others are listed once each.\<close>

lemma generate_construct_loop:
  assumes "in_domains domains state" "\<forall>e \<in> set queue. entry_ok domains v e" "queue \<noteq> []"
  shows "mset (generate_applicable_ops (construct_loop domains v queue) state) = mset (map fst (filter (satisfied state) queue))"
  using assms
proof (induction domains v queue rule: construct_loop.induct)
  case (1 domains v queue)
  show ?case
  proof (cases "length domains \<le> v")
    case True
    have "satisfied state e" if "e \<in> set queue" for e
      using bspec [OF "1.prems"(2) that] True by (cases "snd e") (auto simp: entry_ok_def satisfied_def)
    then have "filter (satisfied state) queue = queue" by (simp add: filter_id_conv)
    then show ?thesis using True by (subst construct_loop.simps) simp
  next
    case False
    let ?d = "distribute_operators v (domains ! v) queue"
    let ?child = "\<lambda>ops. if ops = [] then GeneratorEmpty else construct_loop domains (Suc v) ops"
    let ?here = "\<lambda>e. snd e = []" and ?later = "\<lambda>e. snd e \<noteq> [] \<and> \<not> tests_var v e"
    have d: "default_operators ?d = filter ?later queue" "applicable_operators ?d = map fst (filter ?here queue)"
      "all_ops_are_immediate ?d \<longleftrightarrow> (\<forall>e \<in> set queue. snd e = [])"
      "var_is_interesting ?d \<longleftrightarrow> (\<exists>e \<in> set queue. snd e = [] \<or> tests_var v e)"
      "length (operators_for_val ?d) = domains ! v"
      by (simp_all add: distribute_operators_def distribution_fields)
    have val: "operators_for_val ?d ! k = map (drop_tests v) (filter (tests_fact v k) queue)" if "k < domains ! v" for k
      using that by (simp add: distribute_operators_def distribution_fields)
    have later: "\<forall>e \<in> set (filter ?later queue). entry_ok domains (Suc v) e"
      using "1.prems"(2) entry_ok_later by auto
    let ?k = "nat (as_int (state v))"
    have k: "?k < domains ! v" "0 \<le> as_int (state v)" using "1.prems"(1) False by (simp_all add: in_domains_def)
    have picked: "\<forall>e \<in> set (operators_for_val ?d ! ?k). entry_ok domains (Suc v) e"
      using "1.prems"(2) drop_tests_hd(2) by (auto simp: val k(1) tests_fact_def)
    have split: "mset (filter (satisfied state) queue) = mset (filter ?here queue) +
        mset (filter (\<lambda>e. tests_fact v ?k e \<and> satisfied state (drop_tests v e)) queue) + mset (filter (\<lambda>e. ?later e \<and> satisfied state e) queue)"
      using "1.prems"(2)
    proof (induction queue)
      case (Cons e queue)
      have e: "entry_ok domains v e" using Cons.prems by simp
      consider "snd e = []" "\<not> tests_var v e" | "snd e \<noteq> []" "tests_var v e" | "snd e \<noteq> []" "\<not> tests_var v e"
        by (cases "snd e") (auto simp: tests_var_def)
      then show ?case
      proof cases
        case 1
        then show ?thesis using Cons by (simp add: satisfied_def tests_fact_def)
      next
        case 2
        have nonneg: "0 \<le> snd (hd (snd e))" using e 2(1) by (cases "snd e") (auto simp: entry_ok_def)
        have "nat (snd (hd (snd e))) = ?k \<longleftrightarrow> as_int (state v) = snd (hd (snd e))"
          unfolding eq_nat_nat_iff [OF nonneg k(2)] by (rule eq_commute)
        then have "satisfied state e \<longleftrightarrow> tests_fact v ?k e \<and> satisfied state (drop_tests v e)"
          unfolding satisfied_tests [OF e 2(2)] tests_fact_def using 2(2) by simp
        then show ?thesis using Cons.IH Cons.prems 2 by simp
      next
        case 3
        then show ?thesis using Cons by (simp add: tests_fact_def)
      qed
    qed simp
    show ?thesis
    proof (cases "all_ops_are_immediate ?d")
      case True
      then have "filter (satisfied state) queue = queue" "filter ?here queue = queue"
        by (simp_all add: d(3) filter_id_conv satisfied_def)
      then show ?thesis using True False d(2) by (subst construct_loop.simps) (simp add: Let_def)
    next
      case notall: False
      have child: "mset (generate_applicable_ops (?child ops) state) = mset (map fst (filter (satisfied state) ops))"
        if "\<forall>e \<in> set ops. entry_ok domains (Suc v) e"
          "ops = default_operators ?d \<or> (var_is_interesting ?d \<and> ops \<in> set (operators_for_val ?d))" for ops
        using "1.IH" False notall that "1.prems"(1) by (cases "ops = []") auto
      show ?thesis
      proof (cases "var_is_interesting ?d")
        case True
        have "construct_loop domains v queue = GeneratorSwitch v (applicable_operators ?d) (map ?child (operators_for_val ?d)) (?child (default_operators ?d))"
          using False notall True by (subst construct_loop.simps) (simp add: Let_def)
        moreover have "map (\<lambda>g. generate_applicable_ops g state) (map ?child (operators_for_val ?d)) ! ?k =
            generate_applicable_ops (?child (operators_for_val ?d ! ?k)) state" using k(1) d(5) by simp
        moreover have "mset (generate_applicable_ops (?child (operators_for_val ?d ! ?k)) state) =
            mset (map fst (filter (satisfied state) (operators_for_val ?d ! ?k)))"
          using child [OF picked] True k(1) d(5) by simp
        moreover have "mset (generate_applicable_ops (?child (default_operators ?d)) state) =
            mset (map fst (filter (satisfied state) (default_operators ?d)))"
          using child [of "default_operators ?d"] later d(1) by simp
        moreover have "map fst (filter (satisfied state) (operators_for_val ?d ! ?k)) =
            map fst (filter (\<lambda>e. tests_fact v ?k e \<and> satisfied state (drop_tests v e)) queue)"
          by (simp add: val k(1) filter_map o_def drop_tests_def conj_commute)
        moreover have "filter (satisfied state) (default_operators ?d) = filter (\<lambda>e. ?later e \<and> satisfied state e) queue"
          unfolding d(1) by (simp add: conj_commute)
        ultimately show ?thesis using split d(2) by simp
      next
        case noint: False
        then have "filter ?later queue = queue" by (auto simp: d(4) filter_id_conv)
        then have "default_operators ?d = queue" using d(1) by simp
        moreover have "construct_loop domains v queue = construct_loop domains (Suc v) (default_operators ?d)"
          using False notall noint by (subst construct_loop.simps) (simp add: Let_def)
        ultimately show ?thesis
          using child [of "default_operators ?d"] later d(1) "1.prems"(3) by simp
      qed
    qed
  qed
qed

text \<open>Domains that fit an \<open>int\<close>, and operators with at most one condition on a variable.\<close>

definition generator_task_ok :: "task \<Rightarrow> bool" where
  "generator_task_ok t \<longleftrightarrow> (\<forall>x \<in> set (g_variable_domain t). x < 2 ^ 31) \<and>
    (\<forall>oper \<in> set (g_operators t). distinct (map cond_var (preconditions oper)) \<and>
      (\<forall>c \<in> set (preconditions oper). cond_var c < length (g_variable_domain t) \<and>
        cond_val c < g_variable_domain t ! cond_var c))"

definition state_in_domains :: "task \<Rightarrow> valuation \<Rightarrow> bool" where
  "state_in_domains t state \<longleftrightarrow> (\<forall>v < length (g_variable_domain t). state v < g_variable_domain t ! v)"

lemma as_int_small:
  assumes "x < 2 ^ 31"
  shows "as_int x = uint x"
proof -
  have x: "uint x < 2 ^ 31" using assms by (simp add: word_less_def)
  then have "uint (ucast x :: 32 word) = uint x" by (simp add: unsigned_ucast_eq take_bit_int_eq_self)
  moreover have "- (2 ^ 31) \<le> uint x" by (rule order_trans [of _ 0]) simp_all
  ultimately show ?thesis using x by (simp add: as_int_def sint_uint signed_take_bit_int_eq_self)
qed

lemma mset_map_fst_zip:
  "length xs = n \<Longrightarrow> map fst (filter (\<lambda>e. P (snd e)) (zip [0..<n] xs)) = filter (\<lambda>i. P (xs ! i)) [0..<n]"
proof (induction n arbitrary: xs)
  case (Suc n)
  then obtain ys y where xs: "xs = ys @ [y]" "length ys = n" by (cases xs rule: rev_cases) auto
  then have "filter (\<lambda>i. P (xs ! i)) [0..<n] = filter (\<lambda>i. P (ys ! i)) [0..<n]" by (intro filter_cong) (auto simp: nth_append)
  then show ?case using Suc.IH [OF xs(2)] xs by (auto simp: nth_append)
qed simp

lemma distinct_map_sort_key: "distinct (map f (sort_key g xs)) \<longleftrightarrow> distinct (map f xs)"
  by (rule mset_eq_imp_distinct_iff) simp

section \<open>Properties\<close>

text \<open>
  C35. The successor generator lists exactly the applicable operators: for every state whose
  values are in their domains, the tree built from the operators yields each operator whose
  preconditions hold once, and no other.
\<close>

theorem generator_lists_applicable:
  assumes t: "generator_task_ok t" and state: "state_in_domains t state"
  shows "mset (generate_applicable_ops (SuccessorGenerator_make t) state) =
    mset (filter (\<lambda>i. operator_is_applicable state (g_operators t ! i)) [0..<length (g_operators t)])"
proof -
  let ?domains = "map (\<lambda>x. nat (as_int x)) (g_variable_domain t)" and ?conds = "map sorted_conditions (g_operators t)"
  let ?queue = "zip [0..<length (g_operators t)] ?conds"
  have small: "state v < 2 ^ 31" "x < g_variable_domain t ! v \<Longrightarrow> x < 2 ^ 31" if "v < length (g_variable_domain t)" for v x
    using t state that unfolding generator_task_ok_def state_in_domains_def by (meson nth_mem order_less_trans)+
  have dom: "nat (as_int (g_variable_domain t ! v)) = unat (g_variable_domain t ! v)" if "v < length (g_variable_domain t)" for v
    using t that by (simp add: generator_task_ok_def as_int_small)
  have in_dom: "in_domains ?domains state"
    using state small(1) by (simp add: in_domains_def dom as_int_small state_in_domains_def word_less_nat_alt)
  have sorted: "sorted_wrt (\<lambda>a b. fst a < fst b) (sorted_conditions oper)"
    and conds: "set (sorted_conditions oper) = (\<lambda>c. (cond_var c, as_int (cond_val c))) ` set (preconditions oper)"
    if "oper \<in> set (g_operators t)" for oper
  proof -
    show "set (sorted_conditions oper) = (\<lambda>c. (cond_var c, as_int (cond_val c))) ` set (preconditions oper)"
      by (simp add: sorted_conditions_def)
    have "distinct (map fst (map (\<lambda>c. (cond_var c, as_int (cond_val c))) (preconditions oper)))"
      using t that by (simp add: generator_task_ok_def o_def)
    then have "distinct (map fst (sorted_conditions oper))"
      by (simp add: sorted_conditions_def distinct_map_sort_key)
    moreover have "sorted (map fst (sorted_conditions oper))" by (simp add: sorted_conditions_def)
    ultimately have "sorted_wrt (<) (map fst (sorted_conditions oper))" using strict_sorted_iff by blast
    then show "sorted_wrt (\<lambda>a b. fst a < fst b) (sorted_conditions oper)" by (simp add: sorted_wrt_map)
  qed
  have ok: "\<forall>e \<in> set ?queue. entry_ok ?domains 0 e"
  proof
    fix e assume "e \<in> set ?queue"
    then have "snd e \<in> set ?conds" by (metis set_zip_rightD prod.collapse)
    then obtain oper where oper: "oper \<in> set (g_operators t)" "snd e = sorted_conditions oper" by auto
    have "cond_var c < length (g_variable_domain t) \<and> 0 \<le> as_int (cond_val c) \<and>
        nat (as_int (cond_val c)) < unat (g_variable_domain t ! cond_var c)" if "c \<in> set (preconditions oper)" for c
    proof -
      have c: "cond_var c < length (g_variable_domain t)" "cond_val c < g_variable_domain t ! cond_var c"
        using t oper(1) that by (simp_all add: generator_task_ok_def)
      then show ?thesis using small(2) [OF c] by (simp add: as_int_small word_less_nat_alt)
    qed
    then show "entry_ok ?domains 0 e"
      using sorted [OF oper(1)] conds [OF oper(1)] by (auto simp: entry_ok_def oper(2) dom)
  qed
  have sat: "satisfied state (i, sorted_conditions oper) \<longleftrightarrow> operator_is_applicable state oper"
    if "oper \<in> set (g_operators t)" for i oper
  proof -
    have "as_int (state (cond_var c)) = as_int (cond_val c) \<longleftrightarrow> condition_is_applicable state c" if "c \<in> set (preconditions oper)" for c
    proof -
      have "cond_var c < length (g_variable_domain t)" "cond_val c < g_variable_domain t ! cond_var c"
        using t \<open>oper \<in> set (g_operators t)\<close> that by (simp_all add: generator_task_ok_def)
      then show ?thesis using small by (simp add: as_int_small word_uint_eq_iff condition_is_applicable_def)
    qed
    then show ?thesis by (simp add: satisfied_def operator_is_applicable_def conds [OF that] list_all_iff)
  qed
  have "mset (generate_applicable_ops (construct_recursive ?domains 0 ?queue) state) = mset (map fst (filter (satisfied state) ?queue))"
    using generate_construct_loop [OF in_dom ok] by (cases "?queue = []") (auto simp: construct_recursive_def)
  also have "filter (satisfied state) ?queue = filter (\<lambda>e. satisfied state (0, snd e)) ?queue"
    by (rule filter_cong [OF refl]) (simp add: satisfied_def)
  also have "map fst \<dots> = filter (\<lambda>i. satisfied state (0, ?conds ! i)) [0..<length (g_operators t)]"
    by (rule mset_map_fst_zip [where P = "\<lambda>cs. satisfied state (0, cs)"]) simp
  also have "\<dots> = filter (\<lambda>i. operator_is_applicable state (g_operators t ! i)) [0..<length (g_operators t)]"
    by (intro filter_cong) (auto simp: sat)
  finally show ?thesis by (simp add: SuccessorGenerator_make_def)
qed

text \<open>Two operators: the first needs variable 1 to be 1, the second needs nothing.\<close>

definition generator_demo_task :: task where
  "generator_demo_task = undefined\<lparr>g_variable_domain := [2, 2],
    g_operators := map (\<lambda>cs. \<lparr>is_an_axiom = False, preconditions = cs, op_effects = [], assign_effects = [],
      op_name = ''op'', op_cost = ap_of_int 1\<rparr>) [[\<lparr>cond_var = 1, cond_val = 1\<rparr>], []]\<rparr>"

theorem generator_lists_applicable_witness:
  "mset (generate_applicable_ops (SuccessorGenerator_make generator_demo_task) (\<lambda>v. 0)) = {#1#} \<and>
   mset (generate_applicable_ops (SuccessorGenerator_make generator_demo_task) (\<lambda>v. 1)) = {#0, 1#}"
proof -
  have t: "generator_task_ok generator_demo_task" by (simp add: generator_task_ok_def generator_demo_task_def)
  have s: "state_in_domains generator_demo_task (\<lambda>v. 0)" "state_in_domains generator_demo_task (\<lambda>v. 1)"
    by (simp_all add: state_in_domains_def generator_demo_task_def less_Suc_eq)
  show ?thesis
    using generator_lists_applicable [OF t s(1)] generator_lists_applicable [OF t s(2)]
    by (simp add: generator_demo_task_def operator_is_applicable_def condition_is_applicable_def upt_rec)
qed

end
