(* ===== verification/Cost_Arith.thy ===== *)
theory Cost_Arith
  imports Ap_Float
begin

text \<open>
  Facts on the arithmetic of costs: rounding never moves a magnitude below an integer it has
  reached, so adding a cost that is not negative to an integer never falls below that integer.
\<close>

lemma round_even_ge:
  assumes "of_int m \<le> q"
  shows "m \<le> round_even q"
proof -
  have "m \<le> \<lfloor>q\<rfloor>" using assms by (simp add: le_floor_iff)
  then show ?thesis by (simp add: round_even_def Let_def)
qed

lemma round_even_le:
  assumes "q < of_int m"
  shows "round_even q \<le> m"
proof -
  have "\<lfloor>q\<rfloor> < m" using assms by (simp add: floor_less_iff)
  then show ?thesis by (simp add: round_even_def Let_def)
qed

lemma dec_mag_normal:
  assumes "r < 2 ^ 52" "0 < e"
  shows "dec_mag (e * 2 ^ 52 + r) = of_nat (2 ^ 52 + r) * 2 powi (int e - 1075)"
proof -
  have "(e * 2 ^ 52 + r) div 2 ^ 52 = e" "(e * 2 ^ 52 + r) mod 2 ^ 52 = r" using assms(1) by simp_all
  then show ?thesis using assms(2) unfolding dec_mag_def Let_def by simp
qed

lemma dec_enc_ge:
  assumes n: "0 < n" "n < 2 ^ 53" and q: "of_nat n \<le> q" and fin: "enc_mag q \<noteq> inf_mag"
  shows "of_nat n \<le> dec_mag (enc_mag q)"
proof -
  define k where "k = ilog2 (nat \<lfloor>q\<rfloor>)"
  have q1: "1 \<le> q" using n(1) q by (metis of_nat_1 of_nat_le_iff Suc_leI One_nat_def order_trans)
  then have "0 < nat \<lfloor>q\<rfloor>" by (simp add: le_floor_iff)
  note b = ilog2_bounds [OF this, folded k_def]
  have fl: "of_nat (nat \<lfloor>q\<rfloor>) = (of_int \<lfloor>q\<rfloor> :: rat)" using q1 by simp
  have lo: "2 ^ k \<le> q"
  proof -
    have "(2::rat) ^ k \<le> of_nat (nat \<lfloor>q\<rfloor>)" using b by (metis of_nat_le_iff of_nat_numeral of_nat_power)
    also have "\<dots> \<le> q" unfolding fl by (rule of_int_floor_le)
    finally show ?thesis .
  qed
  have hi: "q < 2 ^ Suc k"
  proof -
    have "nat \<lfloor>q\<rfloor> + 1 \<le> 2 ^ Suc k" using b by simp
    then have "of_nat (nat \<lfloor>q\<rfloor> + 1) \<le> (of_nat (2 ^ Suc k) :: rat)" by (simp only: of_nat_le_iff)
    then have "of_int \<lfloor>q\<rfloor> + 1 \<le> (2::rat) ^ Suc k" using fl by (simp only: of_nat_add of_nat_power of_nat_numeral of_nat_1)
    then show ?thesis by linarith
  qed
  have ex: "exponent_of q = int k"
  proof (rule exponent_of_bounds)
    show "2 powi int k \<le> q" using lo by (simp only: power_int_of_nat)
    have "int k + 1 = int (Suc k)" by simp
    then show "q < 2 powi (int k + 1)" using hi by (simp only: power_int_of_nat)
  qed simp
  define s where "s = (2::rat) powi (int k - 52)"
  have s: "0 < s" "2 ^ 52 * s = 2 ^ k" "2 ^ 53 * s = 2 ^ Suc k"
  proof -
    have "int 52 + (int k - 52) = int k" "int 53 + (int k - 52) = int (Suc k)" by simp_all
    then show "2 ^ 52 * s = 2 ^ k" "2 ^ 53 * s = 2 ^ Suc k" unfolding s_def by (metis powi_shift power_int_of_nat)+
  qed (simp add: s_def)
  define r where "r = round_even (q / s)"
  have "of_int (2 ^ 52) \<le> q / s" using lo s(1,2) by (simp add: le_divide_eq)
  then have r52: "2 ^ 52 \<le> r" unfolding r_def by (rule round_even_ge)
  have "q / s < of_int (2 ^ 53)" using hi s(1,3) by (simp add: divide_less_eq)
  then have r53: "r \<le> 2 ^ 53" unfolding r_def by (rule round_even_le)
  have enc: "enc_mag q = nat ((int k + 1022) * 2 ^ 52 + r)"
    using fin by (simp add: enc_mag_def Let_def ex r_def s_def min_def split: if_splits)
  obtain m where m: "r = 2 ^ 52 + int m" using r52 by (metis zle_iff_zadd)
  have enc': "enc_mag q = (k + 1023) * 2 ^ 52 + m" unfolding enc m by (simp add: nat_add_distrib algebra_simps)
  show ?thesis
  proof (cases "m < 2 ^ 52")
    case True
    have "int (k + 1023) - 1075 = int k - 52" by simp
    then have dec: "dec_mag (enc_mag q) = of_nat (2 ^ 52 + m) * s"
      unfolding enc' s_def using dec_mag_normal [OF True, of "k + 1023"] by simp
    show ?thesis
    proof (cases "n \<le> 2 ^ k")
      case True
      then have "of_nat n \<le> (2::rat) ^ k" by (metis of_nat_le_iff of_nat_numeral of_nat_power)
      also have "\<dots> \<le> of_nat (2 ^ 52 + m) * s" unfolding s(2) [symmetric] using s(1) by (intro mult_right_mono) simp_all
      finally show ?thesis by (simp add: dec)
    next
      case False
      then have "(2::nat) ^ k < 2 ^ 53" using n(2) by linarith
      then have "k < 53" by (rule power_less_imp_less_exp [rotated]) simp
      then have k52: "k \<le> 52" by simp
      have "2 ^ (52 - k) * s = 1" using k52 s(1,2) by (simp add: power_diff field_simps)
      then have ns: "of_nat n / s = of_int (int n * 2 ^ (52 - k))" using s(1) by (simp add: field_simps)
      have "of_int (int n * 2 ^ (52 - k)) \<le> q / s" unfolding ns [symmetric] using q s(1) by (simp add: divide_right_mono)
      then have "int n * 2 ^ (52 - k) \<le> r" unfolding r_def by (rule round_even_ge)
      then have "of_int (int n * 2 ^ (52 - k)) \<le> (of_int r :: rat)" by (simp only: of_int_le_iff)
      then have "of_nat n / s \<le> of_nat (2 ^ 52 + m)" unfolding ns by (simp add: m)
      then show ?thesis unfolding dec using s(1) by (simp add: divide_le_eq)
    qed
  next
    case False
    then have "m = 2 ^ 52" using r53 m by simp
    then have "enc_mag q = (k + 1024) * 2 ^ 52 + 0" using enc' by simp
    then have "dec_mag (enc_mag q) = 2 ^ 52 * 2 powi (int (k + 1024) - 1075)"
      using dec_mag_normal [of 0 "k + 1024"] by simp
    also have "int (k + 1024) - 1075 = int 1 + (int k - 52)" by simp
    also have "(2::rat) powi (int 1 + (int k - 52)) = 2 * s" by (simp only: powi_shift s_def power_one_right)
    also have "2 ^ 52 * (2 * s) = 2 ^ Suc k" using s(2) by simp
    finally show ?thesis using hi q by simp
  qed
qed

text \<open>Adding a cost that is not negative.\<close>

lemma ap_add_cost:
  assumes n: "0 \<le> n" "n < 2 ^ 31" and c: "decode c = Fin r" "0 \<le> r"
  shows "decode (ap_add (ap_of_int n) c) = Infty False \<or> (\<exists>x. decode (ap_add (ap_of_int n) c) = Fin x \<and> of_int n \<le> x)"
proof -
  have dec: "decode (ap_of_int n) = Fin (of_int n)" using n by (intro decode_ap_of_int) simp
  let ?x = "of_int n + r"
  show ?thesis
  proof (cases "?x = 0")
    case True
    then show ?thesis using n c by (auto simp: ap_add_def dec c(1) ap_signed_def)
  next
    case False
    then have "\<not> ?x < 0" using n c by simp
    then have sum: "decode (ap_add (ap_of_int n) c) =
        (if enc_mag ?x = inf_mag then Infty False else Fin (dec_mag (enc_mag ?x)))"
      using False n c enc_mag_le_inf [of ?x] by (simp add: ap_add_def dec c(1) ap_signed_def encode_def decode_make_float)
    show ?thesis
    proof (cases "n = 0")
      case False
      then have "of_nat (nat n) \<le> dec_mag (enc_mag ?x)" if "enc_mag ?x \<noteq> inf_mag"
        using dec_enc_ge [OF _ _ _ that, of "nat n"] n c(2) by simp
      then show ?thesis using sum n by auto
    qed (use sum in auto)
  qed
qed

end
