(* ===== verification/Search_Space.thy ===== *)
theory Search_Space
  imports State_Registry Llm_Bridge Cost_Arith
begin

text \<open>
  \<open>SearchNode\<close> and \<open>SearchSpace\<close> of \<open>search_space.cc\<close> over \<open>SearchNodeInfo\<close>: the status, the
  costs and the parent pointer of every registered state. Costs are stored in bit-fields, so a
  double is cut to an integer when it is stored. The infos are a per-state information, looked up
  by the id of the state; \<open>creating_operator\<close> is the index of the operator.
\<close>

section \<open>Nodes\<close>

datatype node_status = NEW | OPEN | CLOSED | DEAD_END

datatype operator_cost = NORMAL | ONE | PLUSONE

record SearchNodeInfo =
  info_status :: node_status
  info_g :: int
  parent_state_id :: state_id
  creating_operator :: "nat option"
  info_real_g :: int

definition SearchNodeInfo_init :: SearchNodeInfo where
  "SearchNodeInfo_init = \<lparr>info_status = NEW, info_g = - 1, parent_state_id = no_state,
    creating_operator = None, info_real_g = - 1\<rparr>"

text \<open>Storing a double in \<open>int g : 30\<close>: conversion to \<open>int\<close>, then the low 30 bits.\<close>

definition to_bitfield :: "ap_float \<Rightarrow> int" where
  "to_bitfield x = signed_take_bit 29 (ap_to_int32 x)"

fun adjusted_cost :: "task \<Rightarrow> ap_float \<Rightarrow> operator_cost \<Rightarrow> ap_float" where
  "adjusted_cost t cost NORMAL = cost"
| "adjusted_cost t cost ONE = ap_of_int 1"
| "adjusted_cost t cost PLUSONE = (if is_unit_cost t then ap_of_int 1 else ap_add cost (ap_of_int 1))"

definition get_adjusted_action_cost :: "task \<Rightarrow> GlobalOperator \<Rightarrow> operator_cost \<Rightarrow> ap_float" where
  "get_adjusted_action_cost t oper cost_type =
    (if is_an_axiom oper then ap_zero False else adjusted_cost t (op_cost oper) cost_type)"

definition is_open :: "SearchNodeInfo \<Rightarrow> bool" where "is_open n \<longleftrightarrow> info_status n = OPEN"
definition is_closed :: "SearchNodeInfo \<Rightarrow> bool" where "is_closed n \<longleftrightarrow> info_status n = CLOSED"
definition is_dead_end :: "SearchNodeInfo \<Rightarrow> bool" where "is_dead_end n \<longleftrightarrow> info_status n = DEAD_END"
definition is_new :: "SearchNodeInfo \<Rightarrow> bool" where "is_new n \<longleftrightarrow> info_status n = NEW"

definition get_g :: "SearchNodeInfo \<Rightarrow> ap_float" where "get_g n = ap_of_int (info_g n)"
definition get_real_g :: "SearchNodeInfo \<Rightarrow> ap_float" where "get_real_g n = ap_of_int (info_real_g n)"

definition open_initial :: "SearchNodeInfo \<Rightarrow> SearchNodeInfo" where
  "open_initial n = n\<lparr>info_status := OPEN, info_g := 0, info_real_g := 0,
    parent_state_id := no_state, creating_operator := None\<rparr>"

definition open_node :: "task \<Rightarrow> operator_cost \<Rightarrow> nat \<Rightarrow> SearchNodeInfo \<Rightarrow> nat \<Rightarrow> SearchNodeInfo \<Rightarrow> SearchNodeInfo" where
  "open_node t cost_type parent_id parent_node parent_op n =
    n\<lparr>info_status := OPEN,
      info_g := to_bitfield (ap_add (ap_of_int (info_g parent_node)) (get_adjusted_action_cost t (g_operators t ! parent_op) cost_type)),
      info_real_g := ap_to_int32 (ap_add (ap_of_int (info_real_g parent_node)) (op_cost (g_operators t ! parent_op))),
      parent_state_id := int parent_id, creating_operator := Some parent_op\<rparr>"

definition reopen_node :: "task \<Rightarrow> operator_cost \<Rightarrow> nat \<Rightarrow> SearchNodeInfo \<Rightarrow> nat \<Rightarrow> SearchNodeInfo \<Rightarrow> SearchNodeInfo" where
  "reopen_node t cost_type parent_id parent_node parent_op n =
    n\<lparr>info_status := OPEN,
      info_g := to_bitfield (ap_add (ap_of_int (info_g parent_node)) (get_adjusted_action_cost t (g_operators t ! parent_op) cost_type)),
      info_real_g := ap_to_int32 (ap_add (ap_of_int (info_real_g parent_node)) (op_cost (g_operators t ! parent_op))),
      parent_state_id := int parent_id, creating_operator := Some parent_op\<rparr>"

definition update_parent :: "task \<Rightarrow> operator_cost \<Rightarrow> nat \<Rightarrow> SearchNodeInfo \<Rightarrow> nat \<Rightarrow> SearchNodeInfo \<Rightarrow> SearchNodeInfo" where
  "update_parent t cost_type parent_id parent_node parent_op n =
    n\<lparr>info_g := to_bitfield (ap_add (ap_of_int (info_g parent_node)) (get_adjusted_action_cost t (g_operators t ! parent_op) cost_type)),
      info_real_g := ap_to_int32 (ap_add (ap_of_int (info_real_g parent_node)) (op_cost (g_operators t ! parent_op))),
      parent_state_id := int parent_id, creating_operator := Some parent_op\<rparr>"

definition close_node :: "SearchNodeInfo \<Rightarrow> SearchNodeInfo" where "close_node n = n\<lparr>info_status := CLOSED\<rparr>"
definition mark_as_dead_end :: "SearchNodeInfo \<Rightarrow> SearchNodeInfo" where "mark_as_dead_end n = n\<lparr>info_status := DEAD_END\<rparr>"

section \<open>The search space\<close>

definition get_node :: "SearchNodeInfo list \<Rightarrow> nat \<Rightarrow> SearchNodeInfo" where
  "get_node infos state = info_get SearchNodeInfo_init state infos"

text \<open>Changing a node through the reference \<open>get_node\<close> returns; \<open>n\<close> is the size of the registry.\<close>

definition set_node :: "nat \<Rightarrow> nat \<Rightarrow> SearchNodeInfo \<Rightarrow> SearchNodeInfo list \<Rightarrow> SearchNodeInfo list" where
  "set_node n state node infos = info_set n SearchNodeInfo_init state node infos"

text \<open>Following the parent pointers; the loop of the code has no bound of its own.\<close>

partial_function (option) trace_loop :: "SearchNodeInfo list \<Rightarrow> nat \<Rightarrow> nat list \<Rightarrow> nat list option" where
  "trace_loop infos current path =
    (case creating_operator (get_node infos current) of
       None \<Rightarrow> Some path
     | Some oper \<Rightarrow> trace_loop infos (nat (parent_state_id (get_node infos current))) (path @ [oper]))"

definition trace_path :: "SearchNodeInfo list \<Rightarrow> nat \<Rightarrow> nat list option" where
  "trace_path infos goal_state = map_option rev (trace_loop infos goal_state [])"

section \<open>Lookup\<close>

lemma get_set_node [simp]:
  "state < n \<Longrightarrow> get_node (set_node n state node infos) s = (if s = state then node else get_node infos s)"
  by (auto simp: get_node_def set_node_def info_get_def info_set_def nth_list_update nth_append)

lemma get_node_Nil [simp]: "get_node [] s = SearchNodeInfo_init"
  by (simp add: get_node_def info_get_def)

lemma init_simps [simp]:
  "info_status SearchNodeInfo_init = NEW" "creating_operator SearchNodeInfo_init = None" "info_g SearchNodeInfo_init = - 1"
  by (simp_all add: SearchNodeInfo_init_def)

lemma length_set_node: "state < n \<Longrightarrow> length (set_node n state node infos) = max n (length infos)"
  by (simp add: set_node_def info_set_def)

section \<open>Chains of parents\<close>

text \<open>A state with the operators that lead to it along the parent pointers.\<close>

inductive rooted :: "SearchNodeInfo list \<Rightarrow> nat list \<Rightarrow> nat \<Rightarrow> bool" for infos where
  root: "creating_operator (get_node infos s) = None \<Longrightarrow> rooted infos [] s"
| child: "creating_operator (get_node infos s) = Some oper \<Longrightarrow>
    rooted infos path (nat (parent_state_id (get_node infos s))) \<Longrightarrow> rooted infos (path @ [oper]) s"

inductive_cases rootedE: "rooted infos path s"

lemma trace_loop_rooted: "rooted infos path s \<Longrightarrow> trace_loop infos s acc = Some (acc @ rev path)"
proof (induction arbitrary: acc rule: rooted.induct)
  case (root s)
  then show ?case by (subst trace_loop.simps) simp
next
  case (child s oper path)
  then show ?case by (subst trace_loop.simps) simp
qed

lemma trace_path_rooted: "rooted infos path s \<Longrightarrow> trace_path infos s = Some path"
  by (simp add: trace_path_def trace_loop_rooted [where acc = "[]", simplified])

text \<open>
  The order the search keeps: the parent of a state is a known state whose cost is not larger.
\<close>

definition ordered :: "SearchNodeInfo list \<Rightarrow> bool" where
  "ordered infos \<longleftrightarrow> (\<forall>s oper. creating_operator (get_node infos s) = Some oper \<longrightarrow>
    0 \<le> parent_state_id (get_node infos s) \<and>
    info_status (get_node infos (nat (parent_state_id (get_node infos s)))) \<noteq> NEW \<and>
    info_g (get_node infos (nat (parent_state_id (get_node infos s)))) \<le> info_g (get_node infos s))"

definition all_rooted :: "SearchNodeInfo list \<Rightarrow> bool" where
  "all_rooted infos \<longleftrightarrow> (\<forall>s. \<exists>path. rooted infos path s)"

definition new_ok :: "SearchNodeInfo list \<Rightarrow> bool" where
  "new_ok infos \<longleftrightarrow> (\<forall>s. info_status (get_node infos s) = NEW \<longrightarrow> creating_operator (get_node infos s) = None)"

definition tree_ok :: "SearchNodeInfo list \<Rightarrow> bool" where
  "tree_ok infos \<longleftrightarrow> ordered infos \<and> all_rooted infos \<and> new_ok infos"

text \<open>Nodes on the chain of \<open>s\<close>, itself included.\<close>

inductive on_chain :: "SearchNodeInfo list \<Rightarrow> nat \<Rightarrow> nat \<Rightarrow> bool" for infos s where
  here: "on_chain infos s s"
| up: "on_chain infos s a \<Longrightarrow> creating_operator (get_node infos a) = Some oper \<Longrightarrow>
    on_chain infos s (nat (parent_state_id (get_node infos a)))"

lemma on_chain_le:
  assumes "ordered infos" "on_chain infos s a" "info_status (get_node infos s) \<noteq> NEW"
  shows "info_g (get_node infos a) \<le> info_g (get_node infos s) \<and> info_status (get_node infos a) \<noteq> NEW"
  using assms(2,3)
proof (induction rule: on_chain.induct)
  case (up a oper)
  then show ?case using assms(1) by (fastforce simp: ordered_def)
qed simp

lemma rooted_off_chain:
  assumes "rooted infos path x" "state < n"
    "\<And>a. on_chain infos x a \<Longrightarrow> a \<noteq> state"
  shows "rooted (set_node n state node infos) path x"
  using assms
proof (induction rule: rooted.induct)
  case (root s)
  then show ?case using on_chain.here [of infos s] by (intro rooted.root) simp
next
  case (child s oper path)
  let ?p = "nat (parent_state_id (get_node infos s))"
  have "on_chain infos ?p a \<Longrightarrow> on_chain infos s a" for a
    by (induction rule: on_chain.induct) (use child.hyps(1) on_chain.intros in blast)+
  then have "rooted (set_node n state node infos) path ?p" using child by blast
  moreover have "s \<noteq> state" using child.prems(2) on_chain.here by blast
  ultimately show ?case using child.hyps(1) child.prems(1) by (intro rooted.child) simp_all
qed

text \<open>Giving \<open>state\<close> a new parent whose chain it is not on keeps every chain finite.\<close>

lemma all_rooted_reparent:
  assumes rooted: "all_rooted infos" and n: "state < n"
    and off: "\<And>a. on_chain infos (nat (parent_state_id node)) a \<Longrightarrow> a \<noteq> state" and op: "creating_operator node = Some oper"
  shows "all_rooted (set_node n state node infos)"
proof -
  let ?infos = "set_node n state node infos"
  obtain path where "rooted infos path (nat (parent_state_id node))" using rooted by (auto simp: all_rooted_def)
  then have "rooted ?infos path (nat (parent_state_id node))" using n off by (rule rooted_off_chain)
  then have here: "rooted ?infos (path @ [oper]) state" using n op by (intro rooted.child) simp_all
  have "\<exists>path'. rooted ?infos path' x" if "rooted infos q x" for q x
    using that
  proof (induction rule: rooted.induct)
    case (root s)
    show ?case
    proof (cases "s = state")
      case False
      then have "rooted ?infos [] s" using root n by (intro rooted.root) simp
      then show ?thesis ..
    qed (use here in blast)
  next
    case (child s oper' q)
    then obtain path' where "rooted ?infos path' (nat (parent_state_id (get_node infos s)))" by blast
    have "get_node ?infos s = get_node infos s" if "s \<noteq> state" using that n by simp
    then show ?case
      using here child.hyps(1) \<open>rooted ?infos path' _\<close> rooted.child [of ?infos s oper' path'] by (cases "s = state") auto
  qed
  then show ?thesis using rooted unfolding all_rooted_def by metis
qed

lemma all_rooted_keep:
  assumes "all_rooted infos" "state < n" "creating_operator node = creating_operator (get_node infos state)"
    "parent_state_id node = parent_state_id (get_node infos state)"
  shows "all_rooted (set_node n state node infos)"
proof -
  have "rooted (set_node n state node infos) q x" if "rooted infos q x" for q x
    using that
  proof (induction rule: rooted.induct)
    case (root s)
    then show ?case using assms by (intro rooted.root) (auto split: if_splits)
  next
    case (child s oper q)
    have "get_node (set_node n state node infos) s = (if s = state then node else get_node infos s)" using assms(2) by simp
    then show ?case using child assms(3,4) by (intro rooted.child) (auto split: if_splits)
  qed
  then show ?thesis using assms(1) by (auto simp: all_rooted_def) blast
qed

section \<open>Costs\<close>

lemma to_bitfield_floor:
  assumes "decode x = Fin q" "0 \<le> q" "q < 2 ^ 29"
  shows "to_bitfield x = \<lfloor>q\<rfloor>" "ap_to_int32 x = \<lfloor>q\<rfloor>"
proof -
  have q: "0 \<le> \<lfloor>q\<rfloor>" "\<lfloor>q\<rfloor> < 2 ^ 29" using assms(2,3) by (simp_all add: floor_less_iff)
  then show eq: "ap_to_int32 x = \<lfloor>q\<rfloor>" using assms(2) by (simp add: ap_to_int32_def assms(1) trunc_rat_def)
  have "- (2 ^ 29) \<le> \<lfloor>q\<rfloor>" by (rule order_trans [OF _ q(1)]) simp
  then show "to_bitfield x = \<lfloor>q\<rfloor>" using q(2) by (simp add: to_bitfield_def eq signed_take_bit_int_eq_self)
qed

text \<open>A cost that may be added to the cost of a node: finite, not negative, and the sum fits the bit-field.\<close>

definition cost_fits :: "int \<Rightarrow> ap_float \<Rightarrow> bool" where
  "cost_fits g c \<longleftrightarrow> 0 \<le> g \<and> g < 2 ^ 29 \<and> \<not> ap_lt c (ap_zero False) \<and> ap_is_finite c \<and>
    ap_lt (ap_add (ap_of_int g) c) (ap_of_int (2 ^ 29))"

lemma cost_fits_sum:
  assumes "cost_fits g c"
  obtains q where "decode (ap_add (ap_of_int g) c) = Fin q" "of_int g \<le> q" "q < 2 ^ 29"
    "to_bitfield (ap_add (ap_of_int g) c) = \<lfloor>q\<rfloor>" "ap_to_int32 (ap_add (ap_of_int g) c) = \<lfloor>q\<rfloor>"
proof -
  have g: "0 \<le> g" "g < 2 ^ 31" using assms by (simp_all add: cost_fits_def)
  obtain r where c: "decode c = Fin r" "0 \<le> r"
    using assms by (auto simp: cost_fits_def ap_is_finite_decode ap_lt_def not_less)
  have lim: "decode (ap_of_int (2 ^ 29)) = Fin (2 ^ 29)" using decode_ap_of_int [of "2 ^ 29"] by simp
  obtain q where q: "decode (ap_add (ap_of_int g) c) = Fin q" "of_int g \<le> q" "q < 2 ^ 29"
    using ap_add_cost [OF g c] assms lim by (auto simp: cost_fits_def ap_lt_def)
  moreover have "0 \<le> q" using q(2) g(1) by (simp add: order_trans [of 0 "of_int g" q])
  ultimately show ?thesis using that to_bitfield_floor [OF q(1)] by blast
qed

lemma to_bitfield_bounds:
  assumes "cost_fits g c"
  shows "g \<le> to_bitfield (ap_add (ap_of_int g) c)" "to_bitfield (ap_add (ap_of_int g) c) < 2 ^ 29"
    "to_bitfield (ap_add (ap_of_int g) c) = ap_to_int32 (ap_add (ap_of_int g) c)"
proof -
  obtain q where "decode (ap_add (ap_of_int g) c) = Fin q" "of_int g \<le> q" "q < 2 ^ 29"
    "to_bitfield (ap_add (ap_of_int g) c) = \<lfloor>q\<rfloor>" "ap_to_int32 (ap_add (ap_of_int g) c) = \<lfloor>q\<rfloor>"
    using cost_fits_sum [OF assms] .
  then show "g \<le> to_bitfield (ap_add (ap_of_int g) c)" "to_bitfield (ap_add (ap_of_int g) c) < 2 ^ 29"
    "to_bitfield (ap_add (ap_of_int g) c) = ap_to_int32 (ap_add (ap_of_int g) c)"
    by (simp_all add: le_floor_iff floor_less_iff)
qed

lemma to_bitfield_cheaper:
  assumes "cost_fits g c" "ap_lt (ap_add (ap_of_int g) c) (ap_of_int g')" "g' < 2 ^ 31" "0 \<le> g'"
  shows "to_bitfield (ap_add (ap_of_int g) c) < g'" "g < g'"
proof -
  obtain q where q: "decode (ap_add (ap_of_int g) c) = Fin q" "of_int g \<le> q" "q < 2 ^ 29"
    "to_bitfield (ap_add (ap_of_int g) c) = \<lfloor>q\<rfloor>" "ap_to_int32 (ap_add (ap_of_int g) c) = \<lfloor>q\<rfloor>"
    using cost_fits_sum [OF assms(1)] .
  have "decode (ap_of_int g') = Fin (of_int g')" using assms(3,4) by (intro decode_ap_of_int) simp
  then have "q < of_int g'" using assms(2) q(1) by (simp add: ap_lt_def)
  then show "to_bitfield (ap_add (ap_of_int g) c) < g'" using q(4) by (simp add: floor_less_iff)
  then show "g < g'" using to_bitfield_bounds(1) [OF assms(1)] by simp
qed

section \<open>Every operation keeps the tree\<close>

lemma tree_ok_Nil: "tree_ok []"
proof -
  have "rooted [] [] s" for s by (rule rooted.root) simp
  then show ?thesis by (auto simp: tree_ok_def ordered_def all_rooted_def new_ok_def)
qed

lemma tree_ok_status:
  assumes "tree_ok infos" "state < n" "status \<noteq> NEW"
  shows "tree_ok (set_node n state (get_node infos state\<lparr>info_status := status\<rparr>) infos)"
  using assms all_rooted_keep [of infos state n "get_node infos state\<lparr>info_status := status\<rparr>"]
  by (auto simp: tree_ok_def ordered_def new_ok_def)

lemmas tree_ok_close = tree_ok_status [where status = CLOSED, folded close_node_def, simplified]
lemmas tree_ok_dead_end = tree_ok_status [where status = DEAD_END, folded mark_as_dead_end_def, simplified]

lemma tree_ok_open_initial:
  assumes "tree_ok infos" "state < n" "info_status (get_node infos state) = NEW"
  shows "tree_ok (set_node n state (open_initial (get_node infos state)) infos)"
proof -
  have "creating_operator (get_node infos state) = None" using assms by (simp add: tree_ok_def new_ok_def)
  have "rooted (set_node n state (open_initial (get_node infos state)) infos) q x" if "rooted infos q x" for q x
    using that
  proof (induction rule: rooted.induct)
    case (root s)
    then show ?case using assms(2) by (intro rooted.root) (simp add: open_initial_def)
  next
    case (child s oper q)
    have "s \<noteq> state" using child.hyps(1) \<open>creating_operator (get_node infos state) = None\<close> by auto
    then show ?case using child assms(2) by (intro rooted.child) simp_all
  qed
  then show ?thesis
    using assms by (auto simp: tree_ok_def all_rooted_def ordered_def new_ok_def open_initial_def) blast+
qed

text \<open>Setting the parent of a new state, or of a known state that gets cheaper.\<close>

lemma tree_ok_set_parent:
  fixes infos n state p oper t cost_type status
  defines "node \<equiv> open_node t cost_type p (get_node infos p) oper (get_node infos state)\<lparr>info_status := status\<rparr>"
  assumes tree: "tree_ok infos" and n: "state < n" and p: "info_status (get_node infos p) \<noteq> NEW" and status: "status \<noteq> NEW"
    and fits: "cost_fits (info_g (get_node infos p)) (get_adjusted_action_cost t (g_operators t ! oper) cost_type)"
    and dir: "info_status (get_node infos state) = NEW \<or> (0 \<le> info_g (get_node infos state) \<and> info_g (get_node infos state) < 2 ^ 31 \<and>
      ap_lt (ap_add (get_g (get_node infos p)) (get_adjusted_action_cost t (g_operators t ! oper) cost_type)) (get_g (get_node infos state)))"
  shows "tree_ok (set_node n state node infos)"
    and "info_g node < 2 ^ 29" "info_g (get_node infos p) \<le> info_g node"
proof -
  have ord: "ordered infos" and rooted: "all_rooted infos" and new: "new_ok infos" using tree by (simp_all add: tree_ok_def)
  have node: "creating_operator node = Some oper" "parent_state_id node = int p" "info_status node = status"
    "info_g node = to_bitfield (ap_add (ap_of_int (info_g (get_node infos p))) (get_adjusted_action_cost t (g_operators t ! oper) cost_type))"
    by (simp_all add: node_def open_node_def)
  note bounds = to_bitfield_bounds [OF fits, folded node(4)]
  show "info_g node < 2 ^ 29" "info_g (get_node infos p) \<le> info_g node" using bounds(1,2) by simp_all
  have cheaper: "info_g node < info_g (get_node infos state)" "info_g (get_node infos p) < info_g (get_node infos state)"
    if "info_status (get_node infos state) \<noteq> NEW"
    using to_bitfield_cheaper [OF fits, folded node(4), of "info_g (get_node infos state)"] dir that by (simp_all add: get_g_def)
  have off: "a \<noteq> state" if "on_chain infos p a" for a
  proof (cases "info_status (get_node infos state) = NEW")
    case True
    then show ?thesis using on_chain_le [OF ord that p] by auto
  next
    case False
    then show ?thesis using on_chain_le [OF ord that p] cheaper(2) by auto
  qed
  then have sp: "state \<noteq> p" using on_chain.here by blast
  have "all_rooted (set_node n state node infos)"
    using off node by (intro all_rooted_reparent [OF rooted n]) auto
  moreover have "ordered (set_node n state node infos)"
    unfolding ordered_def
  proof (intro allI impI)
    fix s oper' assume op: "creating_operator (get_node (set_node n state node infos) s) = Some oper'"
    let ?infos = "set_node n state node infos"
    let ?q = "nat (parent_state_id (get_node ?infos s))"
    show "0 \<le> parent_state_id (get_node ?infos s) \<and> info_status (get_node ?infos ?q) \<noteq> NEW \<and>
      info_g (get_node ?infos ?q) \<le> info_g (get_node ?infos s)"
    proof (cases "s = state")
      case True
      then show ?thesis using n node sp p bounds(1) by simp
    next
      case False
      then have old: "0 \<le> parent_state_id (get_node infos s)" "info_status (get_node infos ?q) \<noteq> NEW"
          "info_g (get_node infos ?q) \<le> info_g (get_node infos s)"
        using op n ord by (auto simp: ordered_def)
      show ?thesis
      proof (cases "?q = state")
        case True
        have nn: "info_status (get_node infos state) \<noteq> NEW" using old(2) unfolding True .
        have "info_g node < info_g (get_node infos s)" using cheaper(1) [OF nn] old(3) unfolding True by simp
        then show ?thesis using n node(3) status old(1) False unfolding True by simp
      qed (use n old False in simp)
    qed
  qed
  moreover have "new_ok (set_node n state node infos)" using new n node(3) status by (auto simp: new_ok_def)
  ultimately show "tree_ok (set_node n state node infos)" by (simp add: tree_ok_def)
qed

section \<open>Properties\<close>

text \<open>
  What the search engines do with nodes: open the initial state, open a new state below a known
  one, give a known state a cheaper parent with or without opening it again, close, give up.
\<close>

inductive space_step :: "task \<Rightarrow> operator_cost \<Rightarrow> SearchNodeInfo list \<Rightarrow> SearchNodeInfo list \<Rightarrow> bool" for t ct where
  step_initial: "s < n \<Longrightarrow> is_new (get_node infos s) \<Longrightarrow>
    space_step t ct infos (set_node n s (open_initial (get_node infos s)) infos)"
| step_open: "s < n \<Longrightarrow> is_new (get_node infos s) \<Longrightarrow> \<not> is_new (get_node infos p) \<Longrightarrow>
    cost_fits (info_g (get_node infos p)) (get_adjusted_action_cost t (g_operators t ! oper) ct) \<Longrightarrow>
    space_step t ct infos (set_node n s (open_node t ct p (get_node infos p) oper (get_node infos s)) infos)"
| step_reopen: "s < n \<Longrightarrow> is_open (get_node infos s) \<or> is_closed (get_node infos s) \<Longrightarrow> \<not> is_new (get_node infos p) \<Longrightarrow>
    cost_fits (info_g (get_node infos p)) (get_adjusted_action_cost t (g_operators t ! oper) ct) \<Longrightarrow>
    ap_lt (ap_add (get_g (get_node infos p)) (get_adjusted_action_cost t (g_operators t ! oper) ct)) (get_g (get_node infos s)) \<Longrightarrow>
    space_step t ct infos (set_node n s (reopen_node t ct p (get_node infos p) oper (get_node infos s)) infos)"
| step_update: "s < n \<Longrightarrow> is_open (get_node infos s) \<or> is_closed (get_node infos s) \<Longrightarrow> \<not> is_new (get_node infos p) \<Longrightarrow>
    cost_fits (info_g (get_node infos p)) (get_adjusted_action_cost t (g_operators t ! oper) ct) \<Longrightarrow>
    ap_lt (ap_add (get_g (get_node infos p)) (get_adjusted_action_cost t (g_operators t ! oper) ct)) (get_g (get_node infos s)) \<Longrightarrow>
    space_step t ct infos (set_node n s (update_parent t ct p (get_node infos p) oper (get_node infos s)) infos)"
| step_close: "s < n \<Longrightarrow> is_open (get_node infos s) \<or>
      is_dead_end (get_node infos s) \<and> 0 \<le> info_g (get_node infos s) \<and> info_g (get_node infos s) < 2 ^ 29 \<Longrightarrow>
    space_step t ct infos (set_node n s (close_node (get_node infos s)) infos)"
| step_dead_end: "s < n \<Longrightarrow> space_step t ct infos (set_node n s (mark_as_dead_end (get_node infos s)) infos)"

lemmas node_status_defs = is_new_def is_open_def is_closed_def is_dead_end_def

text \<open>Costs of opened nodes stay inside the bit-field.\<close>

definition costs_ok :: "SearchNodeInfo list \<Rightarrow> bool" where
  "costs_ok infos \<longleftrightarrow> (\<forall>s. info_status (get_node infos s) = OPEN \<or> info_status (get_node infos s) = CLOSED \<longrightarrow>
    0 \<le> info_g (get_node infos s) \<and> info_g (get_node infos s) < 2 ^ 29)"

lemma costs_ok_Nil: "costs_ok []" by (simp add: costs_ok_def)

lemma costs_ok_set:
  "costs_ok infos \<Longrightarrow> s < n \<Longrightarrow> (info_status node = OPEN \<or> info_status node = CLOSED \<Longrightarrow> 0 \<le> info_g node \<and> info_g node < 2 ^ 29) \<Longrightarrow>
    costs_ok (set_node n s node infos)"
  by (simp add: costs_ok_def)

lemma reopen_node_eq: "reopen_node t ct p parent oper n = open_node t ct p parent oper n"
  by (simp add: reopen_node_def open_node_def)

lemma update_parent_eq: "update_parent t ct p parent oper n = open_node t ct p parent oper n\<lparr>info_status := info_status n\<rparr>"
  by (simp add: update_parent_def open_node_def)

lemma open_node_status: "open_node t ct p parent oper n\<lparr>info_status := OPEN\<rparr> = open_node t ct p parent oper n"
  by (simp add: open_node_def)

lemma space_step_ok:
  assumes "space_step t ct infos infos'" "tree_ok infos" "costs_ok infos"
  shows "tree_ok infos' \<and> costs_ok infos'"
  using assms
proof (induction rule: space_step.induct)
  case (step_initial s n infos)
  then have "tree_ok (set_node n s (open_initial (get_node infos s)) infos)"
    by (intro tree_ok_open_initial) (simp_all add: is_new_def)
  moreover have "costs_ok (set_node n s (open_initial (get_node infos s)) infos)"
    using step_initial by (intro costs_ok_set) (simp_all add: open_initial_def)
  ultimately show ?case ..
next
  case (step_open s n infos p oper)
  note set = tree_ok_set_parent [where status = OPEN, OF step_open(5,1) _ _ step_open(4)]
  then show ?case using step_open
    by (auto intro!: costs_ok_set simp: is_new_def open_node_status cost_fits_def)
next
  case (step_reopen s n infos p oper)
  have "0 \<le> info_g (get_node infos s)" "info_g (get_node infos s) < 2 ^ 29"
    using step_reopen(2,7) by (auto simp: costs_ok_def node_status_defs)
  then show ?case
    using step_reopen tree_ok_set_parent [where status = OPEN, OF step_reopen(6,1) _ _ step_reopen(4)]
    by (auto intro!: costs_ok_set simp: is_new_def reopen_node_eq open_node_status cost_fits_def)
next
  case (step_update s n infos p oper)
  have "0 \<le> info_g (get_node infos s)" "info_g (get_node infos s) < 2 ^ 29" "info_status (get_node infos s) \<noteq> NEW"
    using step_update(2,7) by (auto simp: costs_ok_def node_status_defs)
  then show ?case
    using step_update tree_ok_set_parent [where status = "info_status (get_node infos s)", OF step_update(6,1) _ _ step_update(4)]
    by (auto intro!: costs_ok_set simp: is_new_def update_parent_eq cost_fits_def)
next
  case (step_close s n infos)
  then have "costs_ok (set_node n s (close_node (get_node infos s)) infos)"
    by (intro costs_ok_set) (auto simp: close_node_def costs_ok_def is_open_def)
  then show ?case using tree_ok_close [OF step_close(3,1)] by simp
next
  case (step_dead_end s n infos)
  then have "costs_ok (set_node n s (mark_as_dead_end (get_node infos s)) infos)"
    by (intro costs_ok_set) (simp_all add: mark_as_dead_end_def)
  then show ?case using tree_ok_dead_end [OF step_dead_end(2,1)] by simp
qed

lemma reachable_space_ok: "(space_step t ct)\<^sup>*\<^sup>* [] infos \<Longrightarrow> tree_ok infos \<and> costs_ok infos"
  by (induction rule: rtranclp_induct) (auto simp: tree_ok_Nil costs_ok_Nil dest: space_step_ok)

text \<open>
  C40. Following the parent pointers ends: in every search space the node operations can build,
  with costs that are not negative and fit the bit-field, \<open>trace_path\<close> returns for every state,
  and what it returns is the operators on the way from a state without creator to the given one.
\<close>

theorem trace_path_returns:
  assumes "(space_step t ct)\<^sup>*\<^sup>* [] infos"
  shows "\<exists>path. trace_path infos s = Some path \<and> rooted infos path s"
  using reachable_space_ok [OF assms] trace_path_rooted unfolding tree_ok_def all_rooted_def by blast

text \<open>
  What a node remembers of its cost: opening a node stores the floor of the exact sum of the
  parent's cost and the adjusted cost of the operator; the stored cost is never below that of
  the parent and stays inside the bit-field.
\<close>

theorem node_cost_is_floor:
  assumes "cost_fits (info_g parent) (get_adjusted_action_cost t (g_operators t ! oper) ct)"
  shows "\<exists>q. decode (ap_add (get_g parent) (get_adjusted_action_cost t (g_operators t ! oper) ct)) = Fin q \<and>
    info_g (open_node t ct p parent oper n) = \<lfloor>q\<rfloor> \<and> info_g parent \<le> \<lfloor>q\<rfloor> \<and> \<lfloor>q\<rfloor> < 2 ^ 29"
proof -
  obtain q where q: "decode (ap_add (ap_of_int (info_g parent)) (get_adjusted_action_cost t (g_operators t ! oper) ct)) = Fin q"
    "of_int (info_g parent) \<le> q" "q < 2 ^ 29"
    "to_bitfield (ap_add (ap_of_int (info_g parent)) (get_adjusted_action_cost t (g_operators t ! oper) ct)) = \<lfloor>q\<rfloor>"
    by (rule cost_fits_sum [OF assms])
  then show ?thesis by (intro exI [of _ q]) (simp add: get_g_def open_node_def le_floor_iff floor_less_iff)
qed

text \<open>A task whose only operator costs one half: two expansions later the stored cost is still zero.\<close>

definition half_task :: task where
  "half_task = undefined\<lparr>g_operators := [\<lparr>is_an_axiom = False, preconditions = [], op_effects = [], assign_effects = [],
    op_name = ''half'', op_cost = ap_of_rat (1 / 2)\<rparr>]\<rparr>"

lemma decode_half: "decode (ap_of_rat (1 / 2)) = Fin (1 / 2)"
proof -
  have "dec_mag (enc_mag (1 / 2)) = 1 / 2 \<and> enc_mag (1 / 2) < inf_mag"
    by (rule dec_enc_in_binade [of "- 1" _ "2 ^ 52"]) (simp_all add: power_int_def power_divide)
  then show ?thesis by (simp add: ap_of_rat_def ap_signed_def encode_def decode_make_float)
qed

lemma half_sum: "ap_add (ap_of_int 0) (ap_of_rat (1 / 2)) = ap_signed False (1 / 2)"
proof -
  have "decode (ap_of_int 0) = Fin 0" using decode_ap_of_int [of 0] by simp
  moreover have "\<not> sign_bit (ap_of_int 0)" by (simp add: ap_of_int_def ap_of_rat_def ap_signed_def ap_zero_def)
  ultimately show ?thesis using decode_half by (simp add: ap_add_def)
qed

lemma half_fits: "cost_fits 0 (get_adjusted_action_cost half_task (g_operators half_task ! 0) NORMAL)"
proof -
  have "decode (ap_of_int (2 ^ 29)) = Fin (2 ^ 29)" using decode_ap_of_int [of "2 ^ 29"] by simp
  moreover have "decode (ap_signed False (1 / 2)) = Fin (1 / 2)" using decode_half by (simp add: ap_of_rat_def)
  moreover have "ap_is_finite (ap_of_rat (1 / 2))" unfolding ap_is_finite_decode using decode_half by blast
  ultimately show ?thesis
    using decode_half by (simp add: cost_fits_def half_task_def get_adjusted_action_cost_def ap_lt_def half_sum)
qed

theorem node_cost_is_floor_witness:
  "info_g (open_node half_task NORMAL 0 (open_initial SearchNodeInfo_init) 0 SearchNodeInfo_init) = 0"
proof -
  have "info_g (open_initial SearchNodeInfo_init) = 0" by (simp add: open_initial_def)
  then obtain q where q: "decode (ap_add (get_g (open_initial SearchNodeInfo_init)) (get_adjusted_action_cost half_task (g_operators half_task ! 0) NORMAL)) = Fin q"
    "info_g (open_node half_task NORMAL 0 (open_initial SearchNodeInfo_init) 0 SearchNodeInfo_init) = \<lfloor>q\<rfloor>"
    using node_cost_is_floor [of "open_initial SearchNodeInfo_init" half_task 0 NORMAL 0 SearchNodeInfo_init] half_fits by auto
  moreover have "decode (ap_signed False (1 / 2)) = Fin (1 / 2)" using decode_half by (simp add: ap_of_rat_def)
  ultimately have "q = 1 / 2"
    by (simp add: get_g_def open_initial_def half_task_def get_adjusted_action_cost_def half_sum)
  then show ?thesis unfolding q(2) by (simp add: floor_eq_iff)
qed

theorem trace_path_returns_witness:
  "\<exists>infos. creating_operator (get_node infos 1) = Some 0 \<and> (\<exists>path. trace_path infos 1 = Some path \<and> rooted infos path 1)"
proof -
  let ?a = "set_node 1 0 (open_initial (get_node [] 0)) []"
  let ?b = "set_node 2 1 (open_node half_task NORMAL 0 (get_node ?a 0) 0 (get_node ?a 1)) ?a"
  have "space_step half_task NORMAL [] ?a" by (rule step_initial) (simp_all add: is_new_def)
  moreover have "space_step half_task NORMAL ?a ?b"
    using half_fits by (intro step_open) (simp_all add: is_new_def open_initial_def)
  ultimately have "(space_step half_task NORMAL)\<^sup>*\<^sup>* [] ?b" by auto
  from trace_path_returns [OF this, of 1] show ?thesis
    by (intro exI [of _ ?b]) (simp add: open_node_def)
qed

end
