(* ===== verification/Action_Chain.thy ===== *)
theory Action_Chain
  imports Registry_Properties Llm_Bridge
begin

text \<open>
  \<open>ActionChainEvaluator\<close> of \<open>action_chain_evaluator.cc\<close>: the names an LLM gives to actions are
  normalised and looked up, and a chain of actions is simulated from a registered state. The
  search injects actions with \<open>resolve_action\<close> and \<open>apply_action\<close>; the reward scorer uses
  \<open>evaluate\<close>. The heuristic is a parameter: its value for a registered state and its reaction to
  a transition. The clock is a parameter too: \<open>expired k\<close> is the answer to the \<open>k\<close>-th look at it.
\<close>

section \<open>Names\<close>

definition strip_blanks :: "string \<Rightarrow> string" where
  "strip_blanks s = rev (dropWhile is_space (rev (dropWhile is_space s)))"

definition strip_parens :: "string \<Rightarrow> string" where
  "strip_parens s = (if length s > 1 \<and> hd s = CHR ''('' \<and> last s = CHR '')'' then butlast (tl s) else s)"

fun normalize_chars :: "string \<Rightarrow> bool \<Rightarrow> string \<Rightarrow> string" where
  "normalize_chars normalized pending_space [] = normalized"
| "normalize_chars normalized pending_space (ch # rest) =
    (if is_space ch then normalize_chars normalized (normalized \<noteq> []) rest
     else normalize_chars (normalized @ (if pending_space then '' '' else []) @ [to_lower ch]) False rest)"

definition normalize_operator_name :: "string \<Rightarrow> string" where
  "normalize_operator_name raw_name = normalize_chars [] False (strip_parens (strip_blanks raw_name))"

type_synonym operator_table = "string \<rightharpoonup> nat"

definition operator_by_name :: "task \<Rightarrow> operator_table" where
  "operator_by_name t = fold (\<lambda>i m. m(normalize_operator_name (op_name (g_operators t ! i)) \<mapsto> i)) [0..<length (g_operators t)] Map.empty"

section \<open>Resolving and applying one action\<close>

datatype ActionResolutionStatus = FOUND | UNKNOWN_ACTION | INAPPLICABLE_ACTION

record ActionResolution =
  res_status :: ActionResolutionStatus
  res_op :: "nat option"

definition resolve_action :: "operator_table \<Rightarrow> world \<Rightarrow> nat \<Rightarrow> string \<Rightarrow> ActionResolution" where
  "resolve_action table w state raw_action =
    (case table (normalize_operator_name raw_action) of
       None \<Rightarrow> \<lparr>res_status = UNKNOWN_ACTION, res_op = None\<rparr>
     | Some oper \<Rightarrow>
         if \<not> operator_is_applicable (state_value w state) (g_operators (w_task w) ! oper)
         then \<lparr>res_status = INAPPLICABLE_ACTION, res_op = Some oper\<rparr>
         else \<lparr>res_status = FOUND, res_op = Some oper\<rparr>)"

definition apply_action :: "world \<Rightarrow> nat \<Rightarrow> nat \<Rightarrow> (nat \<times> world) result" where
  "apply_action w state oper = get_successor_state w state (g_operators (w_task w) ! oper)"

section \<open>Evaluating a chain\<close>

record TrajectoryStateInfo =
  ts_state_index :: nat
  ts_state_id :: nat
  ts_has_h :: bool
  ts_h :: ap_float

record ActionChainEvaluationResult =
  ac_status :: string
  ac_outcome :: string
  ac_error_message :: string
  ac_generated_action_count :: nat
  ac_applied_action_count :: nat
  ac_has_invalid_action :: bool
  ac_invalid_action_index :: nat
  ac_path_cost :: ap_float
  ac_registered_state_count :: nat
  ac_states :: "TrajectoryStateInfo list"

definition ActionChainEvaluationResult_init :: ActionChainEvaluationResult where
  "ActionChainEvaluationResult_init = \<lparr>ac_status = ''ok'', ac_outcome = [], ac_error_message = [], ac_generated_action_count = 0,
     ac_applied_action_count = 0, ac_has_invalid_action = False, ac_invalid_action_index = 0, ac_path_cost = ap_zero False,
     ac_registered_state_count = 0, ac_states = []\<rparr>"

record 'h heuristic =
  h_reach_state :: "world \<Rightarrow> nat \<Rightarrow> nat \<Rightarrow> nat \<Rightarrow> 'h \<Rightarrow> 'h"
  h_value :: "'h \<Rightarrow> world \<Rightarrow> nat \<Rightarrow> ap_float \<Rightarrow> ap_float option"

text \<open>An infinite estimate gives no value and \<open>0.0\<close>.\<close>

definition evaluate_h :: "'h heuristic \<Rightarrow> 'h \<Rightarrow> world \<Rightarrow> nat \<Rightarrow> ap_float \<Rightarrow> bool \<times> ap_float" where
  "evaluate_h heur h w state g = (case h_value heur h w state g of None \<Rightarrow> (False, ap_zero False) | Some x \<Rightarrow> (True, x))"

definition state_info :: "nat \<Rightarrow> nat \<Rightarrow> bool \<times> ap_float \<Rightarrow> TrajectoryStateInfo" where
  "state_info index state v = \<lparr>ts_state_index = index, ts_state_id = state_hash (int state), ts_has_h = fst v, ts_h = snd v\<rparr>"

definition finish_chain :: "world \<Rightarrow> ActionChainEvaluationResult \<Rightarrow> ActionChainEvaluationResult" where
  "finish_chain w r = r\<lparr>ac_registered_state_count := registry_size w\<rparr>"

definition scorer_timeout :: "ActionChainEvaluationResult \<Rightarrow> ActionChainEvaluationResult" where
  "scorer_timeout r = r\<lparr>ac_status := ''scorer_timeout'', ac_error_message := ''trajectory scoring exceeded max_seconds''\<rparr>"

text \<open>One action was found and applied: the state it leads to is recorded.\<close>

definition record_action :: "nat \<Rightarrow> bool \<times> ap_float \<Rightarrow> ap_float \<Rightarrow> ActionChainEvaluationResult \<Rightarrow> ActionChainEvaluationResult" where
  "record_action successor v candidate_g r =
    r\<lparr>ac_states := ac_states r @ [state_info (length (ac_states r)) successor v],
      ac_applied_action_count := Suc (ac_applied_action_count r), ac_path_cost := candidate_g\<rparr>"

fun evaluate_actions :: "operator_table \<Rightarrow> 'h heuristic \<Rightarrow> (nat \<Rightarrow> bool) \<Rightarrow> nat \<Rightarrow> string list \<Rightarrow> nat \<Rightarrow> nat \<Rightarrow> ap_float \<Rightarrow>
    world \<Rightarrow> 'h \<Rightarrow> ActionChainEvaluationResult \<Rightarrow> (ActionChainEvaluationResult \<times> world) result" where
  "evaluate_actions table heur expired looks [] index state g w h r = Inr (finish_chain w (r\<lparr>ac_outcome := ''legal_incomplete''\<rparr>), w)"
| "evaluate_actions table heur expired looks (raw_action # actions) index state g w h r =
    (if expired looks then Inr (finish_chain w (scorer_timeout r), w)
     else let resolution = resolve_action table w state raw_action
       in if res_status resolution \<noteq> FOUND
          then Inr (finish_chain w (r\<lparr>ac_outcome := ''invalid'', ac_has_invalid_action := True, ac_invalid_action_index := index\<rparr>), w)
          else let oper = the (res_op resolution); candidate_g = ap_add g (op_cost (g_operators (w_task w) ! oper))
            in bind_result (apply_action w state oper) (\<lambda>(successor, w').
                 let h' = h_reach_state heur w' state oper successor h;
                     r' = record_action successor (evaluate_h heur h' w' successor candidate_g) candidate_g r
                 in if test_goal (w_task w') (state_value w' successor)
                    then Inr (finish_chain w' (r'\<lparr>ac_outcome := ''goal_reached''\<rparr>), w')
                    else if expired (Suc looks) then Inr (finish_chain w' (scorer_timeout r'), w')
                    else evaluate_actions table heur expired (looks + 2) actions (Suc index) successor candidate_g w' h' r'))"

definition evaluate_chain :: "operator_table \<Rightarrow> 'h heuristic \<Rightarrow> (nat \<Rightarrow> bool) \<Rightarrow> nat \<Rightarrow> string list \<Rightarrow> world \<Rightarrow> 'h \<Rightarrow>
    (ActionChainEvaluationResult \<times> world) result" where
  "evaluate_chain table heur expired initial_state actions w h =
    (let r = ActionChainEvaluationResult_init\<lparr>ac_generated_action_count := length actions,
           ac_states := [state_info 0 initial_state (evaluate_h heur h w initial_state (ap_zero False))]\<rparr>
     in if test_goal (w_task w) (state_value w initial_state) then Inr (finish_chain w (r\<lparr>ac_outcome := ''goal_reached''\<rparr>), w)
        else if expired 0 then Inr (finish_chain w (scorer_timeout r), w)
        else evaluate_actions table heur expired 1 actions 0 initial_state (ap_zero False) w h r)"

section \<open>Names in normal form\<close>

text \<open>The words of a name, and the words in lower case with single blanks between them.\<close>

fun join_words :: "string list \<Rightarrow> string" where
  "join_words [] = []"
| "join_words [w] = w"
| "join_words (w # ws) = w @ '' '' @ join_words ws"

definition is_word :: "string \<Rightarrow> bool" where
  "is_word s \<longleftrightarrow> s \<noteq> [] \<and> list_all (\<lambda>c. \<not> is_space c) s"

definition is_blank :: "string \<Rightarrow> bool" where
  "is_blank s \<longleftrightarrow> list_all is_space s"

text \<open>Words with blanks around them: a blank in front of each word, and one at the end.\<close>

fun spaced :: "(string \<times> string) list \<Rightarrow> string \<Rightarrow> string" where
  "spaced [] end_blank = end_blank"
| "spaced ((blank, w) # ps) end_blank = blank @ w @ spaced ps end_blank"

lemma normalize_blank:
  "is_blank b \<Longrightarrow> normalize_chars acc p (b @ rest) = normalize_chars acc (if b = [] then p else acc \<noteq> []) rest"
proof (induction b arbitrary: p)
  case (Cons c b)
  then have c: "is_space c" "is_blank b" by (simp_all add: is_blank_def)
  then show ?case using Cons.IH [of "acc \<noteq> []"] by simp
qed simp

lemma normalize_word_tail:
  "list_all (\<lambda>c. \<not> is_space c) w \<Longrightarrow> normalize_chars acc False (w @ rest) = normalize_chars (acc @ map to_lower w) False rest"
  by (induction w arbitrary: acc) simp_all

lemma normalize_word:
  assumes "is_word w"
  shows "normalize_chars acc p (w @ rest) = normalize_chars (acc @ (if p then '' '' else []) @ map to_lower w) False rest"
proof -
  obtain c cs where w: "w = c # cs" "\<not> is_space c" "list_all (\<lambda>c. \<not> is_space c) cs"
    using assms by (cases w) (auto simp: is_word_def)
  then show ?thesis by (simp add: normalize_word_tail)
qed

lemma normalize_spaced:
  assumes "\<forall>(b, w) \<in> set ps. is_blank b \<and> is_word w" "is_blank e"
    "acc \<noteq> [] \<Longrightarrow> \<forall>(b, w) \<in> set ps. b \<noteq> []" "acc = [] \<Longrightarrow> \<forall>(b, w) \<in> set (tl ps). b \<noteq> []"
  shows "normalize_chars acc False (spaced ps e) =
    (if acc = [] then join_words (map (map to_lower \<circ> snd) ps) else join_words (acc # map (map to_lower \<circ> snd) ps))"
  using assms
proof (induction ps arbitrary: acc)
  case Nil
  then show ?case using normalize_blank [of e acc False "[]"] by simp
next
  case (Cons p ps)
  obtain b w where p: "p = (b, w)" by (cases p)
  then have b: "is_blank b" and w: "is_word w" using Cons.prems by auto
  have wne: "map to_lower w \<noteq> []" using w by (simp add: is_word_def)
  have "normalize_chars acc False (spaced (p # ps) e) =
      normalize_chars (acc @ (if b \<noteq> [] \<and> acc \<noteq> [] then '' '' else []) @ map to_lower w) False (spaced ps e)"
    using normalize_blank [OF b, of acc False] normalize_word [OF w] by (simp add: p)
  also have "\<dots> = join_words ((acc @ (if b \<noteq> [] \<and> acc \<noteq> [] then '' '' else []) @ map to_lower w) # map (map to_lower \<circ> snd) ps)"
    using Cons.IH [of "acc @ (if b \<noteq> [] \<and> acc \<noteq> [] then '' '' else []) @ map to_lower w"] Cons.prems wne
    by (cases "acc = []") auto
  finally show ?case using Cons.prems(3) by (cases "map (map to_lower \<circ> snd) ps") (auto simp: p o_def)
qed

lemma strip_blanks_core:
  assumes "is_blank b" "is_blank e" "core \<noteq> []" "\<not> is_space (hd core)" "\<not> is_space (last core)"
  shows "strip_blanks (b @ core @ e) = core"
proof -
  have drop: "dropWhile is_space (x @ y) = y" if "is_blank x" "y \<noteq> []" "\<not> is_space (hd y)" for x y
    using that by (cases y) (auto simp: is_blank_def list_all_iff)
  have "dropWhile is_space (b @ core @ e) = core @ e" using assms by (intro drop) auto
  moreover have "dropWhile is_space (rev e @ rev core) = rev core"
    using assms by (intro drop) (auto simp: is_blank_def hd_rev list_all_iff)
  ultimately show ?thesis by (simp add: strip_blanks_def)
qed

lemma normalize_parenthesised:
  assumes "is_blank b" "is_blank e"
  shows "normalize_operator_name (b @ ''('' @ s @ '')'' @ e) = normalize_chars [] False s"
proof -
  have "\<not> is_space CHR ''(''" "\<not> is_space CHR '')''" by (simp_all add: is_space_def)
  then have "strip_blanks (b @ (''('' @ s @ '')'') @ e) = ''('' @ s @ '')''" using assms by (intro strip_blanks_core) simp_all
  then show ?thesis by (simp add: normalize_operator_name_def strip_parens_def butlast_append)
qed

lemma normalize_plain:
  assumes "is_blank b" "is_blank e" "core \<noteq> []" "\<not> is_space (hd core)" "\<not> is_space (last core)"
    "hd core \<noteq> CHR ''('' \<or> last core \<noteq> CHR '')''"
  shows "normalize_operator_name (b @ core @ e) = normalize_chars [] False core"
  using strip_blanks_core [OF assms(1-5)] assms(6) by (auto simp: normalize_operator_name_def strip_parens_def)

lemma last_spaced:
  "ps \<noteq> [] \<Longrightarrow> \<forall>(b, w) \<in> set ps. is_word w \<Longrightarrow> last (spaced ps []) = last (snd (last ps)) \<and> spaced ps [] \<noteq> []"
proof (induction ps)
  case (Cons p ps)
  obtain b w where p: "p = (b, w)" by (cases p)
  then have "w \<noteq> []" using Cons.prems by (auto simp: is_word_def)
  then show ?case using Cons p by (cases "ps = []") (auto simp: last_append)
qed simp

lemma spaced_end: "spaced ps e = spaced ps [] @ e"
  by (induction ps) auto

lemma is_word_last: "is_word w \<Longrightarrow> \<not> is_space (hd w) \<and> \<not> is_space (last w)"
  by (auto simp: is_word_def list_all_iff)

section \<open>Resolved actions\<close>

lemma resolve_FOUND: "res_status (resolve_action table w s a) = FOUND \<Longrightarrow>
    resolve_action table w s a = \<lparr>res_status = FOUND, res_op = Some (the (res_op (resolve_action table w s a)))\<rparr>"
  by (auto simp: resolve_action_def split: option.splits if_splits)

lemma successor_keeps_operators: "get_successor_state w s oper = Inr (i, w') \<Longrightarrow> w_task w' = w_task w"
  by (auto simp: get_successor_state_def Let_def bind_result_Inr_iff keep_metric_def set_cost_information_def split: if_splits)

section \<open>Properties\<close>

lemma normalize_forms:
  assumes words: "ps \<noteq> []" "\<forall>(b, w) \<in> set ps. is_blank b \<and> is_word w" "\<forall>(b, w) \<in> set (tl ps). b \<noteq> []"
    and blanks: "is_blank before" "is_blank after" "is_blank e"
  shows "normalize_operator_name (before @ ''('' @ spaced ps e @ '')'' @ after) = join_words (map (map to_lower \<circ> snd) ps)"
    and "hd (snd (hd ps)) \<noteq> CHR ''('' \<or> last (snd (last ps)) \<noteq> CHR '')'' \<Longrightarrow>
      normalize_operator_name (spaced ps e) = join_words (map (map to_lower \<circ> snd) ps)"
proof -
  show "normalize_operator_name (before @ ''('' @ spaced ps e @ '')'' @ after) = join_words (map (map to_lower \<circ> snd) ps)"
    unfolding normalize_parenthesised [OF blanks(1,2)] using normalize_spaced [of ps e "[]"] words blanks by simp
  assume plain: "hd (snd (hd ps)) \<noteq> CHR ''('' \<or> last (snd (last ps)) \<noteq> CHR '')''"
  obtain b w qs where ps: "ps = (b, w) # qs" using words(1) by (cases ps) auto
  let ?core = "spaced (([], w) # qs) []"
  have w: "is_blank b" "is_word w" "w \<noteq> []" using words(2) ps by (auto simp: is_word_def)
  have ok: "\<forall>(b, w) \<in> set (([], w) # qs). is_blank b \<and> is_word w" using words(2) ps by (auto simp: is_blank_def)
  then have allw: "\<forall>(b, w) \<in> set (([], w) # qs). is_word w" by auto
  note core = conjunct1 [OF last_spaced [OF list.simps(3) allw]] conjunct2 [OF last_spaced [OF list.simps(3) allw]]
  have "is_word (snd (last (([], w) # qs)))"
    using ok last_in_set [of "([], w) # qs"] by (auto simp: case_prod_beta)
  then have "\<not> is_space (last ?core)" using core(1) is_word_last by simp
  moreover have "hd ?core = hd w" using w(3) by simp
  moreover have "last (snd (last (([], w) # qs))) = last (snd (last ps))" using ps by (cases qs) auto
  ultimately have "normalize_operator_name (b @ ?core @ e) = normalize_chars [] False ?core"
    using w plain core is_word_last [OF w(2)] blanks(3) ps by (intro normalize_plain) auto
  also have "b @ ?core @ e = spaced ps e" using spaced_end [of qs e] ps by simp
  also have "normalize_chars [] False ?core = join_words (map (map to_lower \<circ> snd) (([], w) # qs))"
    using normalize_spaced [of "([], w) # qs" "[]" "[]"] ok words(3) ps by (auto simp: is_blank_def)
  finally show "normalize_operator_name (spaced ps e) = join_words (map (map to_lower \<circ> snd) ps)" using ps by simp
qed

text \<open>
  C37. Names of actions: however an action is written - in any mixture of cases, with any blanks
  around and between its words, with or without enclosing parentheses - its normalised name is
  its words in lower case with single blanks between them.
\<close>

theorem action_name_normal_form:
  assumes "ps \<noteq> []" "\<forall>(b, w) \<in> set ps. is_blank b \<and> is_word w" "\<forall>(b, w) \<in> set (tl ps). b \<noteq> []"
    and "is_blank before" "is_blank after" "is_blank e"
  shows "normalize_operator_name (before @ ''('' @ spaced ps e @ '')'' @ after) = join_words (map (map to_lower \<circ> snd) ps) \<and>
    (hd (snd (hd ps)) \<noteq> CHR ''('' \<or> last (snd (last ps)) \<noteq> CHR '')'' \<longrightarrow>
      normalize_operator_name (spaced ps e) = join_words (map (map to_lower \<circ> snd) ps))"
  using normalize_forms [OF assms] by blast

theorem action_name_normal_form_witness:
  "normalize_operator_name '' ( Drive  Truck1 )'' = ''drive truck1'' \<and> normalize_operator_name '' DRIVE truck1 '' = ''drive truck1''"
proof -
  have "normalize_operator_name ('' '' @ ''('' @ spaced [('' '', ''Drive''), (''  '', ''Truck1'')] '' '' @ '')'' @ []) =
      join_words (map (map to_lower \<circ> snd) [('' '', ''Drive''), (''  '', ''Truck1'')])"
    by (rule action_name_normal_form [THEN conjunct1]) (simp_all add: is_blank_def is_word_def is_space_def)
  moreover have "normalize_operator_name (spaced [('' '', ''DRIVE''), ('' '', ''truck1'')] '' '') =
      join_words (map (map to_lower \<circ> snd) [('' '', ''DRIVE''), ('' '', ''truck1'')])"
    by (rule action_name_normal_form [where before = "[]" and after = "[]", THEN conjunct2, rule_format]) (auto simp: is_blank_def is_word_def is_space_def)
  moreover have "join_words (map (map to_lower \<circ> snd) [('' '', ''Drive''), (''  '', ''Truck1'')]) = ''drive truck1''"
    "join_words (map (map to_lower \<circ> snd) [('' '', ''DRIVE''), ('' '', ''truck1'')]) = ''drive truck1''" by code_simp+
  ultimately show ?thesis by simp
qed

text \<open>The demonstration world with its operator, and variable 0 to be made 1.\<close>

definition chain_world :: "packing \<Rightarrow> world" where
  "chain_world p = (demo_world p)\<lparr>w_task := (w_task (demo_world p))\<lparr>g_operators := [demo_operator], g_goal := [(0, 1)]\<rparr>\<rparr>"

lemma derived_operators [simp]:
  "derived_var (t\<lparr>g_operators := opers, g_goal := goal\<rparr>) = derived_var t"
  "AxiomEvaluator_make (t\<lparr>g_operators := opers, g_goal := goal\<rparr>) = AxiomEvaluator_make t"
proof -
  have "add_nbf_info (t\<lparr>g_operators := opers, g_goal := goal\<rparr>) = add_nbf_info t"
    by (simp add: fun_eq_iff add_nbf_info_def last_axiom_layer_def Let_def)
  then show make: "AxiomEvaluator_make (t\<lparr>g_operators := opers, g_goal := goal\<rparr>) = AxiomEvaluator_make t"
    by (simp add: AxiomEvaluator_make_def logic_layer_bounds_def last_axiom_layer_def)
  then show "derived_var (t\<lparr>g_operators := opers, g_goal := goal\<rparr>) = derived_var t"
    by (simp add: fun_eq_iff derived_var_def)
qed

lemma ok_operators [simp]:
  "well_stratified (t\<lparr>g_operators := opers, g_goal := goal\<rparr>) = well_stratified t"
  "comparisons_ok (t\<lparr>g_operators := opers, g_goal := goal\<rparr>) = comparisons_ok t"
  "has_logic_axioms (t\<lparr>g_operators := opers, g_goal := goal\<rparr>) = has_logic_axioms t"
  "statespace_sizes (t\<lparr>g_operators := opers, g_goal := goal\<rparr>) = statespace_sizes t"
  "numeric_task_ok (t\<lparr>g_operators := opers, g_goal := goal\<rparr>) = numeric_task_ok t"
  by (simp_all add: well_stratified_def axiom_ok_def comparisons_ok_def has_logic_axioms_def statespace_sizes_def numeric_task_ok_def)

lemma rank_operators [simp]: "type_rank (t\<lparr>g_operators := opers, g_goal := goal\<rparr>) = type_rank t"
  by (simp add: fun_eq_iff type_rank_def)

lemma slot_operators [simp]: "slot_index (t\<lparr>g_operators := opers, g_goal := goal\<rparr>) = slot_index t"
  by (simp add: fun_eq_iff slot_index_def split: numType.split)

lemma chain_world_ok:
  assumes "pack_bins (statespace_sizes demo_task) = Some p"
  shows "world_ok (chain_world p)" "operator_ok (w_task (chain_world p)) demo_operator" "registry_size (chain_world p) = 1"
    "state_value (chain_world p) 0 v = packer_get p (replicate (num_bins p) 0) v"
proof -
  note ok = demo_world_ok [OF assms]
  have val: "state_value (chain_world p) s = state_value (demo_world p) s" for s
    by (simp add: state_value_def packed_buffer_def chain_world_def demo_world_def fun_eq_iff)
  show "registry_size (chain_world p) = 1" using ok(2) by (simp add: chain_world_def registry_size_def)
  show "operator_ok (w_task (chain_world p)) demo_operator" using ok(3) by (simp add: chain_world_def operator_ok_def assign_ok_def)
  show "state_value (chain_world p) 0 v = packer_get p (replicate (num_bins p) 0) v" using ok(4) val by simp
  show "world_ok (chain_world p)"
    using ok(1) val
    by (simp add: world_ok_def task_ok_def registry_inv_def evaluator_ok_def layout_ok_def states_in_domain_def registry_size_def
        same_tables_def chain_world_def)
qed

end
