(* ===== verification/Chain_Properties.thy ===== *)
theory Chain_Properties
  imports Action_Chain
begin

text \<open>The evaluation of a chain of actions as the run it describes.\<close>

section \<open>Runs\<close>

text \<open>
  A point of a run: the state, the world, the path cost and what the heuristic remembers. The runs are
  written over the task, the successors of the registry and the heuristic, not over the evaluator.
\<close>

type_synonym 'h point = "nat \<times> world \<times> ap_float \<times> 'h"

fun at_goal :: "'h point \<Rightarrow> bool" where
  "at_goal (s, w, g, h) \<longleftrightarrow> (\<forall>(v, x) \<in> set (g_goal (w_task w)). state_value w s v = x)"

text \<open>The operator a name stands for, when it is applicable.\<close>

fun usable :: "operator_table \<Rightarrow> string \<Rightarrow> 'h point \<Rightarrow> nat \<Rightarrow> bool" where
  "usable table a (s, w, g, h) oper \<longleftrightarrow> table (normalize_operator_name a) = Some oper \<and>
     (\<forall>c \<in> set (preconditions (g_operators (w_task w) ! oper)). state_value w s (cond_var c) = cond_val c)"

fun chain_step :: "operator_table \<Rightarrow> 'h heuristic \<Rightarrow> string \<Rightarrow> 'h point \<Rightarrow> 'h point \<Rightarrow> bool" where
  "chain_step table heur a (s, w, g, h) (s', w', g', h') \<longleftrightarrow>
     (\<exists>oper. usable table a (s, w, g, h) oper \<and>
        get_successor_state w s (g_operators (w_task w) ! oper) = Inr (s', w') \<and>
        g' = ap_add g (op_cost (g_operators (w_task w) ! oper)) \<and> h' = h_reach_state heur w' s oper s' h)"

text \<open>The first actions lead from point to point, and none of them starts at a goal.\<close>

fun chain_points :: "operator_table \<Rightarrow> 'h heuristic \<Rightarrow> string list \<Rightarrow> 'h point \<Rightarrow> 'h point list \<Rightarrow> bool" where
  "chain_points table heur actions p [] = True"
| "chain_points table heur [] p (q # qs) = False"
| "chain_points table heur (a # actions) p (q # qs) \<longleftrightarrow>
     \<not> at_goal p \<and> chain_step table heur a p q \<and> chain_points table heur actions q qs"

fun point_info :: "'h heuristic \<Rightarrow> nat \<Rightarrow> 'h point \<Rightarrow> TrajectoryStateInfo" where
  "point_info heur i (s, w, g, h) = \<lparr>ts_state_index = i, ts_state_id = state_hash (int s),
     ts_has_h = (h_value heur h w s g \<noteq> None), ts_h = (case h_value heur h w s g of None \<Rightarrow> ap_zero False | Some x \<Rightarrow> x)\<rparr>"

text \<open>How an evaluation ends after \<open>n\<close> actions. The clock is looked at before and after each action.\<close>

definition chain_end :: "operator_table \<Rightarrow> (nat \<Rightarrow> bool) \<Rightarrow> string list \<Rightarrow> nat \<Rightarrow> 'h point \<Rightarrow> ActionChainEvaluationResult \<Rightarrow> bool" where
  "chain_end table expired actions n p r \<longleftrightarrow>
    (if at_goal p then ac_status r = ''ok'' \<and> ac_outcome r = ''goal_reached'' \<and> \<not> ac_has_invalid_action r
     else if expired (2 * n) \<or> n < length actions \<and> expired (2 * n + 1)
     then ac_status r = ''scorer_timeout'' \<and> \<not> ac_has_invalid_action r
     else if n < length actions
     then ac_status r = ''ok'' \<and> ac_outcome r = ''invalid'' \<and> ac_has_invalid_action r \<and> ac_invalid_action_index r = n \<and>
       \<not> (\<exists>oper. usable table (actions ! n) p oper)
     else ac_status r = ''ok'' \<and> ac_outcome r = ''legal_incomplete'' \<and> \<not> ac_has_invalid_action r)"

lemma chain_points_length: "chain_points table heur actions p qs \<Longrightarrow> length qs \<le> length actions"
  by (induction table heur actions p qs rule: chain_points.induct) simp_all

lemma at_goal_test: "at_goal (s, w, g, h) \<longleftrightarrow> test_goal (w_task w) (state_value w s)"
  by (auto simp: test_goal_def list_all_iff)

lemma usable_FOUND:
  "usable table a (s, w, g, h) oper \<longleftrightarrow> resolve_action table w s a = \<lparr>res_status = FOUND, res_op = Some oper\<rparr>"
  by (auto simp: resolve_action_def operator_is_applicable_def condition_is_applicable_def list_all_iff split: option.splits)

lemma usable_none: "(\<exists>oper. usable table a (s, w, g, h) oper) \<longleftrightarrow> res_status (resolve_action table w s a) = FOUND"
  unfolding usable_FOUND using resolve_FOUND by (auto simp: resolve_action_def split: option.splits)

lemma point_info_state: "point_info heur i (s, w, g, h) = state_info i s (evaluate_h heur h w s g)"
  by (simp add: state_info_def evaluate_h_def split: option.split)

declare at_goal.simps [simp del] usable.simps [simp del]

section \<open>The evaluation\<close>

text \<open>What the loop adds to a result, from the point \<open>p\<close> it starts at.\<close>

definition chain_result :: "'h heuristic \<Rightarrow> nat \<Rightarrow> 'h point \<Rightarrow> 'h point list \<Rightarrow> ActionChainEvaluationResult \<Rightarrow> ActionChainEvaluationResult \<Rightarrow> world \<Rightarrow> bool" where
  "chain_result heur index p qs r r' w' \<longleftrightarrow>
     ac_states r' = ac_states r @ map (\<lambda>k. point_info heur (Suc (index + k)) (qs ! k)) [0..<length qs] \<and>
     ac_applied_action_count r' = index + length qs \<and> ac_generated_action_count r' = ac_generated_action_count r \<and>
     ac_path_cost r' = fst (snd (snd (last (p # qs)))) \<and> w' = fst (snd (last (p # qs))) \<and>
     ac_registered_state_count r' = registry_size w'"

lemma chain_result_Cons:
  assumes "chain_result heur (Suc index) q qs (record_action (fst q) v g r) r' w'"
    "v = evaluate_h heur (snd (snd (snd q))) (fst (snd q)) (fst q) (fst (snd (snd q)))" "length (ac_states r) = Suc index"
  shows "chain_result heur index p (q # qs) r r' w'"
proof -
  obtain s w c h where q: "q = (s, w, c, h)" by (cases q)
  have "map (\<lambda>k. point_info heur (Suc (index + k)) ((q # qs) ! k)) [0..<length (q # qs)] =
      state_info (Suc index) s v # map (\<lambda>k. point_info heur (Suc (Suc index + k)) (qs ! k)) [0..<length qs]"
    unfolding length_Cons upt_conv_Cons [OF zero_less_Suc] map_Suc_upt [symmetric]
    using assms(2) by (simp add: q point_info_state o_def del: point_info.simps)
  with assms(1,3) show ?thesis by (simp add: chain_result_def record_action_def q)
qed


lemma evaluate_actions_points:
  assumes "evaluate_actions table heur expired (2 * index + 1) actions index s g w h r = Inr (r', w')"
    "actions = drop index every" "index \<le> length every" "length (ac_states r) = Suc index"
    "ac_applied_action_count r = index" "ac_path_cost r = g" "ac_status r = ''ok''" "\<not> ac_has_invalid_action r"
    "\<not> at_goal (s, w, g, h)" "\<not> expired (2 * index)"
  shows "\<exists>qs. chain_points table heur actions (s, w, g, h) qs \<and> chain_result heur index (s, w, g, h) qs r r' w' \<and>
    chain_end table expired every (index + length qs) (last ((s, w, g, h) # qs)) r'"
  using assms
proof (induction actions arbitrary: index s g w h r)
  case Nil
  then show ?case
    by (intro exI [of _ "[]"]) (auto simp: chain_result_def chain_end_def finish_chain_def)
next
  case (Cons a actions)
  have index: "index < length every" "every ! index = a" "actions = drop (Suc index) every"
    using Cons.prems(2,3) by (metis Cons_nth_drop_Suc drop_all list.discI list.inject not_le)+
  show ?case
  proof (cases "expired (2 * index + 1) \<or> res_status (resolve_action table w s a) \<noteq> FOUND")
    case True
    then have "w' = w \<and> (r' = finish_chain w (scorer_timeout r) \<and> expired (2 * index + 1) \<or>
        \<not> expired (2 * index + 1) \<and> \<not> (\<exists>oper. usable table a (s, w, g, h) oper) \<and>
        r' = finish_chain w (r\<lparr>ac_outcome := ''invalid'', ac_has_invalid_action := True, ac_invalid_action_index := index\<rparr>))"
      using Cons.prems(1) by (auto simp: Let_def usable_none split: if_splits)
    then show ?thesis using Cons.prems(2-) index
      by (intro exI [of _ "[]"]) (auto simp: chain_result_def chain_end_def finish_chain_def scorer_timeout_def)
  next
    case False
    define oper where "oper = the (res_op (resolve_action table w s a))"
    define c where "c = ap_add g (op_cost (g_operators (w_task w) ! oper))"
    have found: "resolve_action table w s a = \<lparr>res_status = FOUND, res_op = Some oper\<rparr>"
      using False resolve_FOUND oper_def by auto
    obtain s1 w1 where app: "apply_action w s oper = Inr (s1, w1)"
      using Cons.prems(1) False by (auto simp: Let_def oper_def bind_result_Inr_iff)
    define h1 where "h1 = h_reach_state heur w1 s oper s1 h"
    define r1 where "r1 = record_action s1 (evaluate_h heur h1 w1 s1 c) c r"
    let ?q = "(s1, w1, c, h1)" and ?p = "(s, w, g, h)"
    have r1: "length (ac_states r1) = Suc (Suc index)" "ac_applied_action_count r1 = Suc index" "ac_path_cost r1 = c"
      "ac_status r1 = ''ok''" "\<not> ac_has_invalid_action r1"
      using Cons.prems(2-) by (simp_all add: r1_def record_action_def)
    have step: "chain_step table heur a ?p ?q"
      using app found by (auto simp: usable_FOUND apply_action_def c_def h1_def)
    let ?next = "if test_goal (w_task w1) (state_value w1 s1) then Inr (finish_chain w1 (r1\<lparr>ac_outcome := ''goal_reached''\<rparr>), w1)
        else if expired (2 * index + 2) then Inr (finish_chain w1 (scorer_timeout r1), w1)
        else evaluate_actions table heur expired (2 * Suc index + 1) actions (Suc index) s1 c w1 h1 r1"
    have "evaluate_actions table heur expired (2 * index + 1) (a # actions) index s g w h r = ?next"
      using False app by (simp add: Let_def oper_def [symmetric] r1_def h1_def c_def)
    then have res: "?next = Inr (r', w')" using Cons.prems(1) by (rule trans [OF sym])
    have "\<exists>qs. chain_points table heur actions ?q qs \<and> chain_result heur (Suc index) ?q qs r1 r' w' \<and>
        chain_end table expired every (Suc index + length qs) (last (?q # qs)) r'"
    proof (cases "test_goal (w_task w1) (state_value w1 s1) \<or> expired (2 * index + 2)")
      case True
      then have "w' = w1" "r' = finish_chain w1 (r1\<lparr>ac_outcome := ''goal_reached''\<rparr>) \<and> at_goal ?q \<or>
          r' = finish_chain w1 (scorer_timeout r1) \<and> \<not> at_goal ?q \<and> expired (2 * index + 2)"
        using res by (auto simp: at_goal_test split: if_splits)
      then show ?thesis using r1
        by (intro exI [of _ "[]"]) (auto simp: chain_result_def chain_end_def finish_chain_def scorer_timeout_def)
    next
      case False
      then have go: "evaluate_actions table heur expired (2 * Suc index + 1) actions (Suc index) s1 c w1 h1 r1 = Inr (r', w')"
        and fresh: "\<not> at_goal ?q" "\<not> expired (2 * Suc index)"
        using res by (simp_all add: at_goal_test)
      show ?thesis using Cons.IH [OF go index(3) Suc_leI [OF index(1)] r1 fresh] .
    qed
    then obtain qs where qs: "chain_points table heur actions ?q qs" "chain_result heur (Suc index) ?q qs r1 r' w'"
      "chain_end table expired every (Suc index + length qs) (last (?q # qs)) r'" by blast
    have "chain_result heur index ?p (?q # qs) r r' w'"
      by (rule chain_result_Cons [where v = "evaluate_h heur h1 w1 s1 c" and g = c])
        (use qs(2) Cons.prems(4) in \<open>simp_all add: r1_def\<close>)
    then show ?thesis using qs step Cons.prems(9) by (intro exI [of _ "?q # qs"]) simp
  qed
qed

section \<open>The property\<close>

text \<open>
  C36. Evaluating a chain of actions: the result describes a run of the task from the initial state.
  Its actions are names of operators that are applicable where they are used, and no state before the
  last is a goal. Every state of the run is recorded with its index, its identifier and the value the
  heuristic gives it, which has been told of each transition; the path cost is the cost of the last
  point. The outcome says why the evaluation ended: at a goal, by the clock, at the action that is
  unknown or not applicable, or at the end of the chain.
\<close>

theorem action_chain_evaluation:
  assumes "evaluate_chain table heur expired s actions w h = Inr (r, w')"
  shows "\<exists>qs g' h' s'. chain_points table heur actions (s, w, ap_zero False, h) qs \<and>
    last ((s, w, ap_zero False, h) # qs) = (s', w', g', h') \<and>
    ac_states r = map (\<lambda>i. point_info heur i (((s, w, ap_zero False, h) # qs) ! i)) [0..<Suc (length qs)] \<and>
    ac_generated_action_count r = length actions \<and> ac_applied_action_count r = length qs \<and>
    ac_path_cost r = g' \<and> ac_registered_state_count r = registry_size w' \<and>
    chain_end table expired actions (length qs) (s', w', g', h') r"
proof -
  let ?p = "(s, w, ap_zero False, h)"
  let ?r = "ActionChainEvaluationResult_init\<lparr>ac_generated_action_count := length actions,
    ac_states := [state_info 0 s (evaluate_h heur h w s (ap_zero False))]\<rparr>"
  have init: "length (ac_states ?r) = Suc 0" "ac_applied_action_count ?r = 0" "ac_path_cost ?r = ap_zero False"
    "ac_status ?r = ''ok''" "\<not> ac_has_invalid_action ?r"
    by (simp_all add: ActionChainEvaluationResult_init_def)
  have "\<exists>qs. chain_points table heur actions ?p qs \<and> chain_result heur 0 ?p qs ?r r w' \<and>
      chain_end table expired actions (0 + length qs) (last (?p # qs)) r"
  proof (cases "at_goal ?p \<or> expired 0")
    case True
    then have "w' = w" "r = finish_chain w (?r\<lparr>ac_outcome := ''goal_reached''\<rparr>) \<and> at_goal ?p \<or>
        r = finish_chain w (scorer_timeout ?r) \<and> \<not> at_goal ?p \<and> expired 0"
      using assms by (auto simp: evaluate_chain_def Let_def at_goal_test split: if_splits)
    then show ?thesis
      by (intro exI [of _ "[]"])
        (auto simp: chain_result_def chain_end_def finish_chain_def scorer_timeout_def ActionChainEvaluationResult_init_def)
  next
    case False
    then have "evaluate_actions table heur expired (2 * 0 + 1) actions 0 s (ap_zero False) w h ?r = Inr (r, w')"
      "\<not> at_goal ?p" "\<not> expired (2 * 0)"
      using assms by (auto simp: evaluate_chain_def Let_def at_goal_test)
    from evaluate_actions_points [OF this(1) _ _ init this(2,3), of actions] show ?thesis by simp
  qed
  then obtain qs where qs: "chain_points table heur actions ?p qs" "chain_result heur 0 ?p qs ?r r w'"
    "chain_end table expired actions (length qs) (last (?p # qs)) r" by auto
  obtain s' g' h' where last: "last (?p # qs) = (s', w', g', h')"
    using qs(2) by (cases "last (?p # qs)") (simp add: chain_result_def)
  have "map (\<lambda>i. point_info heur i ((?p # qs) ! i)) [0..<Suc (length qs)] =
      point_info heur 0 ?p # map (\<lambda>k. point_info heur (Suc k) (qs ! k)) [0..<length qs]"
    unfolding upt_conv_Cons [OF zero_less_Suc] map_Suc_upt [symmetric] by (simp add: o_def del: point_info.simps)
  with qs(2) have "ac_states r = map (\<lambda>i. point_info heur i ((?p # qs) ! i)) [0..<Suc (length qs)]"
    by (simp add: chain_result_def point_info_state del: point_info.simps upt_Suc)
  moreover have "ac_generated_action_count r = length actions" "ac_applied_action_count r = length qs" "ac_path_cost r = g'"
    "ac_registered_state_count r = registry_size w'"
    using qs(2) unfolding chain_result_def last by simp_all
  ultimately show ?thesis using qs(1,3) last by (intro exI [of _ qs] exI [of _ g'] exI [of _ h'] exI [of _ s']) simp
qed

theorem action_chain_evaluation_witness:
  "\<exists>p r w'. evaluate_chain (operator_by_name (w_task (chain_world p))) \<lparr>h_reach_state = \<lambda>w s oper s' h. h, h_value = \<lambda>h w s g. Some g\<rparr>
    (\<lambda>k. False) 0 [''(GO)''] (chain_world p) () = Inr (r, w') \<and> ac_outcome r = ''goal_reached'' \<and> ac_applied_action_count r \<le> 1 \<and>
    ts_has_h (hd (ac_states r))"
proof -
  obtain p where p: "pack_bins (statespace_sizes demo_task) = Some p" using demo_packing demo_ok(4) by auto
  note ok = chain_world_ok [OF p]
  let ?heur = "\<lparr>h_reach_state = \<lambda>w s oper s' h. h, h_value = \<lambda>h w s g. Some g\<rparr> :: unit heuristic"
  have zero: "state_value (chain_world p) 0 0 = 0"
    unfolding ok(4) using packer_get_zero [OF p, of 0] demo_ok(4) by simp
  have goal: "test_goal (w_task (chain_world p)) f \<longleftrightarrow> f 0 = 1" for f by (simp add: test_goal_def chain_world_def)
  have opers: "g_operators (w_task (chain_world p)) = [demo_operator]" by (simp add: chain_world_def)
  have table: "operator_by_name (w_task (chain_world p)) (normalize_operator_name ''(GO)'') = Some 0"
  proof -
    have "normalize_operator_name ''go'' = normalize_operator_name ''(GO)''" by code_simp
    then show ?thesis by (simp add: operator_by_name_def opers) (simp add: demo_operator_def)
  qed
  have "resolve_action (operator_by_name (w_task (chain_world p))) (chain_world p) 0 ''(GO)'' = \<lparr>res_status = FOUND, res_op = Some 0\<rparr>"
    by (simp add: resolve_action_def table opers operator_is_applicable_def) (simp add: demo_operator_def)
  moreover obtain i w' where succ: "get_successor_state (chain_world p) 0 demo_operator = Inr (i, w')"
    and w': "\<forall>v < num_vars (w_task (chain_world p)). g_axiom_layers (w_task (chain_world p)) ! v = - 1 \<longrightarrow>
      v \<notin> cax_affected ` set (g_comp_axioms (w_task (chain_world p))) \<longrightarrow>
      state_value w' i v = (case map_of (rev (fired_effects (state_value (chain_world p) 0) demo_operator)) v of
        None \<Rightarrow> state_value (chain_world p) 0 v | Some x \<Rightarrow> x)"
    using successor_state [OF ok(1) _ ok(2), of 0] ok(3) by auto
  have task': "w_task w' = w_task (chain_world p)" by (rule successor_keeps_operators [OF succ])
  have one: "state_value w' i 0 = 1"
  proof -
    have "0 \<notin> cax_affected ` set (g_comp_axioms (w_task (chain_world p)))" "0 < num_vars (w_task (chain_world p))"
      "g_axiom_layers (w_task (chain_world p)) ! 0 = - 1"
      by (simp_all add: chain_world_def demo_world_def demo_task_def)
    moreover have "map_of (rev (fired_effects (state_value (chain_world p) 0) demo_operator)) 0 = Some 1"
      by (simp add: fired_effects_def demo_operator_def does_fire_def)
    ultimately show ?thesis using w' by simp
  qed
  ultimately obtain r where r: "evaluate_chain (operator_by_name (w_task (chain_world p))) ?heur (\<lambda>k. False) 0 [''(GO)''] (chain_world p) () = Inr (r, w')"
    and out: "ac_outcome r = ''goal_reached''"
    using succ one task' by (simp add: evaluate_chain_def Let_def goal zero apply_action_def opers finish_chain_def)
  from action_chain_evaluation [OF r] obtain qs where
    qs: "chain_points (operator_by_name (w_task (chain_world p))) ?heur [''(GO)''] (0, chain_world p, ap_zero False, ()) qs"
      "ac_applied_action_count r = length qs"
      "ac_states r = map (\<lambda>i. point_info ?heur i (((0, chain_world p, ap_zero False, ()) # qs) ! i)) [0..<Suc (length qs)]" by blast
  have "length qs \<le> 1" using chain_points_length [OF qs(1)] by simp
  moreover have "ts_has_h (hd (ac_states r))" unfolding qs(3) upt_conv_Cons [OF zero_less_Suc] by simp
  ultimately show ?thesis using r out qs(2) by (intro exI [of _ p] exI [of _ r] exI [of _ w']) simp
qed

end
