(* ===== verification/Open_Lists.thy ===== *)
theory Open_Lists
  imports Ap_Float "HOL-Library.Multiset"
begin

text \<open>
  The open lists of \<open>open_lists/\<close>: the interface of \<open>open_list.h\<close>, the list with a single
  evaluator (\<open>standard_scalar_open_list.cc\<close>), the one that breaks ties
  (\<open>tiebreaking_open_list.cc\<close>) and the one that alternates between others
  (\<open>alternation_open_list.cc\<close>), with the part of \<open>evaluation_context.cc\<close> they read. The
  virtual methods are functions by recursion over a datatype with one constructor per class.
\<close>

section \<open>Evaluation contexts\<close>

text \<open>
  An evaluator is known by a number and by whether its dead ends are reliable. A context holds
  the value of every evaluator for its state: the cache of the code only saves computing it again.
\<close>

record ScalarEvaluator =
  evaluator_id :: nat
  dead_ends_are_reliable :: bool

record EvaluationContext =
  ec_g_value :: ap_float
  ec_preferred :: bool
  ec_result :: "nat \<Rightarrow> ap_float"

definition is_heuristic_infinite :: "EvaluationContext \<Rightarrow> ScalarEvaluator \<Rightarrow> bool" where
  "is_heuristic_infinite cx e \<longleftrightarrow> ap_eq (ec_result cx (evaluator_id e)) (ap_inf False)"

definition get_heuristic_value :: "EvaluationContext \<Rightarrow> ScalarEvaluator \<Rightarrow> ap_float" where
  "get_heuristic_value cx e = ec_result cx (evaluator_id e)"

section \<open>Buckets\<close>

text \<open>
  \<open>map<Key, deque<Entry>>\<close>: the pairs in the order of the keys, which are compared with \<open>lt\<close>;
  keys of which neither is less than the other are the same key.
\<close>

type_synonym ('k, 'e) buckets = "('k \<times> 'e list) list"

text \<open>\<open>buckets[key].push_back(entry)\<close>.\<close>

fun push_bucket :: "('k \<Rightarrow> 'k \<Rightarrow> bool) \<Rightarrow> 'k \<Rightarrow> 'e \<Rightarrow> ('k, 'e) buckets \<Rightarrow> ('k, 'e) buckets" where
  "push_bucket lt key entry [] = [(key, [entry])]"
| "push_bucket lt key entry ((k, bucket) # rest) =
    (if lt k key then (k, bucket) # push_bucket lt key entry rest
     else if lt key k then (key, [entry]) # (k, bucket) # rest
     else (k, bucket @ [entry]) # rest)"

text \<open>The first entry of the first bucket, its key, and the buckets without it.\<close>

fun pop_bucket :: "('k, 'e) buckets \<Rightarrow> ('k \<times> 'e \<times> ('k, 'e) buckets) option" where
  "pop_bucket ((k, e # bucket) # rest) = Some (k, e, if bucket = [] then rest else (k, bucket) # rest)"
| "pop_bucket _ = None"

section \<open>The classes\<close>

record 'e StandardScalarOpenList =
  std_buckets :: "(int, 'e) buckets"
  std_size :: nat
  std_evaluator :: ScalarEvaluator
  std_only_preferred :: bool

record 'e TieBreakingOpenList =
  tie_buckets :: "(ap_float list, 'e) buckets"
  tie_size :: nat
  tie_evaluators :: "ScalarEvaluator list"
  tie_allow_unsafe_pruning :: bool
  tie_only_preferred :: bool

datatype 'e OpenList =
    Standard "'e StandardScalarOpenList"
  | TieBreaking "'e TieBreakingOpenList"
  | Alternation (open_lists: "'e OpenList list") (priorities: "int list") (boost_amount: int)

section \<open>Dead ends\<close>

definition standard_is_dead_end :: "EvaluationContext \<Rightarrow> 'e StandardScalarOpenList \<Rightarrow> bool" where
  "standard_is_dead_end cx q = is_heuristic_infinite cx (std_evaluator q)"

definition standard_is_reliable_dead_end :: "EvaluationContext \<Rightarrow> 'e StandardScalarOpenList \<Rightarrow> bool" where
  "standard_is_reliable_dead_end cx q \<longleftrightarrow> standard_is_dead_end cx q \<and> dead_ends_are_reliable (std_evaluator q)"

definition tie_is_reliable_dead_end :: "EvaluationContext \<Rightarrow> 'e TieBreakingOpenList \<Rightarrow> bool" where
  "tie_is_reliable_dead_end cx q =
    list_ex (\<lambda>e. is_heuristic_infinite cx e \<and> dead_ends_are_reliable e) (tie_evaluators q)"

definition tie_is_dead_end :: "EvaluationContext \<Rightarrow> 'e TieBreakingOpenList \<Rightarrow> bool" where
  "tie_is_dead_end cx q =
    (if tie_is_reliable_dead_end cx q then True
     else if tie_allow_unsafe_pruning q \<and> is_heuristic_infinite cx (tie_evaluators q ! 0) then True
     else list_all (is_heuristic_infinite cx) (tie_evaluators q))"

primrec ol_is_reliable_dead_end :: "EvaluationContext \<Rightarrow> 'e OpenList \<Rightarrow> bool" where
  "ol_is_reliable_dead_end cx (Standard q) = standard_is_reliable_dead_end cx q"
| "ol_is_reliable_dead_end cx (TieBreaking q) = tie_is_reliable_dead_end cx q"
| "ol_is_reliable_dead_end cx (Alternation qs prios boost) = list_ex id (map (ol_is_reliable_dead_end cx) qs)"

primrec ol_is_dead_end :: "EvaluationContext \<Rightarrow> 'e OpenList \<Rightarrow> bool" where
  "ol_is_dead_end cx (Standard q) = standard_is_dead_end cx q"
| "ol_is_dead_end cx (TieBreaking q) = tie_is_dead_end cx q"
| "ol_is_dead_end cx (Alternation qs prios boost) =
    (if ol_is_reliable_dead_end cx (Alternation qs prios boost) then True else list_all id (map (ol_is_dead_end cx) qs))"

section \<open>Insertion\<close>

text \<open>The key of \<open>StandardScalarOpenList\<close> is an \<open>int\<close>: the value is cut.\<close>

definition standard_do_insertion :: "EvaluationContext \<Rightarrow> 'e \<Rightarrow> 'e StandardScalarOpenList \<Rightarrow> 'e StandardScalarOpenList" where
  "standard_do_insertion cx entry q =
    q\<lparr>std_buckets := push_bucket (<) (ap_to_int32 (get_heuristic_value cx (std_evaluator q))) entry (std_buckets q),
      std_size := Suc (std_size q)\<rparr>"

text \<open>\<open>operator<\<close> on \<open>vector<ap_float>\<close>.\<close>

fun key_less :: "ap_float list \<Rightarrow> ap_float list \<Rightarrow> bool" where
  "key_less xs [] = False"
| "key_less [] (y # ys) = True"
| "key_less (x # xs) (y # ys) = (if ap_lt x y then True else if ap_lt y x then False else key_less xs ys)"

definition tie_do_insertion :: "EvaluationContext \<Rightarrow> 'e \<Rightarrow> 'e TieBreakingOpenList \<Rightarrow> 'e TieBreakingOpenList" where
  "tie_do_insertion cx entry q =
    q\<lparr>tie_buckets := push_bucket key_less (map (get_heuristic_value cx) (tie_evaluators q)) entry (tie_buckets q),
      tie_size := Suc (tie_size q)\<rparr>"

primrec only_contains_preferred_entries :: "'e OpenList \<Rightarrow> bool" where
  "only_contains_preferred_entries (Standard q) = std_only_preferred q"
| "only_contains_preferred_entries (TieBreaking q) = tie_only_preferred q"
| "only_contains_preferred_entries (Alternation qs prios boost) = False"

text \<open>\<open>OpenList::insert\<close> with the \<open>do_insertion\<close> of the class.\<close>

primrec ol_insert :: "EvaluationContext \<Rightarrow> 'e \<Rightarrow> 'e OpenList \<Rightarrow> 'e OpenList" where
  "ol_insert cx entry (Standard q) =
    (if only_contains_preferred_entries (Standard q) \<and> \<not> ec_preferred cx then Standard q
     else if ol_is_dead_end cx (Standard q) then Standard q
     else Standard (standard_do_insertion cx entry q))"
| "ol_insert cx entry (TieBreaking q) =
    (if only_contains_preferred_entries (TieBreaking q) \<and> \<not> ec_preferred cx then TieBreaking q
     else if ol_is_dead_end cx (TieBreaking q) then TieBreaking q
     else TieBreaking (tie_do_insertion cx entry q))"
| "ol_insert cx entry (Alternation qs prios boost) =
    (if ol_is_dead_end cx (Alternation qs prios boost) then Alternation qs prios boost
     else Alternation (map (ol_insert cx entry) qs) prios boost)"

section \<open>Removal\<close>

definition standard_empty :: "'e StandardScalarOpenList \<Rightarrow> bool" where "standard_empty q \<longleftrightarrow> std_size q = 0"
definition tie_empty :: "'e TieBreakingOpenList \<Rightarrow> bool" where "tie_empty q \<longleftrightarrow> tie_size q = 0"

primrec ol_empty :: "'e OpenList \<Rightarrow> bool" where
  "ol_empty (Standard q) = standard_empty q"
| "ol_empty (TieBreaking q) = tie_empty q"
| "ol_empty (Alternation qs prios boost) = list_all id (map ol_empty qs)"

text \<open>The sublist \<open>remove_min\<close> of the alternation takes: the first of least priority that is not empty.\<close>

definition best_list :: "bool list \<Rightarrow> int list \<Rightarrow> nat option" where
  "best_list empties prios = fold (\<lambda>i best. if \<not> empties ! i \<and> (case best of None \<Rightarrow> True | Some b \<Rightarrow> prios ! i < prios ! b)
     then Some i else best) [0..<length empties] None"

text \<open>
  The entry, the key when it is asked for, and the list without the entry. An empty list fails its
  assertion; the alternation has no key and ends the program.
\<close>

definition standard_remove_min :: "'e StandardScalarOpenList \<Rightarrow> bool \<Rightarrow> ('e \<times> ap_float list \<times> 'e StandardScalarOpenList) result" where
  "standard_remove_min q with_key =
    (case pop_bucket (std_buckets q) of
       None \<Rightarrow> Inl ''Assertion failed: size > 0''
     | Some (k, e, rest) \<Rightarrow> Inr (e, if with_key then [ap_of_int k] else [], q\<lparr>std_buckets := rest, std_size := std_size q - 1\<rparr>))"

definition tie_remove_min :: "'e TieBreakingOpenList \<Rightarrow> bool \<Rightarrow> ('e \<times> ap_float list \<times> 'e TieBreakingOpenList) result" where
  "tie_remove_min q with_key =
    (case pop_bucket (tie_buckets q) of
       None \<Rightarrow> Inl ''Assertion failed: size > 0''
     | Some (k, e, rest) \<Rightarrow> Inr (e, if with_key then k else [], q\<lparr>tie_buckets := rest, tie_size := tie_size q - 1\<rparr>))"

primrec remove_min :: "'e OpenList \<Rightarrow> bool \<Rightarrow> ('e \<times> ap_float list \<times> 'e OpenList) result" where
  "remove_min (Standard q) with_key =
    bind_result (standard_remove_min q with_key) (\<lambda>(e, key, q'). Inr (e, key, Standard q'))"
| "remove_min (TieBreaking q) with_key =
    bind_result (tie_remove_min q with_key) (\<lambda>(e, key, q'). Inr (e, key, TieBreaking q'))"
| "remove_min (Alternation qs prios boost) with_key =
    (if with_key then Inl ''not implemented -- see msg639 in the tracker''
     else case best_list (map ol_empty qs) prios of
       None \<Rightarrow> Inl ''Assertion failed: best != -1''
     | Some best \<Rightarrow> bind_result ((map remove_min qs ! best) False) (\<lambda>(e, key, q).
         Inr (e, [], Alternation (qs[best := q]) (prios[best := prios ! best + 1]) boost)))"

definition standard_clear :: "'e StandardScalarOpenList \<Rightarrow> 'e StandardScalarOpenList" where
  "standard_clear q = q\<lparr>std_buckets := [], std_size := 0\<rparr>"
definition tie_clear :: "'e TieBreakingOpenList \<Rightarrow> 'e TieBreakingOpenList" where
  "tie_clear q = q\<lparr>tie_buckets := [], tie_size := 0\<rparr>"

primrec ol_clear :: "'e OpenList \<Rightarrow> 'e OpenList" where
  "ol_clear (Standard q) = Standard (standard_clear q)"
| "ol_clear (TieBreaking q) = TieBreaking (tie_clear q)"
| "ol_clear (Alternation qs prios boost) = Alternation (map ol_clear qs) prios boost"

text \<open>Only the alternation reacts to progress, and it boosts its own sublists only.\<close>

primrec boost_preferred :: "'e OpenList \<Rightarrow> 'e OpenList" where
  "boost_preferred (Standard q) = Standard q"
| "boost_preferred (TieBreaking q) = TieBreaking q"
| "boost_preferred (Alternation qs prios boost) =
    Alternation qs (map (\<lambda>(q, p). if only_contains_preferred_entries q then p - boost else p) (zip qs prios)) boost"

end
