(* ===== verification/Open_List_Laws.thy ===== *)
theory Open_List_Laws
  imports Open_Lists
begin

text \<open>
  Laws of the open lists. The buckets are a stable priority queue: entries leave in the order of
  their keys, and in the order they came among equal keys. For the search an open list is a
  multiset of entries, and nothing that is not a dead end is lost.
\<close>

lemmas [simp] = standard_remove_min_def tie_remove_min_def standard_empty_def tie_empty_def

section \<open>Buckets are a stable queue\<close>

text \<open>The reference: a list of pairs in the order they leave.\<close>

fun stable_insert :: "('k \<Rightarrow> 'k \<Rightarrow> bool) \<Rightarrow> 'k \<times> 'e \<Rightarrow> ('k \<times> 'e) list \<Rightarrow> ('k \<times> 'e) list" where
  "stable_insert lt p [] = [p]"
| "stable_insert lt p (q # qs) = (if lt (fst p) (fst q) then p # q # qs else q # stable_insert lt p qs)"

definition flat :: "('k, 'e) buckets \<Rightarrow> ('k \<times> 'e) list" where
  "flat bs = concat (map (\<lambda>(k, b). map (Pair k) b) bs)"

lemma flat_simps [simp]: "flat [] = []" "flat ((k, b) # bs) = map (Pair k) b @ flat bs"
  by (simp_all add: flat_def)

text \<open>Keys of which neither is less, and pairs with such keys and the same entry.\<close>

definition same_key :: "('k \<Rightarrow> 'k \<Rightarrow> bool) \<Rightarrow> 'k \<Rightarrow> 'k \<Rightarrow> bool" where
  "same_key lt a b \<longleftrightarrow> \<not> lt a b \<and> \<not> lt b a"

definition same_pair :: "('k \<Rightarrow> 'k \<Rightarrow> bool) \<Rightarrow> 'k \<times> 'e \<Rightarrow> 'k \<times> 'e \<Rightarrow> bool" where
  "same_pair lt p q \<longleftrightarrow> same_key lt (fst p) (fst q) \<and> snd p = snd q"

definition buckets_ok :: "('k \<Rightarrow> 'k \<Rightarrow> bool) \<Rightarrow> 'k set \<Rightarrow> ('k, 'e) buckets \<Rightarrow> bool" where
  "buckets_ok lt K bs \<longleftrightarrow> sorted_wrt (\<lambda>a b. lt (fst a) (fst b)) bs \<and> (\<forall>(k, b) \<in> set bs. k \<in> K \<and> b \<noteq> [])"

lemma same_pair_Pair [simp]: "same_pair lt (k, e) (k', e') \<longleftrightarrow> same_key lt k k' \<and> e = e'"
  by (simp add: same_pair_def)

text \<open>Buckets that hold the pairs of a queue.\<close>

definition represents :: "('k \<Rightarrow> 'k \<Rightarrow> bool) \<Rightarrow> 'k set \<Rightarrow> ('k, 'e) buckets \<Rightarrow> ('k \<times> 'e) list \<Rightarrow> bool" where
  "represents lt K bs xs \<longleftrightarrow> buckets_ok lt K bs \<and> fst ` set xs \<subseteq> K \<and> list_all2 (same_pair lt) (flat bs) xs"

text \<open>A strict weak order on the keys in use.\<close>

locale key_order =
  fixes lt :: "'k \<Rightarrow> 'k \<Rightarrow> bool" and K :: "'k set"
  assumes irrefl: "a \<in> K \<Longrightarrow> \<not> lt a a"
    and trans: "a \<in> K \<Longrightarrow> b \<in> K \<Longrightarrow> c \<in> K \<Longrightarrow> lt a b \<Longrightarrow> lt b c \<Longrightarrow> lt a c"
    and incomparable: "a \<in> K \<Longrightarrow> b \<in> K \<Longrightarrow> c \<in> K \<Longrightarrow> \<not> lt a b \<Longrightarrow> \<not> lt b c \<Longrightarrow> \<not> lt a c"
begin

lemma less_same: "a \<in> K \<Longrightarrow> b \<in> K \<Longrightarrow> c \<in> K \<Longrightarrow> same_key lt b c \<Longrightarrow> lt a b = lt a c"
  unfolding same_key_def using incomparable by blast

lemma same_key_refl: "a \<in> K \<Longrightarrow> same_key lt a a"
  by (simp add: same_key_def irrefl)

text \<open>Behind pairs that are not greater, and in front of greater ones.\<close>

lemma stable_insert_behind:
  "\<forall>q \<in> set qs. \<not> lt (fst p) (fst q) \<Longrightarrow> stable_insert lt p (qs @ rs) = qs @ stable_insert lt p rs"
  by (induction qs) auto

lemma stable_insert_front: "\<forall>q \<in> set qs. lt (fst p) (fst q) \<Longrightarrow> stable_insert lt p qs = p # qs"
  by (cases qs) auto

lemma stable_insert_same:
  assumes "k \<in> K" "k' \<in> K" "same_key lt k k'" "list_all2 (same_pair lt) qs rs" "fst ` set qs \<subseteq> K" "fst ` set rs \<subseteq> K"
  shows "list_all2 (same_pair lt) (stable_insert lt (k, e) qs) (stable_insert lt (k', e) rs)"
  using assms(4-6)
proof (induction rule: list_all2_induct)
  case Nil
  then show ?case using assms(1,3) by (simp add: same_pair_def)
next
  case (Cons q qs r rs)
  have "lt k (fst q) = lt k' (fst r)"
    using less_same [of k "fst q" "fst r"] assms(1-3) Cons by (auto simp: same_pair_def same_key_def dest: incomparable)
  then show ?case using Cons assms(3) by (auto simp: same_pair_def [abs_def])
qed

lemma push_bucket_ok:
  assumes "buckets_ok lt K bs" "k \<in> K"
  shows "buckets_ok lt K (push_bucket lt k e bs) \<and>
    (\<forall>x \<in> set (push_bucket lt k e bs). fst x = k \<or> fst x \<in> fst ` set bs) \<and>
    list_all2 (same_pair lt) (flat (push_bucket lt k e bs)) (stable_insert lt (k, e) (flat bs))"
  using assms
proof (induction bs)
  case Nil
  then show ?case by (simp add: buckets_ok_def same_pair_def same_key_refl)
next
  case (Cons x bs)
  obtain k' b where x: "x = (k', b)" by (cases x)
  have ok: "buckets_ok lt K bs" "k' \<in> K" "b \<noteq> []" "\<forall>y \<in> set bs. lt k' (fst y) \<and> fst y \<in> K" "k \<in> K"
    using Cons.prems by (auto simp: buckets_ok_def x)
  have refl: "list_all2 (same_pair lt) (map (Pair k') c @ flat bs) (map (Pair k') c @ flat bs)" for c
    using ok by (intro list.rel_refl_strong) (auto simp: same_pair_def same_key_refl flat_def)
  consider (behind) "lt k' k" | (front) "\<not> lt k' k" "lt k k'" | (here) "\<not> lt k' k" "\<not> lt k k'" by blast
  then show ?case
  proof cases
    case behind
    then have "\<not> lt k k'" using trans irrefl ok by blast
    then have "stable_insert lt (k, e) (flat (x # bs)) = map (Pair k') b @ stable_insert lt (k, e) (flat bs)"
      by (simp add: x stable_insert_behind)
    moreover have "list_all2 (same_pair lt) (map (Pair k') b) (map (Pair k') b)"
      using ok by (intro list.rel_refl_strong) (auto simp: same_pair_def same_key_refl)
    moreover note IH = Cons.IH [OF ok(1,5)]
    moreover have "\<forall>y \<in> set (push_bucket lt k e bs). lt k' (fst y)"
    proof
      fix y assume "y \<in> set (push_bucket lt k e bs)"
      then have "fst y = k \<or> (\<exists>z \<in> set bs. fst y = fst z)" using IH by blast
      then show "lt k' (fst y)" using behind ok(4) by auto
    qed
    ultimately show ?thesis using behind ok x by (auto simp: buckets_ok_def list_all2_appendI)
  next
    case front
    have "\<forall>y \<in> set bs. lt k (fst y)" using front ok trans by blast
    then have "\<forall>q \<in> set (flat (x # bs)). lt k (fst q)" using front(2) by (auto simp: x flat_def)
    then have "stable_insert lt (k, e) (flat (x # bs)) = (k, e) # flat (x # bs)" by (simp add: stable_insert_front)
    then show ?thesis using front ok Cons.prems x refl [of b]
      by (auto simp: buckets_ok_def same_key_refl dest: trans)
  next
    case here
    then have key: "same_key lt k' k" by (simp add: same_key_def)
    have "\<forall>y \<in> set bs. lt k (fst y)"
    proof
      fix y assume "y \<in> set bs"
      then show "lt k (fst y)" using ok incomparable [of k' k "fst y"] here(1) by blast
    qed
    then have "\<forall>q \<in> set (flat bs). lt k (fst q)" by (auto simp: flat_def)
    then have "stable_insert lt (k, e) (flat (x # bs)) = map (Pair k') b @ (k, e) # flat bs"
      using here(2) by (simp add: x stable_insert_behind stable_insert_front)
    then show ?thesis using here ok Cons.prems x refl key
      by (auto simp: buckets_ok_def list_all2_append list.rel_refl_strong same_key_refl list_all2_appendI)
  qed
qed

lemma same_pairs_trans:
  assumes "list_all2 (same_pair lt) xs ys" "list_all2 (same_pair lt) ys zs" "fst ` set xs \<subseteq> K" "fst ` set ys \<subseteq> K" "fst ` set zs \<subseteq> K"
  shows "list_all2 (same_pair lt) xs zs"
  unfolding list_all2_conv_all_nth
proof (intro conjI allI impI)
  show len: "length xs = length zs" using assms(1,2) by (simp add: list_all2_lengthD)
  fix i assume i: "i < length xs"
  then have "same_pair lt (xs ! i) (ys ! i)" "same_pair lt (ys ! i) (zs ! i)" "i < length ys" "i < length zs"
    using assms(1,2) by (auto simp: list_all2_conv_all_nth)
  moreover have "fst (xs ! i) \<in> K" "fst (ys ! i) \<in> K" "fst (zs ! i) \<in> K"
    using assms(3-5) i calculation(3,4) by (auto intro: nth_mem)
  ultimately show "same_pair lt (xs ! i) (zs ! i)"
    using incomparable unfolding same_pair_def same_key_def by metis
qed

lemma push:
  assumes "represents lt K bs xs" "k \<in> K"
  shows "represents lt K (push_bucket lt k e bs) (stable_insert lt (k, e) xs)"
proof -
  have bs: "buckets_ok lt K bs" "fst ` set xs \<subseteq> K" "list_all2 (same_pair lt) (flat bs) xs"
    using assms(1) by (simp_all add: represents_def)
  have keys: "fst ` set (flat bs) \<subseteq> K" using bs(1) by (auto simp: buckets_ok_def flat_def)
  have "list_all2 (same_pair lt) (stable_insert lt (k, e) (flat bs)) (stable_insert lt (k, e) xs)"
    by (rule stable_insert_same) (use assms(2) bs keys same_key_refl in auto)
  moreover have ins: "fst ` set (stable_insert lt (k, e) ys) = insert k (fst ` set ys)" for ys by (induction ys) auto
  moreover note push = push_bucket_ok [OF bs(1) assms(2), of e]
  moreover have "fst ` set (flat (push_bucket lt k e bs)) \<subseteq> K" using push by (auto simp: buckets_ok_def flat_def)
  ultimately have "list_all2 (same_pair lt) (flat (push_bucket lt k e bs)) (stable_insert lt (k, e) xs)"
    using same_pairs_trans [of _ "stable_insert lt (k, e) (flat bs)"] keys bs(2) assms(2) by simp
  then show ?thesis using push ins bs(2) assms(2) by (simp add: represents_def)
qed

lemma pop:
  assumes "represents lt K bs ((k, e) # xs)"
  shows "\<exists>k' bs'. pop_bucket bs = Some (k', e, bs') \<and> same_key lt k' k \<and> represents lt K bs' xs"
proof -
  obtain k' b bs0 where bs: "bs = (k', b) # bs0" "b \<noteq> []"
    using assms by (cases bs) (auto simp: represents_def buckets_ok_def)
  then obtain e' b' where b: "b = e' # b'" by (cases b) auto
  show ?thesis using assms unfolding bs b
    by (auto simp: represents_def buckets_ok_def same_pair_def)
qed

lemma pop_none: "represents lt K bs [] \<Longrightarrow> bs = []"
  by (cases bs) (auto simp: represents_def buckets_ok_def)

end

text \<open>Integer keys, and vectors of doubles of one length without NaN.\<close>

interpretation int_keys: key_order "(<) :: int \<Rightarrow> int \<Rightarrow> bool" UNIV
  by unfold_locales auto

definition number_keys :: "nat \<Rightarrow> ap_float list set" where
  "number_keys n = {xs. length xs = n \<and> (\<forall>x \<in> set xs. decode x \<noteq> NaN)}"

lemma ap_lt_incomparable:
  assumes "decode a \<noteq> NaN" "decode b \<noteq> NaN" "decode c \<noteq> NaN" "\<not> ap_lt a b" "\<not> ap_lt b a"
  shows "ap_lt a c = ap_lt b c" "ap_lt c a = ap_lt c b"
  using lt_values_total [OF assms(1,2)] assms(4,5) by (auto simp: ap_lt_def)

lemma number_keys_Cons:
  "zs \<in> number_keys (length (x # xs)) \<longleftrightarrow> (\<exists>z zs'. zs = z # zs' \<and> zs' \<in> number_keys (length xs) \<and> decode z \<noteq> NaN)"
  by (cases zs) (auto simp: number_keys_def)

lemma key_less_irrefl: "\<not> key_less xs xs"
  by (induction xs) simp_all

lemma key_less_trans:
  "xs \<in> number_keys n \<Longrightarrow> ys \<in> number_keys n \<Longrightarrow> zs \<in> number_keys n \<Longrightarrow> key_less xs ys \<Longrightarrow> key_less ys zs \<Longrightarrow> key_less xs zs"
proof (induction xs arbitrary: n ys zs)
  case (Cons x xs)
  then have n: "n = length (x # xs)" by (simp add: number_keys_def)
  obtain y ys' z zs' where yz: "ys = y # ys'" "zs = z # zs'" "ys' \<in> number_keys (length xs)" "zs' \<in> number_keys (length xs)"
    "decode y \<noteq> NaN" "decode z \<noteq> NaN" "decode x \<noteq> NaN" "xs \<in> number_keys (length xs)"
    using Cons.prems(1-3) unfolding n number_keys_Cons by (auto simp: number_keys_def)
  have "ap_lt x y \<or> \<not> ap_lt y x \<and> key_less xs ys'" "ap_lt y z \<or> \<not> ap_lt z y \<and> key_less ys' zs'"
    using Cons.prems(4,5) by (auto simp: yz split: if_splits)
  then have "ap_lt x z \<or> \<not> ap_lt z x \<and> key_less xs zs'"
    using Cons.IH [OF yz(8,3,4)] ap_lt_trans ap_lt_asym ap_lt_incomparable [OF yz(7,5,6)] ap_lt_incomparable [OF yz(5,6,7)] by metis
  then show ?case by (auto simp: yz)
qed (auto simp: number_keys_def)

lemma key_less_incomparable:
  "xs \<in> number_keys n \<Longrightarrow> ys \<in> number_keys n \<Longrightarrow> zs \<in> number_keys n \<Longrightarrow> \<not> key_less xs ys \<Longrightarrow> \<not> key_less ys zs \<Longrightarrow> \<not> key_less xs zs"
proof (induction xs arbitrary: n ys zs)
  case (Cons x xs)
  then have n: "n = length (x # xs)" by (simp add: number_keys_def)
  obtain y ys' z zs' where yz: "ys = y # ys'" "zs = z # zs'" "ys' \<in> number_keys (length xs)" "zs' \<in> number_keys (length xs)"
    "decode y \<noteq> NaN" "decode z \<noteq> NaN" "decode x \<noteq> NaN" "xs \<in> number_keys (length xs)"
    using Cons.prems(1-3) unfolding n number_keys_Cons by (auto simp: number_keys_def)
  have "ap_lt y x \<or> \<not> ap_lt x y \<and> \<not> key_less xs ys'" "ap_lt z y \<or> \<not> ap_lt y z \<and> \<not> key_less ys' zs'"
    using Cons.prems(4,5) ap_lt_asym by (auto simp: yz split: if_splits)
  then have "ap_lt z x \<or> \<not> ap_lt x z \<and> \<not> key_less xs zs'"
    using Cons.IH [OF yz(8,3,4)] ap_lt_trans ap_lt_asym ap_lt_incomparable [OF yz(7,5,6)] ap_lt_incomparable [OF yz(5,6,7)] by metis
  then show ?case using ap_lt_asym by (auto simp: yz)
qed (auto simp: number_keys_def)

interpretation vector_keys: key_order key_less "number_keys n"
  by unfold_locales (use key_less_irrefl key_less_trans key_less_incomparable in blast)+

section \<open>Runs of one list\<close>

datatype 'e queue_op = Insert EvaluationContext 'e | Remove

text \<open>What the removals of a run return; the run fails when something is removed from an empty list.\<close>

primrec run_list :: "'e queue_op list \<Rightarrow> 'e OpenList \<Rightarrow> 'e list result" where
  "run_list [] q = Inr []"
| "run_list (op # ops) q = (case op of
     Insert cx e \<Rightarrow> run_list ops (ol_insert cx e q)
   | Remove \<Rightarrow> bind_result (remove_min q True) (\<lambda>(e, key, q'). bind_result (run_list ops q') (\<lambda>es. Inr (e # es))))"

primrec run_reference :: "('k \<Rightarrow> 'k \<Rightarrow> bool) \<Rightarrow> (EvaluationContext \<Rightarrow> 'k) \<Rightarrow> 'e queue_op list \<Rightarrow> ('k \<times> 'e) list \<Rightarrow> 'e list result" where
  "run_reference lt key [] xs = Inr []"
| "run_reference lt key (op # ops) xs = (case op of
     Insert cx e \<Rightarrow> run_reference lt key ops (stable_insert lt (key cx, e) xs)
   | Remove \<Rightarrow> (case xs of [] \<Rightarrow> Inl ''Assertion failed: size > 0''
       | x # xs' \<Rightarrow> bind_result (run_reference lt key ops xs') (\<lambda>es. Inr (snd x # es))))"

definition all_inserted :: "(EvaluationContext \<Rightarrow> bool) \<Rightarrow> 'e queue_op list \<Rightarrow> bool" where
  "all_inserted P ops \<longleftrightarrow> (\<forall>cx e. Insert cx e \<in> set ops \<longrightarrow> P cx)"

lemma all_inserted_simps [simp]:
  "all_inserted P (Insert cx e # ops) \<longleftrightarrow> P cx \<and> all_inserted P ops"
  "all_inserted P (Remove # ops) \<longleftrightarrow> all_inserted P ops"
  by (auto simp: all_inserted_def)

definition standard_key :: "ScalarEvaluator \<Rightarrow> EvaluationContext \<Rightarrow> int" where
  "standard_key e cx = ap_to_int32 (get_heuristic_value cx e)"

definition tie_key :: "ScalarEvaluator list \<Rightarrow> EvaluationContext \<Rightarrow> ap_float list" where
  "tie_key es cx = map (get_heuristic_value cx) es"

lemma dead_end_updates [simp]:
  "standard_is_dead_end cx (q\<lparr>std_buckets := bs, std_size := n\<rparr>) = standard_is_dead_end cx q"
  "tie_is_reliable_dead_end cx (q'\<lparr>tie_buckets := bs', tie_size := n\<rparr>) = tie_is_reliable_dead_end cx q'"
  "tie_is_dead_end cx (q'\<lparr>tie_buckets := bs', tie_size := n\<rparr>) = tie_is_dead_end cx q'"
  by (auto simp: standard_is_dead_end_def tie_is_dead_end_def tie_is_reliable_dead_end_def)

lemma run_standard:
  assumes "represents (<) UNIV (std_buckets q) xs"
    and "all_inserted (\<lambda>cx. (std_only_preferred q \<longrightarrow> ec_preferred cx) \<and> \<not> ol_is_dead_end cx (Standard q)) ops"
  shows "run_list ops (Standard q) = run_reference (<) (standard_key (std_evaluator q)) ops xs"
  using assms
proof (induction ops arbitrary: q xs)
  case (Cons op ops)
  show ?case
  proof (cases op)
    case (Insert cx e)
    have "represents (<) UNIV (push_bucket (<) (standard_key (std_evaluator q) cx) e (std_buckets q))
        (stable_insert (<) (standard_key (std_evaluator q) cx, e) xs)"
      using Cons.prems(1) by (rule int_keys.push) simp
    then show ?thesis using Cons.prems(2) Cons.IH [of "standard_do_insertion cx e q"]
      by (auto simp: Insert standard_do_insertion_def standard_key_def)
  next
    case Remove
    show ?thesis
    proof (cases xs)
      case Nil
      then have "std_buckets q = []" using Cons.prems(1) int_keys.pop_none by blast
      then show ?thesis by (simp add: Remove Nil)
    next
      case (Cons x xs')
      obtain k e where x: "x = (k, e)" by (cases x)
      obtain k' bs' where pop: "pop_bucket (std_buckets q) = Some (k', e, bs')" "represents (<) UNIV bs' xs'"
        using int_keys.pop [OF Cons.prems(1) [unfolded local.Cons x]] by auto
      have "run_list ops (Standard (q\<lparr>std_buckets := bs', std_size := std_size q - 1\<rparr>)) =
          run_reference (<) (standard_key (std_evaluator q)) ops xs'"
        using Cons.IH [of "q\<lparr>std_buckets := bs', std_size := std_size q - 1\<rparr>" xs'] pop Cons.prems(2)
        by (simp add: Remove)
      then show ?thesis by (simp add: Remove Cons x pop(1))
    qed
  qed
qed simp

lemma run_tie:
  assumes "represents key_less (number_keys (length (tie_evaluators q))) (tie_buckets q) xs"
    and "all_inserted (\<lambda>cx. (tie_only_preferred q \<longrightarrow> ec_preferred cx) \<and> \<not> ol_is_dead_end cx (TieBreaking q) \<and>
      (\<forall>e \<in> set (tie_evaluators q). decode (get_heuristic_value cx e) \<noteq> NaN)) ops"
  shows "run_list ops (TieBreaking q) = run_reference key_less (tie_key (tie_evaluators q)) ops xs"
  using assms
proof (induction ops arbitrary: q xs)
  case (Cons op ops)
  let ?K = "number_keys (length (tie_evaluators q))"
  show ?case
  proof (cases op)
    case (Insert cx e)
    have "tie_key (tie_evaluators q) cx \<in> ?K" using Cons.prems(2) by (auto simp: Insert tie_key_def number_keys_def)
    then have "represents key_less ?K (push_bucket key_less (tie_key (tie_evaluators q) cx) e (tie_buckets q))
        (stable_insert key_less (tie_key (tie_evaluators q) cx, e) xs)"
      using Cons.prems(1) by (intro vector_keys.push)
    then show ?thesis using Cons.prems(2) Cons.IH [of "tie_do_insertion cx e q"]
      by (auto simp: Insert tie_do_insertion_def tie_key_def)
  next
    case Remove
    show ?thesis
    proof (cases xs)
      case Nil
      then have "tie_buckets q = []" using Cons.prems(1) vector_keys.pop_none by blast
      then show ?thesis by (simp add: Remove Nil)
    next
      case (Cons x xs')
      obtain k e where x: "x = (k, e)" by (cases x)
      obtain k' bs' where pop: "pop_bucket (tie_buckets q) = Some (k', e, bs')" "represents key_less ?K bs' xs'"
        using vector_keys.pop [OF Cons.prems(1) [unfolded local.Cons x]] by auto
      have "run_list ops (TieBreaking (q\<lparr>tie_buckets := bs', tie_size := tie_size q - 1\<rparr>)) =
          run_reference key_less (tie_key (tie_evaluators q)) ops xs'"
        using Cons.IH [of "q\<lparr>tie_buckets := bs', tie_size := tie_size q - 1\<rparr>" xs'] pop Cons.prems(2)
        by (simp add: Remove)
      then show ?thesis by (simp add: Remove Cons x pop(1))
    qed
  qed
qed simp

section \<open>What the search relies on\<close>

text \<open>The entries of a list; an alternation holds an entry once in every sublist that took it.\<close>

primrec ol_entries :: "'e OpenList \<Rightarrow> 'e multiset" where
  "ol_entries (Standard q) = mset (concat (map snd (std_buckets q)))"
| "ol_entries (TieBreaking q) = mset (concat (map snd (tie_buckets q)))"
| "ol_entries (Alternation qs prios boost) = sum_list (map ol_entries qs)"

definition nonempty_buckets :: "('k, 'e) buckets \<Rightarrow> bool" where
  "nonempty_buckets bs \<longleftrightarrow> (\<forall>b \<in> set bs. snd b \<noteq> [])"

text \<open>The sizes are right, no bucket is empty, and no list is restricted to preferred entries.\<close>

primrec ol_ok :: "'e OpenList \<Rightarrow> bool" where
  "ol_ok (Standard q) \<longleftrightarrow> std_size q = length (concat (map snd (std_buckets q))) \<and> nonempty_buckets (std_buckets q) \<and>
     \<not> std_only_preferred q"
| "ol_ok (TieBreaking q) \<longleftrightarrow> tie_size q = length (concat (map snd (tie_buckets q))) \<and> nonempty_buckets (tie_buckets q) \<and>
     \<not> tie_only_preferred q"
| "ol_ok (Alternation qs prios boost) \<longleftrightarrow> list_all id (map ol_ok qs) \<and> length prios = length qs"

text \<open>
  What a list of open states owes to the search: what is inserted and is no dead end is there, a
  removal takes one entry that was there, and the list is empty when no entry is left.
\<close>

locale open_list =
  fixes ok :: "'q \<Rightarrow> bool" and entries :: "'q \<Rightarrow> 'e multiset" and dead :: "'c \<Rightarrow> 'q \<Rightarrow> bool"
    and insert_entry :: "'c \<Rightarrow> 'e \<Rightarrow> 'q \<Rightarrow> 'q" and remove_entry :: "'q \<Rightarrow> bool \<Rightarrow> ('e \<times> ap_float list \<times> 'q) result"
    and is_empty :: "'q \<Rightarrow> bool" and boost :: "'q \<Rightarrow> 'q"
  assumes insert_ok: "ok q \<Longrightarrow> ok (insert_entry cx e q)"
    and insert_entries: "ok q \<Longrightarrow> \<exists>n. entries (insert_entry cx e q) = entries q + replicate_mset n e \<and> (0 < n \<longleftrightarrow> \<not> dead cx q)"
    and insert_dead: "dead cx' (insert_entry cx e q) = dead cx' q"
    and remove_entries: "ok q \<Longrightarrow> remove_entry q key = Inr (e, k, q') \<Longrightarrow> ok q' \<and> entries q = add_mset e (entries q')"
    and remove_dead: "remove_entry q key = Inr (e, k, q') \<Longrightarrow> dead cx q' = dead cx q"
    and empty_entries: "ok q \<Longrightarrow> is_empty q \<longleftrightarrow> entries q = {#}"
    and boost_entries: "ok q \<Longrightarrow> ok (boost q) \<and> entries (boost q) = entries q"
    and boost_dead: "dead cx (boost q) = dead cx q"
begin

lemma inserted: "ok q \<Longrightarrow> \<not> dead cx q \<Longrightarrow> e \<in># entries (insert_entry cx e q)"
  using insert_entries [of q cx e] by auto

lemma kept: "ok q \<Longrightarrow> x \<in># entries q \<Longrightarrow> x \<in># entries (insert_entry cx e q)"
  using insert_entries [of q cx e] by auto

lemma nothing_else: "ok q \<Longrightarrow> x \<in># entries (insert_entry cx e q) \<Longrightarrow> x = e \<or> x \<in># entries q"
  using insert_entries [of q cx e] by auto

lemma removed: "ok q \<Longrightarrow> remove_entry q key = Inr (e, k, q') \<Longrightarrow> x \<in># entries q \<Longrightarrow> x = e \<or> x \<in># entries q'"
  using remove_entries [of q key e k q'] by auto

lemma remaining: "ok q \<Longrightarrow> remove_entry q key = Inr (e, k, q') \<Longrightarrow> x \<in># entries q' \<Longrightarrow> x \<in># entries q"
  using remove_entries [of q key e k q'] by auto

lemma remove_ok: "ok q \<Longrightarrow> remove_entry q key = Inr (e, k, q') \<Longrightarrow> ok q' \<and> e \<in># entries q \<and> size (entries q) = Suc (size (entries q'))"
  using remove_entries [of q key e k q'] by auto

end

subsection \<open>The classes keep the contract\<close>

lemma mset_push_bucket: "mset (concat (map snd (push_bucket lt k e bs))) = add_mset e (mset (concat (map snd bs)))"
  by (induction lt k e bs rule: push_bucket.induct) auto

lemma push_bucket_nonempty [simp]: "nonempty_buckets bs \<Longrightarrow> nonempty_buckets (push_bucket lt k e bs)"
  unfolding nonempty_buckets_def by (induction lt k e bs rule: push_bucket.induct) auto

lemma length_push_bucket: "length (concat (map snd (push_bucket lt k e bs))) = Suc (length (concat (map snd bs)))"
  using mset_push_bucket [of lt k e bs] by (metis size_add_mset size_mset)

lemma pop_bucket_Some:
  "pop_bucket bs = Some (k, e, bs') \<Longrightarrow> mset (concat (map snd bs)) = add_mset e (mset (concat (map snd bs'))) \<and>
    length (concat (map snd bs)) = Suc (length (concat (map snd bs'))) \<and> (nonempty_buckets bs \<longrightarrow> nonempty_buckets bs')"
  unfolding nonempty_buckets_def by (cases bs rule: pop_bucket.cases) (auto split: if_splits)

lemma insert_preferred [simp]: "only_contains_preferred_entries (ol_insert cx e q) = only_contains_preferred_entries q"
  by (cases q) (simp_all add: standard_do_insertion_def tie_do_insertion_def)

lemma is_reliable_dead_end_insert [simp]: "ol_is_reliable_dead_end cx' (ol_insert cx e q) = ol_is_reliable_dead_end cx' q"
proof (induction q)
  case (Alternation qs prios boost)
  then show ?case by (auto simp: list_ex_iff)
qed (simp_all add: standard_do_insertion_def tie_do_insertion_def standard_is_reliable_dead_end_def)

lemma is_dead_end_insert [simp]: "ol_is_dead_end cx' (ol_insert cx e q) = ol_is_dead_end cx' q"
proof (induction q)
  case (Alternation qs prios boost)
  then show ?case by (auto simp: list_all_iff list_ex_iff)
qed (simp_all add: standard_do_insertion_def tie_do_insertion_def)

lemma ol_insert_ok: "ol_ok q \<Longrightarrow> ol_ok (ol_insert cx e q)"
proof (induction q)
  case (Alternation qs prios boost)
  then show ?case by (auto simp: list_all_iff)
qed (simp_all add: standard_do_insertion_def tie_do_insertion_def length_push_bucket)

lemma sum_list_replicate_mset:
  "(\<And>q. q \<in> set qs \<Longrightarrow> f q = g q + replicate_mset (n q) e) \<Longrightarrow>
    sum_list (map f qs) = sum_list (map g qs) + replicate_mset (sum_list (map n qs)) e"
proof (induction qs)
  case (Cons q qs)
  then have "sum_list (map f qs) = sum_list (map g qs) + replicate_mset (sum_list (map n qs)) e" "f q = g q + replicate_mset (n q) e"
    by simp_all
  then show ?case by (simp add: multiset_eq_iff)
qed simp

lemma ol_insert_entries:
  "ol_ok q \<Longrightarrow> \<exists>n. ol_entries (ol_insert cx e q) = ol_entries q + replicate_mset n e \<and> (0 < n \<longleftrightarrow> \<not> ol_is_dead_end cx q)"
proof (induction q)
  case (Standard q)
  then show ?case
    by (cases "standard_is_dead_end cx q") (auto simp: standard_do_insertion_def mset_push_bucket intro: exI [of _ 0] exI [of _ 1])
next
  case (TieBreaking q)
  then show ?case
    by (cases "tie_is_dead_end cx q") (auto simp: tie_do_insertion_def mset_push_bucket intro: exI [of _ 0] exI [of _ 1])
next
  case (Alternation qs prios boost)
  show ?case
  proof (cases "ol_is_dead_end cx (Alternation qs prios boost)")
    case True
    then show ?thesis by (intro exI [of _ 0]) (simp split: if_splits)
  next
    case False
    have "\<forall>q \<in> set qs. \<exists>n. ol_entries (ol_insert cx e q) = ol_entries q + replicate_mset n e \<and> (0 < n \<longleftrightarrow> \<not> ol_is_dead_end cx q)"
      using Alternation by (auto simp: list_all_iff)
    then obtain n where n: "\<And>q. q \<in> set qs \<Longrightarrow> ol_entries (ol_insert cx e q) = ol_entries q + replicate_mset (n q) e \<and>
        (0 < n q \<longleftrightarrow> \<not> ol_is_dead_end cx q)" by metis
    obtain q where q: "q \<in> set qs" "\<not> ol_is_dead_end cx q" using False by (auto simp: list_all_iff split: if_splits)
    then have "0 < n q" "n q \<le> sum_list (map n qs)" using n by (auto intro: member_le_sum_list)
    then have "0 < sum_list (map n qs)" by (rule less_le_trans)
    moreover have "ol_entries (ol_insert cx e (Alternation qs prios boost)) =
        ol_entries (Alternation qs prios boost) + replicate_mset (sum_list (map n qs)) e"
      using False sum_list_replicate_mset [of qs "\<lambda>q. ol_entries (ol_insert cx e q)" ol_entries n e] n
      by (auto simp: comp_def)
    ultimately show ?thesis using False by blast
  qed
qed

lemma best_list_Some:
  assumes "best_list es ps = Some i"
  shows "i < length es \<and> \<not> es ! i"
proof -
  let ?f = "\<lambda>i best. if \<not> es ! i \<and> (case best of None \<Rightarrow> True | Some b \<Rightarrow> ps ! i < ps ! b) then Some i else best"
  have "fold ?f xs b = Some i \<Longrightarrow> b = Some i \<or> i \<in> set xs \<and> \<not> es ! i" for xs b
  proof (induction xs arbitrary: b)
    case (Cons x xs)
    then have "?f x b = Some i \<or> i \<in> set xs \<and> \<not> es ! i" by simp
    then show ?case by (auto split: if_splits)
  qed simp
  from this [of "[0..<length es]" None] show ?thesis using assms by (auto simp: best_list_def)
qed

lemma ol_remove_entries:
  "ol_ok q \<Longrightarrow> remove_min q key = Inr (e, k, q') \<Longrightarrow> ol_ok q' \<and> ol_entries q = add_mset e (ol_entries q')"
proof (induction q arbitrary: key e k q')
  case (Standard q)
  then show ?case by (auto split: option.splits dest!: pop_bucket_Some)
next
  case (TieBreaking q)
  then show ?case by (auto split: option.splits dest!: pop_bucket_Some)
next
  case (Alternation qs prios boost)
  obtain i k2 q2 where best: "best_list (map ol_empty qs) prios = Some i" and rem: "remove_min (qs ! i) False = Inr (e, k2, q2)"
    and q': "q' = Alternation (qs[i := q2]) (prios[i := prios ! i + 1]) boost"
    using Alternation.prems(2) best_list_Some [of "map ol_empty qs" prios]
    by (auto simp: bind_result_Inr_iff split: if_splits option.splits)
  have i: "i < length qs" using best_list_Some [OF best] by simp
  then have ok: "ol_ok q2 \<and> ol_entries (qs ! i) = add_mset e (ol_entries q2)"
    using Alternation.IH [OF nth_mem [OF i] _ rem] Alternation.prems(1) by (auto simp: list_all_iff)
  have "sum_list (map ol_entries qs) = add_mset e (sum_list ((map ol_entries qs)[i := ol_entries q2]))"
    using i ok by (subst id_take_nth_drop [of i "map ol_entries qs"]) (auto simp: upd_conv_take_nth_drop)
  moreover have "ol_ok q'" using Alternation.prems(1) ok i
    by (auto simp: q' list_all_iff dest!: set_update_subset_insert [THEN subsetD])
  ultimately show ?case by (simp add: q' map_update)
qed

lemma reliable_preferred_removed:
  "remove_min q key = Inr (e, k, q') \<Longrightarrow> ol_is_reliable_dead_end cx q' = ol_is_reliable_dead_end cx q \<and> ol_is_dead_end cx q' = ol_is_dead_end cx q"
proof (induction q arbitrary: key e k q')
  case (Standard q)
  then show ?case by (auto simp: standard_is_reliable_dead_end_def split: option.splits)
next
  case (TieBreaking q)
  then show ?case by (auto split: option.splits)
next
  case (Alternation qs prios boost)
  obtain i k2 q2 where best: "best_list (map ol_empty qs) prios = Some i" and rem: "remove_min (qs ! i) False = Inr (e, k2, q2)"
    and q': "q' = Alternation (qs[i := q2]) (prios[i := prios ! i + 1]) boost"
    using Alternation.prems best_list_Some [of "map ol_empty qs" prios]
    by (auto simp: bind_result_Inr_iff split: if_splits option.splits)
  have i: "i < length qs" using best_list_Some [OF best] by simp
  then have same: "ol_is_reliable_dead_end cx q2 = ol_is_reliable_dead_end cx (qs ! i)" "ol_is_dead_end cx q2 = ol_is_dead_end cx (qs ! i)"
    using Alternation.IH [OF nth_mem [OF i] rem] by auto
  then have "map (ol_is_reliable_dead_end cx) (qs[i := q2]) = map (ol_is_reliable_dead_end cx) qs"
    "map (ol_is_dead_end cx) (qs[i := q2]) = map (ol_is_dead_end cx) qs"
    using i by (simp_all add: map_update list_update_same_conv)
  then show ?case unfolding q' by simp
qed

lemma sum_list_empty: "sum_list xs = ({#} :: 'a multiset) \<longleftrightarrow> (\<forall>x \<in> set xs. x = {#})"
  by (induction xs) auto

lemma ol_empty_entries: "ol_ok q \<Longrightarrow> ol_empty q \<longleftrightarrow> ol_entries q = {#}"
proof (induction q)
  case (Alternation qs prios boost)
  then show ?case by (auto simp: list_all_iff sum_list_empty)
qed (auto simp: nonempty_buckets_def)

lemma boost_preferred_ok: "ol_ok q \<Longrightarrow> ol_ok (boost_preferred q) \<and> ol_entries (boost_preferred q) = ol_entries q"
  by (cases q) simp_all

lemma boost_preferred_dead: "ol_is_dead_end cx (boost_preferred q) = ol_is_dead_end cx q"
  by (cases q) simp_all

interpretation state_list: open_list ol_ok ol_entries ol_is_dead_end ol_insert remove_min ol_empty boost_preferred
proof
  show "\<exists>n. ol_entries (ol_insert cx e q) = ol_entries q + replicate_mset n e \<and> (0 < n \<longleftrightarrow> \<not> ol_is_dead_end cx q)" if "ol_ok q"
    for q :: "'a OpenList" and cx e by (rule ol_insert_entries [OF that])
qed (simp_all add: ol_insert_ok ol_remove_entries ol_empty_entries reliable_preferred_removed boost_preferred_ok boost_preferred_dead)

lemma best_list_exists: "i < length es \<Longrightarrow> \<not> es ! i \<Longrightarrow> best_list es ps \<noteq> None"
proof -
  let ?f = "\<lambda>i best. if \<not> es ! i \<and> (case best of None \<Rightarrow> True | Some b \<Rightarrow> ps ! i < ps ! b) then Some i else best"
  have some: "fold ?f xs (Some b) \<noteq> None" for xs b
    by (induction xs arbitrary: b) auto
  have "i \<in> set xs \<Longrightarrow> \<not> es ! i \<Longrightarrow> fold ?f xs b \<noteq> None" for xs b
  proof (induction xs arbitrary: b)
    case (Cons x xs)
    have "?f x b \<noteq> None" if "i = x" using that Cons.prems(2) by (auto split: option.splits)
    then show ?case using some Cons by (cases "?f x b") auto
  qed simp
  then show "i < length es \<Longrightarrow> \<not> es ! i \<Longrightarrow> best_list es ps \<noteq> None" by (simp add: best_list_def)
qed

lemma remove_min_returns: "ol_ok q \<Longrightarrow> \<not> ol_empty q \<Longrightarrow> \<exists>e k q'. remove_min q False = Inr (e, k, q')"
proof (induction q)
  case (Standard q)
  then obtain k b bs where "std_buckets q = (k, b) # bs" by (cases "std_buckets q") auto
  moreover from this obtain e b' where "b = e # b'" using Standard.prems(1) by (cases b) (auto simp: nonempty_buckets_def)
  ultimately show ?case by simp
next
  case (TieBreaking q)
  then obtain k b bs where "tie_buckets q = (k, b) # bs" by (cases "tie_buckets q") auto
  moreover from this obtain e b' where "b = e # b'" using TieBreaking.prems(1) by (cases b) (auto simp: nonempty_buckets_def)
  ultimately show ?case by simp
next
  case (Alternation qs prios boost)
  obtain j where j: "j < length qs" "\<not> ol_empty (qs ! j)"
    using Alternation.prems(2) by (auto simp: list_all_iff in_set_conv_nth)
  obtain i where i: "best_list (map ol_empty qs) prios = Some i"
    using best_list_exists [of j "map ol_empty qs" prios] j by auto
  have "i < length qs" "\<not> ol_empty (qs ! i)" using best_list_Some [OF i] by auto
  moreover from this have "ol_ok (qs ! i)" using Alternation.prems(1) by (simp add: list_all_iff)
  ultimately obtain e k q' where "remove_min (qs ! i) False = Inr (e, k, q')" using Alternation.IH [of "qs ! i"] by auto
  then show ?case using i \<open>i < length qs\<close> by simp
qed

section \<open>Properties\<close>

text \<open>
  C38. The open lists are stable priority queues: whatever is inserted and removed in whatever
  order, a list with one evaluator returns what a list kept sorted by the value cut to an integer
  returns, and a list that breaks ties returns what a list kept sorted by the vector of values
  returns; among equal keys the entry that came first leaves first.
\<close>

theorem open_lists_are_stable_queues:
  assumes "all_inserted (\<lambda>cx. \<not> ol_is_dead_end cx (Standard q)) ops" "std_buckets q = []" "\<not> std_only_preferred q"
    and "all_inserted (\<lambda>cx. \<not> ol_is_dead_end cx (TieBreaking r) \<and>
      (\<forall>e \<in> set (tie_evaluators r). decode (get_heuristic_value cx e) \<noteq> NaN)) ops" "tie_buckets r = []" "\<not> tie_only_preferred r"
  shows "run_list ops (Standard q) = run_reference (<) (standard_key (std_evaluator q)) ops [] \<and>
    run_list ops (TieBreaking r) = run_reference key_less (tie_key (tie_evaluators r)) ops []"
  using run_standard [of q "[]" ops] run_tie [of r "[]" ops] assms by (simp add: represents_def buckets_ok_def)

definition demo_context :: "int \<Rightarrow> EvaluationContext" where
  "demo_context h = \<lparr>ec_g_value = ap_zero False, ec_preferred = False, ec_result = \<lambda>e. ap_of_int h\<rparr>"

definition demo_evaluator :: ScalarEvaluator where
  "demo_evaluator = \<lparr>evaluator_id = 0, dead_ends_are_reliable = True\<rparr>"

definition demo_standard :: "nat StandardScalarOpenList" where
  "demo_standard = \<lparr>std_buckets = [], std_size = 0, std_evaluator = demo_evaluator, std_only_preferred = False\<rparr>"

definition demo_tie :: "nat TieBreakingOpenList" where
  "demo_tie = \<lparr>tie_buckets = [], tie_size = 0, tie_evaluators = [demo_evaluator], tie_allow_unsafe_pruning = True, tie_only_preferred = False\<rparr>"

lemma demo_context_finite:
  assumes "\<bar>h\<bar> < 2 ^ 31"
  shows "decode (get_heuristic_value (demo_context h) e) = Fin (of_int h)" "\<not> is_heuristic_infinite (demo_context h) e"
proof -
  show "decode (get_heuristic_value (demo_context h) e) = Fin (of_int h)"
    using decode_ap_of_int [of h] assms by (simp add: demo_context_def get_heuristic_value_def)
  then show "\<not> is_heuristic_infinite (demo_context h) e"
    by (auto simp: is_heuristic_infinite_def demo_context_def get_heuristic_value_def ap_eq_def)
qed

theorem open_lists_are_stable_queues_witness:
  "run_list [Insert (demo_context 2) 5, Insert (demo_context 1) 6, Insert (demo_context 1) 7, Remove, Remove] (Standard demo_standard) = Inr [6, 7] \<and>
   run_list [Insert (demo_context 2) 5, Insert (demo_context 1) 6, Insert (demo_context 1) 7, Remove, Remove] (TieBreaking demo_tie) = Inr [6, 7]"
proof -
  have dec: "decode (get_heuristic_value (demo_context 1) e) = Fin 1" "decode (get_heuristic_value (demo_context 2) e) = Fin 2"
    "\<not> is_heuristic_infinite (demo_context 1) e" "\<not> is_heuristic_infinite (demo_context 2) e" for e
    using demo_context_finite [of 1] demo_context_finite [of 2] by simp_all
  have lt: "ap_lt (get_heuristic_value (demo_context a) e) (get_heuristic_value (demo_context b) e) = (a < b)"
    if "{a, b} \<subseteq> {1, 2}" for a b e using that dec by (auto simp: ap_lt_def)
  have key: "ap_to_int32 (get_heuristic_value (demo_context 1) e) = 1" "ap_to_int32 (get_heuristic_value (demo_context 2) e) = 2" for e
    using dec by (simp_all add: ap_to_int32_def trunc_rat_def)
  show ?thesis
    using open_lists_are_stable_queues [of demo_standard "[Insert (demo_context 2) 5, Insert (demo_context 1) 6, Insert (demo_context 1) 7, Remove, Remove]" demo_tie]
    by (simp add: demo_standard_def demo_tie_def standard_is_dead_end_def tie_is_dead_end_def tie_is_reliable_dead_end_def dec
        standard_key_def tie_key_def key lt all_inserted_def)
qed

text \<open>
  C39. An open list loses nothing: in every list without a restriction to preferred entries,
  alternations of alternations included, an entry whose state is no dead end for the list is there
  after it was inserted, insertion removes nothing, and as long as the list is not empty a removal
  returns one of its entries and leaves all the others.
\<close>

theorem open_list_loses_nothing:
  assumes "ol_ok q"
  shows "ol_ok (ol_insert cx e q) \<and> ol_entries q \<subseteq># ol_entries (ol_insert cx e q) \<and>
    (\<not> ol_is_dead_end cx q \<longrightarrow> e \<in># ol_entries (ol_insert cx e q)) \<and>
    (\<not> ol_empty q \<longrightarrow> (\<exists>e' k q'. remove_min q False = Inr (e', k, q') \<and> ol_ok q' \<and> ol_entries q = add_mset e' (ol_entries q')))"
  using state_list.insert_entries [OF assms, of cx e] state_list.insert_ok [OF assms] state_list.inserted [OF assms]
    state_list.remove_entries [OF assms] remove_min_returns [OF assms]
  by (metis mset_subset_eq_add_left)

theorem open_list_loses_nothing_witness:
  "4 \<in># ol_entries (ol_insert (demo_context 3) 4 (Alternation [TieBreaking demo_tie, Standard demo_standard] [0, 0] 0))"
proof -
  let ?q = "Alternation [TieBreaking demo_tie, Standard demo_standard] [0, 0] 0"
  have "ol_ok ?q" by (simp add: demo_tie_def demo_standard_def nonempty_buckets_def)
  moreover have "\<not> ol_is_dead_end (demo_context 3) ?q"
    using demo_context_finite [of 3]
    by (simp add: demo_tie_def demo_standard_def tie_is_dead_end_def tie_is_reliable_dead_end_def standard_is_dead_end_def standard_is_reliable_dead_end_def)
  ultimately show ?thesis using open_list_loses_nothing [of ?q "demo_context 3" 4] by blast
qed

end
