(* ===== verification/Eager_Search.thy ===== *)
theory Eager_Search
  imports Search_Space Successor_Generator Action_Chain Open_Lists Trigger_Monitor
begin

text \<open>
  The search loop of \<open>EagerSearch\<close> (\<open>search_engines/eager_search.cc\<close>) with the methods it
  inherits from \<open>SearchEngine\<close>, \<open>SearchStatistics\<close> and \<open>SearchProgress\<close>. One step takes the best
  state of the open list, closes it and opens its successors; between two states the responses of
  the LLM controller are polled and their action chains injected into the search space. A state
  with a pending request that is taken from the open list is suspended until the response is in.

  The heuristics are parameters. So is what the outside world does: whenever the search polls, it
  consumes one \<^emph>\<open>tick\<close>, the clock and environment it reads and the steps the workers of the bridge
  made since the last poll. The search stops as undefined when the ticks are used up.
\<close>

section \<open>Statistics and progress\<close>

record SearchStatistics =
  expanded_states :: nat
  evaluated_states :: nat
  generated_states :: nat
  reopened_states :: nat
  dead_end_states :: nat
  lastjump_f_value :: int
  lastjump_expanded_states :: nat
  lastjump_reopened_states :: nat
  lastjump_evaluated_states :: nat
  lastjump_generated_states :: nat

definition SearchStatistics_init :: SearchStatistics where
  "SearchStatistics_init = \<lparr>expanded_states = 0, evaluated_states = 0, generated_states = 0, reopened_states = 0,
     dead_end_states = 0, lastjump_f_value = - 1, lastjump_expanded_states = 0, lastjump_reopened_states = 0,
     lastjump_evaluated_states = 0, lastjump_generated_states = 0\<rparr>"

text \<open>The parameter is an \<open>int\<close>: the f value is cut.\<close>

definition report_f_value_progress :: "ap_float \<Rightarrow> SearchStatistics \<Rightarrow> SearchStatistics" where
  "report_f_value_progress f s =
    (if ap_to_int32 f > lastjump_f_value s
     then s\<lparr>lastjump_f_value := ap_to_int32 f, lastjump_expanded_states := expanded_states s,
            lastjump_reopened_states := reopened_states s, lastjump_evaluated_states := evaluated_states s,
            lastjump_generated_states := generated_states s\<rparr>
     else s)"

type_synonym search_progress = "nat \<rightharpoonup> ap_float"

definition process_heuristic_value :: "nat \<Rightarrow> ap_float \<Rightarrow> search_progress \<Rightarrow> bool \<times> search_progress" where
  "process_heuristic_value heuristic h best =
    (case best heuristic of
       None \<Rightarrow> (True, best(heuristic \<mapsto> h))
     | Some best_h \<Rightarrow> if ap_lt h best_h then (True, best(heuristic \<mapsto> h)) else (False, best))"

text \<open>The heuristics whose values the cache of the context holds are given as a list.\<close>

definition check_progress :: "ScalarEvaluator list \<Rightarrow> EvaluationContext \<Rightarrow> search_progress \<Rightarrow> bool \<times> search_progress" where
  "check_progress heuristics cx best =
    fold (\<lambda>heur (progress, best). case process_heuristic_value (evaluator_id heur) (get_heuristic_value cx heur) best of
      (new_best, best') \<Rightarrow> (progress \<or> new_best, best')) heuristics (False, best)"

section \<open>The engine\<close>

text \<open>The heuristics: a state of type \<open>'h\<close> that \<open>reach_state\<close> changes, and what they compute from it.\<close>

record 'h estimators =
  es_reach_state :: "world \<Rightarrow> nat \<Rightarrow> nat \<Rightarrow> nat \<Rightarrow> 'h \<Rightarrow> 'h"
  es_result :: "'h \<Rightarrow> world \<Rightarrow> nat \<Rightarrow> ap_float \<Rightarrow> nat \<Rightarrow> ap_float"
  es_preferred_operators :: "'h \<Rightarrow> world \<Rightarrow> nat \<Rightarrow> nat \<Rightarrow> nat list"

text \<open>
  The members that do not change. \<open>sc_heuristics\<close> is the set collected by \<open>initialize\<close>, of which
  \<open>sc_cached_heuristics\<close> are those the open list evaluates; \<open>sc_prune\<close> is the pruning method.
\<close>

record search_config =
  sc_reopen_closed_nodes :: bool
  sc_use_multi_path_dependence :: bool
  sc_bound :: int
  sc_cost_type :: operator_cost
  sc_llm_h_open_list_key_index :: int
  sc_llm_h_evaluator :: ScalarEvaluator
  sc_f_evaluator :: "ScalarEvaluator option"
  sc_preferred_operator_heuristics :: "ScalarEvaluator list"
  sc_heuristics :: "ScalarEvaluator list"
  sc_cached_heuristics :: "ScalarEvaluator list"
  sc_prune :: "world \<Rightarrow> nat \<Rightarrow> nat list \<Rightarrow> nat list"

record 'h search_state =
  ss_world :: world
  ss_nodes :: "SearchNodeInfo list"
  ss_open_list :: "nat OpenList"
  ss_heuristics :: 'h
  ss_monitor :: monitor
  ss_statistics :: SearchStatistics
  ss_progress :: search_progress
  ss_plan :: "nat list option"

abbreviation node_of :: "'h search_state \<Rightarrow> nat \<Rightarrow> SearchNodeInfo" where
  "node_of st s \<equiv> get_node (ss_nodes st) s"

text \<open>Changing the node of a state, the monitor, the statistics.\<close>

definition put_node :: "nat \<Rightarrow> SearchNodeInfo \<Rightarrow> 'h search_state \<Rightarrow> 'h search_state" where
  "put_node s n st = st\<lparr>ss_nodes := set_node (registry_size (ss_world st)) s n (ss_nodes st)\<rparr>"

definition with_monitor :: "(monitor \<Rightarrow> monitor) \<Rightarrow> 'h search_state \<Rightarrow> 'h search_state" where
  "with_monitor f st = st\<lparr>ss_monitor := f (ss_monitor st)\<rparr>"

definition count :: "(SearchStatistics \<Rightarrow> SearchStatistics) \<Rightarrow> 'h search_state \<Rightarrow> 'h search_state" where
  "count f st = st\<lparr>ss_statistics := f (ss_statistics st)\<rparr>"

definition inc_expanded :: "SearchStatistics \<Rightarrow> SearchStatistics" where
  "inc_expanded s = s\<lparr>expanded_states := Suc (expanded_states s)\<rparr>"
definition inc_evaluated_states :: "SearchStatistics \<Rightarrow> SearchStatistics" where
  "inc_evaluated_states s = s\<lparr>evaluated_states := Suc (evaluated_states s)\<rparr>"
definition inc_generated :: "SearchStatistics \<Rightarrow> SearchStatistics" where
  "inc_generated s = s\<lparr>generated_states := Suc (generated_states s)\<rparr>"
definition inc_reopened :: "SearchStatistics \<Rightarrow> SearchStatistics" where
  "inc_reopened s = s\<lparr>reopened_states := Suc (reopened_states s)\<rparr>"
definition inc_dead_ends :: "SearchStatistics \<Rightarrow> SearchStatistics" where
  "inc_dead_ends s = s\<lparr>dead_end_states := Suc (dead_end_states s)\<rparr>"

definition evaluate_state :: "'h estimators \<Rightarrow> 'h search_state \<Rightarrow> nat \<Rightarrow> ap_float \<Rightarrow> bool \<Rightarrow> EvaluationContext" where
  "evaluate_state est st s g preferred =
    \<lparr>ec_g_value = g, ec_preferred = preferred, ec_result = es_result est (ss_heuristics st) (ss_world st) s g\<rparr>"

definition insert_open :: "EvaluationContext \<Rightarrow> nat \<Rightarrow> 'h search_state \<Rightarrow> 'h search_state" where
  "insert_open cx s st = st\<lparr>ss_open_list := ol_insert cx s (ss_open_list st)\<rparr>"

definition get_adjusted_cost :: "search_config \<Rightarrow> 'h search_state \<Rightarrow> nat \<Rightarrow> ap_float" where
  "get_adjusted_cost cfg st oper =
    get_adjusted_action_cost (w_task (ss_world st)) (g_operators (w_task (ss_world st)) ! oper) (sc_cost_type cfg)"

definition violates_global_constraint :: "world \<Rightarrow> nat \<Rightarrow> bool" where
  "violates_global_constraint w s \<longleftrightarrow>
    as_int (state_value w s (nat (g_global_constraint_var_id (w_task w)))) \<noteq> g_global_constraint_val (w_task w)"

text \<open>\<open>check_progress\<close> with \<open>reward_progress\<close>.\<close>

definition note_progress :: "search_config \<Rightarrow> EvaluationContext \<Rightarrow> 'h search_state \<Rightarrow> 'h search_state" where
  "note_progress cfg cx st =
    (let (progress, best) = check_progress (sc_cached_heuristics cfg) cx (ss_progress st)
     in st\<lparr>ss_progress := best, ss_open_list := (if progress then boost_preferred (ss_open_list st) else ss_open_list st)\<rparr>)"

definition report_f_value :: "search_config \<Rightarrow> EvaluationContext \<Rightarrow> 'h search_state \<Rightarrow> 'h search_state" where
  "report_f_value cfg cx st = (case sc_f_evaluator cfg of
     None \<Rightarrow> st | Some f \<Rightarrow> count (report_f_value_progress (get_heuristic_value cx f)) st)"

section \<open>Successors\<close>

text \<open>
  A successor that was not seen before: it is evaluated, and opened unless the open list takes it
  for a dead end. The flag says whether it was opened.
\<close>

definition open_new_successor :: "search_config \<Rightarrow> 'h estimators \<Rightarrow> nat \<Rightarrow> nat \<Rightarrow> nat \<Rightarrow> bool \<Rightarrow> 'h search_state \<Rightarrow>
    bool \<times> 'h search_state" where
  "open_new_successor cfg est parent oper successor preferred st =
    (let succ_g = ap_add (get_g (node_of st parent)) (get_adjusted_cost cfg st oper);
         cx = evaluate_state est st successor succ_g preferred;
         st = count inc_evaluated_states st
     in if ol_is_dead_end cx (ss_open_list st)
        then (False, count inc_dead_ends (put_node successor (mark_as_dead_end (node_of st successor)) st))
        else let succ_h = get_heuristic_value cx (sc_llm_h_evaluator cfg);
                 st = put_node successor (open_node (w_task (ss_world st)) (sc_cost_type cfg) parent (node_of st parent) oper
                   (node_of st successor)) st;
                 st = insert_open cx successor st;
                 st = with_monitor (record_open_state succ_h) st
             in (True, note_progress cfg cx st))"

text \<open>
  A known successor that got cheaper: it is opened again, or only gets its new parent. The flag
  says whether it was inserted into the open list.
\<close>

definition improve_successor :: "search_config \<Rightarrow> 'h estimators \<Rightarrow> nat \<Rightarrow> nat \<Rightarrow> nat \<Rightarrow> bool \<Rightarrow> 'h search_state \<Rightarrow>
    bool \<times> 'h search_state" where
  "improve_successor cfg est parent oper successor preferred st =
    (if sc_reopen_closed_nodes cfg then
       let st = (if is_closed (node_of st successor) then count inc_reopened st else st);
           st = put_node successor (reopen_node (w_task (ss_world st)) (sc_cost_type cfg) parent (node_of st parent) oper
             (node_of st successor)) st;
           cx = evaluate_state est st successor (get_g (node_of st successor)) preferred;
           st = insert_open cx successor st
       in (True, with_monitor (record_open_state (get_heuristic_value cx (sc_llm_h_evaluator cfg))) st)
     else (False, put_node successor (update_parent (w_task (ss_world st)) (sc_cost_type cfg) parent (node_of st parent) oper
             (node_of st successor)) st))"

text \<open>The call of \<open>reach_state\<close> for every heuristic.\<close>

definition reach_successor :: "search_config \<Rightarrow> 'h estimators \<Rightarrow> nat \<Rightarrow> nat \<Rightarrow> nat \<Rightarrow> 'h search_state \<Rightarrow> 'h search_state" where
  "reach_successor cfg est parent oper successor st =
    (if sc_use_multi_path_dependence cfg \<or> is_new (node_of st successor)
     then st\<lparr>ss_heuristics := es_reach_state est (ss_world st) parent oper successor (ss_heuristics st)\<rparr> else st)"

text \<open>One operator of the loop of \<open>step\<close>.\<close>

definition expand_operator :: "search_config \<Rightarrow> 'h estimators \<Rightarrow> nat \<Rightarrow> nat set \<Rightarrow> nat \<Rightarrow> 'h search_state \<Rightarrow> 'h search_state result" where
  "expand_operator cfg est s preferred_ops oper st =
    (if ap_le (ap_of_int (sc_bound cfg)) (ap_add (get_real_g (node_of st s)) (op_cost (g_operators (w_task (ss_world st)) ! oper)))
     then Inr st
     else bind_result (get_successor_state (ss_world st) s (g_operators (w_task (ss_world st)) ! oper)) (\<lambda>(successor, w).
       let st = count inc_generated (st\<lparr>ss_world := w\<rparr>)
       in if is_dead_end (node_of st successor) then Inr st
          else let st = reach_successor cfg est s oper successor st
            in if is_new (node_of st successor)
               then Inr (snd (open_new_successor cfg est s oper successor (oper \<in> preferred_ops) st))
               else if ap_lt (ap_add (get_g (node_of st s)) (get_adjusted_cost cfg st oper)) (get_g (node_of st successor))
               then Inr (snd (improve_successor cfg est s oper successor (oper \<in> preferred_ops) st))
               else Inr st))"

primrec expand_operators :: "search_config \<Rightarrow> 'h estimators \<Rightarrow> nat \<Rightarrow> nat set \<Rightarrow> nat list \<Rightarrow> 'h search_state \<Rightarrow> 'h search_state result" where
  "expand_operators cfg est s preferred_ops [] st = Inr st"
| "expand_operators cfg est s preferred_ops (oper # opers) st =
    bind_result (expand_operator cfg est s preferred_ops oper st) (expand_operators cfg est s preferred_ops opers)"

section \<open>Responses of the controller\<close>

text \<open>
  The ancestors \<open>llm_ancestor_stagnant\<close> looks at: at most \<open>remaining\<close> of them, the first ones
  evaluated; nothing when one of these has an infinite value.
\<close>

primrec inspect_ancestors :: "search_config \<Rightarrow> 'h estimators \<Rightarrow> 'h search_state \<Rightarrow> int \<Rightarrow> ap_float \<Rightarrow> nat \<Rightarrow> int \<Rightarrow> state_id \<Rightarrow> ap_float \<Rightarrow>
    (int \<times> ap_float) option" where
  "inspect_ancestors cfg est st comparison_depth current_h 0 inspected ancestor best = Some (inspected, best)"
| "inspect_ancestors cfg est st comparison_depth current_h (Suc remaining) inspected ancestor best =
    (if ancestor = no_state then Some (inspected, best)
     else let s = nat ancestor; n = node_of st s; cx = evaluate_state est st s (get_g n) False;
              next = inspect_ancestors cfg est st comparison_depth current_h remaining (inspected + 1) (parent_state_id n)
       in if inspected < comparison_depth then
            if is_heuristic_infinite cx (sc_llm_h_evaluator cfg) then None
            else next (ap_max best (ap_sub (get_heuristic_value cx (sc_llm_h_evaluator cfg)) current_h))
          else next best)"

definition llm_ancestor_stagnant :: "search_config \<Rightarrow> 'h estimators \<Rightarrow> 'h search_state \<Rightarrow> nat \<Rightarrow> ap_float \<Rightarrow> bool" where
  "llm_ancestor_stagnant cfg est st s current_h =
    (let comparison_depth = tc_ancestor_depth (tm_config (ss_monitor st));
         traversal_depth = max comparison_depth (tc_min_depth (tm_config (ss_monitor st)))
     in case inspect_ancestors cfg est st comparison_depth current_h (nat traversal_depth) 0 (parent_state_id (node_of st s)) (ap_zero False) of
          None \<Rightarrow> False
        | Some (inspected, best_improvement) \<Rightarrow> inspected \<ge> traversal_depth \<and>
            ancestor_improvement_is_stagnant (tm_config (ss_monitor st)) best_improvement current_h)"

definition requeue_llm_source :: "search_config \<Rightarrow> 'h estimators \<Rightarrow> state_id \<Rightarrow> 'h search_state \<Rightarrow> 'h search_state" where
  "requeue_llm_source cfg est source_id st =
    (if \<not> tc_skip_pending (tm_config (ss_monitor st)) then st
     else let s = nat source_id; n = node_of st s
       in if \<not> is_open n \<or> is_dead_end n then st
          else let cx = evaluate_state est st s (get_g n) False
            in if ol_is_dead_end cx (ss_open_list st)
               then count inc_dead_ends (put_node s (mark_as_dead_end n) st)
               else with_monitor (record_frontier_reinsert (get_heuristic_value cx (sc_llm_h_evaluator cfg))) (insert_open cx s st))"

text \<open>
  The loop of \<open>inject_llm_action_chain\<close> over the actions. The counters are the actions applied
  and the states inserted.
\<close>

primrec inject_actions :: "search_config \<Rightarrow> 'h estimators \<Rightarrow> string list \<Rightarrow> nat \<Rightarrow> int \<Rightarrow> int \<Rightarrow> 'h search_state \<Rightarrow>
    (int \<times> int \<times> 'h search_state) result" where
  "inject_actions cfg est [] current applied inserted st = Inr (applied, inserted, st)"
| "inject_actions cfg est (raw_action # actions) current applied inserted st =
    (let w = ss_world st; resolution = resolve_action (operator_by_name (w_task w)) w current raw_action
     in if res_status resolution = UNKNOWN_ACTION \<or> res_status resolution = INAPPLICABLE_ACTION then Inr (applied, inserted, st)
        else let oper = the (res_op resolution); parent_node = node_of st current
          in if is_dead_end parent_node \<or>
               ap_le (ap_of_int (sc_bound cfg)) (ap_add (get_real_g parent_node) (op_cost (g_operators (w_task w) ! oper)))
             then Inr (applied, inserted, st)
             else bind_result (apply_action w current oper) (\<lambda>(successor, w).
               let st = count inc_generated (st\<lparr>ss_world := w\<rparr>); successor_was_new = is_new (node_of st successor)
               in if is_dead_end (node_of st successor) then Inr (applied, inserted, st)
                  else let st = reach_successor cfg est current oper successor st;
                           successor_g = ap_add (get_g (node_of st current)) (get_adjusted_cost cfg st oper)
                    in if successor_was_new then
                         (case open_new_successor cfg est current oper successor False st of
                            (False, st) \<Rightarrow> Inr (applied, inserted, st)
                          | (True, st) \<Rightarrow> inject_actions cfg est actions successor (applied + 1) (inserted + 1) st)
                       else if ap_lt successor_g (get_g (node_of st successor)) then
                         (case improve_successor cfg est current oper successor False st of
                            (was_inserted, st) \<Rightarrow> inject_actions cfg est actions successor (applied + 1)
                              (if was_inserted then inserted + 1 else inserted) st)
                       else inject_actions cfg est actions successor (applied + 1) inserted st))"

definition inject_llm_action_chain :: "search_config \<Rightarrow> 'h estimators \<Rightarrow> state_id \<Rightarrow> string list \<Rightarrow> 'h search_state \<Rightarrow>
    'h search_state result" where
  "inject_llm_action_chain cfg est source_id actions st =
    bind_result (inject_actions cfg est actions (nat source_id) 0 0 st) (\<lambda>(applied, inserted, st).
      Inr (with_monitor (record_injected_chain applied inserted) st))"

primrec inject_chains :: "search_config \<Rightarrow> 'h estimators \<Rightarrow> state_id \<Rightarrow> string list list \<Rightarrow> 'h search_state \<Rightarrow> 'h search_state result" where
  "inject_chains cfg est source_id [] st = Inr st"
| "inject_chains cfg est source_id (actions # rest) st =
    bind_result (if actions = [] then Inr st else inject_llm_action_chain cfg est source_id actions st)
      (inject_chains cfg est source_id rest)"

text \<open>One response of the loop of \<open>poll_llm_responses\<close>.\<close>

definition use_response :: "search_config \<Rightarrow> 'h estimators \<Rightarrow> LLMResponse \<Rightarrow> 'h search_state \<Rightarrow> 'h search_state result" where
  "use_response cfg est response st =
    (if \<not> rs_transport_ok response \<or> rs_body response = [] then Inr st
     else let parsed = parse_llm_response_body (rs_body response)
       in if \<not> resp_valid parsed then Inr st
          else let total_actions = sum_list (map length (resp_action_chains parsed));
                   usable_status = (resp_status parsed = ''ok'' \<or> resp_status parsed = ''partial'');
                   st = (if usable_status \<and> total_actions > 0 then with_monitor record_usable_response st else st)
            in if usable_status then inject_chains cfg est (rs_state_id response) (resp_action_chains parsed) st else Inr st)"

definition handle_response :: "search_config \<Rightarrow> 'h estimators \<Rightarrow> LLMResponse \<Rightarrow> 'h search_state \<Rightarrow> 'h search_state result" where
  "handle_response cfg est response st =
    (let source_was_suspended = fst (take_suspended (rs_state_id response) (ss_monitor st));
         st = with_monitor (snd \<circ> take_suspended (rs_state_id response)) st
     in bind_result (use_response cfg est response st) (\<lambda>st.
          Inr (if source_was_suspended then requeue_llm_source cfg est (rs_state_id response) st else st)))"

primrec handle_responses :: "search_config \<Rightarrow> 'h estimators \<Rightarrow> LLMResponse list \<Rightarrow> 'h search_state \<Rightarrow> 'h search_state result" where
  "handle_responses cfg est [] st = Inr st"
| "handle_responses cfg est (response # responses) st =
    bind_result (handle_response cfg est response st) (handle_responses cfg est responses)"

text \<open>
  What a worker of the bridge may do between two polls: take the next request, or finish the POST
  it is at with the answer of the network. Where that is not possible nothing happens. A tick is
  what the search reads when it polls, and what the workers did before.
\<close>

datatype worker_action = Take nat | Post nat net_outcome

type_synonym tick = "monitor_context \<times> worker_action list"

fun worker_step :: "bridge_config \<Rightarrow> worker_action \<Rightarrow> bridge \<Rightarrow> bridge" where
  "worker_step c (Take i) b = (if i < length (workers b) \<and> workers b ! i = Waiting then worker_take i b else b)"
| "worker_step c (Post i net) b =
    (if i < length (workers b) then
       case workers b ! i of
         Posting r \<Rightarrow> (case post_request_posix c net r of Some response \<Rightarrow> push_completed i response b | None \<Rightarrow> b)
       | _ \<Rightarrow> b
     else b)"

definition workers_run :: "tick \<Rightarrow> monitor \<Rightarrow> monitor" where
  "workers_run tick m = m\<lparr>tm_bridge := fold (worker_step (tm_bridge_config m)) (snd tick) (tm_bridge m)\<rparr>"

definition poll_llm_responses :: "search_config \<Rightarrow> 'h estimators \<Rightarrow> tick \<Rightarrow> 'h search_state \<Rightarrow> 'h search_state result" where
  "poll_llm_responses cfg est tick st =
    (let (responses, m) = poll_bridge (fst tick) False (workers_run tick (ss_monitor st))
     in handle_responses cfg est responses (st\<lparr>ss_monitor := m\<rparr>))"

section \<open>The next state to expand\<close>

text \<open>
  What \<open>fetch_next_node\<close> does with a state it took from the open list with the key \<open>removed_key\<close>
  under multi-path dependence: whether it skips the state.
\<close>

definition recheck_node :: "search_config \<Rightarrow> 'h estimators \<Rightarrow> nat \<Rightarrow> ap_float list \<Rightarrow> 'h search_state \<Rightarrow> (bool \<times> 'h search_state) result" where
  "recheck_node cfg est s removed_key st =
    (if \<not> sc_use_multi_path_dependence cfg then Inr (False, st)
     else if length removed_key \<noteq> 2 then Inl ''Assertion failed: removed_key_buffer.size() == 2''
     else if is_dead_end (node_of st s) then Inr (True, st)
     else let cx = evaluate_state est st s (get_g (node_of st s)) False
       in if ol_is_dead_end cx (ss_open_list st)
          then Inr (True, count inc_dead_ends (put_node s (mark_as_dead_end (node_of st s)) st))
          else if ap_lt (removed_key ! 1) (get_heuristic_value cx (sc_heuristics cfg ! 0))
          then Inr (True, with_monitor (record_frontier_reinsert (get_heuristic_value cx (sc_llm_h_evaluator cfg))) (insert_open cx s st))
          else Inr (False, st))"

text \<open>The end of \<open>fetch_next_node\<close>: the state is closed and the monitor told.\<close>

definition record_expansion :: "search_config \<Rightarrow> 'h estimators \<Rightarrow> monitor_context \<Rightarrow> nat \<Rightarrow> ap_float list \<Rightarrow> 'h search_state \<Rightarrow> 'h search_state" where
  "record_expansion cfg est cx s removed_key st =
    (let index = sc_llm_h_open_list_key_index cfg; g = get_g (node_of st s)
     in if index \<ge> 0 \<and> nat index < length removed_key then
          let popped_h = removed_key ! nat index;
              st = with_monitor (record_expanded cx (int s) g popped_h) st;
              (check, m) = should_check_ancestor (ss_monitor st);
              st = st\<lparr>ss_monitor := m\<rparr>
          in if check \<and> llm_ancestor_stagnant cfg est st s popped_h
             then with_monitor (\<lambda>m. snd (request_ancestor cx (int s) g popped_h m)) st else st
        else with_monitor record_expanded_without_h st)"

definition close_for_expansion :: "search_config \<Rightarrow> 'h estimators \<Rightarrow> monitor_context \<Rightarrow> nat \<Rightarrow> ap_float list \<Rightarrow> 'h search_state \<Rightarrow> 'h search_state" where
  "close_for_expansion cfg est cx s removed_key st =
    (let st = put_node s (close_node (node_of st s)) st;
         st = report_f_value cfg (evaluate_state est st s (get_g (node_of st s)) False) st
     in record_expansion cfg est cx s removed_key (count inc_expanded st))"

text \<open>
  One round of the loop of \<open>fetch_next_node\<close>: it ends without a state, ends with a state, or goes
  on.
\<close>

datatype round = NoState | Fetched nat | Again

definition consider_state :: "search_config \<Rightarrow> 'h estimators \<Rightarrow> monitor_context \<Rightarrow> nat \<Rightarrow> ap_float list \<Rightarrow> 'h search_state \<Rightarrow>
    (round \<times> 'h search_state) result" where
  "consider_state cfg est cx s removed_key st =
    (if violates_global_constraint (ss_world st) s then Inr (Again, st)
     else if is_closed (node_of st s) then Inr (Again, st)
     else case suspend_if_pending (int s) (ss_monitor st) of
       (True, m) \<Rightarrow> Inr (Again, st\<lparr>ss_monitor := m\<rparr>)
     | (False, m) \<Rightarrow> bind_result (recheck_node cfg est s removed_key (st\<lparr>ss_monitor := m\<rparr>)) (\<lambda>(skip, st).
         Inr (if skip then (Again, st) else (Fetched s, close_for_expansion cfg est cx s removed_key st))))"

definition fetch_round :: "search_config \<Rightarrow> 'h estimators \<Rightarrow> tick \<Rightarrow> 'h search_state \<Rightarrow> (round \<times> 'h search_state) result" where
  "fetch_round cfg est tick st =
    bind_result (poll_llm_responses cfg est tick st) (\<lambda>st.
      if ol_empty (ss_open_list st) then
        Inr (if has_pending_requests (ss_monitor st) then Again else NoState, st)
      else let capture = sc_use_multi_path_dependence cfg \<or>
                 (tc_enabled (tm_config (ss_monitor st)) \<and> sc_llm_h_open_list_key_index cfg \<ge> 0)
        in bind_result (remove_min (ss_open_list st) capture) (\<lambda>(s, removed_key, open_list).
             consider_state cfg est (fst tick) s removed_key (st\<lparr>ss_open_list := open_list\<rparr>)))"

primrec fetch_next_node :: "search_config \<Rightarrow> 'h estimators \<Rightarrow> tick list \<Rightarrow> 'h search_state \<Rightarrow>
    (nat option \<times> tick list \<times> 'h search_state) result option" where
  "fetch_next_node cfg est [] st = None"
| "fetch_next_node cfg est (tick # ticks) st =
    (case fetch_round cfg est tick st of
       Inl e \<Rightarrow> Some (Inl e)
     | Inr (NoState, st) \<Rightarrow> Some (Inr (None, ticks, st))
     | Inr (Fetched s, st) \<Rightarrow> Some (Inr (Some s, ticks, st))
     | Inr (Again, st) \<Rightarrow> fetch_next_node cfg est ticks st)"

section \<open>The search\<close>

datatype SearchStatus = IN_PROGRESS | TIMEOUT | FAILED | SOLVED

text \<open>\<open>check_goal_and_set_plan\<close>; undefined when following the parents does not end.\<close>

definition check_goal_and_set_plan :: "nat \<Rightarrow> 'h search_state \<Rightarrow> (bool \<times> 'h search_state) option" where
  "check_goal_and_set_plan s st =
    (if test_goal (w_task (ss_world st)) (state_value (ss_world st) s)
     then map_option (\<lambda>plan. (True, st\<lparr>ss_plan := Some plan\<rparr>)) (trace_path (ss_nodes st) s)
     else Some (False, st))"

definition preferred_operators :: "search_config \<Rightarrow> 'h estimators \<Rightarrow> 'h search_state \<Rightarrow> nat \<Rightarrow> nat set" where
  "preferred_operators cfg est st s =
    (let cx = evaluate_state est st s (get_g (node_of st s)) False
     in \<Union> (set (map (\<lambda>heur. if is_heuristic_infinite cx heur then {}
           else set (es_preferred_operators est (ss_heuristics st) (ss_world st) s (evaluator_id heur)))
         (sc_preferred_operator_heuristics cfg))))"

definition expand_state :: "search_config \<Rightarrow> 'h estimators \<Rightarrow> nat \<Rightarrow> 'h search_state \<Rightarrow> 'h search_state result" where
  "expand_state cfg est s st =
    (let w = ss_world st;
         applicable_ops = sc_prune cfg w s (generate_applicable_ops (SuccessorGenerator_make (w_task w)) (state_value w s))
     in expand_operators cfg est s (preferred_operators cfg est st s) applicable_ops st)"

definition eager_step :: "search_config \<Rightarrow> 'h estimators \<Rightarrow> tick list \<Rightarrow> 'h search_state \<Rightarrow>
    (SearchStatus \<times> tick list \<times> 'h search_state) result option" where
  "eager_step cfg est ticks st =
    (case fetch_next_node cfg est ticks st of
       None \<Rightarrow> None
     | Some (Inl e) \<Rightarrow> Some (Inl e)
     | Some (Inr (None, ticks, st)) \<Rightarrow> Some (Inr (FAILED, ticks, st))
     | Some (Inr (Some s, ticks, st)) \<Rightarrow>
         (case check_goal_and_set_plan s st of
            None \<Rightarrow> None
          | Some (goal, st) \<Rightarrow>
              (case ticks of
                 [] \<Rightarrow> None
               | tick # ticks \<Rightarrow>
                   if goal then Some (Inr (SOLVED, ticks, with_monitor (\<lambda>m. snd (poll_bridge (fst tick) False (workers_run tick m))) st))
                   else Some (bind_result (expand_state cfg est s st) (\<lambda>st.
                     bind_result (poll_llm_responses cfg est tick st) (\<lambda>st. Inr (IN_PROGRESS, ticks, st)))))))"

text \<open>
  The loop of \<open>SearchEngine::search\<close> behind \<open>initialize\<close>; \<open>expired k\<close> says whether a deadline has
  passed when the timers are read for the \<open>k\<close>-th time. It runs for at most \<open>fuel\<close> steps.
\<close>

primrec search_loop :: "search_config \<Rightarrow> 'h estimators \<Rightarrow> (nat \<Rightarrow> bool) \<Rightarrow> nat \<Rightarrow> nat \<Rightarrow> tick list \<Rightarrow> 'h search_state \<Rightarrow>
    (SearchStatus \<times> 'h search_state) result option" where
  "search_loop cfg est expired 0 looks ticks st = None"
| "search_loop cfg est expired (Suc fuel) looks ticks st =
    (case eager_step cfg est ticks st of
       None \<Rightarrow> None
     | Some (Inl e) \<Rightarrow> Some (Inl e)
     | Some (Inr (status, ticks, st)) \<Rightarrow>
         if expired looks then Some (Inr (TIMEOUT, st))
         else if status = IN_PROGRESS then search_loop cfg est expired fuel (Suc looks) ticks st
         else Some (Inr (status, st)))"

definition initialize :: "search_config \<Rightarrow> 'h estimators \<Rightarrow> monitor_context \<Rightarrow> 'h search_state \<Rightarrow> 'h search_state result" where
  "initialize cfg est cx st =
    bind_result (get_initial_state (ss_world st)) (\<lambda>(s, w).
      let st = with_monitor start_bridge (st\<lparr>ss_world := w\<rparr>);
          eval_context = evaluate_state est st s (ap_zero False) True;
          st = count inc_evaluated_states st
      in if ol_is_dead_end eval_context (ss_open_list st) then Inr st
         else let st = st\<lparr>ss_progress := snd (check_progress (sc_cached_heuristics cfg) eval_context (ss_progress st))\<rparr>;
                  st = report_f_value cfg eval_context st;
                  st = put_node s (open_initial (node_of st s)) st;
                  st = insert_open eval_context s st;
                  h = get_heuristic_value eval_context (sc_llm_h_evaluator cfg)
           in Inr (if tc_enabled (tm_config (ss_monitor st))
                   then with_monitor (\<lambda>m. snd (maybe_request_initial cx (int s) (ap_zero False) h (record_open_state h m))) st
                   else st))"

definition eager_search :: "search_config \<Rightarrow> 'h estimators \<Rightarrow> monitor_context \<Rightarrow> (nat \<Rightarrow> bool) \<Rightarrow> tick list \<Rightarrow> 'h search_state \<Rightarrow>
    (SearchStatus \<times> 'h search_state) result option" where
  "eager_search cfg est cx expired ticks st =
    (case initialize cfg est cx st of
       Inl e \<Rightarrow> Some (Inl e)
     | Inr st \<Rightarrow> if expired 0 then Some (Inr (TIMEOUT, st)) else search_loop cfg est expired (length ticks) 1 ticks st)"

end
