(* ===== verification/Eager_Laws.thy ===== *)
theory Eager_Laws
  imports Eager_Search Registry_Properties Monitor_Laws Open_List_Laws
begin

text \<open>
  What the calls of the search leave unchanged in the trigger monitor, and the atomic updates the
  search is made of: a predicate kept by each of them is kept by the whole search.
\<close>

section \<open>The monitor during the search\<close>

definition representatives :: "monitor \<Rightarrow> state_id set" where
  "representatives m = ly_representative_state ` set (tm_layers m)"

text \<open>
  Only states of \<open>K\<close> are pending or represent a layer, the states of \<open>S\<close> are suspended, and those
  of \<open>Q\<close> are still pending.
\<close>

definition monitor_ok :: "bool \<Rightarrow> state_id set \<Rightarrow> state_id set \<Rightarrow> state_id set \<Rightarrow> monitor \<Rightarrow> bool" where
  "monitor_ok b K S Q m \<longleftrightarrow> tc_skip_pending (tm_config m) = b \<and> flight_inv m \<and> length (tm_layers m) = LAYER_TABLE_CAPACITY \<and> tm_pending_states m \<subseteq> K \<and>
    representatives m \<subseteq> insert no_state K \<and> tm_suspended_states m = S \<and> Q \<subseteq> tm_pending_states m \<and>
    (S \<noteq> {} \<longrightarrow> b)"

text \<open>The calls that neither suspend nor resume nor poll.\<close>

fun quiet_call :: "monitor_event \<Rightarrow> bool" where
  "quiet_call (Suspend s) = False"
| "quiet_call (Resume s) = False"
| "quiet_call PollBridge = False"
| "quiet_call ev = True"

lemma representatives_update:
  "representatives (m\<lparr>tm_layers := (tm_layers m)[i := l]\<rparr>) \<subseteq> insert (ly_representative_state l) (representatives m)"
  using set_update_subset_insert [of "tm_layers m" i l] by (auto simp: representatives_def)

lemma monitor_ok_same:
  assumes "monitor_ok b K S Q m" "flight_inv m'" "tm_pending_states m' = tm_pending_states m" "tm_suspended_states m' = tm_suspended_states m"
    "tc_skip_pending (tm_config m') = tc_skip_pending (tm_config m)"
    "length (tm_layers m') = length (tm_layers m)" "representatives m' \<subseteq> insert no_state K"
  shows "monitor_ok b K S Q m'"
  using assms by (simp add: monitor_ok_def)

lemma request_state_rest:
  "tm_suspended_states (snd (request_state cx s reason g h bypass m)) = tm_suspended_states m"
  "tm_pending_states (snd (request_state cx s reason g h bypass m)) = tm_pending_states m \<or>
   s \<noteq> no_state \<and> tm_pending_states (snd (request_state cx s reason g h bypass m)) = insert s (tm_pending_states m)"
  by (auto simp: request_state_def submit_request_def make_request_def register_request_def Let_def split: prod.split)

lemma monitor_ok_request:
  assumes "monitor_ok b K S Q m" "s \<in> insert no_state K"
  shows "monitor_ok b K S Q (snd (request_state cx s reason g h bypass m))"
  using assms request_state_rest [of cx s reason g h bypass m] flight_inv_request [of m cx s reason g h bypass]
  by (auto simp: monitor_ok_def representatives_def)

lemma representatives_layers:
  assumes "ly_representative_state ` set ls \<subseteq> K" "ly_representative_state l = ly_representative_state (ls ! i) \<or> ly_representative_state l \<in> K"
  shows "ly_representative_state ` set (ls[i := l]) \<subseteq> K"
proof (cases "i < length ls")
  case True
  then have "ly_representative_state (ls ! i) \<in> K" using assms(1) by auto
  then have "ly_representative_state l \<in> K" using assms(2) by auto
  then show ?thesis using assms(1) set_update_subset_insert [of ls i l] by blast
next
  case False
  then show ?thesis using assms(1) by (simp add: list_update_beyond)
qed

lemma monitor_ok_note: "monitor_ok b K S Q m \<Longrightarrow> monitor_ok b K S Q (note_layer_request i m)"
  using flights.note_layer [of m i] representatives_layers [of "tm_layers m" "insert no_state K" _ i]
  by (simp add: monitor_ok_def note_layer_request_def representatives_def)

lemma update_layer_window_representative:
  "ly_representative_state (fst (update_layer_window c cursor l)) = ly_representative_state l \<or>
   ly_representative_state (fst (update_layer_window c cursor l)) = no_state"
  by (simp add: update_layer_window_def shift_window_def reset_layer_episode_def Let_def)

lemma analyze_layer_rest:
  assumes "representatives m \<subseteq> insert no_state K"
  shows "representatives (analyze_layer i m) \<subseteq> insert no_state K" "tm_suspended_states (analyze_layer i m) = tm_suspended_states m"
    "length (tm_layers (analyze_layer i m)) = length (tm_layers m)"
proof -
  obtain l p r where w: "update_layer_window (tm_config m) (tm_history_cursor m) (tm_layers m ! i) = (l, p, r)" by (metis prod_cases3)
  have "ly_representative_state l = ly_representative_state (tm_layers m ! i) \<or> ly_representative_state l \<in> insert no_state K"
    using update_layer_window_representative [of "tm_config m" "tm_history_cursor m" "tm_layers m ! i"] by (auto simp: w)
  then show "representatives (analyze_layer i m) \<subseteq> insert no_state K"
    using assms representatives_layers [of "tm_layers m" "insert no_state K" l i] by (simp add: analyze_layer_def w representatives_def)
  show "tm_suspended_states (analyze_layer i m) = tm_suspended_states m" "length (tm_layers (analyze_layer i m)) = length (tm_layers m)"
    by (simp_all add: analyze_layer_def w)
qed

lemma fold_analyze_rest:
  "representatives m \<subseteq> insert no_state K \<Longrightarrow> representatives (fold analyze_layer is m) \<subseteq> insert no_state K \<and>
   tm_suspended_states (fold analyze_layer is m) = tm_suspended_states m \<and> length (tm_layers (fold analyze_layer is m)) = length (tm_layers m)"
proof (induction "is" arbitrary: m)
  case (Cons i "is")
  then show ?case using analyze_layer_rest [of m K i] Cons.IH [of "analyze_layer i m"] by simp
qed simp

lemma request_view_fields:
  "request_view m' = request_view m \<Longrightarrow> tm_config m' = tm_config m \<and> tm_pending_states m' = tm_pending_states m"
  by (simp add: request_view_def)

lemma monitor_ok_window:
  assumes m: "monitor_ok b K S Q m"
  shows "monitor_ok b K S Q (close_window m)"
proof -
  let ?m = "m\<lparr>tm_analysis_checks := Suc (tm_analysis_checks m)\<rparr>"
  have "representatives ?m \<subseteq> insert no_state K" using m by (simp add: monitor_ok_def representatives_def)
  from fold_analyze_rest [OF this, of "[0..<LAYER_TABLE_CAPACITY]"]
  show ?thesis
    using m flights.window [of m] request_view_fields [OF close_window_view(1) [of m]]
    by (simp add: monitor_ok_def) (simp add: close_window_def Let_def representatives_def)
qed

lemma layer_for_h_rest:
  assumes "layer_for_h h m = (i, m')" "representatives m \<subseteq> insert no_state K"
  shows "tm_suspended_states m' = tm_suspended_states m" "tm_config m' = tm_config m" "length (tm_layers m') = length (tm_layers m)"
    "representatives m' \<subseteq> insert no_state K" "tm_pending_states m' = tm_pending_states m"
proof -
  let ?fresh = "initialize_layer (quantize_h (tm_config m) h) h (tm_expansions m)"
  have fresh: "ly_representative_state ?fresh \<in> insert no_state K" by (simp add: initialize_layer_def LayerStats_init_def)
  have rep: "ly_representative_state ` set ((tm_layers m)[j := ?fresh]) \<subseteq> insert no_state K" for j
    by (rule representatives_layers) (use assms(2) fresh in \<open>simp_all add: representatives_def\<close>)
  consider "m' = m" | j n where "m' = m\<lparr>tm_layer_table_evictions := n, tm_layers := (tm_layers m)[j := ?fresh]\<rparr>"
    | j where "m' = m\<lparr>tm_layers := (tm_layers m)[j := ?fresh]\<rparr>"
  proof (cases "probe_layers (tm_layers m) (quantize_h (tm_config m) h)")
    case None
    then have "m' = m\<lparr>tm_layer_table_evictions := Suc (tm_layer_table_evictions m), tm_layers := (tm_layers m)[stalest_layer (tm_layers m) := ?fresh]\<rparr>"
      using assms(1) by (auto simp: layer_for_h_def Let_def)
    then show thesis by (rule that(2))
  next
    case (Some j)
    show thesis
    proof (cases "ly_occupied (tm_layers m ! j)")
      case True
      then show thesis using assms(1) Some by (intro that(1)) (simp add: layer_for_h_def Let_def)
    next
      case False
      then have "m' = m\<lparr>tm_layers := (tm_layers m)[j := ?fresh]\<rparr>" using assms(1) Some by (auto simp: layer_for_h_def Let_def)
      then show thesis by (rule that(3))
    qed
  qed
  then have "tm_suspended_states m' = tm_suspended_states m \<and> tm_config m' = tm_config m \<and> length (tm_layers m') = length (tm_layers m) \<and>
    representatives m' \<subseteq> insert no_state K \<and> tm_pending_states m' = tm_pending_states m"
  proof cases
    case 1
    then show ?thesis using assms(2) by simp
  next
    case (2 j n)
    then have "representatives m' \<subseteq> insert no_state K" using rep [of j] by (simp add: representatives_def)
    then show ?thesis using 2 by simp
  next
    case (3 j)
    then have "representatives m' \<subseteq> insert no_state K" using rep [of j] by (simp add: representatives_def)
    then show ?thesis using 3 by simp
  qed
  then show "tm_suspended_states m' = tm_suspended_states m" "tm_config m' = tm_config m" "length (tm_layers m') = length (tm_layers m)"
    "representatives m' \<subseteq> insert no_state K" "tm_pending_states m' = tm_pending_states m" by blast+
qed

lemma monitor_ok_opened:
  assumes m: "monitor_ok b K S Q m" and h: "ap_is_finite h"
  shows "monitor_ok b K S Q (count_opened h m)"
proof -
  obtain i m' where f: "layer_for_h h m = (i, m')" by (cases "layer_for_h h m")
  have "representatives m \<subseteq> insert no_state K" using m by (simp add: monitor_ok_def)
  note rest = layer_for_h_rest [OF f this]
  have "ly_representative_state ` set ((tm_layers m')[i := l]) \<subseteq> insert no_state K"
    if "ly_representative_state l = ly_representative_state (tm_layers m' ! i)" for l
    by (rule representatives_layers) (use rest(4) that in \<open>simp_all add: representatives_def\<close>)
  then show ?thesis
    using m flights.opened [of m h] h rest by (simp add: monitor_ok_def count_opened_def f Let_def representatives_def)
qed

lemma monitor_ok_expanded:
  assumes m: "monitor_ok b K S Q m" and h: "ap_is_finite h" and s: "s \<in> insert no_state K"
  shows "monitor_ok b K S Q (count_expanded s g h m)"
proof -
  obtain i m' where f: "layer_for_h h m = (i, m')" by (cases "layer_for_h h m")
  have "representatives m \<subseteq> insert no_state K" using m by (simp add: monitor_ok_def)
  note rest = layer_for_h_rest [OF f this]
  have "ly_representative_state ` set ((tm_layers m')[i := l]) \<subseteq> insert no_state K"
    if "ly_representative_state l = s" for l
    by (rule representatives_layers) (use rest(4) that s in \<open>simp_all add: representatives_def\<close>)
  then show ?thesis
    using m flights.expanded [of m h s g] h rest by (simp add: monitor_ok_def count_expanded_def f Let_def representatives_def)
qed

lemma monitor_ok_simple:
  assumes m: "monitor_ok b K S Q m" and "\<not> composed_event ev" "quiet_call ev"
  shows "monitor_ok b K S Q (monitor_call cx ev m)"
  using assms flights.simple [of m ev cx]
  by (cases ev) (auto simp: monitor_ok_def representatives_def monitor_defs Let_def)

interpretation quiet: kept_by_calls "monitor_ok b K S Q" "\<lambda>s. s \<in> insert no_state K" quiet_call
proof
  fix m i assume "monitor_ok b K S Q m" "i < LAYER_TABLE_CAPACITY"
  then show "ly_representative_state (tm_layers m ! i) \<in> insert no_state K"
    by (auto simp: monitor_ok_def representatives_def image_subset_iff)
next
  fix m assume m: "monitor_ok b K S Q m"
  show "monitor_ok b K S Q (note_best_h h m)" if "ap_is_finite h" for h
    using m flights.best [of m h] that by (auto simp: monitor_ok_def representatives_def note_best_h_def)
  show "monitor_ok b K S Q (maybe_heartbeat m)"
    using m flights.heartbeat [of m] by (auto simp: monitor_ok_def representatives_def maybe_heartbeat_def)
  show "monitor_ok b K S Q (m\<lparr>tm_global_stall_requested := True\<rparr>)"
    using m flights.stall_asked [of m] by (simp add: monitor_ok_def representatives_def)
  show "monitor_ok b K S Q (m\<lparr>tm_opened_states := Suc (tm_opened_states m)\<rparr>)"
    using m flights.opened_more [of m] by (simp add: monitor_ok_def representatives_def)
  show "monitor_ok b K S Q (m\<lparr>tm_last_analysis_expansion := tm_expansions m\<rparr>)"
    using m flights.analysed [of m] by (simp add: monitor_ok_def representatives_def)
  show "monitor_ok b K S Q (m\<lparr>tm_ancestor_stagnation_events := n\<rparr>)" for n
    using m flights.stagnated [of m n] by (simp add: monitor_ok_def representatives_def)
qed (auto intro: monitor_ok_request monitor_ok_note monitor_ok_window monitor_ok_opened monitor_ok_expanded monitor_ok_simple)

text \<open>
  The monitor between two events of the search: only known states are pending, represent a layer or
  are suspended, and a suspended state is pending unless its response is one of \<open>R\<close>, still to be handled.
\<close>

definition monitor_inv :: "state_id set \<Rightarrow> state_id set \<Rightarrow> monitor \<Rightarrow> bool" where
  "monitor_inv K R m \<longleftrightarrow> monitor_ok (tc_skip_pending (tm_config m)) K (tm_suspended_states m) (tm_suspended_states m - R) m \<and> tm_suspended_states m \<subseteq> K"

lemma monitor_inv_quiet:
  assumes "monitor_inv K R m" "quiet_call ev" "event_states ev \<subseteq> K"
  shows "monitor_inv K R (monitor_call cx ev m)" "tm_suspended_states (monitor_call cx ev m) = tm_suspended_states m"
    "tc_skip_pending (tm_config (monitor_call cx ev m)) = tc_skip_pending (tm_config m)"
proof -
  have "monitor_ok (tc_skip_pending (tm_config m)) K (tm_suspended_states m) (tm_suspended_states m - R) (monitor_call cx ev m)"
    using assms by (intro quiet.call) (auto simp: monitor_inv_def)
  moreover from this show same: "tm_suspended_states (monitor_call cx ev m) = tm_suspended_states m"
      "tc_skip_pending (tm_config (monitor_call cx ev m)) = tc_skip_pending (tm_config m)" by (simp_all add: monitor_ok_def)
  ultimately show "monitor_inv K R (monitor_call cx ev m)" using assms(1) by (simp add: monitor_inv_def)
qed

lemma monitor_inv_mono: "monitor_inv K R m \<Longrightarrow> K \<subseteq> K' \<Longrightarrow> R \<subseteq> R' \<Longrightarrow> monitor_inv K' R' m"
  by (auto simp: monitor_inv_def monitor_ok_def)

lemma worker_step_event:
  "worker_step c act b = b \<or> (\<exists>ev. worker_event ev \<and> bridge_step c ev b (worker_step c act b))"
proof (cases act)
  case (Take i)
  show ?thesis
  proof (cases "i < length (workers b) \<and> workers b ! i = Waiting")
    case True
    have "worker_take i b = b \<or> (\<exists>ev. worker_event ev \<and> bridge_step c ev b (worker_take i b))"
    proof (cases "stopping b")
      case stop: True
      show ?thesis using bridge_step.leave [of i b c] True stop worker_event.simps(2) by blast
    next
      case go: False
      show ?thesis
      proof (cases "outgoing b")
        case Nil
        then show ?thesis using go by (simp add: worker_take_def)
      next
        case (Cons r rest)
        then show ?thesis using bridge_step.dispatch [of i b r rest c] True go worker_event.simps(1) by blast
      qed
    qed
    then show ?thesis using True Take by simp
  qed (use Take in auto)
next
  case (Post i net)
  show ?thesis
  proof (cases "\<exists>r response. i < length (workers b) \<and> workers b ! i = Posting r \<and> post_request_posix c net r = Some response")
    case True
    then obtain r response where r: "i < length (workers b)" "workers b ! i = Posting r" "post_request_posix c net r = Some response" by blast
    then have "worker_step c act b = push_completed i response b" by (simp add: Post)
    then show ?thesis using bridge_step.complete [OF r] worker_event.simps(3) by metis
  next
    case False
    then show ?thesis by (auto simp: Post split: worker.split option.split)
  qed
qed

lemma flight_inv_workers:
  "flight_inv (m\<lparr>tm_bridge := b\<rparr>) \<Longrightarrow> flight_inv (m\<lparr>tm_bridge := fold (worker_step (tm_bridge_config m)) acts b\<rparr>)"
proof (induction acts arbitrary: b)
  case (Cons act acts)
  have "flight_inv (m\<lparr>tm_bridge := worker_step (tm_bridge_config m) act b\<rparr>)"
    using worker_step_event [of "tm_bridge_config m" act b] Cons.prems flight_inv_work [of "m\<lparr>tm_bridge := b\<rparr>"] by auto
  then show ?case using Cons.IH by simp
qed simp

lemma monitor_inv_workers: "monitor_inv K R m \<Longrightarrow> monitor_inv K R (workers_run tick m)"
  using flight_inv_workers [where m = m and b = "tm_bridge m" and acts = "snd tick"]
  by (simp add: monitor_inv_def monitor_ok_def workers_run_def representatives_def)

lemma poll_bridge_rest:
  "tm_suspended_states (fold (complete_response cx) rs m) = tm_suspended_states m \<and>
   tm_layers (fold (complete_response cx) rs m) = tm_layers m \<and> tm_config (fold (complete_response cx) rs m) = tm_config m"
  by (induction rs arbitrary: m) (simp_all add: complete_response_def forget_pending_def Let_def)

lemma monitor_inv_poll:
  assumes m: "monitor_inv K {} m" and poll: "poll_bridge cx False m = (rs, m')"
  shows "monitor_inv K (rs_state_id ` set rs) m'" "rs_state_id ` set rs \<subseteq> K" "tm_suspended_states m' = tm_suspended_states m"
proof -
  have flight: "flight_inv m'" using m flight_inv_poll [of m cx False] poll by (simp add: monitor_inv_def monitor_ok_def)
  have fin: "finite (tm_pending_states m)" using m flight_pending_finite by (auto simp: monitor_inv_def monitor_ok_def flight_inv_def)
  have "tm_suspended_states m' = tm_suspended_states m \<and> tm_layers m' = tm_layers m \<and> tm_config m' = tm_config m \<and>
      tm_pending_states m' = tm_pending_states m - rs_state_id ` set rs \<and> rs_state_id ` set rs \<subseteq> tm_pending_states m"
  proof (cases "tc_enabled (tm_config m)")
    case True
    then have rs: "rs = completed (tm_bridge m)" "m' = fold (complete_response cx) rs (m\<lparr>tm_bridge := (tm_bridge m)\<lparr>completed := []\<rparr>\<rparr>)"
      using poll by (auto simp: poll_bridge_def poll_completed_def Let_def)
    have "set_mset (bridge_states (tm_bridge m)) \<subseteq> tm_pending_states m"
      using m fin set_mset_mono [of "bridge_states (tm_bridge m)" "mset_set (tm_pending_states m)"]
      by (simp add: monitor_inv_def monitor_ok_def flight_inv_def)
    then have "rs_state_id ` set rs \<subseteq> tm_pending_states m" by (auto simp: bridge_states_def rs(1))
    then show ?thesis using poll_bridge_rest [of cx rs "m\<lparr>tm_bridge := (tm_bridge m)\<lparr>completed := []\<rparr>\<rparr>"]
      by (simp add: rs(2) fold_respond_states)
  next
    case False
    then show ?thesis using poll by (simp add: poll_bridge_def)
  qed
  then show "monitor_inv K (rs_state_id ` set rs) m'" "rs_state_id ` set rs \<subseteq> K" "tm_suspended_states m' = tm_suspended_states m"
    using m flight by (auto simp: monitor_inv_def monitor_ok_def representatives_def)
qed

lemma monitor_inv_suspend:
  assumes "monitor_inv K R m" "suspend_if_pending s m = (True, m')"
  shows "monitor_inv K R m'" "tm_suspended_states m' = insert s (tm_suspended_states m)"
proof -
  have s: "s \<in> tm_pending_states m" "m' = m\<lparr>tm_suspended_states := insert s (tm_suspended_states m)\<rparr>" "tc_skip_pending (tm_config m)"
    using assms(2) by (simp_all add: suspend_if_pending_def split: if_splits)
  moreover have "flight_inv m'" using assms(1) flight_inv_view [of m' m] by (simp add: s(2) monitor_inv_def monitor_ok_def request_view_def)
  ultimately show "monitor_inv K R m'" "tm_suspended_states m' = insert s (tm_suspended_states m)"
    using assms(1) by (auto simp: monitor_inv_def monitor_ok_def representatives_def)
qed

lemma suspend_if_pending_False: "suspend_if_pending s m = (False, m') \<Longrightarrow> m' = m"
  by (simp add: suspend_if_pending_def split: if_splits)

lemma monitor_inv_resume:
  assumes "monitor_inv K (insert s R) m"
  shows "monitor_inv K R (snd (take_suspended s m))"
proof -
  have "flight_inv (snd (take_suspended s m))"
    using assms flight_inv_view [of "snd (take_suspended s m)" m] by (simp add: take_suspended_def monitor_inv_def monitor_ok_def request_view_def)
  then show ?thesis using assms by (auto simp: monitor_inv_def monitor_ok_def take_suspended_def representatives_def)
qed

end
