(* ===== verification/Eager_Steps.thy ===== *)
theory Eager_Steps
  imports Eager_Laws
begin

text \<open>
  The atomic updates the search is made of. A predicate on search states that each of them keeps
  is kept by every operation of the search; the invariants of the search are proved this way.
\<close>

section \<open>States and edges\<close>

definition known :: "'h search_state \<Rightarrow> nat set" where
  "known st = {s. \<not> is_new (node_of st s)}"

definition live :: "'h search_state \<Rightarrow> nat \<Rightarrow> bool" where
  "live st s \<longleftrightarrow> is_open (node_of st s) \<or> is_closed (node_of st s)"

text \<open>A later world of the same task: registered states are never changed.\<close>

definition extends :: "world \<Rightarrow> world \<Rightarrow> bool" where
  "extends w w' \<longleftrightarrow> w_task w' = w_task w \<and> w_packer w' = w_packer w \<and> registry_size w \<le> registry_size w' \<and>
    (\<forall>j < registry_size w. packed_buffer w' j = packed_buffer w j)"

text \<open>
  The registry has once computed \<open>s\<close> as the successor of \<open>p\<close> for the applicable operator \<open>oper\<close>.
\<close>

definition edge :: "world \<Rightarrow> nat \<Rightarrow> nat \<Rightarrow> nat \<Rightarrow> bool" where
  "edge w p oper s \<longleftrightarrow> p < registry_size w \<and> s < registry_size w \<and> oper < length (g_operators (w_task w)) \<and>
    operator_is_applicable (state_value w p) (g_operators (w_task w) ! oper) \<and>
    (\<exists>w0 w1. world_ok w0 \<and> extends w0 w1 \<and> extends w1 w \<and> p < registry_size w0 \<and>
      get_successor_state w0 p (g_operators (w_task w) ! oper) = Inr (s, w1))"

lemma extends_refl: "extends w w"
  by (simp add: extends_def)

lemma extends_trans: "extends w0 w1 \<Longrightarrow> extends w1 w2 \<Longrightarrow> extends w0 w2"
  by (auto simp: extends_def)

lemma extends_value: "extends w w' \<Longrightarrow> s < registry_size w \<Longrightarrow> state_value w' s = state_value w s"
  by (simp add: extends_def state_value_def fun_eq_iff)

lemma edge_extends:
  assumes "edge w p oper s" "extends w w'"
  shows "edge w' p oper s"
proof -
  obtain w0 w1 where w: "world_ok w0" "extends w0 w1" "extends w1 w" "p < registry_size w0"
      "get_successor_state w0 p (g_operators (w_task w) ! oper) = Inr (s, w1)"
    using assms(1) by (auto simp: edge_def)
  have "w_task w' = w_task w" "registry_size w \<le> registry_size w'" using assms(2) by (simp_all add: extends_def)
  moreover have "state_value w' p = state_value w p" using assms extends_value by (simp add: edge_def)
  moreover have "extends w1 w'" using w(3) assms(2) by (rule extends_trans)
  ultimately show ?thesis using assms(1) w by (auto simp: edge_def)
qed

lemma successor_extends:
  assumes "world_ok w" "s < registry_size w" "operator_ok (w_task w) oper" "get_successor_state w s oper = Inr (i, w')"
  shows "world_ok w'" "extends w w'" "i < registry_size w'"
proof -
  have ok: "world_ok w' \<and> i < registry_size w' \<and> (\<forall>j < registry_size w. packed_buffer w' j = packed_buffer w j)"
    using successor_state [OF assms(1-3)] assms(4) by auto
  then show "world_ok w'" "i < registry_size w'" by simp_all
  have task: "w_task w' = w_task w" by (rule successor_keeps_operators [OF assms(4)])
  have inv: "registry_inv w" "registry_inv w'" using assms(1) ok by (simp_all add: world_ok_def)
  obtain b where "registers w b i w'" using get_successor_state_registers [OF inv(1) assms(2,4)] by blast
  then have "registry_size w \<le> registry_size w'"
    using registry_invD(3) [OF inv(1)] registry_invD(3) [OF inv(2)] by (simp add: registers_def)
  moreover have "w_packer w' = w_packer w" using registry_invD(1) [OF inv(1)] registry_invD(1) [OF inv(2)] task by simp
  ultimately show "extends w w'" using ok task by (simp add: extends_def)
qed

lemma successor_edge:
  assumes "world_ok w" "s < registry_size w" "\<forall>oper \<in> set (g_operators (w_task w)). operator_ok (w_task w) oper"
    "oper < length (g_operators (w_task w))" "operator_is_applicable (state_value w s) (g_operators (w_task w) ! oper)"
    "get_successor_state w s (g_operators (w_task w) ! oper) = Inr (i, w')"
  shows "edge w' s oper i"
proof -
  have "operator_ok (w_task w) (g_operators (w_task w) ! oper)" using assms(3,4) by simp
  note ext = successor_extends [OF assms(1,2) this assms(6)]
  have "s < registry_size w'" using ext(2) assms(2) by (simp add: extends_def)
  moreover have "state_value w' s = state_value w s" by (rule extends_value [OF ext(2) assms(2)])
  moreover have "w_task w' = w_task w" using ext(2) by (simp add: extends_def)
  ultimately show ?thesis using assms ext extends_refl by (fastforce simp: edge_def)
qed

section \<open>The base invariant\<close>

text \<open>
  The task is well formed, the pruning method only removes operators, the registry is in order, the entries of the open list and the states the monitor mentions are
  known, and so are the sources \<open>R\<close> of the responses still to be handled.
\<close>

definition search_ok :: "search_config \<Rightarrow> task \<Rightarrow> bool" where
  "search_ok cfg t \<longleftrightarrow> generator_task_ok t \<and> (\<forall>oper \<in> set (g_operators t). operator_ok t oper) \<and>
    (\<forall>w s ops. set (sc_prune cfg w s ops) \<subseteq> set ops)"

definition base_inv :: "search_config \<Rightarrow> task \<Rightarrow> state_id set \<Rightarrow> 'h search_state \<Rightarrow> bool" where
  "base_inv cfg t R st \<longleftrightarrow> search_ok cfg t \<and> world_ok (ss_world st) \<and> w_task (ss_world st) = t \<and> length (ss_nodes st) \<le> registry_size (ss_world st) \<and>
    ol_ok (ss_open_list st) \<and> set_mset (ol_entries (ss_open_list st)) \<subseteq> known st \<and>
    monitor_inv (int ` known st) R (ss_monitor st) \<and> R \<subseteq> int ` known st"

lemma known_registered: "base_inv cfg t R st \<Longrightarrow> s \<in> known st \<Longrightarrow> s < registry_size (ss_world st)"
  by (rule ccontr) (auto simp: base_inv_def known_def is_new_def get_node_def info_get_def)

lemma known_put_node [simp]:
  "s < registry_size (ss_world st) \<Longrightarrow> known (put_node s n st) = (if is_new n then known st - {s} else insert s (known st))"
  by (auto simp: known_def put_node_def)

lemma node_put_node [simp]:
  "s < registry_size (ss_world st) \<Longrightarrow> node_of (put_node s n st) x = (if x = s then n else node_of st x)"
  by (simp add: put_node_def)

lemma put_node_rest [simp]:
  "ss_world (put_node s n st) = ss_world st" "ss_open_list (put_node s n st) = ss_open_list st"
  "ss_monitor (put_node s n st) = ss_monitor st" "ss_heuristics (put_node s n st) = ss_heuristics st"
  by (simp_all add: put_node_def)

lemma insert_open_rest [simp]:
  "ss_world (insert_open cx s st) = ss_world st" "ss_nodes (insert_open cx s st) = ss_nodes st"
  "ss_monitor (insert_open cx s st) = ss_monitor st" "known (insert_open cx s st) = known st"
  "ss_open_list (insert_open cx s st) = ol_insert cx s (ss_open_list st)"
  by (simp_all add: insert_open_def known_def)

lemma node_status_simps [simp]:
  "info_status (open_node t ct p pn oper n) = OPEN" "info_status (reopen_node t ct p pn oper n) = OPEN"
  "info_status (update_parent t ct p pn oper n) = info_status n" "info_status (close_node n) = CLOSED"
  "info_status (mark_as_dead_end n) = DEAD_END" "info_status (open_initial n) = OPEN"
  by (simp_all add: open_node_def reopen_node_def update_parent_def close_node_def mark_as_dead_end_def open_initial_def)

text \<open>The bound test the search makes before it generates a successor.\<close>

definition within_bound :: "search_config \<Rightarrow> 'h search_state \<Rightarrow> nat \<Rightarrow> nat \<Rightarrow> bool" where
  "within_bound cfg st p oper \<longleftrightarrow> \<not> ap_le (ap_of_int (sc_bound cfg))
    (ap_add (get_real_g (node_of st p)) (op_cost (g_operators (w_task (ss_world st)) ! oper)))"

definition cheaper :: "search_config \<Rightarrow> 'h search_state \<Rightarrow> nat \<Rightarrow> nat \<Rightarrow> nat \<Rightarrow> bool" where
  "cheaper cfg st p oper s \<longleftrightarrow> ap_lt (ap_add (get_g (node_of st p)) (get_adjusted_cost cfg st oper)) (get_g (node_of st s))"

text \<open>The nodes the search writes for a successor \<open>s\<close> of \<open>p\<close>.\<close>

abbreviation opened_node :: "search_config \<Rightarrow> 'h search_state \<Rightarrow> nat \<Rightarrow> nat \<Rightarrow> nat \<Rightarrow> SearchNodeInfo" where
  "opened_node cfg st p oper s \<equiv> open_node (w_task (ss_world st)) (sc_cost_type cfg) p (node_of st p) oper (node_of st s)"

abbreviation reopened_node :: "search_config \<Rightarrow> 'h search_state \<Rightarrow> nat \<Rightarrow> nat \<Rightarrow> nat \<Rightarrow> SearchNodeInfo" where
  "reopened_node cfg st p oper s \<equiv> reopen_node (w_task (ss_world st)) (sc_cost_type cfg) p (node_of st p) oper (node_of st s)"

abbreviation reparented_node :: "search_config \<Rightarrow> 'h search_state \<Rightarrow> nat \<Rightarrow> nat \<Rightarrow> nat \<Rightarrow> SearchNodeInfo" where
  "reparented_node cfg st p oper s \<equiv> update_parent (w_task (ss_world st)) (sc_cost_type cfg) p (node_of st p) oper (node_of st s)"

text \<open>An edge the search is about to use, from a state that is alive and within the bound.\<close>

definition usable_edge :: "search_config \<Rightarrow> 'h search_state \<Rightarrow> nat \<Rightarrow> nat \<Rightarrow> nat \<Rightarrow> bool" where
  "usable_edge cfg st p oper s \<longleftrightarrow> live st p \<and> edge (ss_world st) p oper s \<and> within_bound cfg st p oper"

text \<open>
  From one search state to a later one: known states stay known, the registry only grows and no
  states but those of \<open>X\<close> are closed. While states are generated, live states stay live too and the
  monitor keeps its mode.
\<close>

definition grows :: "nat set \<Rightarrow> 'h search_state \<Rightarrow> 'h search_state \<Rightarrow> bool" where
  "grows X st st' \<longleftrightarrow> known st \<subseteq> known st' \<and> extends (ss_world st) (ss_world st') \<and>
    (\<forall>s. is_closed (node_of st' s) \<longrightarrow> is_closed (node_of st s) \<or> s \<in> X)"

lemma grows_trans: "grows X st st' \<Longrightarrow> grows Y st' st'' \<Longrightarrow> X \<union> Y \<subseteq> Z \<Longrightarrow> grows Z st st''"
  using extends_trans by (fastforce simp: grows_def)

lemma grows_same: "ss_nodes st' = ss_nodes st \<Longrightarrow> extends (ss_world st) (ss_world st') \<Longrightarrow> grows {} st st'"
  by (simp add: grows_def known_def)

lemma grows_refl: "grows {} st st"
  by (rule grows_same) (simp_all add: extends_refl)

definition later :: "'h search_state \<Rightarrow> 'h search_state \<Rightarrow> bool" where
  "later st st' \<longleftrightarrow> grows {} st st' \<and> (\<forall>s. live st s \<longrightarrow> live st' s) \<and>
    tc_skip_pending (tm_config (ss_monitor st')) = tc_skip_pending (tm_config (ss_monitor st))"

definition leads :: "('h search_state \<Rightarrow> bool) \<Rightarrow> 'h search_state \<Rightarrow> 'h search_state \<Rightarrow> bool" where
  "leads P st st' \<longleftrightarrow> P st' \<and> later st st'"

lemma later_trans: "later st st' \<Longrightarrow> later st' st'' \<Longrightarrow> later st st''"
  using grows_trans [of "{}" st st' "{}" st'' "{}"] by (simp add: later_def)

lemma leads_trans: "leads P st st' \<Longrightarrow> leads P st' st'' \<Longrightarrow> leads P st st''"
  using later_trans by (auto simp: leads_def)

lemma leadsD: "leads P st st' \<Longrightarrow> P st'" "leads P st st' \<Longrightarrow> later st st'"
  by (simp_all add: leads_def)

lemma leadsI: "P st' \<Longrightarrow> later st st' \<Longrightarrow> leads P st st'"
  by (simp add: leads_def)

lemma laterD: "later st st' \<Longrightarrow> s \<in> known st \<Longrightarrow> s \<in> known st'" "later st st' \<Longrightarrow> live st s \<Longrightarrow> live st' s"
    "later st st' \<Longrightarrow> extends (ss_world st) (ss_world st')" "later st st' \<Longrightarrow> grows {} st st'"
  by (auto simp: later_def grows_def)

lemma leads_refl: "P st \<Longrightarrow> leads P st st"
  by (simp add: leads_def later_def grows_refl)

lemma later_same:
  "ss_nodes st' = ss_nodes st \<Longrightarrow> extends (ss_world st) (ss_world st') \<Longrightarrow>
    tc_skip_pending (tm_config (ss_monitor st')) = tc_skip_pending (tm_config (ss_monitor st)) \<Longrightarrow> later st st'"
  by (simp add: later_def grows_same live_def)

lemma later_insert: "later st st' \<Longrightarrow> later st (insert_open cx s st')"
  by (simp add: later_def grows_def live_def insert_open_def known_def)

lemma grows_put:
  "s < registry_size (ss_world st) \<Longrightarrow> \<not> is_new n \<Longrightarrow> is_closed n \<longrightarrow> s \<in> X \<Longrightarrow> grows X st (put_node s n st)"
  by (auto simp: grows_def extends_refl split: if_splits)

lemma later_put:
  "s < registry_size (ss_world st) \<Longrightarrow> \<not> is_new n \<Longrightarrow> live st s \<longrightarrow> is_open n \<or> is_closed n \<Longrightarrow> is_closed n \<longrightarrow> is_closed (node_of st s) \<Longrightarrow>
    later st (put_node s n st)"
  by (auto simp: later_def grows_def live_def extends_refl split: if_splits)

lemma live_known: "live st s \<Longrightarrow> s \<in> known st"
  by (auto simp: live_def known_def is_new_def is_open_def is_closed_def)

lemma live_iff: "live st s \<longleftrightarrow> \<not> is_new (node_of st s) \<and> \<not> is_dead_end (node_of st s)"
  by (cases "info_status (node_of st s)") (simp_all add: live_def is_new_def is_open_def is_closed_def is_dead_end_def)

lemma count_rest [simp]:
  "ss_world (count f st) = ss_world st" "ss_nodes (count f st) = ss_nodes st" "ss_open_list (count f st) = ss_open_list st"
  "ss_monitor (count f st) = ss_monitor st" "ss_heuristics (count f st) = ss_heuristics st"
  by (simp_all add: count_def)

lemma with_monitor_rest [simp]:
  "ss_world (with_monitor f st) = ss_world st" "ss_nodes (with_monitor f st) = ss_nodes st" "ss_open_list (with_monitor f st) = ss_open_list st"
  "ss_heuristics (with_monitor f st) = ss_heuristics st" "ss_plan (with_monitor f st) = ss_plan st" "ss_monitor (with_monitor f st) = f (ss_monitor st)"
  by (simp_all add: with_monitor_def)

lemma note_progress_rest [simp]:
  "ss_nodes (note_progress cfg cx st) = ss_nodes st" "ss_world (note_progress cfg cx st) = ss_world st" "ss_monitor (note_progress cfg cx st) = ss_monitor st"
  by (simp_all add: note_progress_def case_prod_beta Let_def)

lemma report_f_value_rest [simp]:
  "ss_nodes (report_f_value cfg cx st) = ss_nodes st" "ss_monitor (report_f_value cfg cx st) = ss_monitor st"
  "ss_world (report_f_value cfg cx st) = ss_world st"
  by (simp_all add: report_f_value_def split: option.split)

lemma reach_successor_rest [simp]:
  "ss_world (reach_successor cfg est p oper s st) = ss_world st" "ss_nodes (reach_successor cfg est p oper s st) = ss_nodes st"
  "ss_monitor (reach_successor cfg est p oper s st) = ss_monitor st"
  by (simp_all add: reach_successor_def)

lemma evaluate_count [simp]: "evaluate_state est (count f st) = evaluate_state est st"
  by (simp add: evaluate_state_def fun_eq_iff)

lemma adjusted_cost_world: "ss_world st' = ss_world st \<Longrightarrow> get_adjusted_cost cfg st' oper = get_adjusted_cost cfg st oper"
  by (simp add: get_adjusted_cost_def)

lemma usable_same: "ss_world st' = ss_world st \<Longrightarrow> ss_nodes st' = ss_nodes st \<Longrightarrow> usable_edge cfg st' p oper s = usable_edge cfg st p oper s"
  by (simp add: usable_edge_def live_def within_bound_def)

lemma node_status_tests [simp]:
  "is_open (open_node t ct p pn oper n)" "is_open (open_initial n)" "\<not> is_new (open_initial n)" "is_open (reopen_node t ct p pn oper n)" "is_closed (close_node n)"
  "is_new (update_parent t ct p pn oper n) = is_new n" "is_open (update_parent t ct p pn oper n) = is_open n"
  "is_closed (update_parent t ct p pn oper n) = is_closed n" "\<not> is_new (open_node t ct p pn oper n)" "\<not> is_new (reopen_node t ct p pn oper n)"
  "\<not> is_new (close_node n)" "\<not> is_new (mark_as_dead_end n)" "\<not> is_open (mark_as_dead_end n)" "\<not> is_closed (mark_as_dead_end n)" "\<not> is_closed (open_node t ct p pn oper n)" "\<not> is_closed (reopen_node t ct p pn oper n)" "\<not> is_closed (open_initial n)"
  "\<not> is_open (close_node n)"
  by (simp_all add: is_open_def is_closed_def is_new_def)

lemma operator_by_name_bound: "operator_by_name task name = Some oper \<Longrightarrow> oper < length (g_operators task)"
proof -
  have "fold (\<lambda>i m. m(f i \<mapsto> i)) is m name = Some oper \<Longrightarrow> (\<forall>x. m name = Some x \<longrightarrow> x < n) \<Longrightarrow> set is \<subseteq> {..<n} \<Longrightarrow> oper < n" for f "is" m n
    by (induction "is" arbitrary: m) (auto split: if_splits)
  from this [of _ "[0..<length (g_operators task)]" Map.empty] show "operator_by_name task name = Some oper \<Longrightarrow> oper < length (g_operators task)"
    by (simp add: operator_by_name_def subset_iff)
qed

lemma resolve_FOUND_operator:
  assumes "resolve_action (operator_by_name (w_task w)) w s raw = \<lparr>res_status = FOUND, res_op = Some oper\<rparr>"
  shows "oper < length (g_operators (w_task w))" "operator_is_applicable (state_value w s) (g_operators (w_task w) ! oper)"
  using assms operator_by_name_bound by (auto simp: resolve_action_def split: option.splits if_splits)

section \<open>Predicates the search keeps\<close>

text \<open>An update that changes neither nodes nor states nor which states are where.\<close>

definition unnoticed :: "state_id set \<Rightarrow> 'h search_state \<Rightarrow> 'h search_state \<Rightarrow> bool" where
  "unnoticed R st st' \<longleftrightarrow> ss_world st' = ss_world st \<and> ss_nodes st' = ss_nodes st \<and>
    ol_entries (ss_open_list st') = ol_entries (ss_open_list st) \<and> (ol_ok (ss_open_list st) \<longrightarrow> ol_ok (ss_open_list st')) \<and>
    (\<forall>cx. ol_is_dead_end cx (ss_open_list st') = ol_is_dead_end cx (ss_open_list st)) \<and>
    tm_suspended_states (ss_monitor st') = tm_suspended_states (ss_monitor st) \<and>
    (monitor_inv (int ` known st) R (ss_monitor st) \<longrightarrow> monitor_inv (int ` known st) R (ss_monitor st'))"

text \<open>
  \<open>I R owed st\<close>: besides \<open>R\<close> the predicate may depend on the states \<open>owed\<close> that were taken out of the
  open list or resumed and not yet dealt with. \<open>cutoff\<close> holds of the transitions the bound has cut off.
\<close>

text \<open>
  An operator of a state is covered when its successor is known or the bound cuts it off; a state
  is finished when it is no goal state and all operators left by the pruning are covered.
\<close>

definition covered :: "(world \<Rightarrow> nat \<Rightarrow> nat \<Rightarrow> bool) \<Rightarrow> 'h search_state \<Rightarrow> nat \<Rightarrow> nat \<Rightarrow> bool" where
  "covered cutoff st s oper \<longleftrightarrow> (\<exists>s' \<in> known st. edge (ss_world st) s oper s') \<or> cutoff (ss_world st) s oper"

definition finished :: "search_config \<Rightarrow> (world \<Rightarrow> nat \<Rightarrow> nat \<Rightarrow> bool) \<Rightarrow> 'h search_state \<Rightarrow> nat \<Rightarrow> bool" where
  "finished cfg cutoff st s \<longleftrightarrow> \<not> test_goal (w_task (ss_world st)) (state_value (ss_world st) s) \<and>
    (\<exists>w ops. extends w (ss_world st) \<and> s < registry_size w \<and>
      set ops = {i. i < length (g_operators (w_task w)) \<and> operator_is_applicable (state_value w s) (g_operators (w_task w) ! i)} \<and>
      (\<forall>oper \<in> set (sc_prune cfg w s ops). covered cutoff st s oper))"

definition closed_finished :: "search_config \<Rightarrow> (world \<Rightarrow> nat \<Rightarrow> nat \<Rightarrow> bool) \<Rightarrow> 'h search_state \<Rightarrow> bool" where
  "closed_finished cfg cutoff st \<longleftrightarrow> (\<forall>s. is_closed (node_of st s) \<longrightarrow> finished cfg cutoff st s)"

locale kept_by_search =
  fixes cfg :: search_config and est :: "'h estimators" and t :: task and s0 :: nat and cutoff :: "world \<Rightarrow> nat \<Rightarrow> nat \<Rightarrow> bool"
    and I :: "state_id set \<Rightarrow> state_id set \<Rightarrow> 'h search_state \<Rightarrow> bool"
  assumes base: "I R owed st \<Longrightarrow> base_inv cfg t R st"
    and beyond: "I R owed st \<Longrightarrow> live st p \<Longrightarrow> \<not> within_bound cfg st p oper \<Longrightarrow> cutoff (ss_world st) p oper"
    and beyond_extends: "cutoff w p oper \<Longrightarrow> extends w w' \<Longrightarrow> cutoff w' p oper"
    and quietly: "I R owed st \<Longrightarrow> unnoticed R st st' \<Longrightarrow> I R owed st'"
    and grown: "I R owed st \<Longrightarrow> world_ok w \<Longrightarrow> extends (ss_world st) w \<Longrightarrow> I R owed (st\<lparr>ss_world := w\<rparr>)"
    and placed: "I {} {} st \<Longrightarrow> known st = {} \<Longrightarrow> s0 < registry_size (ss_world st) \<Longrightarrow>
      \<not> ol_is_dead_end (evaluate_state est st s0 g pref) (ss_open_list st) \<Longrightarrow>
      I {} {} (insert_open (evaluate_state est st s0 g pref) s0 (put_node s0 (open_initial (node_of st s0)) st))"
    and opened: "I R owed st \<Longrightarrow> is_new (node_of st s) \<Longrightarrow> usable_edge cfg st p oper s \<Longrightarrow>
      \<not> ol_is_dead_end (evaluate_state est st s g pref) (ss_open_list st) \<Longrightarrow>
      I R owed (insert_open (evaluate_state est st s g pref) s (put_node s (opened_node cfg st p oper s) st))"
    and dead: "I R owed st \<Longrightarrow> is_new (node_of st s) \<Longrightarrow> s < registry_size (ss_world st) \<Longrightarrow>
      ol_is_dead_end (evaluate_state est st s g pref) (ss_open_list st) \<Longrightarrow>
      I R owed (put_node s (mark_as_dead_end (node_of st s)) st)"
    and reopened: "I R owed st \<Longrightarrow> live st s \<Longrightarrow> usable_edge cfg st p oper s \<Longrightarrow> cheaper cfg st p oper s \<Longrightarrow>
      I R owed (insert_open (evaluate_state est (put_node s (reopened_node cfg st p oper s) st) s g pref) s
        (put_node s (reopened_node cfg st p oper s) st))"
    and reparented: "I R owed st \<Longrightarrow> live st s \<Longrightarrow> usable_edge cfg st p oper s \<Longrightarrow> cheaper cfg st p oper s \<Longrightarrow>
      I R owed (put_node s (reparented_node cfg st p oper s) st)"
    and requeued: "I R owed st \<Longrightarrow> owed \<subseteq> {int s} \<Longrightarrow> is_open (node_of st s) \<Longrightarrow>
      \<not> ol_is_dead_end (evaluate_state est st s g pref) (ss_open_list st) \<Longrightarrow>
      I R {} (insert_open (evaluate_state est st s g pref) s st)"
    and given_up: "I R owed st \<Longrightarrow> owed \<subseteq> {int s} \<Longrightarrow> is_open (node_of st s) \<Longrightarrow>
      ol_is_dead_end (evaluate_state est st s g pref) (ss_open_list st) \<Longrightarrow>
      I R {} (put_node s (mark_as_dead_end (node_of st s)) st)"
    and dropped: "I R owed st \<Longrightarrow> owed \<subseteq> {int s} \<Longrightarrow> violates_global_constraint (ss_world st) s \<or> \<not> is_open (node_of st s) \<Longrightarrow> I R {} st"
    and resumed: "I (insert x R) {} st \<Longrightarrow>
      I R ({x} \<inter> tm_suspended_states (ss_monitor st)) (st\<lparr>ss_monitor := snd (take_suspended x (ss_monitor st))\<rparr>)"
    and polled: "I {} {} st \<Longrightarrow> poll_bridge cx False (workers_run tick (ss_monitor st)) = (rs, m) \<Longrightarrow>
      I (rs_state_id ` set rs) {} (st\<lparr>ss_monitor := m\<rparr>)"
    and popped: "I {} {} st \<Longrightarrow> remove_min (ss_open_list st) key = Inr (s, k, q) \<Longrightarrow> I {} {int s} (st\<lparr>ss_open_list := q\<rparr>)"
    and suspended: "I {} {int s} st \<Longrightarrow> s \<in> known st \<Longrightarrow> suspend_if_pending (int s) (ss_monitor st) = (True, m) \<Longrightarrow>
      I {} {} (st\<lparr>ss_monitor := m\<rparr>)"
    and closed: "I {} {int s} st \<Longrightarrow> s \<in> known st \<Longrightarrow> \<not> is_closed (node_of st s) \<Longrightarrow>
      I {} {} (put_node s (close_node (node_of st s)) st)"
begin

lemma counted: "I R owed st \<Longrightarrow> I R owed (st\<lparr>ss_statistics := stats\<rparr>)"
  and progressed: "I R owed st \<Longrightarrow> I R owed (st\<lparr>ss_progress := best\<rparr>)"
  and reached: "I R owed st \<Longrightarrow> I R owed (st\<lparr>ss_heuristics := h\<rparr>)"
  and planned: "I R owed st \<Longrightarrow> I R owed (st\<lparr>ss_plan := plan\<rparr>)"
  by (erule quietly, simp add: unnoticed_def)+

lemma boosted:
  assumes "I R owed st"
  shows "I R owed (st\<lparr>ss_open_list := boost_preferred (ss_open_list st)\<rparr>)"
proof -
  have "ol_ok (ss_open_list st)" using base [OF assms] by (simp add: base_inv_def)
  from boost_preferred_ok [OF this] show ?thesis by (intro quietly [OF assms]) (simp add: unnoticed_def boost_preferred_dead)
qed

lemma told:
  assumes "I R owed st" "quiet_call ev" "event_states ev \<subseteq> int ` known st"
  shows "I R owed (st\<lparr>ss_monitor := monitor_call cx ev (ss_monitor st)\<rparr>)"
proof -
  have "monitor_inv (int ` known st) R (ss_monitor st)" using base [OF assms(1)] by (simp add: base_inv_def)
  from monitor_inv_quiet [OF this assms(2,3)] show ?thesis by (intro quietly [OF assms(1)]) (simp add: unnoticed_def)
qed

lemma kept_count: "I R owed st \<Longrightarrow> leads (I R owed) st (count f st)"
  by (simp add: leads_def later_same extends_refl) (simp add: count_def counted)

lemma kept_monitor:
  assumes "I R owed st" "quiet_call ev" "event_states ev \<subseteq> int ` known st"
  shows "leads (I R owed) st (with_monitor (monitor_call cx ev) st)"
proof -
  have "monitor_inv (int ` known st) R (ss_monitor st)" using base [OF assms(1)] by (simp add: base_inv_def)
  from monitor_inv_quiet(3) [OF this assms(2,3)] told [OF assms]
  show ?thesis by (simp add: leads_def later_same extends_refl) (simp add: with_monitor_def)
qed

lemma kept_record_open: "I R owed st \<Longrightarrow> leads (I R owed) st (with_monitor (record_open_state h) st)"
  using kept_monitor [of R owed st "OpenState h" undefined] by (simp add: with_monitor_def)

lemma kept_progress: "I R owed st \<Longrightarrow> leads (I R owed) st (note_progress cfg cx st)"
  using progressed boosted [of R owed "st\<lparr>ss_progress := b\<rparr>" for b]
  by (simp add: leads_def later_same extends_refl) (simp add: note_progress_def case_prod_beta Let_def)

lemma kept_f_value: "I R owed st \<Longrightarrow> leads (I R owed) st (report_f_value cfg cx st)"
  by (simp add: report_f_value_def kept_count leads_refl split: option.split)

lemma kept_reach: "I R owed st \<Longrightarrow> leads (I R owed) st (reach_successor cfg est p oper s st)"
  by (simp add: leads_def later_same extends_refl) (simp add: reach_successor_def reached)

lemma registered: "I R owed st \<Longrightarrow> s \<in> known st \<Longrightarrow> s < registry_size (ss_world st)"
  using base known_registered by blast

text \<open>Generating a successor.\<close>

lemma kept_successor:
  assumes st: "I R owed st" and p: "live st p" and oper: "oper < length (g_operators (w_task (ss_world st)))"
      "operator_is_applicable (state_value (ss_world st) p) (g_operators (w_task (ss_world st)) ! oper)" "within_bound cfg st p oper"
    and succ: "get_successor_state (ss_world st) p (g_operators (w_task (ss_world st)) ! oper) = Inr (s, w)"
  shows "leads (I R owed) st (count f (st\<lparr>ss_world := w\<rparr>))" "usable_edge cfg (count f (st\<lparr>ss_world := w\<rparr>)) p oper s"
    "s < registry_size w"
proof -
  have world: "world_ok (ss_world st)" "w_task (ss_world st) = t" using base [OF st] by (simp_all add: base_inv_def)
  have size: "p < registry_size (ss_world st)" using registered [OF st live_known [OF p]] .
  have operators: "\<forall>oper \<in> set (g_operators t). operator_ok t oper" using base [OF st] by (simp add: base_inv_def search_ok_def)
  then have "operator_ok (w_task (ss_world st)) (g_operators (w_task (ss_world st)) ! oper)" using oper(1) world(2) by simp
  note ext = successor_extends [OF world(1) size this succ]
  have edge: "edge w p oper s" by (rule successor_edge [OF world(1) size _ oper(1,2) succ]) (simp add: world(2) operators)
  have grow: "I R owed (st\<lparr>ss_world := w\<rparr>)" by (rule grown [OF st ext(1,2)])
  have "later st (st\<lparr>ss_world := w\<rparr>)" by (rule later_same) (simp_all add: ext(2))
  with grow show "leads (I R owed) st (count f (st\<lparr>ss_world := w\<rparr>))"
    using leads_trans [OF _ kept_count [OF grow]] by (simp add: leads_def)
  have "within_bound cfg (st\<lparr>ss_world := w\<rparr>) p oper" using oper(3) ext(2) by (simp add: within_bound_def extends_def)
  with p edge have "usable_edge cfg (st\<lparr>ss_world := w\<rparr>) p oper s" by (simp add: usable_edge_def live_def)
  then show "usable_edge cfg (count f (st\<lparr>ss_world := w\<rparr>)) p oper s" 
    by (subst usable_same [of _ "st\<lparr>ss_world := w\<rparr>"]) simp_all
  show "s < registry_size w" by (rule ext(3))
qed

lemma kept_open_new:
  assumes st: "I R owed st" and s: "is_new (node_of st s)" and e: "usable_edge cfg st p oper s"
    and r: "open_new_successor cfg est p oper s pref st = (inserted, st')"
  shows "leads (I R owed) st st'" "inserted \<Longrightarrow> live st' s" "s \<in> known st'"
proof -
  let ?cx = "evaluate_state est st s (ap_add (get_g (node_of st p)) (get_adjusted_cost cfg st oper)) pref"
  let ?st = "count inc_evaluated_states st"
  have s_reg: "s < registry_size (ss_world st)" using e by (simp add: usable_edge_def edge_def)
  have here: "leads (I R owed) st ?st" "I R owed ?st" using kept_count [OF st] by (simp_all add: leads_def)
  have e': "usable_edge cfg ?st p oper s" using e by (subst usable_same [of _ st]) simp_all
  have "leads (I R owed) st st' \<and> (inserted \<longrightarrow> live st' s) \<and> s \<in> known st'"
  proof (cases "ol_is_dead_end ?cx (ss_open_list st)")
    case True
    let ?dead = "put_node s (mark_as_dead_end (node_of ?st s)) ?st"
    have "I R owed ?dead" by (rule dead [OF here(2), of s]) (use s s_reg True in simp_all)
    moreover have "later ?st ?dead" using s s_reg by (intro later_put) (simp_all add: live_iff)
    ultimately have "leads (I R owed) ?st ?dead" by (simp add: leads_def)
    from leads_trans [OF here(1) leads_trans [OF this kept_count]] this
    have "leads (I R owed) st (count inc_dead_ends ?dead)" by (simp add: leads_def)
    moreover have "s \<in> known (count inc_dead_ends ?dead)" using s_reg by (simp add: known_def)
    ultimately show ?thesis using r True by (simp add: open_new_successor_def)
  next
    case False
    let ?opened = "insert_open ?cx s (put_node s (opened_node cfg ?st p oper s) ?st)"
    let ?told = "with_monitor (record_open_state (get_heuristic_value ?cx (sc_llm_h_evaluator cfg))) ?opened"
    have st': "inserted" "st' = note_progress cfg ?cx ?told" using r False by (simp_all add: open_new_successor_def Let_def)
    have opened: "I R owed ?opened" using opened [OF here(2), of s p oper] s e' False by simp
    have "later ?st (put_node s (opened_node cfg ?st p oper s) ?st)" using s s_reg by (intro later_put) simp_all
    then have into: "leads (I R owed) ?st ?opened" using opened by (intro leadsI later_insert)
    have told: "leads (I R owed) ?opened ?told" by (rule kept_record_open [OF opened])
    have noted: "leads (I R owed) ?told st'" unfolding st'(2) by (rule kept_progress [OF leadsD(1) [OF told]])
    have after: "leads (I R owed) ?opened st'" by (rule leads_trans [OF told noted])
    have "live ?opened s" using s_reg by (simp add: live_def insert_open_def)
    then have "live st' s" by (rule laterD(2) [OF leadsD(2) [OF after]])
    moreover have "leads (I R owed) st st'" by (rule leads_trans [OF here(1) leads_trans [OF into after]])
    ultimately show ?thesis using live_known by blast
  qed
  then show "leads (I R owed) st st'" "inserted \<Longrightarrow> live st' s" "s \<in> known st'" by simp_all
qed

lemma kept_improve:
  assumes st: "I R owed st" and s: "live st s" and e: "usable_edge cfg st p oper s" and c: "cheaper cfg st p oper s"
    and r: "improve_successor cfg est p oper s pref st = (inserted, st')"
  shows "leads (I R owed) st st'"
proof (cases "sc_reopen_closed_nodes cfg")
  case True
  let ?st = "if is_closed (node_of st s) then count inc_reopened st else st"
  let ?put = "put_node s (reopened_node cfg ?st p oper s) ?st"
  let ?cx = "evaluate_state est ?put s (get_g (node_of ?put s)) pref"
  have rest: "ss_world ?st = ss_world st" "ss_nodes ?st = ss_nodes st" by simp_all
  have s_reg: "s < registry_size (ss_world ?st)" using e by (simp add: usable_edge_def edge_def)
  have here: "leads (I R owed) st ?st" using kept_count [OF st] leads_refl [of "I R owed", OF st] by simp
  have "live ?st s" using s by (simp only: live_def rest)
  moreover have "usable_edge cfg ?st p oper s" using e usable_same [OF rest] by blast
  moreover have "cheaper cfg ?st p oper s" using c by (simp add: cheaper_def get_adjusted_cost_def)
  ultimately have I: "I R owed (insert_open ?cx s ?put)" by (rule reopened [OF leadsD(1) [OF here]])
  have "later ?st ?put" using s_reg by (intro later_put) simp_all
  then have into: "leads (I R owed) ?st (insert_open ?cx s ?put)" using I by (intro leadsI later_insert)
  have "st' = with_monitor (record_open_state (get_heuristic_value ?cx (sc_llm_h_evaluator cfg))) (insert_open ?cx s ?put)"
    using r True by (simp add: improve_successor_def Let_def)
  then show ?thesis using leads_trans [OF here leads_trans [OF into kept_record_open [OF I]]] by simp
next
  case False
  have s_reg: "s < registry_size (ss_world st)" using e by (simp add: usable_edge_def edge_def)
  have st': "st' = put_node s (reparented_node cfg st p oper s) st" using r False by (simp add: improve_successor_def)
  have "later st st'" unfolding st' using s s_reg live_iff [of st s] by (intro later_put) (auto simp: live_def)
  then show ?thesis using reparented [OF st s e c] by (simp add: st' leads_def)
qed

lemma kept_expand_operator:
  assumes st: "I R owed st" and p: "live st p" and oper: "oper < length (g_operators (w_task (ss_world st)))"
      "operator_is_applicable (state_value (ss_world st) p) (g_operators (w_task (ss_world st)) ! oper)"
    and r: "expand_operator cfg est p preferred oper st = Inr st'"
  shows "leads (I R owed) st st' \<and> covered cutoff st' p oper"
proof (cases "within_bound cfg st p oper")
  case False
  then have "st' = st" using r by (simp add: expand_operator_def within_bound_def)
  then show ?thesis using beyond [OF st p False] by (simp add: leads_refl [of "I R owed", OF st] covered_def)
next
  case True
  obtain s w where succ: "get_successor_state (ss_world st) p (g_operators (w_task (ss_world st)) ! oper) = Inr (s, w)"
    using r True by (auto simp: expand_operator_def within_bound_def bind_result_Inr_iff)
  let ?st = "count inc_generated (st\<lparr>ss_world := w\<rparr>)"
  let ?reached = "reach_successor cfg est p oper s ?st"
  note grow = kept_successor(1,2) [OF st p oper True succ, where f = inc_generated]
  have reach: "leads (I R owed) st ?reached" "I R owed ?reached" "usable_edge cfg ?reached p oper s"
    using leads_trans [OF grow(1) kept_reach [OF leadsD(1) [OF grow(1)]]] leadsD(1) grow(2) usable_same [of ?reached ?st]
    by (blast, blast, simp)
  have found: "covered cutoff st2 p oper" if "leads (I R owed) ?reached st2" "s \<in> known st2" for st2
    using that edge_extends [OF _ laterD(3) [OF leadsD(2) [OF that(1)]]] reach(3) by (auto simp: covered_def usable_edge_def)
  consider "is_dead_end (node_of ?st s)" "st' = ?st"
    | "\<not> is_dead_end (node_of ?st s)" "is_new (node_of ?reached s)"
        "st' = snd (open_new_successor cfg est p oper s (oper \<in> preferred) ?reached)"
    | "live ?reached s" "cheaper cfg ?reached p oper s"
        "st' = snd (improve_successor cfg est p oper s (oper \<in> preferred) ?reached)"
    | "st' = ?reached" "live ?reached s"
    using r True succ
    by (auto simp: expand_operator_def within_bound_def bind_result_Inr_iff Let_def cheaper_def live_iff get_adjusted_cost_def split: if_splits)
  then show ?thesis
  proof cases
    case 1
    then have "s \<in> known ?st" by (simp add: known_def is_new_def is_dead_end_def)
    then show ?thesis using grow 1(2) by (auto simp: covered_def usable_edge_def)
  next
    case 2
    obtain b where new: "open_new_successor cfg est p oper s (oper \<in> preferred) ?reached = (b, st')" using 2(3) by (metis prod.collapse)
    note kept = kept_open_new [OF reach(2) 2(2) reach(3) new]
    then show ?thesis using leads_trans [OF reach(1) kept(1)] found [OF kept(1) kept(3)] by blast
  next
    case 3
    obtain b where imp: "improve_successor cfg est p oper s (oper \<in> preferred) ?reached = (b, st')" using 3(3) by (metis prod.collapse)
    note kept = kept_improve [OF reach(2) 3(1) reach(3) 3(2) imp]
    then show ?thesis
      using leads_trans [OF reach(1) kept] found [OF kept laterD(1) [OF leadsD(2) [OF kept] live_known [OF 3(1)]]] by blast
  next
    case 4
    then show ?thesis using reach(1) found [OF leads_refl [of "I R owed", OF reach(2)] live_known [OF 4(2)]] by blast
  qed
qed

lemma covered_later: "covered cutoff st s oper \<Longrightarrow> grows X st st' \<Longrightarrow> covered cutoff st' s oper"
  using edge_extends beyond_extends by (fastforce simp: covered_def grows_def)

lemma finished_later:
  assumes "finished cfg cutoff st s" "grows X st st'" "s < registry_size (ss_world st)"
  shows "finished cfg cutoff st' s"
proof -
  have w: "extends (ss_world st) (ss_world st')" using assms(2) by (simp add: grows_def)
  obtain w0 ops where ops: "extends w0 (ss_world st)" "s < registry_size w0"
      "set ops = {i. i < length (g_operators (w_task w0)) \<and> operator_is_applicable (state_value w0 s) (g_operators (w_task w0) ! i)}"
      "\<forall>oper \<in> set (sc_prune cfg w0 s ops). covered cutoff st s oper"
    using assms(1) by (auto simp: finished_def)
  have "\<forall>oper \<in> set (sc_prune cfg w0 s ops). covered cutoff st' s oper" using ops(4) covered_later [OF _ assms(2)] by blast
  moreover have "\<not> test_goal (w_task (ss_world st')) (state_value (ss_world st') s)"
    using assms(1) w extends_value [OF w assms(3)] by (simp add: finished_def extends_def)
  ultimately show ?thesis using ops(2,3) extends_trans [OF ops(1) w] unfolding finished_def by blast
qed

lemma kept_expand_operators:
  assumes "I R owed st" "live st p"
    and "\<forall>oper \<in> set opers. oper < length (g_operators t) \<and> operator_is_applicable (state_value (ss_world st) p) (g_operators t ! oper)"
    and "expand_operators cfg est p preferred opers st = Inr st'"
  shows "leads (I R owed) st st' \<and> (\<forall>oper \<in> set opers. covered cutoff st' p oper)"
  using assms
proof (induction opers arbitrary: st)
  case Nil
  then show ?case by (simp add: leads_refl)
next
  case (Cons oper opers)
  obtain st1 where st1: "expand_operator cfg est p preferred oper st = Inr st1" "expand_operators cfg est p preferred opers st1 = Inr st'"
    using Cons.prems(4) by (auto simp: bind_result_Inr_iff)
  have t: "w_task (ss_world st) = t" using base [OF Cons.prems(1)] by (simp add: base_inv_def)
  have "leads (I R owed) st st1 \<and> covered cutoff st1 p oper" using Cons.prems by (intro kept_expand_operator [OF _ _ _ _ st1(1)]) (simp_all add: t)
  then have step: "leads (I R owed) st st1" and cov: "covered cutoff st1 p oper" by simp_all
  have p: "p < registry_size (ss_world st)" using registered [OF Cons.prems(1) live_known [OF Cons.prems(2)]] .
  have "state_value (ss_world st1) p = state_value (ss_world st) p" by (rule extends_value [OF laterD(3) [OF leadsD(2) [OF step]] p])
  then have rest: "leads (I R owed) st1 st'" "\<forall>oper \<in> set opers. covered cutoff st' p oper"
    using Cons.IH [OF leadsD(1) [OF step] laterD(2) [OF leadsD(2) [OF step] Cons.prems(2)] _ st1(2)] Cons.prems(3) by simp_all
  then show ?case using leads_trans [OF step rest(1)] covered_later [OF cov laterD(4) [OF leadsD(2) [OF rest(1)]]] by simp
qed

lemma kept_inject_actions:
  assumes "I R owed st" "s \<in> known st" "inject_actions cfg est actions s applied inserted st = Inr (a, n, st')"
  shows "leads (I R owed) st st'"
  using assms
proof (induction actions arbitrary: s applied inserted st)
  case Nil
  then show ?case by (simp add: leads_refl)
next
  case (Cons raw actions)
  show ?case
  proof (cases "st' = st")
    case True
    then show ?thesis using Cons.prems(1) by (simp add: leads_refl)
  next
    case False
    let ?w = "ss_world st"
    obtain oper where found: "resolve_action (operator_by_name (w_task ?w)) ?w s raw = \<lparr>res_status = FOUND, res_op = Some oper\<rparr>"
      using False Cons.prems(3) resolve_FOUND [of "operator_by_name (w_task ?w)" ?w s raw]
      by (cases "res_status (resolve_action (operator_by_name (w_task ?w)) ?w s raw)") (auto simp: Let_def)
    have s: "live st s" "within_bound cfg st s oper"
      using False Cons.prems(2,3) found by (auto simp: Let_def live_iff known_def within_bound_def split: if_splits)
    obtain s1 w where succ: "get_successor_state ?w s (g_operators (w_task ?w) ! oper) = Inr (s1, w)"
      using False Cons.prems(3) found s
      by (auto simp: Let_def live_iff within_bound_def bind_result_Inr_iff apply_action_def split: if_splits)
    note oper = resolve_FOUND_operator [OF found]
    let ?st = "count inc_generated (st\<lparr>ss_world := w\<rparr>)"
    let ?reached = "reach_successor cfg est s oper s1 ?st"
    note grow = kept_successor(1,2) [OF Cons.prems(1) s(1) oper s(2) succ, where f = inc_generated]
    have reach: "leads (I R owed) st ?reached" "I R owed ?reached" "usable_edge cfg ?reached s oper s1"
      using leads_trans [OF grow(1) kept_reach [OF leadsD(1) [OF grow(1)]]] leadsD(1) grow(2) usable_same [of ?reached ?st]
      by (blast, blast, simp)
    have rest: "leads (I R owed) st st'" if "inject_actions cfg est actions s1 x y st2 = Inr (a, n, st')" "leads (I R owed) ?reached st2" "live st2 s1" for x y st2
      by (rule leads_trans [OF reach(1) leads_trans [OF that(2) Cons.IH [OF leadsD(1) [OF that(2)] live_known [OF that(3)] that(1)]]])
    consider "is_dead_end (node_of ?st s1)" "st' = ?st"
      | "\<not> is_dead_end (node_of ?st s1)" "is_new (node_of ?reached s1)"
      | "\<not> is_dead_end (node_of ?st s1)" "live ?reached s1" "cheaper cfg ?reached s oper s1"
      | "live ?reached s1" "inject_actions cfg est actions s1 (applied + 1) inserted ?reached = Inr (a, n, st')"
      using Cons.prems(3) False found s succ
      by (auto simp: live_iff within_bound_def apply_action_def Let_def cheaper_def get_adjusted_cost_def split: if_splits)
    then show ?thesis
    proof cases
      case 1
      then show ?thesis using grow(1) by simp
    next
      case 2
      obtain b st2 where new: "open_new_successor cfg est s oper s1 False ?reached = (b, st2)" by fastforce
      note kept = kept_open_new [OF reach(2) 2(2) reach(3) new]
      have "st' = st2 \<and> \<not> b \<or> b \<and> inject_actions cfg est actions s1 (applied + 1) (inserted + 1) st2 = Inr (a, n, st')"
        using Cons.prems(3) found s succ 2 new
        by (cases b) (simp_all add: live_iff within_bound_def apply_action_def Let_def)
      then show ?thesis using leads_trans [OF reach(1) kept(1)] rest [OF _ kept(1) kept(2)] by blast
    next
      case 3
      obtain b st2 where imp: "improve_successor cfg est s oper s1 False ?reached = (b, st2)" by fastforce
      note kept = kept_improve [OF reach(2) 3(2) reach(3) 3(3) imp]
      have "\<exists>x. inject_actions cfg est actions s1 (applied + 1) x st2 = Inr (a, n, st')"
        using Cons.prems(3) found s succ 3 imp
        by (auto simp: live_iff within_bound_def apply_action_def Let_def cheaper_def get_adjusted_cost_def)
      then show ?thesis using rest [OF _ kept laterD(2) [OF leadsD(2) [OF kept] 3(2)]] by blast
    next
      case 4
      then show ?thesis using rest [OF 4(2) leads_refl [of "I R owed", OF reach(2)]] by blast
    qed
  qed
qed

lemma kept_inject_chains:
  assumes "I R owed st" "nat x \<in> known st" "inject_chains cfg est x xss st = Inr st'"
  shows "leads (I R owed) st st'"
  using assms
proof (induction xss arbitrary: st)
  case Nil
  then show ?case by (simp add: leads_refl)
next
  case (Cons actions xss)
  obtain st1 where st1: "(if actions = [] then Inr st else inject_llm_action_chain cfg est x actions st) = Inr st1"
      "inject_chains cfg est x xss st1 = Inr st'"
    using Cons.prems(3) by (auto simp: bind_result_Inr_iff simp del: split_paired_Ex)
  have "leads (I R owed) st st1"
  proof (cases "actions = []")
    case True
    then show ?thesis using st1(1) Cons.prems(1) by (simp add: leads_refl)
  next
    case False
    then obtain a n st2 where st2: "inject_actions cfg est actions (nat x) 0 0 st = Inr (a, n, st2)" "st1 = with_monitor (record_injected_chain a n) st2"
      using st1(1) by (auto simp: inject_llm_action_chain_def bind_result_Inr_iff)
    note step = kept_inject_actions [OF Cons.prems(1,2) st2(1)]
    have "leads (I R owed) st2 st1"
      using kept_monitor [OF leadsD(1) [OF step], of "InjectedChain a n" undefined] st2(2) by (simp add: with_monitor_def)
    then show ?thesis by (rule leads_trans [OF step])
  qed
  note step = this
  show ?case by (rule leads_trans [OF step Cons.IH [OF leadsD(1) [OF step] laterD(1) [OF leadsD(2) [OF step] Cons.prems(2)] st1(2)]])
qed

lemma kept_use_response:
  assumes st: "I R owed st" and source: "nat (rs_state_id response) \<in> known st" and r: "use_response cfg est response st = Inr st'"
  shows "leads (I R owed) st st'"
proof -
  have told: "leads (I R owed) st (with_monitor record_usable_response st)"
    using kept_monitor [OF st, of UsableResponse undefined] by (simp add: with_monitor_def)
  have "known (with_monitor record_usable_response st) = known st" by (simp add: known_def)
  then show ?thesis
    using r kept_inject_chains [OF st source] leads_trans [OF told kept_inject_chains [OF leadsD(1) [OF told]]] source st told
    by (auto simp: use_response_def Let_def leads_refl split: if_splits)
qed

lemma open_known: "I R owed st \<Longrightarrow> is_open (node_of st s) \<Longrightarrow> s < registry_size (ss_world st)"
  using registered by (simp add: known_def is_open_def is_new_def)

text \<open>Putting a resumed state back into the open list pays what is owed.\<close>

lemma kept_requeue:
  assumes st: "I R owed st" and owed: "owed \<subseteq> {int (nat x)}" and skip: "tc_skip_pending (tm_config (ss_monitor st))"
  shows "I R {} (requeue_llm_source cfg est x st) \<and> grows {} st (requeue_llm_source cfg est x st)"
proof -
  let ?s = "nat x"
  let ?cx = "evaluate_state est st ?s (get_g (node_of st ?s)) False"
  show ?thesis
  proof (cases "is_open (node_of st ?s) \<and> \<not> is_dead_end (node_of st ?s)")
    case False
    then have "\<not> is_open (node_of st ?s)" by (auto simp: is_open_def is_dead_end_def)
    then show ?thesis using dropped [OF st owed] False skip grows_refl by (auto simp: requeue_llm_source_def Let_def)
  next
    case True
    note opn = conjunct1 [OF True]
    show ?thesis
    proof (cases "ol_is_dead_end ?cx (ss_open_list st)")
      case dead: True
      have I: "I R {} (put_node ?s (mark_as_dead_end (node_of st ?s)) st)" by (rule given_up [OF st owed opn dead])
      have "grows {} st (put_node ?s (mark_as_dead_end (node_of st ?s)) st)" by (rule grows_put [OF open_known [OF st opn]]) simp_all
      then show ?thesis
        using True dead skip leadsD [OF kept_count [OF I]] grows_trans [OF _ laterD(4)] by (simp add: requeue_llm_source_def Let_def) blast
    next
      case alive: False
      have I: "I R {} (insert_open ?cx ?s st)" by (rule requeued [OF st owed opn alive])
      have "grows {} st (insert_open ?cx ?s st)" by (rule grows_same) (simp_all add: extends_refl)
      then show ?thesis
        using True alive skip leadsD [OF kept_record_open [OF I]] grows_trans [OF _ laterD(4)]
        by (simp add: requeue_llm_source_def Let_def record_frontier_reinsert_def [abs_def]) blast
    qed
  qed
qed

lemma kept_handle_response:
  assumes st: "I (insert (rs_state_id response) R) {} st" and r: "handle_response cfg est response st = Inr st'"
  shows "I R {} st' \<and> grows {} st st'"
proof -
  let ?x = "rs_state_id response"
  let ?st = "st\<lparr>ss_monitor := snd (take_suspended ?x (ss_monitor st))\<rparr>"
  have inv: "?x \<in> int ` known st" "monitor_inv (int ` known st) (insert ?x R) (ss_monitor st)"
    using base [OF st] by (simp_all add: base_inv_def)
  have taken: "I R ({?x} \<inter> tm_suspended_states (ss_monitor st)) ?st" by (rule resumed [OF st])
  obtain st1 where st1: "use_response cfg est response ?st = Inr st1"
      "st' = (if fst (take_suspended ?x (ss_monitor st)) then requeue_llm_source cfg est ?x st1 else st1)"
    using r by (auto simp: handle_response_def Let_def bind_result_Inr_iff with_monitor_def)
  have "nat ?x \<in> known ?st" using inv(1) by (auto simp: known_def)
  note used = kept_use_response [OF taken this st1(1)]
  have "grows {} st ?st" by (rule grows_same) (simp_all add: extends_refl)
  then have so_far: "grows {} st st1" using grows_trans [OF _ laterD(4) [OF leadsD(2) [OF used]]] by blast
  show ?thesis
  proof (cases "?x \<in> tm_suspended_states (ss_monitor st)")
    case True
    then have "tc_skip_pending (tm_config (ss_monitor ?st))"
      using inv(2) by (auto simp: monitor_inv_def monitor_ok_def take_suspended_def)
    then have "tc_skip_pending (tm_config (ss_monitor st1))" using leadsD(2) [OF used] by (simp add: later_def)
    moreover have "int (nat ?x) = ?x" using inv(1) by auto
    ultimately have "I R {} (requeue_llm_source cfg est ?x st1) \<and> grows {} st1 (requeue_llm_source cfg est ?x st1)"
      using kept_requeue [OF leadsD(1) [OF used]] by simp
    then show ?thesis using st1(2) True grows_trans [OF so_far] by (simp add: take_suspended_def) blast
  next
    case False
    then show ?thesis using st1(2) leadsD(1) [OF used] so_far by (simp add: take_suspended_def)
  qed
qed

lemma kept_handle_responses:
  "I (rs_state_id ` set responses) {} st \<Longrightarrow> handle_responses cfg est responses st = Inr st' \<Longrightarrow> I {} {} st' \<and> grows {} st st'"
proof (induction responses arbitrary: st)
  case (Cons response responses)
  then obtain st1 where st1: "handle_response cfg est response st = Inr st1" "handle_responses cfg est responses st1 = Inr st'"
    by (auto simp: bind_result_Inr_iff)
  then have "I (rs_state_id ` set responses) {} st1" "grows {} st st1"
    using Cons.prems(1) kept_handle_response [of response "rs_state_id ` set responses" st st1] by simp_all
  then show ?case using Cons.IH [OF _ st1(2)] grows_trans [of "{}" st st1 "{}" st' "{}"] by simp
qed (simp add: grows_refl)

lemma kept_poll:
  assumes "I {} {} st" "poll_llm_responses cfg est tick st = Inr st'"
  shows "I {} {} st' \<and> grows {} st st'"
proof -
  obtain rs m where "poll_bridge (fst tick) False (workers_run tick (ss_monitor st)) = (rs, m)" by fastforce
  then show ?thesis using kept_handle_responses [OF polled [OF assms(1)]] assms(2) by (simp add: poll_llm_responses_def grows_def known_def)
qed

text \<open>What \<open>fetch_next_node\<close> does with the state it took out.\<close>

lemma kept_recheck:
  assumes st: "I {} {int s} st" and s: "s \<in> known st" "\<not> is_closed (node_of st s)"
    and r: "recheck_node cfg est s key st = Inr (skip, st')"
  shows "if skip then I {} {} st' \<and> grows {} st st' else st' = st"
proof (cases "skip")
  case False
  then show ?thesis using r by (simp add: recheck_node_def Let_def split: if_splits)
next
  case True
  let ?cx = "evaluate_state est st s (get_g (node_of st s)) False"
  consider "is_dead_end (node_of st s)" "st' = st"
    | "\<not> is_dead_end (node_of st s)" "ol_is_dead_end ?cx (ss_open_list st)"
        "st' = count inc_dead_ends (put_node s (mark_as_dead_end (node_of st s)) st)"
    | "\<not> is_dead_end (node_of st s)" "\<not> ol_is_dead_end ?cx (ss_open_list st)"
        "st' = with_monitor (record_open_state (get_heuristic_value ?cx (sc_llm_h_evaluator cfg))) (insert_open ?cx s st)"
    using r True by (auto simp: recheck_node_def Let_def record_frontier_reinsert_def [abs_def] split: if_splits)
  then have "I {} {} st' \<and> grows {} st st'"
  proof cases
    case 1
    then show ?thesis using dropped [OF st, of s] by (simp add: is_open_def is_dead_end_def grows_refl)
  next
    case 2
    then have "is_open (node_of st s)" using s by (auto simp: known_def is_open_def is_closed_def is_dead_end_def is_new_def intro: node_status.exhaust)
    from given_up [OF st _ this 2(2)] have I: "I {} {} (put_node s (mark_as_dead_end (node_of st s)) st)" by simp
    have "grows {} st (put_node s (mark_as_dead_end (node_of st s)) st)" by (rule grows_put [OF registered [OF st s(1)]]) simp_all
    then show ?thesis using 2(3) leadsD [OF kept_count [OF I]] grows_trans [OF _ laterD(4)] by blast
  next
    case 3
    then have "is_open (node_of st s)" using s by (auto simp: known_def is_open_def is_closed_def is_dead_end_def is_new_def intro: node_status.exhaust)
    from requeued [OF st _ this 3(2)] have I: "I {} {} (insert_open ?cx s st)" by simp
    have "grows {} st (insert_open ?cx s st)" by (rule grows_same) (simp_all add: extends_refl)
    then show ?thesis using 3(3) leadsD [OF kept_record_open [OF I]] grows_trans [OF _ laterD(4)] by blast
  qed
  then show ?thesis using True by simp
qed

lemma kept_record_expansion:
  assumes st: "I {} {} st" and s: "s \<in> known st"
  shows "leads (I {} {}) st (record_expansion cfg est cx s key st)"
proof -
  let ?h = "key ! nat (sc_llm_h_open_list_key_index cfg)"
  let ?st1 = "with_monitor (record_expanded cx (int s) (get_g (node_of st s)) ?h) st"
  let ?st2 = "with_monitor (\<lambda>m. snd (should_check_ancestor m)) ?st1"
  let ?st3 = "with_monitor (\<lambda>m. snd (request_ancestor cx (int s) (get_g (node_of st s)) ?h m)) ?st2"
  have in_st: "int s \<in> int ` known (with_monitor f st')" if "known st' = known st" for f and st' :: "'h search_state"
    using that s by (simp add: known_def)
  have none: "leads (I {} {}) st (with_monitor record_expanded_without_h st)"
    using kept_monitor [OF st, of ExpandedWithoutH undefined] by (simp add: with_monitor_def)
  have one: "leads (I {} {}) st ?st1"
    using kept_monitor [OF st, of "Expanded (int s) (get_g (node_of st s)) ?h" cx] s by (simp add: with_monitor_def)
  have two: "leads (I {} {}) ?st1 ?st2"
    using kept_monitor [OF leadsD(1) [OF one], of CheckAncestor undefined] by (simp add: with_monitor_def)
  have "known ?st2 = known st" by (simp add: known_def)
  then have three: "leads (I {} {}) ?st2 ?st3"
    using kept_monitor [OF leadsD(1) [OF two], of "RequestAncestor (int s) (get_g (node_of st s)) ?h" cx] s by (simp add: with_monitor_def)
  have "record_expansion cfg est cx s key st \<in> {with_monitor record_expanded_without_h st, ?st2, ?st3}"
    by (auto simp: record_expansion_def Let_def with_monitor_def split: prod.split)
  then show ?thesis using none leads_trans [OF one two] leads_trans [OF leads_trans [OF one two] three]
    by (elim insertE emptyE) (simp_all only:)
qed

lemma kept_close:
  assumes st: "I {} {int s} st" and s: "s \<in> known st" "\<not> is_closed (node_of st s)"
  shows "I {} {} (close_for_expansion cfg est cx s key st)" "live (close_for_expansion cfg est cx s key st) s"
    "grows {s} st (close_for_expansion cfg est cx s key st)"
proof -
  let ?closed = "put_node s (close_node (node_of st s)) st"
  let ?cx = "evaluate_state est ?closed s (get_g (node_of ?closed s)) False"
  let ?counted = "count inc_expanded (report_f_value cfg ?cx ?closed)"
  have closed: "I {} {} ?closed" by (rule closed [OF st s])
  note f = kept_f_value [OF closed, of ?cx]
  have counted: "leads (I {} {}) ?closed ?counted" by (rule leads_trans [OF f kept_count [OF leadsD(1) [OF f]]])
  have live: "live ?closed s" using registered [OF st s(1)] by (simp add: live_def)
  note live' = laterD(2) [OF leadsD(2) [OF counted] live]
  note expanded = kept_record_expansion [OF leadsD(1) [OF counted] live_known [OF live'], of cx key]
  have "grows {s} st ?closed" by (rule grows_put [OF registered [OF st s(1)]]) simp_all
  then show "grows {s} st (close_for_expansion cfg est cx s key st)"
    using grows_trans [OF _ laterD(4) [OF later_trans [OF leadsD(2) [OF counted] leadsD(2) [OF expanded]]]] by (simp add: close_for_expansion_def Let_def)
  from expanded show "I {} {} (close_for_expansion cfg est cx s key st)" "live (close_for_expansion cfg est cx s key st) s"
    using leadsD(1) [OF expanded] laterD(2) [OF leadsD(2) [OF expanded] live'] by (simp_all add: close_for_expansion_def Let_def)
qed

lemma kept_consider:
  assumes st: "I {} {int s} st" and s: "s \<in> known st" and r: "consider_state cfg est cx s key st = Inr (rd, st')"
  shows "I {} {} st' \<and> rd \<noteq> NoState \<and> (\<forall>x. rd = Fetched x \<longrightarrow> live st' x) \<and> grows {x. rd = Fetched x} st st'"
proof (cases "violates_global_constraint (ss_world st) s \<or> is_closed (node_of st s)")
  case True
  then have "I {} {} st" using dropped [OF st, of s] by (auto simp: is_open_def is_closed_def)
  moreover have "rd = Again" "st' = st" using r True by (simp_all add: consider_state_def split: if_splits)
  ultimately show ?thesis by (simp add: grows_refl)
next
  case False
  obtain b m where sus: "suspend_if_pending (int s) (ss_monitor st) = (b, m)" by fastforce
  show ?thesis
  proof (cases b)
    case True
    then have "I {} {} (st\<lparr>ss_monitor := m\<rparr>)" using suspended [OF st s] sus by simp
    moreover have "grows {} st (st\<lparr>ss_monitor := m\<rparr>)" by (rule grows_same) (simp_all add: extends_refl)
    ultimately show ?thesis using r False sus True by (simp add: consider_state_def)
  next
    case go: False
    then have "st\<lparr>ss_monitor := m\<rparr> = st" using suspend_if_pending_False sus by simp
    then obtain skip st1 where st1: "recheck_node cfg est s key st = Inr (skip, st1)"
        "(rd, st') = (if skip then (Again, st1) else (Fetched s, close_for_expansion cfg est cx s key st1))"
      using r False sus go by (auto simp: consider_state_def bind_result_Inr_iff)
    note kept_recheck [OF st s _ st1(1)]
    then show ?thesis using False st1(2) kept_close [OF st s, of cx key] by (auto split: if_splits)
  qed
qed

lemma kept_fetch_round:
  assumes st: "I {} {} st" and r: "fetch_round cfg est tick st = Inr (rd, st')"
  shows "I {} {} st' \<and> (\<forall>x. rd = Fetched x \<longrightarrow> live st' x) \<and> grows {x. rd = Fetched x} st st' \<and>
    (rd = NoState \<longrightarrow> ol_empty (ss_open_list st') \<and> \<not> has_pending_requests (ss_monitor st'))"
proof -
  obtain st1 where st1: "poll_llm_responses cfg est tick st = Inr st1" using r by (auto simp: fetch_round_def bind_result_Inr_iff)
  have I: "I {} {} st1" and g: "grows {} st st1" using kept_poll [OF st st1] by simp_all
  show ?thesis
  proof (cases "ol_empty (ss_open_list st1)")
    case True
    then show ?thesis using r st1 I g by (auto simp: fetch_round_def split: if_splits)
  next
    case False
    then obtain key s k q where q: "remove_min (ss_open_list st1) key = Inr (s, k, q)"
        "consider_state cfg est (fst tick) s k (st1\<lparr>ss_open_list := q\<rparr>) = Inr (rd, st')"
      using r st1 by (auto simp: fetch_round_def bind_result_Inr_iff Let_def)
    have base: "ol_ok (ss_open_list st1)" "set_mset (ol_entries (ss_open_list st1)) \<subseteq> known st1"
      using base [OF I] by (simp_all add: base_inv_def)
    have "s \<in> known (st1\<lparr>ss_open_list := q\<rparr>)" using ol_remove_entries [OF base(1) q(1)] base(2) by (auto simp: known_def)
    note kept_consider [OF popped [OF I q(1)] this q(2)]
    moreover have "grows {} st1 (st1\<lparr>ss_open_list := q\<rparr>)" by (rule grows_same) (simp_all add: extends_refl)
    ultimately show ?thesis using grows_trans [OF g grows_trans [of "{}" st1 "st1\<lparr>ss_open_list := q\<rparr>"]] by blast
  qed
qed

lemma kept_fetch:
  assumes "I {} {} st" "fetch_next_node cfg est ticks st = Some (Inr (found, ticks', st'))"
  shows "I {} {} st' \<and> grows (set_option found) st st' \<and> (case found of
      None \<Rightarrow> ol_empty (ss_open_list st') \<and> \<not> has_pending_requests (ss_monitor st') | Some s \<Rightarrow> live st' s)"
  using assms
proof (induction ticks arbitrary: st)
  case (Cons tick ticks)
  obtain rd st1 where st1: "fetch_round cfg est tick st = Inr (rd, st1)"
    using Cons.prems(2) by (cases "fetch_round cfg est tick st") auto
  note one = kept_fetch_round [OF Cons.prems(1) st1]
  show ?case
  proof (cases rd)
    case Again
    then show ?thesis using one Cons.IH [of st1] Cons.prems(2) st1 grows_trans [of "{}" st st1 "set_option found" st' "set_option found"] by simp
  qed (use one Cons.prems(2) st1 in auto)
qed simp

text \<open>Expanding a state, a step, the search.\<close>

lemma kept_goal:
  assumes "I {} {} st" "check_goal_and_set_plan s st = Some (goal, st')"
  shows "I {} {} st' \<and> ss_world st' = ss_world st \<and> ss_nodes st' = ss_nodes st \<and> ss_monitor st' = ss_monitor st \<and>
    (goal \<longleftrightarrow> test_goal (w_task (ss_world st)) (state_value (ss_world st) s)) \<and>
    (goal \<longrightarrow> (\<exists>plan. trace_path (ss_nodes st) s = Some plan \<and> ss_plan st' = Some plan))"
  using assms planned by (auto simp: check_goal_and_set_plan_def split: if_splits)

lemma kept_expand_state:
  assumes st: "I {} {} st" and s: "live st s" and r: "expand_state cfg est s st = Inr st'"
  shows "leads (I {} {}) st st'" "\<not> test_goal t (state_value (ss_world st) s) \<Longrightarrow> finished cfg cutoff st' s"
proof -
  let ?w = "ss_world st"
  let ?ops = "generate_applicable_ops (SuccessorGenerator_make t) (state_value ?w s)"
  have world: "world_ok ?w" "w_task ?w = t" and search: "search_ok cfg t" using base [OF st] by (simp_all add: base_inv_def)
  have s_reg: "s < registry_size ?w" using registered [OF st live_known [OF s]] .
  have "state_in_domains t (state_value ?w s)"
    using world_okD(11) [OF world(1) s_reg] by (simp add: state_in_domains_def world(2))
  then have ops: "set ?ops = {i. i < length (g_operators t) \<and> operator_is_applicable (state_value ?w s) (g_operators t ! i)}"
    using mset_eq_setD [OF generator_lists_applicable] search by (auto simp: set_eq_iff search_ok_def)
  then have "\<forall>oper \<in> set (sc_prune cfg ?w s ?ops). oper < length (g_operators t) \<and> operator_is_applicable (state_value ?w s) (g_operators t ! oper)"
    using search unfolding search_ok_def by blast
  from kept_expand_operators [OF st s this] r
  have exp: "leads (I {} {}) st st'" "\<forall>oper \<in> set (sc_prune cfg ?w s ?ops). covered cutoff st' s oper"
    unfolding expand_state_def Let_def world(2) by blast+
  then show "leads (I {} {}) st st'" by simp
  have w': "extends ?w (ss_world st')" using laterD(3) [OF leadsD(2) [OF exp(1)]] .
  then show "finished cfg cutoff st' s" if "\<not> test_goal t (state_value (ss_world st) s)"
    using that exp(2) ops s_reg world(2) extends_value [OF w' s_reg] unfolding finished_def by (auto simp: extends_def)
qed

lemma kept_finished:
  assumes "I {} {} st" "closed_finished cfg cutoff st" "grows X st st'" "\<forall>s \<in> X. finished cfg cutoff st' s"
  shows "closed_finished cfg cutoff st'"
proof -
  have "finished cfg cutoff st' s" if "is_closed (node_of st' s)" for s
  proof (cases "s \<in> X")
    case False
    then have closed: "is_closed (node_of st s)" using assms(3) that by (auto simp: grows_def)
    then have "s < registry_size (ss_world st)" using registered [OF assms(1)] by (simp add: known_def is_closed_def is_new_def)
    then show ?thesis using finished_later [OF _ assms(3)] assms(2) closed by (simp add: closed_finished_def)
  qed (use assms(4) in blast)
  then show ?thesis by (simp add: closed_finished_def)
qed

lemma kept_step:
  assumes st: "I {} {} st" "closed_finished cfg cutoff st" and r: "eager_step cfg est ticks st = Some (Inr (status, ticks', st'))"
  shows "(\<exists>R. I R {} st') \<and> (status \<noteq> SOLVED \<longrightarrow> I {} {} st' \<and> closed_finished cfg cutoff st' \<and> known st \<subseteq> known st') \<and> status \<noteq> TIMEOUT \<and>
    (status = FAILED \<longrightarrow> ol_empty (ss_open_list st') \<and> \<not> has_pending_requests (ss_monitor st')) \<and>
    (status = SOLVED \<longrightarrow> (\<exists>s plan. live st' s \<and> test_goal t (state_value (ss_world st') s) \<and>
      trace_path (ss_nodes st') s = Some plan \<and> ss_plan st' = Some plan))"
proof -
  obtain found ticks1 st1 where st1: "fetch_next_node cfg est ticks st = Some (Inr (found, ticks1, st1))"
    using r by (auto simp: eager_step_def split: option.splits sum.splits)
  note fetched = kept_fetch [OF st(1) st1]
  show ?thesis
  proof (cases found)
    case None
    then have "closed_finished cfg cutoff st1" "known st \<subseteq> known st1"
      using kept_finished [OF st, of "{}" st1] fetched by (simp_all add: grows_def)
    then show ?thesis using None fetched r st1 by (auto simp: eager_step_def)
  next
    case (Some s)
    then have I1: "I {} {} st1" "live st1 s" and g1: "grows {s} st st1" using fetched by simp_all
    obtain goal st2 where goal: "check_goal_and_set_plan s st1 = Some (goal, st2)"
      using r st1 Some by (auto simp: eager_step_def split: option.splits)
    note st2 = kept_goal [OF I1(1) goal]
    then have live2: "live st2 s" "I {} {} st2" using I1 by (simp_all add: live_def)
    have t: "w_task (ss_world st1) = t" using base [OF I1(1)] by (simp add: base_inv_def)
    obtain tick rest where ticks: "ticks1 = tick # rest" using r st1 Some goal by (auto simp: eager_step_def split: list.splits)
    show ?thesis
    proof (cases goal)
      case True
      then have out: "status = SOLVED" "st' = with_monitor (\<lambda>m. snd (poll_bridge (fst tick) False (workers_run tick m))) st2"
        using r st1 Some goal ticks by (simp_all add: eager_step_def)
      obtain rs m where m: "poll_bridge (fst tick) False (workers_run tick (ss_monitor st2)) = (rs, m)" by fastforce
      have "I (rs_state_id ` set rs) {} st'" using polled [OF live2(2) m] by (simp add: out(2) with_monitor_def m)
      moreover have "live st' s" using live2 by (simp add: out(2) live_def)
      ultimately show ?thesis using out st2 True t by auto
    next
      case False
      then obtain st3 where st3: "expand_state cfg est s st2 = Inr st3" "poll_llm_responses cfg est tick st3 = Inr st'" "status = IN_PROGRESS"
        using r st1 Some goal ticks by (auto simp: eager_step_def bind_result_Inr_iff)
      note exp = kept_expand_state [OF live2(2,1) st3(1)]
      have last: "I {} {} st'" "grows {} st3 st'" using kept_poll [OF leadsD(1) [OF exp(1)] st3(2)] by simp_all
      have "grows {} st1 st2" using st2 by (intro grows_same) (simp_all add: extends_refl)
      then have "grows {s} st st3" using grows_trans [OF g1 grows_trans [OF _ laterD(4) [OF leadsD(2) [OF exp(1)]]]] by blast
      then have g: "grows {s} st st'" using grows_trans [OF _ last(2)] by blast
      have reg: "s < registry_size (ss_world st3)" by (rule registered [OF leadsD(1) [OF exp(1)] live_known [OF laterD(2) [OF leadsD(2) [OF exp(1)] live2(1)]]])
      have "finished cfg cutoff st3 s" using exp(2) st2 False t by simp
      then have "closed_finished cfg cutoff st'" using kept_finished [OF st g] finished_later [OF _ last(2) reg] by simp
      then show ?thesis using last(1) g st3(3) by (auto simp: grows_def)
    qed
  qed
qed

lemma kept_loop:
  assumes "I {} {} st" "closed_finished cfg cutoff st" "search_loop cfg est expired fuel looks ticks st = Some (Inr (status, st'))"
  shows "(\<exists>R. I R {} st') \<and>
    (status = FAILED \<longrightarrow> I {} {} st' \<and> closed_finished cfg cutoff st' \<and> known st \<subseteq> known st' \<and>
      ol_empty (ss_open_list st') \<and> \<not> has_pending_requests (ss_monitor st')) \<and>
    (status = SOLVED \<longrightarrow> (\<exists>s plan. live st' s \<and> test_goal t (state_value (ss_world st') s) \<and>
      trace_path (ss_nodes st') s = Some plan \<and> ss_plan st' = Some plan))"
  using assms
proof (induction fuel arbitrary: looks ticks st)
  case (Suc fuel)
  obtain status1 ticks1 st1 where st1: "eager_step cfg est ticks st = Some (Inr (status1, ticks1, st1))"
    using Suc.prems(3) by (auto split: option.splits sum.splits)
  note step = kept_step [OF Suc.prems(1,2) st1]
  show ?case
  proof (cases "\<not> expired looks \<and> status1 = IN_PROGRESS")
    case True
    then have "search_loop cfg est expired fuel (Suc looks) ticks1 st1 = Some (Inr (status, st'))" using Suc.prems(3) st1 by simp
    from Suc.IH [OF _ _ this] step True show ?thesis by auto
  next
    case False
    then show ?thesis using step Suc.prems(3) st1 by (auto split: if_splits)
  qed
qed simp

lemma kept_initialize:
  assumes s0: "get_initial_state (ss_world st) = Inr (s0, w)" "s0 < registry_size w"
    and st: "I {} {} (with_monitor start_bridge (st\<lparr>ss_world := w\<rparr>))" "known st = {}"
    and r: "initialize cfg est cx st = Inr st'"
  shows "I {} {} st' \<and> closed_finished cfg cutoff st' \<and> (known st' = {} \<and>
    ol_is_dead_end (evaluate_state est (with_monitor start_bridge (st\<lparr>ss_world := w\<rparr>)) s0 (ap_zero False) True) (ss_open_list st) \<or> s0 \<in> known st')"
proof -
  let ?st = "with_monitor start_bridge (st\<lparr>ss_world := w\<rparr>)"
  let ?cx = "evaluate_state est ?st s0 (ap_zero False) True"
  let ?st1 = "count inc_evaluated_states ?st"
  define st2 where "st2 = report_f_value cfg ?cx (?st1\<lparr>ss_progress := snd (check_progress (sc_cached_heuristics cfg) ?cx (ss_progress ?st1))\<rparr>)"
  let ?st3 = "insert_open ?cx s0 (put_node s0 (open_initial (node_of st2 s0)) st2)"
  let ?h = "get_heuristic_value ?cx (sc_llm_h_evaluator cfg)"
  have one: "I {} {} ?st1" by (rule leadsD(1) [OF kept_count [OF st(1)]])
  show ?thesis
  proof (cases "ol_is_dead_end ?cx (ss_open_list ?st)")
    case True
    then have "st' = ?st1" using r s0(1) by (simp add: initialize_def Let_def)
    moreover have "\<not> is_closed (node_of ?st1 s)" "known ?st1 = {}" for s using st(2) by (auto simp: known_def is_new_def is_closed_def)
    ultimately show ?thesis using one True by (simp add: closed_finished_def)
  next
    case False
    have two: "I {} {} st2" unfolding st2_def by (rule leadsD(1) [OF kept_f_value [OF progressed [OF one]]])
    have cx: "?cx = evaluate_state est st2 s0 (ap_zero False) True"
      by (simp add: st2_def evaluate_state_def report_f_value_def split: option.split)
    have empty: "known st2 = {}" using st(2) by (simp add: st2_def known_def)
    have size: "s0 < registry_size (ss_world st2)" by (simp add: st2_def s0(2))
    have "ss_open_list st2 = ss_open_list ?st" by (simp add: st2_def report_f_value_def split: option.split)
    with False have alive: "\<not> ol_is_dead_end (evaluate_state est st2 s0 (ap_zero False) True) (ss_open_list st2)" using cx by simp
    have three: "I {} {} ?st3" using placed [OF two empty _ alive] size by (simp only: cx [symmetric])
    have s_in: "int s0 \<in> int ` known ?st3" using size by simp
    have four: "leads (I {} {}) ?st3 (with_monitor (record_open_state ?h) ?st3)" by (rule kept_record_open [OF three])
    have "int s0 \<in> int ` known (with_monitor (record_open_state ?h) ?st3)" using s_in leadsD(2) [OF four] by (auto simp: later_def grows_def)
    then have five: "I {} {} (with_monitor (\<lambda>m. snd (maybe_request_initial cx (int s0) (ap_zero False) ?h (record_open_state ?h m))) ?st3)"
      using leadsD(1) [OF kept_monitor [OF leadsD(1) [OF four], of "RequestInitial (int s0) (ap_zero False) ?h" cx]] by (simp add: with_monitor_def)
    have "st' = ?st3 \<or> st' = with_monitor (\<lambda>m. snd (maybe_request_initial cx (int s0) (ap_zero False) ?h (record_open_state ?h m))) ?st3"
      using r s0(1) False by (auto simp: initialize_def Let_def st2_def split: if_splits)
    moreover have "\<not> is_closed (node_of ?st3 s)" for s using empty size by (auto simp: known_def is_new_def is_closed_def)
    ultimately show ?thesis using three five s_in by (auto simp: closed_finished_def known_def)
  qed
qed

end

end
