(* ===== verification/Eager_Base.thy ===== *)
theory Eager_Base
  imports Eager_Steps
begin

text \<open>
  The base invariant is kept by the atomic updates of the search, and so by the whole search.
\<close>

lemma base_unnoticed: "base_inv cfg t R st \<Longrightarrow> unnoticed R st st' \<Longrightarrow> base_inv cfg t R st'"
  by (simp add: base_inv_def unnoticed_def known_def)

lemma base_world: "base_inv cfg t R st \<Longrightarrow> world_ok w \<Longrightarrow> extends (ss_world st) w \<Longrightarrow> base_inv cfg t R (st\<lparr>ss_world := w\<rparr>)"
  by (simp add: base_inv_def extends_def known_def)

lemma base_put:
  assumes "base_inv cfg t R st" "s < registry_size (ss_world st)" "\<not> is_new n"
  shows "base_inv cfg t R (put_node s n st)"
proof -
  have "monitor_inv (int ` known (put_node s n st)) R (ss_monitor st)"
    by (rule monitor_inv_mono [where K = "int ` known st" and R = R]) (use assms in \<open>auto simp: base_inv_def\<close>)
  moreover have "length (ss_nodes (put_node s n st)) \<le> registry_size (ss_world st)"
    using assms by (simp add: put_node_def length_set_node base_inv_def)
  ultimately show ?thesis using assms by (auto simp: base_inv_def)
qed

lemma base_insert: "base_inv cfg t R st \<Longrightarrow> s \<in> known st \<Longrightarrow> base_inv cfg t R (insert_open cx s st)"
  using ol_insert_entries [of "ss_open_list st" cx s]
  by (auto simp: base_inv_def ol_insert_ok split: if_splits)

lemma base_open: "base_inv cfg t R st \<Longrightarrow> s < registry_size (ss_world st) \<Longrightarrow> \<not> is_new n \<Longrightarrow> base_inv cfg t R (insert_open cx s (put_node s n st))"
  by (intro base_insert base_put) simp_all

lemma base_resumed:
  assumes "base_inv cfg t (insert x R) st"
  shows "base_inv cfg t R (st\<lparr>ss_monitor := snd (take_suspended x (ss_monitor st))\<rparr>)"
  using assms monitor_inv_resume [of _ x R "ss_monitor st"] by (simp add: base_inv_def known_def)

lemma base_polled:
  assumes "base_inv cfg t {} st" "poll_bridge cx False (workers_run tick (ss_monitor st)) = (rs, m)"
  shows "base_inv cfg t (rs_state_id ` set rs) (st\<lparr>ss_monitor := m\<rparr>)" "tm_suspended_states m = tm_suspended_states (ss_monitor st)"
proof -
  have "monitor_inv (int ` known st) {} (workers_run tick (ss_monitor st))"
    using assms(1) by (intro monitor_inv_workers) (simp add: base_inv_def)
  note poll = monitor_inv_poll [OF this assms(2)]
  show "base_inv cfg t (rs_state_id ` set rs) (st\<lparr>ss_monitor := m\<rparr>)" using assms(1) poll by (simp add: base_inv_def known_def)
  show "tm_suspended_states m = tm_suspended_states (ss_monitor st)" using poll(3) by (simp add: workers_run_def)
qed

lemma base_popped:
  assumes "base_inv cfg t R st" "remove_min (ss_open_list st) key = Inr (s, k, q)"
  shows "base_inv cfg t R (st\<lparr>ss_open_list := q\<rparr>)" "s \<in> known st" "ol_entries (ss_open_list st) = add_mset s (ol_entries q)"
  using assms ol_remove_entries [of "ss_open_list st" key s k q] by (auto simp: base_inv_def known_def)

lemma base_suspended:
  assumes "base_inv cfg t R st" "s \<in> known st" "suspend_if_pending (int s) (ss_monitor st) = (True, m)"
  shows "base_inv cfg t R (st\<lparr>ss_monitor := m\<rparr>)" "tm_suspended_states m = insert (int s) (tm_suspended_states (ss_monitor st))"
proof -
  have "monitor_inv (int ` known st) R (ss_monitor st)" using assms(1) by (simp add: base_inv_def)
  note sus = monitor_inv_suspend [OF this assms(3)]
  then show "base_inv cfg t R (st\<lparr>ss_monitor := m\<rparr>)" using assms(1) by (simp add: base_inv_def known_def)
  show "tm_suspended_states m = insert (int s) (tm_suspended_states (ss_monitor st))" by (rule sus(2))
qed

lemma open_registered: "base_inv cfg t R st \<Longrightarrow> is_open (node_of st s) \<Longrightarrow> s \<in> known st \<and> s < registry_size (ss_world st)"
  using known_registered [of cfg t R st s] by (auto simp: known_def is_open_def is_new_def)

lemma usable_registered: "usable_edge cfg st p oper s \<Longrightarrow> s < registry_size (ss_world st)"
  by (simp add: usable_edge_def edge_def)

lemma live_registered: "base_inv cfg t R st \<Longrightarrow> live st s \<Longrightarrow> s < registry_size (ss_world st)"
  using known_registered live_known by blast

end
