(* ===== verification/Eager_Soundness.thy ===== *)
theory Eager_Soundness
  imports Eager_Base
begin

text \<open>
  The plan the search returns leads from the initial state to a goal state: every state the search
  has placed in the search space is the initial one or was computed from a placed parent, and
  following the parents backwards therefore ends at the initial state.
\<close>

section \<open>The tree of the search\<close>

definition placed :: "nat \<Rightarrow> 'h search_state \<Rightarrow> nat \<Rightarrow> bool" where
  "placed s0 st s \<longleftrightarrow> s = s0 \<or> creating_operator (node_of st s) \<noteq> None"

definition derived_from :: "nat \<Rightarrow> 'h search_state \<Rightarrow> nat \<Rightarrow> nat \<Rightarrow> SearchNodeInfo \<Rightarrow> bool" where
  "derived_from s0 st s oper n \<longleftrightarrow> 0 \<le> parent_state_id n \<and> placed s0 st (nat (parent_state_id n)) \<and>
    edge (ss_world st) (nat (parent_state_id n)) oper s"

definition plan_inv :: "world \<Rightarrow> nat \<Rightarrow> state_id set \<Rightarrow> 'h search_state \<Rightarrow> bool" where
  "plan_inv w0 s0 owed st \<longleftrightarrow> extends w0 (ss_world st) \<and> (\<forall>s. live st s \<longrightarrow> placed s0 st s) \<and> (\<forall>s \<in># ol_entries (ss_open_list st). placed s0 st s) \<and>
    (\<forall>x \<in> tm_suspended_states (ss_monitor st) \<union> owed. placed s0 st (nat x)) \<and>
    (\<forall>s oper. creating_operator (node_of st s) = Some oper \<longrightarrow> derived_from s0 st s oper (node_of st s))"

lemma plan_unnoticed: "plan_inv w0 s0 owed st \<Longrightarrow> unnoticed R st st' \<Longrightarrow> plan_inv w0 s0 owed st'"
  by (simp add: plan_inv_def unnoticed_def placed_def derived_from_def live_def)

lemma plan_world: "plan_inv w0 s0 owed st \<Longrightarrow> extends (ss_world st) w \<Longrightarrow> plan_inv w0 s0 owed (st\<lparr>ss_world := w\<rparr>)"
  using edge_extends extends_trans by (fastforce simp: plan_inv_def placed_def derived_from_def live_def)

text \<open>Writing a node that keeps its parent, or gets a parent that is placed.\<close>

lemma plan_put:
  assumes st: "plan_inv w0 s0 owed st" and s: "s < registry_size (ss_world st)"
    and n: "creating_operator n = creating_operator (node_of st s) \<and> parent_state_id n = parent_state_id (node_of st s) \<or>
      (\<exists>oper. creating_operator n = Some oper \<and> derived_from s0 st s oper n)"
    and live: "is_open n \<or> is_closed n \<longrightarrow> s = s0 \<or> creating_operator n \<noteq> None"
  shows "plan_inv w0 s0 owed (put_node s n st)"
proof -
  have keep: "placed s0 (put_node s n st) x" if "placed s0 st x" for x using that s n by (auto simp: placed_def)
  have "derived_from s0 (put_node s n st) x oper (node_of (put_node s n st) x)"
    if "creating_operator (node_of (put_node s n st) x) = Some oper" for x oper
  proof -
    have old: "creating_operator (node_of st y) = Some oper' \<Longrightarrow> derived_from s0 st y oper' (node_of st y)" for y oper'
      using st by (simp add: plan_inv_def)
    show ?thesis using that s n keep old [of x oper] by (cases "x = s") (auto simp: derived_from_def)
  qed
  moreover have "placed s0 (put_node s n st) x" if "live (put_node s n st) x" for x
    using that st s live keep by (cases "x = s") (auto simp: plan_inv_def live_def placed_def)
  ultimately show ?thesis using st keep by (simp add: plan_inv_def)
qed

lemma plan_insert: "plan_inv w0 s0 owed st \<Longrightarrow> placed s0 st s \<Longrightarrow> ol_ok (ss_open_list st) \<Longrightarrow> plan_inv w0 s0 owed (insert_open cx s st)"
  using ol_insert_entries [of "ss_open_list st" cx s]
  by (auto simp: plan_inv_def placed_def derived_from_def live_def insert_open_def split: if_splits)

lemma plan_parent:
  assumes "plan_inv w0 s0 owed st" "usable_edge cfg st p oper s"
  shows "derived_from s0 st s oper (opened_node cfg st p oper s)" "derived_from s0 st s oper (reopened_node cfg st p oper s)"
    "derived_from s0 st s oper (reparented_node cfg st p oper s)"
  using assms by (simp_all add: derived_from_def plan_inv_def usable_edge_def open_node_def reopen_node_def update_parent_def)

lemma parent_writes [simp]:
  "creating_operator (open_node t ct p pn oper n) = Some oper" "creating_operator (reopen_node t ct p pn oper n) = Some oper"
  "creating_operator (update_parent t ct p pn oper n) = Some oper" "creating_operator (close_node n) = creating_operator n"
  "creating_operator (mark_as_dead_end n) = creating_operator n" "parent_state_id (close_node n) = parent_state_id n"
  "parent_state_id (mark_as_dead_end n) = parent_state_id n"
  by (simp_all add: open_node_def reopen_node_def update_parent_def close_node_def mark_as_dead_end_def)

lemma plan_owed: "plan_inv w0 s0 owed st \<Longrightarrow> owed' \<subseteq> owed \<Longrightarrow> plan_inv w0 s0 owed' st"
  by (auto simp: plan_inv_def)

interpretation sound: kept_by_search cfg est t s0 "\<lambda>w p oper. True" "\<lambda>R owed st. base_inv cfg t R st \<and> plan_inv w0 s0 owed st" for cfg est t s0 w0
proof
  fix R owed and st :: "'a search_state" and p oper s g pref
  assume I: "base_inv cfg t R st \<and> plan_inv w0 s0 owed st"
  note b = conjunct1 [OF I] and p = conjunct2 [OF I]
  have ok: "ol_ok (ss_open_list st)" using b by (simp add: base_inv_def)
  show "base_inv cfg t R st" by (rule b)
  show "base_inv cfg t R st' \<and> plan_inv w0 s0 owed st'" if "unnoticed R st st'" for st'
    using base_unnoticed [OF b that] plan_unnoticed [OF p that] by simp
  show "base_inv cfg t R (st\<lparr>ss_world := w\<rparr>) \<and> plan_inv w0 s0 owed (st\<lparr>ss_world := w\<rparr>)" if "world_ok w" "extends (ss_world st) w" for w
    using base_world [OF b that] plan_world [OF p that(2)] by simp
  show "base_inv cfg t R (put_node s (mark_as_dead_end (node_of st s)) st) \<and> plan_inv w0 s0 owed (put_node s (mark_as_dead_end (node_of st s)) st)"
    if "s < registry_size (ss_world st)"
    using base_put [OF b that] plan_put [OF p that] by simp
  have dead: "base_inv cfg t R (put_node s (mark_as_dead_end (node_of st s)) st) \<and> plan_inv w0 s0 {} (put_node s (mark_as_dead_end (node_of st s)) st)"
    if "is_open (node_of st s)"
    using base_put [OF b] plan_put [OF plan_owed [OF p]] open_registered [OF b that] by simp
  then show "base_inv cfg t R (put_node s (mark_as_dead_end (node_of st s)) st) \<and> plan_inv w0 s0 {} (put_node s (mark_as_dead_end (node_of st s)) st)"
    if "is_open (node_of st s)" using that .
  show "base_inv cfg t R (insert_open (evaluate_state est st s g pref) s st) \<and> plan_inv w0 s0 {} (insert_open (evaluate_state est st s g pref) s st)"
    if "is_open (node_of st s)"
  proof -
    have "placed s0 st s" using p that by (simp add: plan_inv_def live_def)
    then show ?thesis using base_insert [OF b] plan_insert [OF plan_owed [OF p] _ ok] open_registered [OF b that] by simp
  qed
  show "base_inv cfg t R st \<and> plan_inv w0 s0 {} st" using b plan_owed [OF p] by simp
next
  fix R owed and st :: "'a search_state" and parent oper s g pref
  assume I: "base_inv cfg t R st \<and> plan_inv w0 s0 owed st" and e: "usable_edge cfg st parent oper s"
  note b = conjunct1 [OF I] and p = conjunct2 [OF I] and s = usable_registered [OF e]
  have ok: "ol_ok (ss_open_list st)" using b by (simp add: base_inv_def)
  have open_it: "base_inv cfg t R (insert_open cx s (put_node s n st)) \<and> plan_inv w0 s0 owed (insert_open cx s (put_node s n st))"
    if "derived_from s0 st s oper n" "\<not> is_new n" "creating_operator n = Some oper" for cx n
    using base_open [OF b s that(2)] plan_insert [OF plan_put [OF p s]] that s ok by (simp add: placed_def)
  show "base_inv cfg t R (insert_open (evaluate_state est st s g pref) s (put_node s (opened_node cfg st parent oper s) st)) \<and>
      plan_inv w0 s0 owed (insert_open (evaluate_state est st s g pref) s (put_node s (opened_node cfg st parent oper s) st))"
    by (rule open_it [OF plan_parent(1) [OF p e]]) simp_all
  show "base_inv cfg t R (insert_open (evaluate_state est (put_node s (reopened_node cfg st parent oper s) st) s g pref) s
        (put_node s (reopened_node cfg st parent oper s) st)) \<and>
      plan_inv w0 s0 owed (insert_open (evaluate_state est (put_node s (reopened_node cfg st parent oper s) st) s g pref) s
        (put_node s (reopened_node cfg st parent oper s) st))"
    by (rule open_it [OF plan_parent(2) [OF p e]]) simp_all
  assume "live st s"
  then show "base_inv cfg t R (put_node s (reparented_node cfg st parent oper s) st) \<and>
      plan_inv w0 s0 owed (put_node s (reparented_node cfg st parent oper s) st)"
    using base_put [OF b s] plan_put [OF p s] plan_parent(3) [OF p e] by (simp add: live_iff)
next
  fix st :: "'a search_state" and s
  assume I: "base_inv cfg t {} st \<and> plan_inv w0 s0 {int s} st" and s: "s \<in> known st"
  note b = conjunct1 [OF I] and p = conjunct2 [OF I]
  have reg: "s < registry_size (ss_world st)" by (rule known_registered [OF b s])
  have here: "placed s0 st s" using p by (simp add: plan_inv_def)
  show "base_inv cfg t {} (put_node s (close_node (node_of st s)) st) \<and> plan_inv w0 s0 {} (put_node s (close_node (node_of st s)) st)"
    using base_put [OF b reg] plan_put [OF plan_owed [OF p] reg] here by (simp add: placed_def)
  show "base_inv cfg t {} (st\<lparr>ss_monitor := m\<rparr>) \<and> plan_inv w0 s0 {} (st\<lparr>ss_monitor := m\<rparr>)"
    if "suspend_if_pending (int s) (ss_monitor st) = (True, m)" for m
    using base_suspended [OF b s that] p by (simp add: plan_inv_def placed_def derived_from_def live_def)
next
  fix R x and st :: "'a search_state"
  assume I: "base_inv cfg t (insert x R) st \<and> plan_inv w0 s0 {} st"
  have susp: "tm_suspended_states (snd (take_suspended x (ss_monitor st))) \<subseteq> tm_suspended_states (ss_monitor st)"
    by (auto simp: take_suspended_def)
  show "base_inv cfg t R (st\<lparr>ss_monitor := snd (take_suspended x (ss_monitor st))\<rparr>) \<and>
      plan_inv w0 s0 ({x} \<inter> tm_suspended_states (ss_monitor st)) (st\<lparr>ss_monitor := snd (take_suspended x (ss_monitor st))\<rparr>)"
    using base_resumed [of cfg t x R st] I susp by (auto simp: plan_inv_def placed_def derived_from_def live_def)
next
  fix st :: "'a search_state"
  assume I: "base_inv cfg t {} st \<and> plan_inv w0 s0 {} st"
  note b = conjunct1 [OF I] and p = conjunct2 [OF I]
  show "base_inv cfg t (rs_state_id ` set rs) (st\<lparr>ss_monitor := m\<rparr>) \<and> plan_inv w0 s0 {} (st\<lparr>ss_monitor := m\<rparr>)"
    if "poll_bridge cx False (workers_run tick (ss_monitor st)) = (rs, m)" for cx tick rs m
    using base_polled [OF b that] p by (simp add: plan_inv_def placed_def derived_from_def live_def)
  show "base_inv cfg t {} (st\<lparr>ss_open_list := q\<rparr>) \<and> plan_inv w0 s0 {int s} (st\<lparr>ss_open_list := q\<rparr>)"
    if "remove_min (ss_open_list st) key = Inr (s, k, q)" for s k q key
    using base_popped [OF b that] p by (auto simp: plan_inv_def placed_def derived_from_def live_def)
  show "base_inv cfg t {} (insert_open cx s0 (put_node s0 (open_initial (node_of st s0)) st)) \<and>
      plan_inv w0 s0 {} (insert_open cx s0 (put_node s0 (open_initial (node_of st s0)) st))"
    if "s0 < registry_size (ss_world st)" "known st = {}" for cx
  proof -
    have "creating_operator (open_initial (node_of st s0)) = None" by (simp add: open_initial_def)
    moreover from this have "placed s0 (put_node s0 (open_initial (node_of st s0)) st) = placed s0 st"
      using that(1) by (simp add: placed_def fun_eq_iff)
    ultimately have "plan_inv w0 s0 {} (put_node s0 (open_initial (node_of st s0)) st)"
      using p that by (auto simp: plan_inv_def derived_from_def placed_def live_iff known_def)
    moreover have "ol_ok (ss_open_list (put_node s0 (open_initial (node_of st s0)) st))" using b by (simp add: base_inv_def)
    ultimately have "plan_inv w0 s0 {} (insert_open cx s0 (put_node s0 (open_initial (node_of st s0)) st))"
      by (intro plan_insert) (simp_all add: placed_def)
    then show ?thesis using base_open [OF b that(1), of "open_initial (node_of st s0)"] by simp
  qed
qed simp_all

section \<open>Plans\<close>

text \<open>
  A transition: the registry has computed \<open>s\<close> from \<open>p\<close> with an applicable operator; every given variable
  of \<open>s\<close> has the value of the last effect that fires on it and else the value it has in \<open>p\<close>, and \<open>s\<close> is
  the stable model of the axioms.
\<close>

definition transition :: "world \<Rightarrow> nat \<Rightarrow> nat \<Rightarrow> nat \<Rightarrow> bool" where
  "transition w p oper s \<longleftrightarrow> edge w p oper s \<and>
    operator_is_applicable (state_value w p) (g_operators (w_task w) ! oper) \<and>
    (\<forall>v < num_vars (w_task w). g_axiom_layers (w_task w) ! v = - 1 \<longrightarrow> v \<notin> cax_affected ` set (g_comp_axioms (w_task w)) \<longrightarrow>
      state_value w s v = (case map_of (rev (fired_effects (state_value w p) (g_operators (w_task w) ! oper))) v of
        None \<Rightarrow> state_value w p v | Some x \<Rightarrow> x)) \<and>
    true_lits (w_task w) (w_packer w) (packed_buffer w s) = horn (g_logic_axioms (w_task w)) (assumed_lits (w_task w) (w_packer w) (packed_buffer w s))"

inductive leads_to :: "world \<Rightarrow> nat \<Rightarrow> nat list \<Rightarrow> nat \<Rightarrow> bool" for w s0 where
  start: "leads_to w s0 [] s0"
| step: "leads_to w s0 plan p \<Longrightarrow> transition w p oper s \<Longrightarrow> leads_to w s0 (plan @ [oper]) s"

inductive_cases leads_to_emptyE: "leads_to w s0 [] s"

lemma edge_transition:
  assumes e: "edge w p oper s" and ok: "\<forall>oper \<in> set (g_operators (w_task w)). operator_ok (w_task w) oper"
  shows "transition w p oper s"
proof -
  obtain w0 w1 where w: "world_ok w0" "extends w0 w1" "extends w1 w" "p < registry_size w0"
      "get_successor_state w0 p (g_operators (w_task w) ! oper) = Inr (s, w1)"
    using e by (auto simp: edge_def)
  have t: "w_task w0 = w_task w" "w_task w1 = w_task w" "w_packer w0 = w_packer w" "w_packer w1 = w_packer w"
    using w(2,3) by (simp_all add: extends_def)
  have "operator_ok (w_task w0) (g_operators (w_task w) ! oper)" using e ok by (simp add: edge_def t(1))
  note succ = successor_state [OF w(1,4) this] and ext = successor_extends [OF w(1,4) this w(5)]
  have vals: "state_value w s = state_value w1 s" "state_value w p = state_value w0 p" "packed_buffer w s = packed_buffer w1 s"
    using extends_value [OF w(3) ext(3)] extends_value [OF extends_trans [OF w(2,3)] w(4)] w(3) ext(3) by (simp_all add: extends_def)
  show ?thesis using succ w(5) e unfolding transition_def vals t [symmetric] by (simp add: edge_def t vals)
qed

lemma trace_loop_SomeD:
  assumes "trace_loop infos s acc = Some r"
  shows "\<exists>path. rooted infos path s \<and> r = acc @ rev path"
proof (rule trace_loop.raw_induct [where P = "\<lambda>infos s acc r. \<exists>path. rooted infos path s \<and> r = acc @ rev path", OF _ assms])
  fix loop :: "SearchNodeInfo list \<Rightarrow> nat \<Rightarrow> nat list \<Rightarrow> nat list option" and infos s acc r
  assume ih: "\<And>infos s acc r. loop infos s acc = Some r \<Longrightarrow> \<exists>path. rooted infos path s \<and> r = acc @ rev path"
    and r: "(case creating_operator (get_node infos s) of None \<Rightarrow> Some acc
      | Some oper \<Rightarrow> loop infos (nat (parent_state_id (get_node infos s))) (acc @ [oper])) = Some r"
  show "\<exists>path. rooted infos path s \<and> r = acc @ rev path"
  proof (cases "creating_operator (get_node infos s)")
    case None
    then show ?thesis using r rooted.root by (intro exI [of _ "[]"]) simp
  next
    case (Some oper)
    then have "loop infos (nat (parent_state_id (get_node infos s))) (acc @ [oper]) = Some r" using r by simp
    from ih [OF this] obtain path where "rooted infos path (nat (parent_state_id (get_node infos s)))" "r = (acc @ [oper]) @ rev path" by blast
    then show ?thesis using rooted.child [OF Some] by (intro exI [of _ "path @ [oper]"]) simp
  qed
qed

lemma trace_path_SomeD: "trace_path infos s = Some path \<Longrightarrow> rooted infos path s"
  using trace_loop_SomeD by (fastforce simp: trace_path_def)

lemma rooted_leads_to:
  assumes "rooted (ss_nodes st) path s" "placed s0 st s" "plan_inv w0 s0 owed st"
    and ok: "\<forall>oper \<in> set (g_operators (w_task (ss_world st))). operator_ok (w_task (ss_world st)) oper"
  shows "leads_to (ss_world st) s0 path s"
  using assms
proof (induction rule: rooted.induct)
  case (root s)
  then show ?case by (simp add: placed_def leads_to.start)
next
  case (child s oper path)
  then have "derived_from s0 st s oper (node_of st s)" by (simp add: plan_inv_def)
  then show ?case using child edge_transition [OF _ ok] by (intro leads_to.step) (auto simp: derived_from_def)
qed

text \<open>The engine before \<open>initialize\<close>.\<close>

definition fresh_search :: "environment \<Rightarrow> 'h search_state \<Rightarrow> bool" where
  "fresh_search env st \<longleftrightarrow> ss_nodes st = [] \<and> ol_ok (ss_open_list st) \<and> ol_entries (ss_open_list st) = {#} \<and> ss_monitor st = monitor_init env"

lemma start_base:
  assumes "search_ok cfg (w_task w)" "world_ok w" "fresh_search env st"
  shows "base_inv cfg (w_task w) {} (with_monitor start_bridge (st\<lparr>ss_world := w\<rparr>))" "known st = {}"
    "tm_suspended_states (ss_monitor (with_monitor start_bridge (st\<lparr>ss_world := w\<rparr>))) = {}"
proof -
  have st: "ss_nodes st = []" "ss_monitor st = monitor_init env" using assms(3) by (simp_all add: fresh_search_def)
  show none: "known st = {}" using st(1) by (simp add: known_def is_new_def)
  have susp: "tm_suspended_states (start_bridge (monitor_init env)) = {}" by (simp add: start_bridge_def monitor_init_def)
  then show "tm_suspended_states (ss_monitor (with_monitor start_bridge (st\<lparr>ss_world := w\<rparr>))) = {}" using st(2) by simp
  have "monitor_inv {} {} (start_bridge (monitor_init env))"
    using susp flight_inv_start [of env]
    by (simp add: monitor_inv_def monitor_ok_def representatives_def start_bridge_def monitor_init_def LayerStats_init_def image_subset_iff)
  then show "base_inv cfg (w_task w) {} (with_monitor start_bridge (st\<lparr>ss_world := w\<rparr>))"
    using assms none by (simp add: base_inv_def fresh_search_def known_def)
qed

lemma start_plan:
  assumes "search_ok cfg (w_task w)" "world_ok w" "fresh_search env st"
  shows "plan_inv w s0 {} (with_monitor start_bridge (st\<lparr>ss_world := w\<rparr>))"
  using assms(3) start_base(3) [OF assms] by (simp add: plan_inv_def fresh_search_def live_def is_open_def is_closed_def extends_refl)

text \<open>
  C1. A plan the search returns is one: when \<open>search\<close> answers SOLVED on a well-formed task, the plan it
  stored leads, one applicable operator after the other, from the initial state to a state that
  satisfies the goal, whatever the heuristics compute, however the requests to the controller are
  answered and whatever action chains it proposes.
\<close>

theorem eager_search_sound:
  assumes task: "search_ok cfg (w_task w)" "world_ok w" and start: "get_initial_state (ss_world st) = Inr (s0, w)" "s0 < registry_size w"
    and fresh: "fresh_search env st"
    and solved: "eager_search cfg est cx expired ticks st = Some (Inr (SOLVED, st'))"
  shows "\<exists>plan s. ss_plan st' = Some plan \<and> leads_to (ss_world st') s0 plan s \<and>
    test_goal (w_task w) (state_value (ss_world st') s) \<and> state_value (ss_world st') s0 = state_value w s0"
proof -
  obtain st1 where st1: "initialize cfg est cx st = Inr st1"
      "search_loop cfg est expired (length ticks) 1 ticks st1 = Some (Inr (SOLVED, st'))"
    using solved by (auto simp: eager_search_def split: sum.splits if_splits)
  have "(base_inv cfg (w_task w) {} st1 \<and> plan_inv w s0 {} st1) \<and> closed_finished cfg (\<lambda>w p oper. True) st1"
    using sound.kept_initialize [OF start conjI [OF start_base(1) [OF task fresh] start_plan [OF task fresh]] start_base(2) [OF task fresh] st1(1)] by simp
  from sound.kept_loop [OF conjunct1 [OF this] conjunct2 [OF this] st1(2)]
  obtain R s plan where inv: "base_inv cfg (w_task w) R st'" "plan_inv w s0 {} st'" and s: "live st' s"
      "test_goal (w_task w) (state_value (ss_world st') s)" "trace_path (ss_nodes st') s = Some plan" "ss_plan st' = Some plan"
    by auto
  have "w_task (ss_world st') = w_task w" using inv(1) by (simp add: base_inv_def)
  then have "leads_to (ss_world st') s0 plan s"
    using rooted_leads_to [OF trace_path_SomeD [OF s(3)] _ inv(2)] inv s(1) task(1) by (simp add: plan_inv_def search_ok_def)
  moreover have "state_value (ss_world st') s0 = state_value w s0" using inv(2) extends_value start(2) by (simp add: plan_inv_def)
  ultimately show ?thesis using s by blast
qed

end
