(* ===== verification/Eager_Frontier.thy ===== *)
theory Eager_Frontier
  imports Eager_Soundness
begin

text \<open>
  The search loses no state. As long as a state is dead or alive by its own value alone, every open
  state is in the open list, waits for the controller or violates the global constraint, and every
  closed state has been expanded. When the search fails, its closed states are therefore a
  certificate that no goal state can be reached.
\<close>

section \<open>What the bound cuts off\<close>

text \<open>
  The states reached with the costs \<open>real_g\<close> stores: each transition cuts the sum to an \<open>int\<close>.
\<close>

inductive costs_at :: "world \<Rightarrow> nat \<Rightarrow> int \<Rightarrow> nat \<Rightarrow> bool" for w s0 where
  start: "costs_at w s0 0 s0"
| step: "costs_at w s0 g p \<Longrightarrow> edge w p oper s \<Longrightarrow>
    costs_at w s0 (ap_to_int32 (ap_add (ap_of_int g) (op_cost (g_operators (w_task w) ! oper)))) s"




section \<open>The frontier\<close>

text \<open>The verdict of the open list on a state is \<open>D\<close> of its packed value, whatever the path to it.\<close>

definition decides :: "'h estimators \<Rightarrow> nat OpenList \<Rightarrow> task \<Rightarrow> (64 word list \<Rightarrow> bool) \<Rightarrow> bool" where
  "decides est q t D \<longleftrightarrow> (\<forall>h w s g pref. w_task w = t \<longrightarrow>
    ol_is_dead_end \<lparr>ec_g_value = g, ec_preferred = pref, ec_result = es_result est h w s g\<rparr> q = D (packed_buffer w s))"

definition doomed :: "(64 word list \<Rightarrow> bool) \<Rightarrow> 'h search_state \<Rightarrow> nat \<Rightarrow> bool" where
  "doomed D st s \<longleftrightarrow> D (packed_buffer (ss_world st) s)"

definition frontier_inv :: "'h estimators \<Rightarrow> nat OpenList \<Rightarrow> (64 word list \<Rightarrow> bool) \<Rightarrow> nat \<Rightarrow> state_id set \<Rightarrow> 'h search_state \<Rightarrow> bool" where
  "frontier_inv est q0 D s0 owed st \<longleftrightarrow> decides est q0 (w_task (ss_world st)) D \<and>
    (\<forall>cx. ol_is_dead_end cx (ss_open_list st) = ol_is_dead_end cx q0) \<and>
    (\<forall>s. live st s \<longrightarrow> \<not> doomed D st s \<and> costs_at (ss_world st) s0 (info_real_g (node_of st s)) s) \<and>
    (\<forall>s \<in># ol_entries (ss_open_list st). live st s) \<and> (\<forall>x \<in> tm_suspended_states (ss_monitor st) \<union> owed. live st (nat x)) \<and>
    (\<forall>s. is_open (node_of st s) \<longrightarrow> s \<in># ol_entries (ss_open_list st) \<or> int s \<in> tm_suspended_states (ss_monitor st) \<union> owed \<or>
      violates_global_constraint (ss_world st) s) \<and>
    (\<forall>s. is_dead_end (node_of st s) \<longrightarrow> doomed D st s)"











lemma dead_end_tests [simp]:
  "\<not> is_dead_end (open_node t ct p pn oper n)" "\<not> is_dead_end (reopen_node t ct p pn oper n)" "\<not> is_dead_end (open_initial n)"
  "is_dead_end (update_parent t ct p pn oper n) = is_dead_end n" "\<not> is_dead_end (close_node n)" "is_dead_end (mark_as_dead_end n)"
  "info_real_g (close_node n) = info_real_g n" "info_real_g (open_initial n) = 0"
  by (simp_all add: is_dead_end_def) (simp_all add: close_node_def open_initial_def)

lemma frontier_put_owed: "frontier_inv est q0 D s0 (insert (int s) owed) st \<Longrightarrow> s \<in># ol_entries (ss_open_list st) \<Longrightarrow> frontier_inv est q0 D s0 owed st"
  by (auto simp: frontier_inv_def)



section \<open>A failed search\<close>





end
