(* ===== verification/Eager_Costs.thy ===== *)
theory Eager_Costs
  imports Eager_Frontier
begin

text \<open>
  The node operations of the search are steps of the search space: with costs that fit the
  bit-fields, whatever the search does to its nodes is a run of \<open>space_step\<close>, so following the
  parents always ends.
\<close>

text \<open>Costs are added as they are, are finite and not negative, and the bound is inside the bit-field.\<close>

definition bounded_costs :: "search_config \<Rightarrow> task \<Rightarrow> bool" where
  "bounded_costs cfg t \<longleftrightarrow> sc_cost_type cfg = NORMAL \<and> 0 \<le> sc_bound cfg \<and> sc_bound cfg \<le> 2 ^ 29 \<and>
    (\<forall>oper \<in> set (g_operators t). \<not> is_an_axiom oper \<and> ap_is_finite (op_cost oper) \<and> \<not> ap_lt (op_cost oper) (ap_zero False))"

definition in_field :: "SearchNodeInfo \<Rightarrow> bool" where
  "in_field n \<longleftrightarrow> 0 \<le> info_g n \<and> info_g n < 2 ^ 29 \<and> info_real_g n = info_g n"

definition tree_inv :: "search_config \<Rightarrow> task \<Rightarrow> state_id set \<Rightarrow> 'h search_state \<Rightarrow> bool" where
  "tree_inv cfg t owed st \<longleftrightarrow> bounded_costs cfg t \<and> (space_step t NORMAL)\<^sup>*\<^sup>* [] (ss_nodes st) \<and>
    (\<forall>s. live st s \<longrightarrow> in_field (node_of st s)) \<and>
    (\<forall>s \<in># ol_entries (ss_open_list st). in_field (node_of st s)) \<and>
    (\<forall>x \<in> tm_suspended_states (ss_monitor st) \<union> owed. in_field (node_of st (nat x)))"

lemma tree_live: "tree_inv cfg t owed st \<Longrightarrow> live st s \<Longrightarrow> in_field (node_of st s)"
  by (simp add: tree_inv_def)

lemma within_bound_fits:
  assumes tree: "tree_inv cfg t owed st" and e: "usable_edge cfg st p oper s" and t: "w_task (ss_world st) = t"
  shows "cost_fits (info_g (node_of st p)) (get_adjusted_action_cost t (g_operators t ! oper) NORMAL)"
    "get_adjusted_action_cost t (g_operators t ! oper) NORMAL = op_cost (g_operators t ! oper)"
proof -
  let ?c = "op_cost (g_operators t ! oper)" and ?g = "info_g (node_of st p)"
  have p: "live st p" "oper < length (g_operators t)" using e t by (simp_all add: usable_edge_def edge_def)
  then have g: "0 \<le> ?g" "?g < 2 ^ 29" "info_real_g (node_of st p) = ?g" using tree_live [OF tree p(1)] tree by (simp_all add: in_field_def tree_inv_def)
  have c: "\<not> is_an_axiom (g_operators t ! oper)" "ap_is_finite ?c" "\<not> ap_lt ?c (ap_zero False)" and b: "0 \<le> sc_bound cfg" "sc_bound cfg \<le> 2 ^ 29"
    using tree p(2) by (simp_all add: tree_inv_def bounded_costs_def)
  show adj: "get_adjusted_action_cost t (g_operators t ! oper) NORMAL = ?c" using c(1) by (simp add: get_adjusted_action_cost_def)
  obtain r where r: "decode ?c = Fin r" "0 \<le> r" using c(2,3) by (auto simp: ap_is_finite_decode ap_lt_def not_less)
  have bound: "decode (ap_of_int (sc_bound cfg)) = Fin (of_int (sc_bound cfg))" using b by (intro decode_ap_of_int) simp
  have lim: "decode (ap_of_int (2 ^ 29)) = Fin (2 ^ 29)" using decode_ap_of_int [of "2 ^ 29"] by simp
  have below: "\<not> ap_le (ap_of_int (sc_bound cfg)) (ap_add (ap_of_int ?g) ?c)"
    using e g(3) t by (simp add: usable_edge_def within_bound_def get_real_g_def)
  have "ap_lt (ap_add (ap_of_int ?g) ?c) (ap_of_int (2 ^ 29))"
  proof -
    consider "decode (ap_add (ap_of_int ?g) ?c) = Infty False" | x where "decode (ap_add (ap_of_int ?g) ?c) = Fin x"
      using ap_add_cost [OF g(1) _ r] g(2) by fastforce
    then show ?thesis
    proof cases
      case 1
      then show ?thesis using below by (simp add: ap_le_def ap_lt_def bound)
    next
      case (2 x)
      then have "x < of_int (sc_bound cfg)" using below by (simp add: ap_le_def ap_lt_def ap_eq_def bound)
      also have "\<dots> \<le> of_int (2 ^ 29)" using b(2) by (simp only: of_int_le_iff)
      finally show ?thesis using 2 lim by (simp add: ap_lt_def)
    qed
  qed
  then show "cost_fits ?g (get_adjusted_action_cost t (g_operators t ! oper) NORMAL)"
    using g c by (simp add: cost_fits_def adj)
qed

lemma tree_unnoticed: "tree_inv cfg t owed st \<Longrightarrow> unnoticed R st st' \<Longrightarrow> tree_inv cfg t owed st'"
  by (simp add: tree_inv_def unnoticed_def live_def)

text \<open>A node written by a step of the search space.\<close>

lemma tree_put:
  assumes st: "tree_inv cfg t owed st" and s: "s < registry_size (ss_world st)"
    and step: "space_step t NORMAL (ss_nodes st) (set_node (registry_size (ss_world st)) s n (ss_nodes st))"
    and n: "is_open n \<or> is_closed n \<longrightarrow> in_field n" "in_field (node_of st s) \<longrightarrow> in_field n" and owed: "owed' \<subseteq> owed"
  shows "tree_inv cfg t owed' (put_node s n st)"
proof -
  have "(space_step t NORMAL)\<^sup>*\<^sup>* [] (ss_nodes (put_node s n st))"
    using st rtranclp.rtrancl_into_rtrancl [where r = "space_step t NORMAL", OF _ step] by (simp add: tree_inv_def put_node_def)
  moreover have "in_field (node_of (put_node s n st) x)" if "live (put_node s n st) x" for x
  proof (cases "x = s")
    case True
    then show ?thesis using that n(1) s by (simp add: live_def)
  next
    case False
    then show ?thesis using that tree_live [OF st, of x] s by (simp add: live_def)
  qed
  moreover have "in_field (node_of st x) \<Longrightarrow> in_field (node_of (put_node s n st) x)" for x using n(2) s by (cases "x = s") simp_all
  ultimately show ?thesis using st owed by (auto simp: tree_inv_def)
qed

lemma tree_insert: "tree_inv cfg t owed st \<Longrightarrow> ol_ok (ss_open_list st) \<Longrightarrow> in_field (node_of st s) \<Longrightarrow> owed' \<subseteq> owed \<Longrightarrow>
    tree_inv cfg t owed' (insert_open cx s st)"
  using ol_insert_entries [of "ss_open_list st" cx s] by (auto simp: tree_inv_def live_def insert_open_def split: if_splits)

lemma tree_owed: "tree_inv cfg t owed st \<Longrightarrow> owed' \<subseteq> owed \<Longrightarrow> tree_inv cfg t owed' st"
  by (auto simp: tree_inv_def)

text \<open>A new parent within the bound: the stored costs agree and fit.\<close>

lemma tree_parent:
  assumes tree: "tree_inv cfg t owed st" and e: "usable_edge cfg st p oper s" and t: "w_task (ss_world st) = t"
  shows "in_field (opened_node cfg st p oper s)" "in_field (reopened_node cfg st p oper s)" "in_field (reparented_node cfg st p oper s)"
proof -
  note fits = within_bound_fits [OF tree e t]
  have p: "live st p" using e by (simp add: usable_edge_def)
  have normal: "sc_cost_type cfg = NORMAL" and g: "info_real_g (node_of st p) = info_g (node_of st p)" "0 \<le> info_g (node_of st p)"
    using tree tree_live [OF tree p] by (simp_all add: tree_inv_def bounded_costs_def in_field_def)
  let ?sum = "ap_add (ap_of_int (info_g (node_of st p))) (op_cost (g_operators t ! oper))"
  have "to_bitfield ?sum = ap_to_int32 ?sum" "0 \<le> to_bitfield ?sum" "to_bitfield ?sum < 2 ^ 29"
    using to_bitfield_bounds [OF fits(1)] g(2) by (simp_all add: fits(2))
  then show "in_field (opened_node cfg st p oper s)" "in_field (reopened_node cfg st p oper s)" "in_field (reparented_node cfg st p oper s)"
    by (simp_all add: in_field_def open_node_def reopen_node_def update_parent_def normal t fits(2) g(1))
qed

lemma tree_steps:
  assumes tree: "tree_inv cfg t owed st" and e: "usable_edge cfg st p oper s" and t: "w_task (ss_world st) = t"
  shows "is_new (node_of st s) \<Longrightarrow> space_step t NORMAL (ss_nodes st) (set_node (registry_size (ss_world st)) s (opened_node cfg st p oper s) (ss_nodes st))"
    "live st s \<Longrightarrow> cheaper cfg st p oper s \<Longrightarrow>
      space_step t NORMAL (ss_nodes st) (set_node (registry_size (ss_world st)) s (reopened_node cfg st p oper s) (ss_nodes st))"
    "live st s \<Longrightarrow> cheaper cfg st p oper s \<Longrightarrow>
      space_step t NORMAL (ss_nodes st) (set_node (registry_size (ss_world st)) s (reparented_node cfg st p oper s) (ss_nodes st))"
proof -
  have s: "s < registry_size (ss_world st)" by (rule usable_registered [OF e])
  have p: "\<not> is_new (node_of st p)" using e by (simp add: usable_edge_def live_iff)
  have normal: "sc_cost_type cfg = NORMAL" using tree by (simp add: tree_inv_def bounded_costs_def)
  note fits = within_bound_fits(1) [OF tree e t]
  show "space_step t NORMAL (ss_nodes st) (set_node (registry_size (ss_world st)) s (opened_node cfg st p oper s) (ss_nodes st))"
    if "is_new (node_of st s)"
    unfolding normal t by (rule step_open [OF s that p fits])
  assume live: "live st s" and "cheaper cfg st p oper s"
  then have c: "ap_lt (ap_add (get_g (node_of st p)) (get_adjusted_action_cost t (g_operators t ! oper) NORMAL)) (get_g (node_of st s))"
    by (simp add: cheaper_def get_adjusted_cost_def normal t)
  have k: "is_open (node_of st s) \<or> is_closed (node_of st s)" using live by (simp add: live_def)
  show "space_step t NORMAL (ss_nodes st) (set_node (registry_size (ss_world st)) s (reopened_node cfg st p oper s) (ss_nodes st))"
    unfolding normal t by (rule step_reopen [OF s k p fits c])
  show "space_step t NORMAL (ss_nodes st) (set_node (registry_size (ss_world st)) s (reparented_node cfg st p oper s) (ss_nodes st))"
    unfolding normal t by (rule step_update [OF s k p fits c])
qed

lemma in_field_keeps [simp]:
  "in_field (mark_as_dead_end n) = in_field n" "in_field (close_node n) = in_field n" "in_field (open_initial n)"
  by (simp_all add: in_field_def mark_as_dead_end_def close_node_def open_initial_def)

interpretation tree: kept_by_search cfg est t s0 "\<lambda>w p oper. True" "\<lambda>R owed st. base_inv cfg t R st \<and> tree_inv cfg t owed st" for cfg est t s0
proof
  fix R owed and st :: "'a search_state" and p oper s g pref
  assume I: "base_inv cfg t R st \<and> tree_inv cfg t owed st"
  note b = conjunct1 [OF I] and tr = conjunct2 [OF I]
  have ok: "ol_ok (ss_open_list st)" using b by (simp add: base_inv_def)
  show "base_inv cfg t R st" by (rule b)
  show "base_inv cfg t R st' \<and> tree_inv cfg t owed st'" if "unnoticed R st st'" for st'
    using base_unnoticed [OF b that] tree_unnoticed [OF tr that] by simp
  show "base_inv cfg t R (st\<lparr>ss_world := w\<rparr>) \<and> tree_inv cfg t owed (st\<lparr>ss_world := w\<rparr>)" if "world_ok w" "extends (ss_world st) w" for w
    using base_world [OF b that] tr by (simp add: tree_inv_def live_def)
  have dead: "base_inv cfg t R (put_node s (mark_as_dead_end (node_of st s)) st) \<and> tree_inv cfg t owed' (put_node s (mark_as_dead_end (node_of st s)) st)"
    if "s < registry_size (ss_world st)" "owed' \<subseteq> owed" for owed'
    using base_put [OF b that(1)] tree_put [OF tr that(1) step_dead_end [OF that(1)] _ _ that(2)] by simp
  then show "base_inv cfg t R (put_node s (mark_as_dead_end (node_of st s)) st) \<and> tree_inv cfg t owed (put_node s (mark_as_dead_end (node_of st s)) st)"
    if "s < registry_size (ss_world st)" using that subset_refl by blast
  show "base_inv cfg t R (put_node s (mark_as_dead_end (node_of st s)) st) \<and> tree_inv cfg t {} (put_node s (mark_as_dead_end (node_of st s)) st)"
    if "is_open (node_of st s)" using dead open_registered [OF b that] by blast
  show "base_inv cfg t R (insert_open (evaluate_state est st s g pref) s st) \<and> tree_inv cfg t {} (insert_open (evaluate_state est st s g pref) s st)"
    if "is_open (node_of st s)"
  proof -
    have "in_field (node_of st s)" using that by (intro tree_live [OF tr]) (simp add: live_def)
    then show ?thesis using base_insert [OF b] tree_insert [OF tr ok] open_registered [OF b that] by simp
  qed
  show "base_inv cfg t R st \<and> tree_inv cfg t {} st" using b tree_owed [OF tr] by simp
next
  fix R owed and st :: "'a search_state" and parent oper s g pref
  assume I: "base_inv cfg t R st \<and> tree_inv cfg t owed st" and e: "usable_edge cfg st parent oper s"
  note b = conjunct1 [OF I] and tr = conjunct2 [OF I] and s = usable_registered [OF e]
  have ok: "ol_ok (ss_open_list st)" and t: "w_task (ss_world st) = t" using b by (simp_all add: base_inv_def)
  note parent = tree_parent [OF tr e t] and steps = tree_steps [OF tr e t]
  have open_it: "base_inv cfg t R (insert_open cx s (put_node s n st)) \<and> tree_inv cfg t owed (insert_open cx s (put_node s n st))"
    if "space_step t NORMAL (ss_nodes st) (set_node (registry_size (ss_world st)) s n (ss_nodes st))" "in_field n" "\<not> is_new n" for cx n
    using base_open [OF b s that(3)] tree_insert [OF tree_put [OF tr s that(1)], of owed s owed cx] that s ok by simp
  show "base_inv cfg t R (insert_open (evaluate_state est st s g pref) s (put_node s (opened_node cfg st parent oper s) st)) \<and>
      tree_inv cfg t owed (insert_open (evaluate_state est st s g pref) s (put_node s (opened_node cfg st parent oper s) st))"
    if "is_new (node_of st s)"
    by (rule open_it [OF steps(1) [OF that] parent(1)]) simp
  assume live: "live st s" and c: "cheaper cfg st parent oper s"
  show "base_inv cfg t R (insert_open (evaluate_state est (put_node s (reopened_node cfg st parent oper s) st) s g pref) s
        (put_node s (reopened_node cfg st parent oper s) st)) \<and>
      tree_inv cfg t owed (insert_open (evaluate_state est (put_node s (reopened_node cfg st parent oper s) st) s g pref) s
        (put_node s (reopened_node cfg st parent oper s) st))"
    by (rule open_it [OF steps(2) [OF live c] parent(2)]) simp
  show "base_inv cfg t R (put_node s (reparented_node cfg st parent oper s) st) \<and>
      tree_inv cfg t owed (put_node s (reparented_node cfg st parent oper s) st)"
    using base_put [OF b s, of "reparented_node cfg st parent oper s"] tree_put [OF tr s steps(3) [OF live c], of owed] parent(3) live by (simp add: live_iff)
next
  fix st :: "'a search_state" and s
  assume I: "base_inv cfg t {} st \<and> tree_inv cfg t {int s} st" and s: "s \<in> known st"
  note b = conjunct1 [OF I] and tr = conjunct2 [OF I]
  have reg: "s < registry_size (ss_world st)" by (rule known_registered [OF b s])
  have field: "in_field (node_of st s)" using tr by (simp add: tree_inv_def)
  show "base_inv cfg t {} (put_node s (close_node (node_of st s)) st) \<and> tree_inv cfg t {} (put_node s (close_node (node_of st s)) st)"
    if "\<not> is_closed (node_of st s)"
  proof -
    have "is_open (node_of st s) \<or> is_dead_end (node_of st s) \<and> 0 \<le> info_g (node_of st s) \<and> info_g (node_of st s) < 2 ^ 29"
      using that s field by (cases "info_status (node_of st s)") (simp_all add: known_def is_open_def is_closed_def is_new_def is_dead_end_def in_field_def)
    from tree_put [OF tr reg step_close [OF reg this]] base_put [OF b reg] field show ?thesis by simp
  qed
  show "base_inv cfg t {} (st\<lparr>ss_monitor := m\<rparr>) \<and> tree_inv cfg t {} (st\<lparr>ss_monitor := m\<rparr>)"
    if "suspend_if_pending (int s) (ss_monitor st) = (True, m)" for m
    using base_suspended [OF b s that] tr by (simp add: tree_inv_def live_def)
next
  fix R x and st :: "'a search_state"
  assume I: "base_inv cfg t (insert x R) st \<and> tree_inv cfg t {} st"
  then show "base_inv cfg t R (st\<lparr>ss_monitor := snd (take_suspended x (ss_monitor st))\<rparr>) \<and>
      tree_inv cfg t ({x} \<inter> tm_suspended_states (ss_monitor st)) (st\<lparr>ss_monitor := snd (take_suspended x (ss_monitor st))\<rparr>)"
    using base_resumed [of cfg t x R st] by (auto simp: tree_inv_def live_def take_suspended_def)
next
  fix st :: "'a search_state"
  assume I: "base_inv cfg t {} st \<and> tree_inv cfg t {} st"
  note b = conjunct1 [OF I] and tr = conjunct2 [OF I]
  have ok: "ol_ok (ss_open_list st)" using b by (simp add: base_inv_def)
  show "base_inv cfg t (rs_state_id ` set rs) (st\<lparr>ss_monitor := m\<rparr>) \<and> tree_inv cfg t {} (st\<lparr>ss_monitor := m\<rparr>)"
    if "poll_bridge cx False (workers_run tick (ss_monitor st)) = (rs, m)" for cx tick rs m
    using base_polled [OF b that] tr by (simp add: tree_inv_def live_def)
  show "base_inv cfg t {} (st\<lparr>ss_open_list := q\<rparr>) \<and> tree_inv cfg t {int s} (st\<lparr>ss_open_list := q\<rparr>)"
    if "remove_min (ss_open_list st) key = Inr (s, k, q)" for s k q key
    using base_popped [OF b that] tr by (auto simp: tree_inv_def live_def)
  show "base_inv cfg t {} (insert_open cx s0 (put_node s0 (open_initial (node_of st s0)) st)) \<and>
      tree_inv cfg t {} (insert_open cx s0 (put_node s0 (open_initial (node_of st s0)) st))"
    if "s0 < registry_size (ss_world st)" "known st = {}" for cx
  proof -
    have "is_new (node_of st s0)" using that(2) by (simp add: known_def)
    from tree_insert [OF tree_put [OF tr that(1) step_initial [OF that(1) this]], of "{}" s0 "{}" cx]
    show ?thesis using base_open [OF b that(1), of "open_initial (node_of st s0)"] that(1) ok by simp
  qed
qed simp_all


end
