(* ===== verification/Eager_Demo.thy ===== *)
theory Eager_Demo
  imports Eager_Costs
begin

text \<open>
  A small search for demonstrations: one registered state, no operators, a heuristic that is zero
  everywhere, and a monitor that is switched off.
\<close>

definition search_world :: "(nat \<times> 64 word) list \<Rightarrow> packing \<Rightarrow> world" where
  "search_world goal p = (demo_world p)\<lparr>w_task := (w_task (demo_world p))\<lparr>g_operators := [], g_goal := goal\<rparr>\<rparr>"

definition demo_estimators :: "unit estimators" where
  "demo_estimators = \<lparr>es_reach_state = \<lambda>w parent oper s h. h, es_result = \<lambda>h w s g e. ap_of_int 0,
     es_preferred_operators = \<lambda>h w s e. []\<rparr>"

definition search_demo_config :: search_config where
  "search_demo_config = \<lparr>sc_reopen_closed_nodes = True, sc_use_multi_path_dependence = False, sc_bound = 2 ^ 29, sc_cost_type = NORMAL,
     sc_llm_h_open_list_key_index = - 1, sc_llm_h_evaluator = demo_evaluator, sc_f_evaluator = None,
     sc_preferred_operator_heuristics = [], sc_heuristics = [demo_evaluator], sc_cached_heuristics = [demo_evaluator],
     sc_prune = \<lambda>w s ops. ops\<rparr>"

definition demo_search :: "(nat \<times> 64 word) list \<Rightarrow> packing \<Rightarrow> unit search_state" where
  "demo_search goal p = \<lparr>ss_world = search_world goal p, ss_nodes = [], ss_open_list = Standard demo_standard, ss_heuristics = (),
     ss_monitor = monitor_init Map.empty, ss_statistics = SearchStatistics_init, ss_progress = Map.empty, ss_plan = None\<rparr>"

lemma search_world_ok:
  assumes "pack_bins (statespace_sizes demo_task) = Some p"
  shows "world_ok (search_world goal p)" "registry_size (search_world goal p) = 1"
    "get_initial_state (search_world goal p) = Inr (0, search_world goal p)" "state_value (search_world goal p) 0 0 = 0"
    "search_ok search_demo_config (w_task (search_world goal p))"
proof -
  note ok = demo_world_ok [OF assms]
  have val: "state_value (search_world goal p) s = state_value (demo_world p) s" for s
    by (simp add: state_value_def packed_buffer_def search_world_def demo_world_def fun_eq_iff)
  show "registry_size (search_world goal p) = 1" using ok(2) by (simp add: search_world_def registry_size_def)
  show "get_initial_state (search_world goal p) = Inr (0, search_world goal p)"
    by (simp add: get_initial_state_def search_world_def demo_world_def)
  show "state_value (search_world goal p) 0 0 = 0"
    unfolding val ok(4) using packer_get_zero [OF assms, of 0] demo_ok(4) by simp
  show "world_ok (search_world goal p)"
    using ok(1) val
    by (simp add: world_ok_def task_ok_def registry_inv_def evaluator_ok_def layout_ok_def states_in_domain_def registry_size_def
        same_tables_def search_world_def)
  show "search_ok search_demo_config (w_task (search_world goal p))"
    by (simp add: search_ok_def generator_task_ok_def search_demo_config_def search_world_def demo_world_def demo_task_def)
qed

lemma demo_monitor_off: "\<not> tc_enabled (tm_config (monitor_init Map.empty))"
  by (simp add: monitor_init_def trigger_config_from_def Let_def env_enabled_def)


lemma monitor_off:
  assumes "\<not> tc_enabled (tm_config m)"
  shows "start_bridge m = m" "poll_bridge cx final m = ([], m)" "suspend_if_pending s m = (False, m)" "record_expanded_without_h m = m"
    "record_open_state h m = m"
  using assms by (simp_all add: start_bridge_def poll_bridge_def suspend_if_pending_def record_expanded_without_h_def record_open_state_def)

lemma no_work: "workers_run (cx, []) m = m"
  by (simp add: workers_run_def)

lemma demo_alive: "\<not> ap_eq (ap_of_int 0) (ap_inf False)" "decode (ap_of_int 0) = Fin 0"
proof -
  show "decode (ap_of_int 0) = Fin 0" using decode_ap_of_int [of 0] by simp
  then show "\<not> ap_eq (ap_of_int 0) (ap_inf False)" by (simp add: ap_eq_def)
qed

lemma demo_fresh: "fresh_search Map.empty (demo_search goal p)"
  by (simp add: fresh_search_def demo_search_def demo_standard_def nonempty_buckets_def)


lemma demo_initialize:
  assumes p: "pack_bins (statespace_sizes demo_task) = Some p"
  shows "\<exists>st1. initialize search_demo_config demo_estimators cx (demo_search goal p) = Inr st1 \<and> ss_world st1 = search_world goal p \<and>
    ss_monitor st1 = monitor_init Map.empty \<and> node_of st1 0 = open_initial SearchNodeInfo_init \<and>
    (\<exists>k. ss_open_list st1 = Standard (demo_standard\<lparr>std_buckets := [(k, [0])], std_size := 1\<rparr>))"
  using search_world_ok(2,3) [OF p, of goal]
  by (simp add: initialize_def demo_search_def Let_def with_monitor_def count_def evaluate_state_def demo_estimators_def
      demo_standard_def standard_is_dead_end_def is_heuristic_infinite_def demo_alive report_f_value_def search_demo_config_def insert_open_def
      put_node_def monitor_off [OF demo_monitor_off] demo_monitor_off standard_do_insertion_def)

lemma demo_fetch:
  assumes st: "ss_world st = search_world goal p" "ss_monitor st = monitor_init Map.empty" "node_of st 0 = open_initial SearchNodeInfo_init"
      "ss_open_list st = Standard (demo_standard\<lparr>std_buckets := [(k, [0])], std_size := 1\<rparr>)"
    and p: "pack_bins (statespace_sizes demo_task) = Some p"
  shows "\<exists>st2. fetch_next_node search_demo_config demo_estimators ((cx, []) # ticks) st = Some (Inr (Some 0, ticks, st2)) \<and>
    ss_world st2 = search_world goal p \<and> ss_monitor st2 = monitor_init Map.empty \<and>
    node_of st2 0 = close_node (open_initial SearchNodeInfo_init) \<and> ss_open_list st2 = Standard demo_standard"
proof -
  have world: "\<not> violates_global_constraint (search_world goal p) 0"
    using search_world_ok(4) [OF p, of goal]
    by (simp add: violates_global_constraint_def search_world_def demo_world_def demo_task_def as_int_def)
  have fresh: "\<not> is_closed (open_initial SearchNodeInfo_init)" by simp
  show ?thesis
    using st world fresh search_world_ok(2) [OF p, of goal]
    by (simp add: fetch_round_def poll_llm_responses_def no_work monitor_off [OF demo_monitor_off] standard_empty_def
        consider_state_def recheck_node_def close_for_expansion_def record_expansion_def search_demo_config_def Let_def put_node_def
        report_f_value_def count_def with_monitor_def demo_standard_def demo_monitor_off demo_estimators_def)
qed

lemma demo_trace: "creating_operator (get_node nodes s) = None \<Longrightarrow> trace_path nodes s = Some []"
  by (rule trace_path_rooted [OF rooted.root])

lemma demo_goal:
  assumes "pack_bins (statespace_sizes demo_task) = Some p"
  shows "test_goal (w_task (search_world [(0, x)] p)) (state_value (search_world [(0, x)] p) 0) \<longleftrightarrow> x = 0"
  using search_world_ok(4) [OF assms, of "[(0, x)]"] by (auto simp: test_goal_def search_world_def)

lemma demo_solved:
  assumes p: "pack_bins (statespace_sizes demo_task) = Some p"
  shows "\<exists>st'. eager_search search_demo_config demo_estimators cx (\<lambda>k. False) [(cx, []), (cx, [])] (demo_search [(0, 0)] p) = Some (Inr (SOLVED, st'))"
proof -
  obtain st1 k where st1: "initialize search_demo_config demo_estimators cx (demo_search [(0, 0)] p) = Inr st1" "ss_world st1 = search_world [(0, 0)] p"
      "ss_monitor st1 = monitor_init Map.empty" "node_of st1 0 = open_initial SearchNodeInfo_init"
      "ss_open_list st1 = Standard (demo_standard\<lparr>std_buckets := [(k, [0])], std_size := 1\<rparr>)"
    using demo_initialize [OF p] by blast
  obtain st2 where st2: "fetch_next_node search_demo_config demo_estimators [(cx, []), (cx, [])] st1 = Some (Inr (Some 0, [(cx, [])], st2))"
      "ss_world st2 = search_world [(0, 0)] p" "node_of st2 0 = close_node (open_initial SearchNodeInfo_init)"
    using demo_fetch [OF st1(2-5) p] by blast
  have "trace_path (ss_nodes st2) 0 = Some []" by (rule demo_trace) (simp add: st2(3) open_initial_def)
  then show ?thesis
    using demo_goal [OF p, of 0] st2(2) by (simp add: eager_search_def st1(1) eager_step_def st2(1) check_goal_and_set_plan_def del: fetch_next_node.simps)
qed


section \<open>Witnesses\<close>

theorem eager_search_sound_witness:
  "\<exists>p cx st' plan s. eager_search search_demo_config demo_estimators cx (\<lambda>k. False) [(cx, []), (cx, [])] (demo_search [(0, 0)] p) = Some (Inr (SOLVED, st')) \<and>
    ss_plan st' = Some plan \<and> leads_to (ss_world st') 0 plan s \<and> state_value (ss_world st') s 0 = 0"
proof -
  obtain p where p: "pack_bins (statespace_sizes demo_task) = Some p" using demo_packing demo_ok(4) by auto
  let ?w = "search_world [(0, 0)] p"
  obtain cx st' where st': "eager_search search_demo_config demo_estimators cx (\<lambda>k. False) [(cx, []), (cx, [])] (demo_search [(0, 0)] p) = Some (Inr (SOLVED, st'))"
    using demo_solved [OF p] by blast
  have start: "get_initial_state (ss_world (demo_search [(0, 0)] p)) = Inr (0, ?w)" using search_world_ok(3) [OF p] by (simp add: demo_search_def)
  have size: "0 < registry_size ?w" using search_world_ok(2) [OF p, of "[(0, 0)]"] by simp
  have goal: "test_goal (w_task ?w) state \<longleftrightarrow> state 0 = 0" for state by (simp add: test_goal_def search_world_def)
  show ?thesis
    using eager_search_sound [OF search_world_ok(5,1) [OF p] start size demo_fresh st'] st' unfolding goal by blast
qed



end
