(* ===== verification/Task_Reader.thy ===== *)
theory Task_Reader
  imports Input_Stream
begin

text \<open>
  The reader of the preprocessed task: \<open>read_everything\<close> of \<open>globals.cc\<close> with the constructors of
  \<open>global_operator.cc\<close> and \<open>axioms.cc\<close> that read from a stream. A reader takes the stream and returns
  what it has read with the rest, or the message with which the program ends. The globals that are
  filled are the fields of a \<open>task\<close>.
\<close>

section \<open>Words of the format\<close>

definition check_magic :: "string \<Rightarrow> istream \<Rightarrow> istream result" where
  "check_magic magic s = (let (word, s) = extract_word [] s
     in if word \<noteq> magic then Inl (''Failed to match magic word '' @ magic) else Inr s)"

definition read_cal_operator :: "istream \<Rightarrow> (cal_operator \<times> istream) result" where
  "read_cal_operator s = (let (w, s) = extract_word [] s
     in if w = ''+'' then Inr (cal_sum, s) else if w = ''-'' then Inr (cal_diff, s)
        else if w = ''*'' then Inr (cal_mult, s) else if w = ''/'' then Inr (cal_divi, s)
        else Inl ''Unknown operator'')"

definition read_f_operator :: "istream \<Rightarrow> (f_operator \<times> istream) result" where
  "read_f_operator s = (let (w, s) = extract_word [] s
     in if w = ''='' then Inr (assign, s) else if w = ''+'' then Inr (increase, s)
        else if w = ''-'' then Inr (decrease, s) else if w = ''*'' then Inr (scale_up, s)
        else if w = ''/'' then Inr (scale_down, s)
        else Inl ''Unknown assignment operator'')"

definition read_comp_operator :: "istream \<Rightarrow> (comp_operator \<times> istream) result" where
  "read_comp_operator s = (let (w, s) = extract_word [] s
     in if w = ''<'' then Inr (comp_lt, s) else if w = ''<='' then Inr (comp_le, s)
        else if w = ''='' then Inr (comp_eq, s) else if w = ''>='' then Inr (comp_ge, s)
        else if w = ''>'' then Inr (comp_gt, s) else if w = ''!='' then Inr (comp_ue, s)
        else Inl ''assertion failed'')"

definition read_numType :: "istream \<Rightarrow> (numType \<times> istream) result" where
  "read_numType s = (let (w, s) = extract_word [] s
     in if w = ''R'' then Inr (num_regular, s) else if w = ''D'' then Inr (num_derived, s)
        else if w = ''I'' then Inr (num_instrumentation, s) else if w = ''C'' then Inr (num_constant, s)
        else if w = ''U'' then Inr (num_unknown, s)
        else Inl ''unknown variable type read'')"

section \<open>Conditions, effects, operators\<close>

text \<open>An \<open>int\<close> that is used as an index of a vector is converted to \<open>size_t\<close>.\<close>

definition index_of :: "int \<Rightarrow> nat" where
  "index_of i = nat (i mod 2 ^ 64)"

text \<open>The checks use the domains that have been read before.\<close>

definition check_fact :: "container_int list \<Rightarrow> int \<Rightarrow> container_int \<Rightarrow> unit result" where
  "check_fact doms var val =
    (if \<not> (0 \<le> var \<and> nat var < length doms) then Inl ''Invalid variable id''
     else if doms ! nat var \<le> val then Inl ''Invalid value'' else Inr ())"

text \<open>Both members are set to -1 before the extraction.\<close>

definition read_condition :: "container_int list \<Rightarrow> istream \<Rightarrow> (GlobalCondition \<times> istream) result" where
  "read_condition doms s =
    (let (var', s) = extract_int s; (val', s) = extract_container s;
         var = case_option (- 1) id var'; val = case_option (- 1) id val'
     in bind_result (check_fact doms var val) (\<lambda>_. Inr (\<lparr>cond_var = index_of var, cond_val = val\<rparr>, s)))"

definition make_condition :: "container_int list \<Rightarrow> int \<Rightarrow> int \<Rightarrow> GlobalCondition result" where
  "make_condition doms var val =
    bind_result (check_fact doms var (word_of_int val)) (\<lambda>_. Inr \<lparr>cond_var = index_of var, cond_val = word_of_int val\<rparr>)"

definition make_effect :: "container_int list \<Rightarrow> int \<Rightarrow> int \<Rightarrow> GlobalCondition list \<Rightarrow> GlobalEffect result" where
  "make_effect doms var val conds =
    bind_result (check_fact doms var (word_of_int val))
      (\<lambda>_. Inr \<lparr>eff_var = index_of var, eff_val = word_of_int val, eff_conditions = conds\<rparr>)"

text \<open>The preconditions (at most one) and the effect that one line adds to the operator.\<close>

definition read_pre_post :: "container_int list \<Rightarrow> istream \<Rightarrow> ((GlobalCondition list \<times> GlobalEffect) \<times> istream) result" where
  "read_pre_post doms s =
    bind_result (read_reserved (read_condition doms) s) (\<lambda>(conditions, s).
    bind_result (read_int s) (\<lambda>(var, s).
    bind_result (read_int s) (\<lambda>(pre, s).
    bind_result (read_int s) (\<lambda>(post, s).
    bind_result (if pre \<noteq> - 1 then check_fact doms var (word_of_int pre) else Inr ()) (\<lambda>_.
    bind_result (check_fact doms var (word_of_int post)) (\<lambda>_.
    bind_result (if pre \<noteq> - 1 then bind_result (make_condition doms var pre) (\<lambda>c. Inr [c]) else Inr []) (\<lambda>pres.
    bind_result (make_effect doms var post conditions) (\<lambda>eff. Inr ((pres, eff), s)))))))))"

definition read_assign_effect :: "container_int list \<Rightarrow> istream \<Rightarrow> (AssignEffect \<times> istream) result" where
  "read_assign_effect doms s =
    bind_result (read_int s) (\<lambda>(cond_count, s).
    bind_result (read_times (nat cond_count) (read_condition doms) s) (\<lambda>(conds, s).
      let (aff, s) = extract_int s
      in bind_result (read_f_operator s) (\<lambda>(fop, s).
         let (ass, s) = extract_int s
         in Inr (\<lparr>aff_var = index_of (case_option (- 1) id aff), ass_fop = fop, ass_var = index_of (case_option (- 1) id ass),
                  is_conditional_effect = (cond_count > 0), ass_conditions = conds\<rparr>, s))))"

text \<open>The constructor \<open>GlobalOperator(in, axiom)\<close>; the task reader uses the first branch only.\<close>

definition read_operator :: "bool \<Rightarrow> container_int list \<Rightarrow> bool \<Rightarrow> istream \<Rightarrow> (GlobalOperator \<times> istream) result" where
  "read_operator use_metric doms axiom s =
    (if \<not> axiom then
       bind_result (check_magic ''begin_operator'' s) (\<lambda>s.
         let (name, s) = getline [] (skip_ws s)
         in bind_result (read_counted (read_condition doms) s) (\<lambda>(pres, s).
            bind_result (read_counted (read_pre_post doms) s) (\<lambda>(pps, s).
            bind_result (read_counted (read_assign_effect doms) s) (\<lambda>(asss, s).
            bind_result (read_double s) (\<lambda>(c, s).
            bind_result (check_magic ''end_operator'' s) (\<lambda>s.
              Inr (\<lparr>is_an_axiom = False, preconditions = pres @ concat (map fst pps), op_effects = map snd pps,
                    assign_effects = asss, op_name = name, op_cost = (if use_metric then c else ap_of_int 1)\<rparr>, s)))))))
     else
       bind_result (check_magic ''begin_rule'' s) (\<lambda>s.
       bind_result (read_pre_post doms s) (\<lambda>((pres, eff), s).
       bind_result (check_magic ''end_rule'' s) (\<lambda>s.
         Inr (\<lparr>is_an_axiom = True, preconditions = pres, op_effects = [eff], assign_effects = [],
               op_name = ''<axiom>'', op_cost = ap_zero False\<rparr>, s)))))"

section \<open>Axioms\<close>

definition read_propositional_axiom :: "container_int list \<Rightarrow> istream \<Rightarrow> (PropositionalAxiom \<times> istream) result" where
  "read_propositional_axiom doms s =
    bind_result (check_magic ''begin_rule'' s) (\<lambda>s.
    bind_result (read_counted (read_condition doms) s) (\<lambda>(conds, s).
    bind_result (read_int s) (\<lambda>(affected, s).
    bind_result (read_int s) (\<lambda>(old_value, s).
    bind_result (read_int s) (\<lambda>(new_value, s).
    bind_result (make_effect doms affected new_value []) (\<lambda>eff.
    bind_result (check_magic ''end_rule'' s) (\<lambda>s.
      Inr (\<lparr>pax_affected = index_of affected, pax_layer = - 1, pax_conditions = conds, pax_effects = [eff]\<rparr>, s))))))))"

definition read_comparison_axiom :: "istream \<Rightarrow> (ComparisonAxiom \<times> istream) result" where
  "read_comparison_axiom s =
    bind_result (read_int s) (\<lambda>(av, s).
    bind_result (read_comp_operator s) (\<lambda>(co, s).
    bind_result (read_int s) (\<lambda>(vl, s).
    bind_result (read_int s) (\<lambda>(vr, s).
      Inr (\<lparr>cax_affected = index_of av, cax_lhs = index_of vl, cax_rhs = index_of vr, cax_op = co\<rparr>, s)))))"

text \<open>The assertions only look at the upper bound.\<close>

definition read_assignment_axiom :: "nat \<Rightarrow> istream \<Rightarrow> (AssignmentAxiom \<times> istream) result" where
  "read_assignment_axiom num_names s =
    bind_result (read_int s) (\<lambda>(av, s).
    bind_result (read_cal_operator s) (\<lambda>(fo, s).
    bind_result (read_int s) (\<lambda>(vl, s).
    bind_result (read_int s) (\<lambda>(vr, s).
      if av < int num_names \<and> vl < int num_names \<and> vr < int num_names
      then Inr (\<lparr>aax_affected = index_of av, aax_lhs = index_of vl, aax_rhs = index_of vr, aax_op = fo\<rparr>, s)
      else Inl ''assertion failed''))))"

section \<open>Sections of the file\<close>

definition read_and_verify_version :: "istream \<Rightarrow> istream result" where
  "read_and_verify_version s =
    bind_result (check_magic ''begin_version'' s) (\<lambda>s.
    bind_result (read_int s) (\<lambda>(version, s).
    bind_result (check_magic ''end_version'' s) (\<lambda>s.
      if version \<noteq> 4 then Inl ''Expected preprocessor file version 4'' else Inr s)))"

text \<open>The direction of the metric and its variable; the global \<open>g_metric_fluent_id\<close> starts as 0.\<close>

definition read_metric :: "istream \<Rightarrow> ((bool \<times> int) \<times> istream) result" where
  "read_metric s =
    bind_result (check_magic ''begin_metric'' s) (\<lambda>s.
    bind_result (determinate (extract_char s)) (\<lambda>(optimization, s).
      if optimization \<noteq> CHR ''<'' \<and> optimization \<noteq> CHR ''>'' then Inl ''assertion failed''
      else let (fluent_id, s) = extract_int s
        in bind_result (check_magic ''end_metric'' s) (\<lambda>s. Inr ((optimization = CHR ''<'', case_option 0 id fluent_id), s))))"

text \<open>Name, layer, range and names of the facts of a variable.\<close>

definition read_variable :: "istream \<Rightarrow> ((string \<times> int \<times> container_int \<times> string list) \<times> istream) result" where
  "read_variable s =
    bind_result (check_magic ''begin_variable'' s) (\<lambda>s.
    let (name, s) = extract_word [] s
    in bind_result (read_int s) (\<lambda>(layer, s).
       bind_result (read_int s) (\<lambda>(vrange, s).
         if vrange < 0 then Inl ''length_error''
         else bind_result (read_times (nat vrange) (\<lambda>s. Inr (getline [] s)) (skip_ws s)) (\<lambda>(fact_names, s).
           bind_result (check_magic ''end_variable'' s) (\<lambda>s.
             Inr ((name, layer, word_of_int vrange, fact_names), s))))))"

definition read_numeric_variable :: "istream \<Rightarrow> ((numType \<times> int \<times> string) \<times> istream) result" where
  "read_numeric_variable s =
    bind_result (read_numType s) (\<lambda>(type, s).
    bind_result (read_int s) (\<lambda>(layer, s).
      let (name, s) = getline [] (skip_ws s) in Inr ((type, layer, name), s)))"

definition read_numeric_variables :: "istream \<Rightarrow> ((numType \<times> int \<times> string) list \<times> istream) result" where
  "read_numeric_variables s =
    bind_result (read_int s) (\<lambda>(count, s).
    bind_result (check_magic ''begin_numeric_variables'' s) (\<lambda>s.
    bind_result (read_times (nat count) read_numeric_variable s) (\<lambda>(vars, s).
    bind_result (check_magic ''end_numeric_variables'' s) (\<lambda>s. Inr (vars, s)))))"

text \<open>A fact of a mutex group is not checked when it is read.\<close>

definition read_fact :: "istream \<Rightarrow> (Fact \<times> istream) result" where
  "read_fact s = bind_result (read_int s) (\<lambda>(var, s). bind_result (read_int s) (\<lambda>(val, s). Inr ((index_of var, index_of val), s)))"

definition read_mutex_group :: "istream \<Rightarrow> (Fact list \<times> istream) result" where
  "read_mutex_group s =
    bind_result (check_magic ''begin_mutex_group'' s) (\<lambda>s.
    bind_result (read_reserved read_fact s) (\<lambda>(facts, s).
    bind_result (check_magic ''end_mutex_group'' s) (\<lambda>s. Inr (facts, s))))"

text \<open>\<open>g_inconsistent_facts[fact1.var][fact1.value].insert(fact2)\<close> for facts of different variables.\<close>

definition insert_mutex :: "Fact \<times> Fact \<Rightarrow> Fact set list list \<Rightarrow> Fact set list list result" where
  "insert_mutex fs inc = (let (a, b) = fs
     in if fst a = fst b then Inr inc
        else if fst a < length inc \<and> snd a < length (inc ! fst a)
        then Inr (inc[fst a := (inc ! fst a)[snd a := insert b (inc ! fst a ! snd a)]])
        else Inl ''index out of bounds'')"

primrec insert_mutexes :: "(Fact \<times> Fact) list \<Rightarrow> Fact set list list \<Rightarrow> Fact set list list result" where
  "insert_mutexes [] inc = Inr inc"
| "insert_mutexes (fs # rest) inc = bind_result (insert_mutex fs inc) (insert_mutexes rest)"

definition read_mutexes :: "container_int list \<Rightarrow> istream \<Rightarrow> ((Fact set list list \<times> Fact set list) \<times> istream) result" where
  "read_mutexes doms s =
    bind_result (read_counted read_mutex_group s) (\<lambda>(groups, s).
    bind_result (insert_mutexes (concat (map (\<lambda>g. List.product g g) groups)) (map (\<lambda>d. replicate (unat d) {}) doms)) (\<lambda>inc.
      Inr ((inc, map set groups), s)))"

definition read_goal :: "istream \<Rightarrow> ((nat \<times> container_int) list \<times> istream) result" where
  "read_goal s =
    bind_result (check_magic ''begin_goal'' s) (\<lambda>s.
    bind_result (read_int s) (\<lambda>(count, s).
      if count < 1 then Inl ''Task has no goal condition!''
      else bind_result (read_times (nat count) (\<lambda>s. bind_result (read_int s) (\<lambda>(var, s). bind_result (read_int s) (\<lambda>(val, s).
          Inr ((index_of var, word_of_int val), s)))) s) (\<lambda>(goal, s).
        bind_result (check_magic ''end_goal'' s) (\<lambda>s. Inr (goal, s)))))"

text \<open>Values of the initial state, into vectors that hold zeros.\<close>

definition read_initial_values :: "nat \<Rightarrow> istream \<Rightarrow> (container_int list \<times> istream) result" where
  "read_initial_values n s =
    bind_result (check_magic ''begin_state'' s) (\<lambda>s.
    bind_result (read_times n (\<lambda>s. let (v, s) = extract_container s in Inr (case_option 0 id v, s)) s) (\<lambda>(vals, s).
    bind_result (check_magic ''end_state'' s) (\<lambda>s. Inr (vals, s))))"

definition read_initial_numeric :: "nat \<Rightarrow> istream \<Rightarrow> (ap_float list \<times> istream) result" where
  "read_initial_numeric n s =
    bind_result (check_magic ''begin_numeric_state'' s) (\<lambda>s.
    bind_result (read_times n (\<lambda>s. let (v, s) = extract_double s in Inr (case_option (ap_zero False) id v, s)) s) (\<lambda>(vals, s).
    bind_result (check_magic ''end_numeric_state'' s) (\<lambda>s. Inr (vals, s))))"

definition read_axioms :: "container_int list \<Rightarrow> nat \<Rightarrow> istream \<Rightarrow>
    ((PropositionalAxiom list \<times> ComparisonAxiom list \<times> AssignmentAxiom list) \<times> istream) result" where
  "read_axioms doms num_names s =
    bind_result (read_counted (read_propositional_axiom doms) s) (\<lambda>(logic, s).
    bind_result (read_int s) (\<lambda>(count, s).
    bind_result (check_magic ''begin_comparison_axioms'' s) (\<lambda>s.
    bind_result (read_times (nat count) read_comparison_axiom s) (\<lambda>(comp, s).
    bind_result (check_magic ''end_comparison_axioms'' s) (\<lambda>s.
    bind_result (read_int s) (\<lambda>(count, s).
    bind_result (check_magic ''begin_numeric_axioms'' s) (\<lambda>s.
    bind_result (read_times (nat count) (read_assignment_axiom num_names) s) (\<lambda>(ass, s).
    bind_result (check_magic ''end_numeric_axioms'' s) (\<lambda>s. Inr ((logic, comp, ass), s))))))))))"

definition read_global_constraint :: "istream \<Rightarrow> ((int \<times> int) \<times> istream) result" where
  "read_global_constraint s =
    bind_result (check_magic ''begin_global_constraint'' s) (\<lambda>s.
      let (var, s) = extract_int s; (val, s) = extract_int s
      in bind_result (check_magic ''end_global_constraint'' s) (\<lambda>s. Inr ((case_option 0 id var, case_option 0 id val), s)))"

text \<open>The static facts of the initial state, if the file has them, and the next marker.\<close>

definition read_init_constant_facts_or_next_marker :: "istream \<Rightarrow> ((string list \<times> string) \<times> istream) result" where
  "read_init_constant_facts_or_next_marker s =
    (if \<not> has_input s then Inr (([], []), set_fail s)
     else let (marker, s) = extract_word [] s
       in if marker = ''begin_SG'' then Inr (([], marker), s)
          else bind_result (check_magic ''begin_init_constant_facts'' s) (\<lambda>s.
            if atoi marker < 0 then Inl ''length_error''
            else bind_result (read_times (nat (atoi marker)) (\<lambda>s. Inr (getline [] s)) (skip_ws s)) (\<lambda>(facts, s).
              bind_result (check_magic ''end_init_constant_facts'' s) (\<lambda>s.
                let (next_marker, s) = extract_word [] s in Inr ((facts, next_marker), s)))))"

text \<open>
  The successor generator of the preprocessor is skipped line by line. Without a line \<open>end_SG\<close> the
  loop never ends: \<open>getline\<close> keeps failing.
\<close>

partial_function (option) skip_generator :: "string \<Rightarrow> istream \<Rightarrow> istream option" where
  "skip_generator line s =
    (if line = ''end_SG'' then Some s else let (line, s) = getline line s in skip_generator line s)"

section \<open>The whole file\<close>

text \<open>
  The part of \<open>read_everything\<close> that fills the globals of the task, up to the marker that follows
  the global constraint. The limits of the operator costs are updated with every operator.
\<close>

definition read_task :: "istream \<Rightarrow> ((task \<times> string) \<times> istream) result" where
  "read_task s =
    bind_result (read_and_verify_version s) (\<lambda>s.
    bind_result (read_metric s) (\<lambda>((minimizes, fluent_id), s).
    bind_result (read_counted read_variable s) (\<lambda>(vars, s).
    let doms = map (\<lambda>(name, layer, vrange, facts). vrange) vars; use_metric = (fluent_id \<noteq> - 1)
    in bind_result (read_numeric_variables s) (\<lambda>(nums, s).
       bind_result (read_mutexes doms s) (\<lambda>((inconsistent, groups), s).
       bind_result (read_initial_values (length doms) s) (\<lambda>(init, s).
       bind_result (read_initial_numeric (length nums) s) (\<lambda>(init_numeric, s).
       bind_result (read_goal s) (\<lambda>(goal, s).
       bind_result (read_counted (read_operator use_metric doms False) s) (\<lambda>(opers, s).
       bind_result (read_axioms doms (length nums) s) (\<lambda>((logic, comp, ass), s).
       bind_result (read_global_constraint s) (\<lambda>((gc_var, gc_val), s).
       bind_result (read_init_constant_facts_or_next_marker s) (\<lambda>((facts, marker), s).
         Inr ((\<lparr>g_use_metric = use_metric, g_metric_minimizes = minimizes, g_metric_fluent_id = fluent_id,
           g_min_action_cost = foldl ap_min (ap_largest False) (map op_cost opers),
           g_max_action_cost = foldl ap_max (ap_zero False) (map op_cost opers),
           g_variable_name = map fst vars, g_variable_domain = doms,
           g_fact_names = map (\<lambda>(name, layer, vrange, facts). facts) vars,
           g_axiom_layers = map (\<lambda>(name, layer, vrange, facts). layer) vars, g_default_axiom_values = init,
           g_numeric_axiom_layers = map (\<lambda>(type, layer, name). layer) nums,
           g_numeric_var_names = map (\<lambda>(type, layer, name). name) nums, g_numeric_var_types = map fst nums,
           g_inconsistent_facts = inconsistent, g_mutex_group = groups, g_initial_state_data = init,
           g_initial_state_numeric = init_numeric, g_init_constant_facts = facts, g_goal = goal, g_operators = opers,
           g_logic_axioms = logic, g_axioms_as_operator = map axiom_as_operator logic, g_comp_axioms = comp,
           g_ass_axioms = ass, g_global_constraint_var_id = gc_var, g_global_constraint_val = gc_val,
           g_last_arithmetic_axiom_layer = foldl (\<lambda>m (type, layer, name). max layer m) (- 1) nums\<rparr>, marker), s)))))))))))))"

text \<open>The rest of the file: the marker, the successor generator and the first word after it.\<close>

definition read_rest :: "string \<Rightarrow> istream \<Rightarrow> unit result option" where
  "read_rest marker s =
    (case (if marker = [] then check_magic ''begin_SG'' s
           else if marker \<noteq> ''begin_SG'' then Inl ''Failed to match magic word begin_SG'' else Inr s) of
       Inl e \<Rightarrow> Some (Inl e)
     | Inr s \<Rightarrow> (case skip_generator [] s of None \<Rightarrow> None
         | Some s \<Rightarrow> Some (bind_result (check_magic ''begin_DTG'' s) (\<lambda>_. Inr ()))))"

text \<open>
  Once the task is read: the packer, which may not return, the evaluator of the axioms and the
  registry; then every operator gets the metric of what it does to the initial state as its cost.
\<close>

primrec set_costs :: "world \<Rightarrow> ap_float \<Rightarrow> GlobalOperator list \<Rightarrow> GlobalOperator list result" where
  "set_costs w init_cost [] = Inr []"
| "set_costs w init_cost (oper # opers) =
    bind_result (operator_set_cost w init_cost oper) (\<lambda>c.
    bind_result (set_costs w init_cost opers) (\<lambda>rest. Inr (oper\<lparr>op_cost := c\<rparr> # rest)))"

definition initial_world :: "task \<Rightarrow> packing \<Rightarrow> world" where
  "initial_world t p = \<lparr>w_task = t, w_packer = p, w_axioms = AxiomEvaluator_make t,
     w_registry = StateRegistry_make t (length (filter (\<lambda>ty. ty = num_constant) (g_numeric_var_types t))), g_cost_information = []\<rparr>"

definition with_costs :: "GlobalOperator list \<Rightarrow> task \<Rightarrow> task" where
  "with_costs opers t = t\<lparr>g_operators := opers,
     g_min_action_cost := foldl ap_min (g_min_action_cost t) (map op_cost opers),
     g_max_action_cost := foldl ap_max (g_max_action_cost t) (map op_cost opers)\<rparr>"

definition prepare_task :: "task \<Rightarrow> world result option" where
  "prepare_task t =
    (if g_variable_domain t = [] then Some (Inl ''assertion failed'')
     else case pack_bins (statespace_sizes t) of None \<Rightarrow> None
       | Some p \<Rightarrow> Some (
           bind_result (get_initial_state (initial_world t p)) (\<lambda>(s0, w).
           bind_result (evaluate_metric (w_task w) (get_numeric_vars w s0)) (\<lambda>init_cost.
           bind_result (set_costs w init_cost (g_operators t)) (\<lambda>opers. Inr (w\<lparr>w_task := with_costs opers (w_task w)\<rparr>))))))"

text \<open>None is a run that does not return.\<close>

definition read_everything :: "string \<Rightarrow> world result option" where
  "read_everything file =
    (case read_task (stream_of file) of Inl e \<Rightarrow> Some (Inl e)
     | Inr ((t, marker), s) \<Rightarrow>
       (case read_rest marker s of None \<Rightarrow> None | Some (Inl e) \<Rightarrow> Some (Inl e) | Some (Inr _) \<Rightarrow> prepare_task t))"

end
