(* ===== verification/Task_Writer.thy ===== *)
theory Task_Writer
  imports Task_Reader
begin

text \<open>
  How the preprocessor writes the file the search reads: \<open>generate_cpp_input\<close> of
  \<open>preprocess/helper_functions.cc\<close> and of the classes it calls. A pointer to a variable is the level
  of the variable, the only member that is written; -1 is a level that has not been set. The
  enumerations are those of the search. The successor generator and the graphs, which the search
  skips, are given as text.
\<close>

section \<open>What is written\<close>

type_synonym level_value = "int \<times> int"

record pre_Variable =
  pv_name :: string
  pv_layer :: int
  pv_values :: "string list"

record pre_NumericVariable =
  pn_type :: numType
  pn_layer :: int
  pn_name :: string
  pn_necessary :: bool

record pre_PrePost =
  pp_conds :: "level_value list"
  pp_var :: int
  pp_pre :: int
  pp_post :: int

record pre_NumericEffect =
  pe_conds :: "level_value list"
  pe_var :: int
  pe_fop :: f_operator
  pe_foperand :: int

record pre_Operator =
  po_name :: string
  po_prevail :: "level_value list"
  po_pre_post :: "pre_PrePost list"
  po_assign_effects :: "pre_NumericEffect list"
  po_cost :: ap_float

record pre_Axiom_relational =
  px_conditions :: "level_value list"
  px_effect_var :: int
  px_old_val :: int
  px_effect_val :: int

record pre_Axiom_functional_comparison =
  pc_effect_var :: int
  pc_cop :: comp_operator
  pc_left :: int
  pc_right :: int

record pre_Axiom_numeric_computation =
  pq_effect_var :: int
  pq_fop :: f_operator
  pq_left :: int
  pq_right :: int

record pre_task =
  pt_optimization :: char
  pt_metric_index :: int
  pt_variables :: "pre_Variable list"
  pt_numeric_vars :: "pre_NumericVariable list"
  pt_mutexes :: "level_value list list"
  pt_initial_values :: "int list"
  pt_initial_numeric :: "ap_float list"
  pt_goals :: "level_value list"
  pt_operators :: "pre_Operator list"
  pt_axioms_rel :: "pre_Axiom_relational list"
  pt_axioms_func_comp :: "pre_Axiom_functional_comparison list"
  pt_axioms_func_ass :: "pre_Axiom_numeric_computation list"
  pt_constraint :: level_value
  pt_init_constant_facts :: "string list"
  pt_generator_text :: string
  pt_graphs_text :: string

section \<open>Writing\<close>

text \<open>\<open>outfile << x << endl\<close> and \<open>outfile << x << " "\<close>.\<close>

definition endl :: "string \<Rightarrow> string" where "endl w = w @ [CHR 10]"
definition sp :: "string \<Rightarrow> string" where "sp w = w @ '' ''"

fun fop_text :: "f_operator \<Rightarrow> string" where
  "fop_text assign = ''=''"
| "fop_text scale_up = ''*''"
| "fop_text scale_down = ''/''"
| "fop_text increase = ''+''"
| "fop_text decrease = ''-''"

fun cop_text :: "comp_operator \<Rightarrow> string" where
  "cop_text comp_lt = ''<''"
| "cop_text comp_le = ''<=''"
| "cop_text comp_eq = ''=''"
| "cop_text comp_ge = ''>=''"
| "cop_text comp_gt = ''>''"
| "cop_text comp_ue = ''!=''"

text \<open>After an \<open>X\<close> for an unknown type an assertion fails.\<close>

fun numType_text :: "numType \<Rightarrow> string" where
  "numType_text num_constant = ''C''"
| "numType_text num_regular = ''R''"
| "numType_text num_derived = ''D''"
| "numType_text num_instrumentation = ''I''"
| "numType_text num_unknown = ''X''"

definition variable_text :: "pre_Variable \<Rightarrow> string" where
  "variable_text v = endl ''begin_variable'' @ endl (pv_name v) @ endl (show_int (pv_layer v)) @
     endl (show_nat (length (pv_values v))) @ concat (map endl (pv_values v)) @ endl ''end_variable''"

definition numeric_variable_text :: "pre_NumericVariable \<Rightarrow> string" where
  "numeric_variable_text v = sp (numType_text (pn_type v)) @ sp (show_int (pn_layer v)) @ endl (pn_name v)"

definition fact_line :: "level_value \<Rightarrow> string" where
  "fact_line f = sp (show_int (fst f)) @ endl (show_int (snd f))"

definition mutex_group_text :: "level_value list \<Rightarrow> string" where
  "mutex_group_text facts = endl ''begin_mutex_group'' @ endl (show_nat (length facts)) @
     concat (map fact_line facts) @ endl ''end_mutex_group''"

definition effect_conds_text :: "level_value list \<Rightarrow> string" where
  "effect_conds_text conds = show_nat (length conds) @ concat (map (\<lambda>c. '' '' @ sp (show_int (fst c)) @ show_int (snd c)) conds)"

definition pre_post_text :: "pre_PrePost \<Rightarrow> string" where
  "pre_post_text e = effect_conds_text (pp_conds e) @ '' '' @ sp (show_int (pp_var e)) @
     sp (show_int (pp_pre e)) @ endl (show_int (pp_post e))"

definition numeric_effect_text :: "pre_NumericEffect \<Rightarrow> string" where
  "numeric_effect_text e = effect_conds_text (pe_conds e) @ '' '' @ sp (show_int (pe_var e)) @
     sp (fop_text (pe_fop e)) @ endl (show_int (pe_foperand e))"

definition operator_text :: "pre_Operator \<Rightarrow> string" where
  "operator_text oper = endl ''begin_operator'' @ endl (po_name oper) @
     endl (show_nat (length (po_prevail oper))) @ concat (map fact_line (filter (\<lambda>f. fst f \<noteq> - 1) (po_prevail oper))) @
     endl (show_nat (length (po_pre_post oper))) @ concat (map pre_post_text (po_pre_post oper)) @
     endl (show_nat (length (po_assign_effects oper))) @ concat (map numeric_effect_text (po_assign_effects oper)) @
     endl (format_g 6 (po_cost oper)) @ endl ''end_operator''"

definition axiom_relational_text :: "pre_Axiom_relational \<Rightarrow> string" where
  "axiom_relational_text ax = endl ''begin_rule'' @ endl (show_nat (length (px_conditions ax))) @
     concat (map fact_line (px_conditions ax)) @ sp (show_int (px_effect_var ax)) @ sp (show_int (px_old_val ax)) @
     endl (show_int (px_effect_val ax)) @ endl ''end_rule''"

definition comparison_text :: "pre_Axiom_functional_comparison \<Rightarrow> string" where
  "comparison_text ax = sp (show_int (pc_effect_var ax)) @ sp (cop_text (pc_cop ax)) @
     sp (show_int (pc_left ax)) @ endl (show_int (pc_right ax))"

definition computation_text :: "pre_Axiom_numeric_computation \<Rightarrow> string" where
  "computation_text ax = sp (show_int (pq_effect_var ax)) @ sp (fop_text (pq_fop ax)) @
     sp (show_int (pq_left ax)) @ endl (show_int (pq_right ax))"

text \<open>The goals in the order of the levels; the count is that of the goals given.\<close>

definition ordered_goal_values :: "pre_task \<Rightarrow> int list" where
  "ordered_goal_values t = foldl (\<lambda>vals (level, val). vals[nat level := val]) (replicate (length (pt_variables t)) (- 1)) (pt_goals t)"

definition goal_lines :: "int list \<Rightarrow> level_value list" where
  "goal_lines vals = filter (\<lambda>(i, x). x \<noteq> - 1) (zip (map int [0..<length vals]) vals)"

text \<open>The sections of the file, in their order.\<close>

definition metric_text :: "pre_task \<Rightarrow> string" where
  "metric_text t = endl ''begin_metric'' @ sp [pt_optimization t] @ endl (show_int (pt_metric_index t)) @ endl ''end_metric''"

definition variables_text :: "pre_task \<Rightarrow> string" where
  "variables_text t = endl (show_nat (length (pt_variables t))) @ concat (map variable_text (pt_variables t))"

definition numeric_variables_text :: "pre_task \<Rightarrow> string" where
  "numeric_variables_text t = endl (show_nat (length (pt_numeric_vars t))) @ endl ''begin_numeric_variables'' @
     concat (map numeric_variable_text (pt_numeric_vars t)) @ endl ''end_numeric_variables''"

definition mutexes_text :: "pre_task \<Rightarrow> string" where
  "mutexes_text t = endl (show_nat (length (pt_mutexes t))) @ concat (map mutex_group_text (pt_mutexes t))"

definition state_text :: "pre_task \<Rightarrow> string" where
  "state_text t = endl ''begin_state'' @ concat (map (\<lambda>x. endl (show_int x)) (pt_initial_values t)) @ endl ''end_state''"

definition numeric_state_text :: "pre_task \<Rightarrow> string" where
  "numeric_state_text t = endl ''begin_numeric_state'' @ concat (map (\<lambda>x. endl (format_g 6 x)) (pt_initial_numeric t)) @ endl ''end_numeric_state''"

definition goal_text :: "pre_task \<Rightarrow> string" where
  "goal_text t = endl ''begin_goal'' @ endl (show_nat (length (pt_goals t))) @
     concat (map fact_line (goal_lines (ordered_goal_values t))) @ endl ''end_goal''"

definition operators_text :: "pre_task \<Rightarrow> string" where
  "operators_text t = endl (show_nat (length (pt_operators t))) @ concat (map operator_text (pt_operators t))"

definition axioms_text :: "pre_task \<Rightarrow> string" where
  "axioms_text t = endl (show_nat (length (pt_axioms_rel t))) @ concat (map axiom_relational_text (pt_axioms_rel t)) @
     endl (show_nat (length (pt_axioms_func_comp t))) @ endl ''begin_comparison_axioms'' @
     concat (map comparison_text (pt_axioms_func_comp t)) @ endl ''end_comparison_axioms'' @
     endl (show_nat (length (pt_axioms_func_ass t))) @ endl ''begin_numeric_axioms'' @
     concat (map computation_text (pt_axioms_func_ass t)) @ endl ''end_numeric_axioms''"

definition global_constraint_text :: "pre_task \<Rightarrow> string" where
  "global_constraint_text t = endl ''begin_global_constraint'' @ sp (show_int (fst (pt_constraint t))) @
     endl (show_int (snd (pt_constraint t))) @ endl ''end_global_constraint''"

definition init_constant_facts_text :: "pre_task \<Rightarrow> string" where
  "init_constant_facts_text t = endl (show_nat (length (pt_init_constant_facts t))) @ endl ''begin_init_constant_facts'' @
     concat (map endl (pt_init_constant_facts t)) @ endl ''end_init_constant_facts''"

definition task_text :: "pre_task \<Rightarrow> string" where
  "task_text t =
     endl ''begin_version'' @ endl ''4'' @ endl ''end_version'' @
     metric_text t @ variables_text t @ numeric_variables_text t @ mutexes_text t @ state_text t @ numeric_state_text t @
     goal_text t @ operators_text t @ axioms_text t @ global_constraint_text t @ init_constant_facts_text t @
     endl ''begin_SG'' @ pt_generator_text t @ endl ''end_SG'' @ pt_graphs_text t"

text \<open>The assertions of the methods that write: levels are set, numeric variables are necessary and typed.\<close>

definition levels_set :: "pre_task \<Rightarrow> bool" where
  "levels_set t \<longleftrightarrow> list_all (\<lambda>v. pn_necessary v \<and> - 1 \<le> pn_layer v \<and> pn_type v \<noteq> num_unknown) (pt_numeric_vars t) \<and>
    list_all (\<lambda>oper. list_all (\<lambda>f. fst f \<noteq> - 1) (po_prevail oper) \<and> list_all (\<lambda>e. pp_var e \<noteq> - 1) (po_pre_post oper)) (pt_operators t) \<and>
    list_all (\<lambda>ax. px_effect_var ax \<noteq> - 1 \<and> list_all (\<lambda>f. fst f \<noteq> - 1) (px_conditions ax)) (pt_axioms_rel t) \<and>
    list_all (\<lambda>ax. pc_effect_var ax \<noteq> - 1) (pt_axioms_func_comp t) \<and>
    list_all (\<lambda>ax. pq_effect_var ax \<noteq> - 1 \<and> pq_left ax \<noteq> - 1 \<and> pq_right ax \<noteq> - 1) (pt_axioms_func_ass t)"

definition generate_cpp_input :: "pre_task \<Rightarrow> string result" where
  "generate_cpp_input t = (if levels_set t then Inr (task_text t) else Inl ''assertion failed'')"

end
