(* ===== verification/Decimal_Text.thy ===== *)
theory Decimal_Text
  imports Input_Stream
begin

text \<open>
  Reading back a double that an output stream has printed with six significant digits: the digits of
  the text, their value, and the double that is read.
\<close>

section \<open>Rounding to the nearest integer\<close>

lemma round_even_lower: "of_int a \<le> z \<Longrightarrow> a \<le> round_even z"
  unfolding round_even_def Let_def by (auto simp: le_floor_iff intro: order_trans [of _ "\<lfloor>z\<rfloor>"])

lemma round_even_upper:
  assumes "z < of_int b + 1 / 2"
  shows "round_even z \<le> b"
proof -
  have "\<lfloor>z\<rfloor> \<le> b" using assms by linarith
  moreover have "z - of_int \<lfloor>z\<rfloor> < 1 / 2" if "\<lfloor>z\<rfloor> = b" using assms that by simp
  ultimately show ?thesis by (cases "\<lfloor>z\<rfloor> = b") (auto simp: round_even_def Let_def)
qed

section \<open>Decimal exponents\<close>

lemma show_nat_bounds: "0 < n \<Longrightarrow> 10 ^ (length (show_nat n) - 1) \<le> n \<and> n < 10 ^ length (show_nat n)"
proof (induction n rule: show_nat.induct)
  case (1 n)
  show ?case
  proof (cases "n < 10")
    case True
    with 1 show ?thesis by (simp add: show_nat.simps)
  next
    case False
    let ?k = "length (show_nat (n div 10))"
    have "0 < n div 10" using False by simp
    from "1.IH" [OF False this] have k: "10 ^ (?k - 1) \<le> n div 10" "n div 10 < 10 ^ ?k" by simp_all
    have "0 < ?k" by simp
    have "10 * 10 ^ (?k - 1) = (10::nat) ^ ?k" using \<open>0 < ?k\<close> by (cases ?k) simp_all
    then have "10 ^ ?k \<le> n" using k(1) by linarith
    moreover have "n < 10 ^ Suc ?k" using k(2) by (simp add: div_less_iff_less_mult)
    moreover have "length (show_nat n) = Suc ?k" using False show_nat.simps [of n] by simp
    ultimately show ?thesis by simp
  qed
qed

lemma show_nat_length: "10 ^ k \<le> n \<Longrightarrow> n < 10 ^ Suc k \<Longrightarrow> length (show_nat n) = Suc k"
proof -
  assume n: "10 ^ k \<le> n" "n < 10 ^ Suc k"
  have "(0::nat) < 10 ^ k" by simp
  with n(1) have "0 < n" by linarith
  note b = show_nat_bounds [OF this]
  have "(10::nat) ^ k < 10 ^ length (show_nat n)" "(10::nat) ^ (length (show_nat n) - 1) < 10 ^ Suc k"
    using n b by (meson le_less_trans)+
  then have "k < length (show_nat n)" "length (show_nat n) - 1 < Suc k"
    by (simp_all only: power_strict_increasing_iff [of "10::nat"] one_less_numeral_iff semiring_norm)
  then show ?thesis by simp
qed

lemma show_nat_floor:
  assumes "1 \<le> (y :: rat)"
  shows "10 ^ (length (show_nat (nat \<lfloor>y\<rfloor>)) - 1) \<le> y" "y < 10 ^ length (show_nat (nat \<lfloor>y\<rfloor>))"
proof -
  obtain n where n: "nat \<lfloor>y\<rfloor> = n" "0 < n" "of_nat n \<le> y" "y < of_nat n + 1"
    using assms floor_correct [of y] by (intro that [of "nat \<lfloor>y\<rfloor>"]) (simp_all add: le_floor_iff)
  have "of_nat (10 ^ (length (show_nat n) - 1)) \<le> (of_nat n :: rat)" "of_nat (Suc n) \<le> (of_nat (10 ^ length (show_nat n)) :: rat)"
    using show_nat_bounds [OF n(2)] by (simp_all only: of_nat_le_iff Suc_leI)
  then have "10 ^ (length (show_nat n) - 1) \<le> (of_nat n :: rat)" "of_nat n + 1 \<le> (10 ^ length (show_nat n) :: rat)"
    by (simp_all only: of_nat_power of_nat_numeral of_nat_Suc add.commute)
  then show "10 ^ (length (show_nat (nat \<lfloor>y\<rfloor>)) - 1) \<le> y" "y < 10 ^ length (show_nat (nat \<lfloor>y\<rfloor>))"
    using n(3,4) unfolding n(1) by linarith+
qed

lemma decimal_exponent_bounds:
  assumes "1 \<le> q * 10 ^ 400"
  shows "10 powi decimal_exponent q \<le> q" "q < 10 powi (decimal_exponent q + 1)"
proof -
  define k where "k = length (show_nat (nat \<lfloor>q * 10 ^ 400\<rfloor>))"
  have k: "0 < k" by (simp add: k_def del: power_numeral)
  note b = show_nat_floor [OF assms, folded k_def]
  have "(10::rat) powi (int k - 401) * 10 powi 400 = 10 powi int (k - 1)"
    using k by (subst power_int_add [symmetric]) (simp_all add: of_nat_diff)
  then have low: "10 powi (int k - 401) * 10 ^ 400 = (10::rat) ^ (k - 1)" by (simp only: power_int_of_nat power_int_numeral)
  have "(10::rat) powi (int k - 400) * 10 powi 400 = 10 powi int k" by (subst power_int_add [symmetric]) simp_all
  then have high: "10 powi (int k - 400) * 10 ^ 400 = (10::rat) ^ k" by (simp only: power_int_of_nat power_int_numeral)
  have pos: "(0::rat) < 10 ^ 400" by (rule zero_less_power) simp
  have "10 powi (int k - 401) \<le> q" "q < 10 powi (int k - 400)"
    using b unfolding low [symmetric] high [symmetric] mult_le_cancel_right_pos [OF pos] mult_less_cancel_right_pos [OF pos] by blast+
  then show "10 powi decimal_exponent q \<le> q" "q < 10 powi (decimal_exponent q + 1)"
    by (simp_all add: decimal_exponent_def k_def del: power_numeral)
qed

lemma decimal_exponent_unique:
  assumes "10 powi e \<le> q" "q < 10 powi (e + 1)" "1 \<le> q * 10 ^ 400"
  shows "decimal_exponent q = e"
proof -
  note b = decimal_exponent_bounds [OF assms(3)]
  have "(10::rat) powi decimal_exponent q < 10 powi (e + 1)" "(10::rat) powi e < 10 powi (decimal_exponent q + 1)"
    using b assms(1,2) by linarith+
  then have "decimal_exponent q < e + 1" "e < decimal_exponent q + 1"
    using power_int_increasing [of "e + 1" "decimal_exponent q" "10::rat"] power_int_increasing [of "decimal_exponent q + 1" e "10::rat"]
    by (meson not_le one_le_numeral leD)+
  then show ?thesis by simp
qed

section \<open>Six digits\<close>

text \<open>A magnitude rounded to six significant digits.\<close>

definition six_rat :: "rat \<Rightarrow> rat" where
  "six_rat q = (if q = 0 then 0
     else of_int (round_even (q / 10 powi (decimal_exponent q - 5))) * 10 powi (decimal_exponent q - 5))"

text \<open>The double nearest to the six digits of a double.\<close>

definition six_digits :: "ap_float \<Rightarrow> ap_float" where
  "six_digits x = (case decode x of
     Fin q \<Rightarrow> (let v = ap_of_rat (six_rat \<bar>q\<bar>) in if sign_bit x then ap_neg v else v)
   | _ \<Rightarrow> x)"

lemma six_range:
  assumes "1 \<le> q * 10 ^ 400"
  shows "10 ^ 5 \<le> round_even (q / 10 powi (decimal_exponent q - 5))" "round_even (q / 10 powi (decimal_exponent q - 5)) \<le> 10 ^ 6"
proof -
  let ?s = "10 powi (decimal_exponent q - 5) :: rat" and ?z = "q / 10 powi (decimal_exponent q - 5)"
  have pos: "0 < ?s" by (simp add: zero_less_power_int)
  have "?s * 10 powi 5 = 10 powi decimal_exponent q" "?s * 10 powi 6 = 10 powi (decimal_exponent q + 1)"
    by (subst power_int_add [symmetric]; simp add: add.commute)+
  then have "?s * 10 ^ 5 \<le> q" "q < ?s * 10 ^ 6" using decimal_exponent_bounds [OF assms] by simp_all
  then have z: "10 ^ 5 \<le> ?z" "?z < 10 ^ 6" using pos by (simp_all add: field_simps)
  then show "10 ^ 5 \<le> round_even ?z" "round_even ?z \<le> 10 ^ 6"
    using round_even_lower [of "10 ^ 5" ?z] round_even_upper [OF less_trans [of ?z "10 ^ 6" "of_int (10 ^ 6) + 1 / 2"]] by simp_all
qed

lemma significant_six:
  assumes "1 \<le> q * 10 ^ 400" "significant_digits 6 q = (x, d)"
  shows "length (show_nat d) = 6" "of_nat d * 10 powi (x - 5) = six_rat q"
proof -
  let ?e = "decimal_exponent q"
  define r where "r = round_even (q / 10 powi (?e - 5))"
  have r: "10 ^ 5 \<le> r" "r \<le> 10 ^ 6" using six_range [OF assms(1)] by (simp_all add: r_def)
  have q: "six_rat q = of_int r * 10 powi (?e - 5)" using assms(1) by (auto simp: six_rat_def r_def)
  have sig: "(x, d) = (if nat r = 10 ^ 6 then (?e + 1, 10 ^ 5) else (?e, nat r))"
    using assms(2) by (auto simp: significant_digits_def Let_def r_def split: if_splits)
  have "length (show_nat d) = 6 \<and> of_nat d * 10 powi (x - 5) = six_rat q"
  proof (cases "r = 10 ^ 6")
    case True
    then have xd: "x = ?e + 1" "d = 10 ^ 5" using sig by simp_all
    have "(10::rat) powi (?e - 4) = 10 powi (?e - 5) * 10 powi 1" by (subst power_int_add [symmetric]) simp_all
    then show ?thesis using xd q True show_nat_length [of 5 d] by simp
  next
    case False
    then have "nat r \<noteq> 10 ^ 6" using r by auto
    then have xd: "x = ?e" "d = nat r" using sig by simp_all
    have "10 ^ 5 \<le> d" "d < 10 ^ 6" using r False by (simp_all add: xd)
    then have "length (show_nat d) = 6" using show_nat_length [of 5 d] by simp
    then show ?thesis using xd q r by simp
  qed
  then show "length (show_nat d) = 6" "of_nat d * 10 powi (x - 5) = six_rat q" by simp_all
qed

section \<open>Digits\<close>

lemma hex_digit_value: "is_digit c \<Longrightarrow> hex_value c = of_char c - 48"
  by (auto simp: is_digit_def hex_value_def to_lower_def Let_def)

lemma hex_value_digit: "hex_value c < 10 \<longleftrightarrow> is_digit c"
proof
  assume "hex_value c < 10"
  then show "is_digit c" by (auto simp: is_digit_def hex_value_def to_lower_def Let_def split: if_splits)
next
  assume d: "is_digit c"
  then have "of_char c - 48 < (10::nat)" by (auto simp: is_digit_def Let_def)
  then show "hex_value c < 10" unfolding hex_digit_value [OF d] .
qed

lemma digits_value_append: "digits_value (xs @ ys) = digits_value xs * 10 ^ length ys + digits_value ys"
  by (induction ys rule: rev_induct) (simp_all add: append_assoc [symmetric] del: append_assoc, simp add: digits_value_def)

lemma base_value_digits: "list_all is_digit ds \<Longrightarrow> base_value 10 (map hex_value ds) = digits_value ds"
proof (induction ds rule: rev_induct)
  case (snoc c ds)
  then show ?case by (simp add: base_value_def hex_digit_value)
qed (simp add: base_value_def digits_value_def)

lemma digits_strip:
  "\<exists>k. ds = strip_zeros ds @ replicate k (CHR ''0'')"
proof (induction ds rule: rev_induct)
  case (snoc c ds)
  show ?case
  proof (cases "c = CHR ''0''")
    case True
    obtain k where "ds = strip_zeros ds @ replicate k (CHR ''0'')" using snoc by blast
    then have "ds @ [c] = strip_zeros ds @ replicate k (CHR ''0'') @ [c]" by (metis append_assoc)
    also have "\<dots> = strip_zeros (ds @ [c]) @ replicate (Suc k) (CHR ''0'')"
      using True by (simp add: strip_zeros_def replicate_append_same)
    finally have "ds @ [c] = strip_zeros (ds @ [c]) @ replicate (Suc k) (CHR ''0'')" .
    then show ?thesis by blast
  next
    case False
    then show ?thesis by (intro exI [of _ 0]) (simp add: strip_zeros_def)
  qed
qed (simp add: strip_zeros_def)

lemma digits_value_zeros: "digits_value (replicate k (CHR ''0'')) = 0"
proof (induction k)
  case (Suc k)
  have "replicate (Suc k) (CHR ''0'') = replicate k (CHR ''0'') @ [CHR ''0'']" by (simp add: replicate_append_same)
  with Suc show ?case by (simp del: replicate_Suc)
qed (simp add: digits_value_def)

text \<open>Trailing zeros of a fraction do not change its value.\<close>

lemma strip_value:
  "of_nat (digits_value (i @ strip_zeros f)) / 10 ^ length (strip_zeros f) = (of_nat (digits_value (i @ f)) / 10 ^ length f :: rat)"
proof -
  obtain k where k: "f = strip_zeros f @ replicate k (CHR ''0'')" using digits_strip by blast
  have "digits_value (i @ f) = digits_value (i @ strip_zeros f) * 10 ^ k"
    using digits_value_append [of "i @ strip_zeros f" "replicate k (CHR ''0'')"] k by (simp add: digits_value_zeros)
  moreover have "length f = length (strip_zeros f) + k" using arg_cong [OF k, of length] by simp
  ultimately show ?thesis by (simp add: power_add)
qed

lemma strip_zeros_digits: "list_all is_digit f \<Longrightarrow> list_all is_digit (strip_zeros f)"
  by (auto simp: strip_zeros_def list_all_iff dest: set_dropWhileD)

text \<open>A text of digits, perhaps a point and more digits, and what ends it.\<close>

definition stops :: "string \<Rightarrow> bool" where
  "stops r \<longleftrightarrow> (case r of [] \<Rightarrow> True | c # _ \<Rightarrow> \<not> is_digit c \<and> c \<noteq> CHR ''.'')"

lemma digits_until:
  assumes "list_all is_digit ds" "r = [] \<or> \<not> is_digit (hd r)"
  shows "base_digits 10 (ds @ r) = map hex_value ds" "base_rest 10 (ds @ r) = r"
proof -
  have hd: "r = [] \<or> \<not> hex_value (hd r) < 10" using assms(2) by (simp add: hex_value_digit)
  have "takeWhile (\<lambda>c. hex_value c < 10) (ds @ r) = ds @ takeWhile (\<lambda>c. hex_value c < 10) r"
    "dropWhile (\<lambda>c. hex_value c < 10) (ds @ r) = dropWhile (\<lambda>c. hex_value c < 10) r"
    using assms(1) by (induction ds) (simp_all add: hex_value_digit)
  moreover have "takeWhile (\<lambda>c. hex_value c < 10) r = []" "dropWhile (\<lambda>c. hex_value c < 10) r = r"
    using hd by (cases r; simp)+
  ultimately show "base_digits 10 (ds @ r) = map hex_value ds" "base_rest 10 (ds @ r) = r"
    by (simp_all add: base_digits_def base_rest_def)
qed

lemma read_mantissa_digits:
  assumes "list_all is_digit i" "list_all is_digit f" "i \<noteq> []" "stops r"
  shows "read_mantissa 10 (i @ fraction_part f @ r) = Some (of_nat (digits_value (i @ f)) / 10 ^ length f, r)"
proof -
  let ?f = "strip_zeros f"
  have r: "r = [] \<or> \<not> is_digit (hd r)" "r = [] \<or> hd r \<noteq> CHR ''.''" using assms(4) by (auto simp: stops_def split: list.splits)
  have f: "list_all is_digit ?f" by (rule strip_zeros_digits [OF assms(2)])
  have "read_mantissa 10 (i @ fraction_part f @ r) = Some (of_nat (base_value 10 (map hex_value (i @ ?f))) / of_nat (10 ^ length ?f), r)"
  proof (cases "?f = []")
    case True
    then show ?thesis using digits_until [OF assms(1) r(1)] assms(3) r(2)
      by (auto simp: fraction_part_def read_mantissa_def Let_def split: list.split)
  next
    case False
    have "\<not> is_digit (CHR ''.'')" by (simp add: is_digit_def)
    then have "base_digits 10 (i @ CHR ''.'' # ?f @ r) = map hex_value i" "base_rest 10 (i @ CHR ''.'' # ?f @ r) = CHR ''.'' # ?f @ r"
      using digits_until [OF assms(1), of "CHR ''.'' # ?f @ r"] by simp_all
    then show ?thesis using False digits_until [OF f r(1)] assms(3)
      by (simp add: fraction_part_def read_mantissa_def Let_def)
  qed
  also have "base_value 10 (map hex_value (i @ ?f)) = digits_value (i @ ?f)" using assms(1) f by (intro base_value_digits) simp
  finally show ?thesis using strip_value [of i f] by simp
qed

text \<open>The exponent of a number in scientific notation.\<close>

definition exponent_text :: "int \<Rightarrow> string" where
  "exponent_text x = CHR ''e'' # (if x < 0 then CHR ''-'' else CHR ''+'') #
     (if \<bar>x\<bar> < 10 then CHR ''0'' # show_nat (nat \<bar>x\<bar>) else show_nat (nat \<bar>x\<bar>))"

lemma zero_digit [simp]: "is_digit (CHR ''0'')" "\<not> is_space (CHR ''0'')" "\<not> is_space (CHR ''.'')" "\<not> is_space (CHR ''e'')"
  "\<not> is_space (CHR ''-'')" "\<not> is_space (CHR ''+'')" "\<not> is_digit (CHR ''.'')" "\<not> is_digit (CHR ''e'')"
  by (simp_all add: is_digit_def is_space_def)

lemma digits_no_space: "list_all is_digit ds \<Longrightarrow> list_all (\<lambda>c. \<not> is_space c) ds"
  using space_no_digit by (auto simp: list_all_iff)

lemma digits_value_zero_Cons: "digits_value (CHR ''0'' # ds) = digits_value ds"
  using digits_value_append [of "[CHR ''0'']" ds] by (simp add: digits_value_def)

lemma extract_exponent_text: "extract_exponent (exponent_text x) = Some (x, [])"
proof -
  define ds where "ds = (if \<bar>x\<bar> < 10 then CHR ''0'' # show_nat (nat \<bar>x\<bar>) else show_nat (nat \<bar>x\<bar>))"
  have ds: "list_all is_digit ds" "ds \<noteq> []" "digits_value ds = nat \<bar>x\<bar>" by (simp_all add: ds_def digits_value_zero_Cons)
  have digits: "takeWhile is_digit ds = ds" "dropWhile is_digit ds = []" using ds(1) by (simp_all add: list_all_iff)
  have "to_lower (CHR ''e'') = CHR ''e''" by (simp add: to_lower_def)
  then show ?thesis using ds(2,3)
    by (simp add: extract_exponent_def exponent_text_def ds_def [symmetric] read_sign_def digits Let_def)
qed

lemma fraction_part_digits: "list_all is_digit f \<Longrightarrow> list_all (\<lambda>c. \<not> is_space c) (fraction_part f)"
  using digits_no_space [OF strip_zeros_digits] by (simp add: fraction_part_def Let_def)

lemma exponent_text_chars: "list_all (\<lambda>c. \<not> is_space c) (exponent_text x)"
  using digits_no_space [OF show_nat_all_digits] by (simp add: exponent_text_def)

text \<open>The three forms of a number give the same value.\<close>

lemma format_magnitude_read:
  assumes "1 \<le> q * 10 ^ 400"
  obtains m t e where "read_mantissa 10 (format_magnitude 6 q) = Some (m, t)" "extract_exponent t = Some (e, [])"
    "m * 10 powi e = six_rat q" "list_all (\<lambda>c. \<not> is_space c) (format_magnitude 6 q)"
    "format_magnitude 6 q \<noteq> []" "is_digit (hd (format_magnitude 6 q))"
proof -
  obtain x d where sig: "significant_digits 6 q = (x, d)" by fastforce
  note six = significant_six [OF assms sig]
  let ?ds = "show_nat d"
  have ds: "list_all is_digit ?ds" "list_all is_digit (take k ?ds)" "list_all is_digit (drop k ?ds)" for k
    using show_nat_all_digits [of d] by (auto simp: list_all_iff dest: in_set_takeD in_set_dropD)
  have q: "q \<noteq> 0" using assms by auto
  have shape: "\<exists>i f r e. format_magnitude 6 q = i @ fraction_part f @ r \<and> list_all is_digit i \<and> i \<noteq> [] \<and> list_all is_digit f \<and>
      stops r \<and> extract_exponent r = Some (e, []) \<and> list_all (\<lambda>c. \<not> is_space c) r \<and> digits_value (i @ f) = d \<and> e - int (length f) = x - 5"
  proof (cases "x < - 4 \<or> 6 \<le> x")
    case True
    have "format_magnitude 6 q = take 1 ?ds @ fraction_part (drop 1 ?ds) @ exponent_text x"
      using q sig True by (simp add: format_magnitude_def exponent_text_def Let_def)
    moreover have "stops (exponent_text x)" by (simp add: stops_def exponent_text_def)
    moreover have "digits_value (take 1 ?ds @ drop 1 ?ds) = d" "x - int (length (drop 1 ?ds)) = x - 5" using six(1) by simp_all
    moreover have "take 1 ?ds \<noteq> []" by simp
    ultimately show ?thesis using ds extract_exponent_text exponent_text_chars by blast
  next
    case False
    have nil: "stops []" "extract_exponent [] = Some (0, [])" "list_all (\<lambda>c. \<not> is_space c) []" by (simp_all add: stops_def extract_exponent_def)
    show ?thesis
    proof (cases "0 \<le> x")
      case True
      let ?k = "nat x + 1"
      have "format_magnitude 6 q = take ?k ?ds @ fraction_part (drop ?k ?ds) @ []"
        using q sig True False by (simp add: format_magnitude_def Let_def)
      moreover have "digits_value (take ?k ?ds @ drop ?k ?ds) = d" by (simp only: append_take_drop_id digits_value_show_nat)
      moreover have "0 - int (length (drop ?k ?ds)) = x - 5" using six(1) True False by simp
      moreover have "take ?k ?ds \<noteq> []" by simp
      ultimately show ?thesis using ds nil by blast
    next
      case neg: False
      let ?f = "replicate (nat (- x) - 1) (CHR ''0'') @ ?ds"
      have "format_magnitude 6 q = ''0'' @ fraction_part ?f @ []"
        using q sig neg False by (simp add: format_magnitude_def Let_def)
      moreover have "digits_value (''0'' @ ?f) = d"
        using digits_value_append [of "replicate (nat (- x) - 1) (CHR ''0'')" ?ds]
        by (simp add: digits_value_zero_Cons digits_value_zeros)
      moreover have "0 - int (length ?f) = x - 5" using six(1) neg by simp
      moreover have "list_all is_digit ?f" "list_all is_digit ''0''" using ds(1) by (auto simp: list_all_iff)
      ultimately show ?thesis using nil by blast
    qed
  qed
  then obtain i f r e where w: "format_magnitude 6 q = i @ fraction_part f @ r" "list_all is_digit i" "i \<noteq> []" "list_all is_digit f"
    "stops r" "extract_exponent r = Some (e, [])" "list_all (\<lambda>c. \<not> is_space c) r" "digits_value (i @ f) = d" "e - int (length f) = x - 5" by blast
  have "read_mantissa 10 (format_magnitude 6 q) = Some (of_nat d / 10 ^ length f, r)"
    using read_mantissa_digits [OF w(2,4,3,5)] w(1,8) by simp
  moreover have "10 powi (x - 5) = (10::rat) powi e / 10 ^ length f"
    unfolding w(9) [symmetric] by (simp add: power_int_diff)
  then have "of_nat d / 10 ^ length f * 10 powi e = six_rat q" using six(2) by simp
  moreover have "list_all (\<lambda>c. \<not> is_space c) (format_magnitude 6 q)"
    using w(1,7) digits_no_space [OF w(2)] fraction_part_digits [OF w(4)] by simp
  moreover have "format_magnitude 6 q \<noteq> []" "is_digit (hd (format_magnitude 6 q))" using w(1,2,3) by (cases i; simp)+
  ultimately show ?thesis using w(6) by (intro that)
qed

section \<open>Reading back\<close>

lemma dec_mag_pos:
  assumes "0 < b"
  shows "1 \<le> dec_mag b * 10 ^ 400"
proof -
  have "2 powi (- 1074) \<le> dec_mag b"
  proof (cases "b div 2 ^ 52 = 0")
    case True
    then have "0 < b mod 2 ^ 52" using assms by (metis div_mult_mod_eq mult_zero_left add_0 )
    then have "(1::rat) \<le> of_nat (b mod 2 ^ 52)" by simp
    then have "(1::rat) * 2 powi (- 1074) \<le> of_nat (b mod 2 ^ 52) * 2 powi (- 1074)" by (rule mult_right_mono) simp
    then show ?thesis using True by (simp add: dec_mag_def)
  next
    case False
    have "(2::rat) powi (- 1074) \<le> 2 powi (int (b div 2 ^ 52) - 1075)" using False by (intro power_int_increasing) auto
    also have "\<dots> = 1 * 2 powi (int (b div 2 ^ 52) - 1075)" by simp
    also have "\<dots> \<le> of_nat (2 ^ 52 + b mod 2 ^ 52) * 2 powi (int (b div 2 ^ 52) - 1075)" by (rule mult_right_mono) simp_all
    also have "\<dots> = dec_mag b" using False by (simp add: dec_mag_def Let_def)
    finally show ?thesis .
  qed
  moreover have "(1::rat) \<le> 2 powi (- 1074) * 10 ^ 400"
  proof -
    have "(2::rat) ^ 1074 = (2 ^ 3) ^ 358" by (simp only: power_mult [symmetric]) simp
    also have "\<dots> \<le> 10 ^ 358" by (rule power_mono) simp_all
    also have "\<dots> \<le> 10 ^ 400" by (rule power_increasing) simp_all
    finally have "(2::rat) ^ 1074 \<le> 10 ^ 400" .
    moreover have "(2::rat) powi (- 1074) = 1 / 2 ^ 1074" by (simp add: power_int_minus inverse_eq_divide)
    ultimately show ?thesis by (simp add: field_simps del: power_numeral)
  qed
  ultimately show ?thesis
    by (meson mult_right_mono order_trans zero_le_power zero_le_numeral)
qed

lemma exponent_of_top:
  assumes "0 < r"
  shows "r < 2 powi (exponent_of r + 1)" "- 1022 \<le> exponent_of r" "r < 2 powi (e + 1) \<Longrightarrow> - 1022 \<le> e \<Longrightarrow> exponent_of r \<le> e"
proof -
  let ?n = "nat \<lfloor>r * min_scale\<rfloor>"
  have s: "0 < min_scale" by (simp add: min_scale_def del: power_numeral)
  have fl: "of_nat ?n \<le> r * min_scale" "r * min_scale < of_nat ?n + 1"
    using assms s floor_correct [of "r * min_scale"] by (simp_all add: of_nat_nat)
  have top: "?n < 2 ^ Suc (ilog2 ?n)" by (cases "?n = 0") (use ilog2_bounds [of ?n] in auto)
  then have "of_nat (Suc ?n) \<le> (of_nat (2 ^ Suc (ilog2 ?n)) :: rat)" by (simp only: of_nat_le_iff Suc_leI)
  then have "r * min_scale < 2 ^ Suc (ilog2 ?n)" using fl(2) by (simp only: of_nat_power of_nat_numeral of_nat_Suc add.commute)
  also have "(2::rat) ^ Suc (ilog2 ?n) = 2 powi (exponent_of r + 1) * min_scale"
  proof -
    have "int 1022 + (exponent_of r + 1) = int (Suc (ilog2 ?n))" by (simp add: exponent_of_def)
    then show ?thesis by (simp only: powi_min_scale power_int_of_nat)
  qed
  finally show "r < 2 powi (exponent_of r + 1)" using s by (simp only: mult_less_cancel_right_pos)
  show "- 1022 \<le> exponent_of r" by (simp add: exponent_of_def)
  show "exponent_of r \<le> e" if r: "r < 2 powi (e + 1)" and e: "- 1022 \<le> e"
  proof (cases "?n = 0")
    case True
    then show ?thesis using e by (simp add: exponent_of_def)
  next
    case False
    define k where "k = nat (e + 1023)"
    have k: "int 1022 + (e + 1) = int k" using e by (simp add: k_def)
    have "r * min_scale < 2 powi (e + 1) * min_scale" using r s by simp
    also have "\<dots> = 2 ^ k" by (simp only: powi_min_scale k power_int_of_nat)
    finally have "of_nat ?n < (2::rat) ^ k" using fl(1) by linarith
    then have "?n < 2 ^ k" by (simp only: of_nat_less_power2)
    moreover have "2 ^ ilog2 ?n \<le> ?n" using ilog2_bounds [of ?n] False by simp
    ultimately have "(2::nat) ^ ilog2 ?n < 2 ^ k" by linarith
    then have "ilog2 ?n < k" by simp
    then show ?thesis using k by (simp add: exponent_of_def)
  qed
qed

definition max_rat :: rat where
  "max_rat = (2 ^ 53 - 1) * 2 ^ 971"

lemma enc_mag_finite:
  assumes "0 < r" "r \<le> max_rat"
  shows "enc_mag r < inf_mag"
proof -
  let ?e = "exponent_of r" and ?z = "r / 2 powi (exponent_of r - 52)"
  have pos: "(0::rat) < 2 powi (?e - 52)" by (simp add: zero_less_power_int)
  have "max_rat < 2 ^ 53 * 2 ^ 971" unfolding max_rat_def by (rule mult_strict_right_mono) simp_all
  also have "\<dots> = 2 powi (1023 + 1)" by (simp only: power_add [symmetric]) simp
  finally have e: "?e \<le> 1023" using exponent_of_top(3) [OF assms(1), of 1023] assms(2) by simp
  have "int 53 + (?e - 52) = ?e + 1" by simp
  then have "(2::rat) powi (?e + 1) = 2 ^ 53 * 2 powi (?e - 52)" by (metis powi_shift)
  then have z: "?z < 2 ^ 53" using exponent_of_top(1) [OF assms(1)] pos by (simp add: pos_divide_less_eq del: power_numeral)
  then have "?z < 2 ^ 53 + 1 / 2" by linarith
  then have "?z < of_int (2 ^ 53) + 1 / 2" by (simp only: of_int_power of_int_numeral)
  then have top: "round_even ?z \<le> 2 ^ 53" by (rule round_even_upper)
  have "(?e + 1022) * 2 ^ 52 + round_even ?z < 2047 * 2 ^ 52"
  proof (cases "?e = 1023")
    case True
    have "?z \<le> 2 ^ 53 - 1" using assms(2) unfolding True by (simp add: max_rat_def pos_divide_le_eq del: power_numeral)
    then have "?z < 2 ^ 53 - 1 + 1 / 2" by linarith
    then have "?z < of_int (2 ^ 53 - 1) + 1 / 2" by (simp only: of_int_power of_int_numeral of_int_diff of_int_1)
    then have "round_even ?z \<le> 2 ^ 53 - 1" by (rule round_even_upper)
    then show ?thesis using True by simp
  next
    case False
    then have "?e \<le> 1022" using e by simp
    then show ?thesis using top by simp
  qed
  then show ?thesis by (simp add: enc_mag_def Let_def)
qed

lemma dec_mag_max:
  assumes "b < inf_mag"
  shows "dec_mag b \<le> max_rat"
proof -
  let ?e = "b div 2 ^ 52" and ?m = "b mod 2 ^ 52"
  have e: "?e \<le> 2046" using assms by (simp add: less_mult_imp_div_less)
  have m: "of_nat (2 ^ 52 + ?m) \<le> (2 ^ 53 - 1 :: rat)"
  proof -
    have "2 ^ 52 + ?m \<le> 2 ^ 53 - 1" using mod_less_divisor [of "2 ^ 52" b] by simp
    then have "of_nat (2 ^ 52 + ?m) \<le> (of_nat (2 ^ 53 - 1) :: rat)" by (simp only: of_nat_le_iff)
    then show ?thesis by simp
  qed
  have "dec_mag b \<le> of_nat (2 ^ 52 + ?m) * 2 powi 971"
  proof (cases "?e = 0")
    case True
    have "(of_nat ?m :: rat) * 2 powi (- 1074) \<le> of_nat (2 ^ 52 + ?m) * 2 powi 971"
      by (intro mult_mono power_int_increasing) simp_all
    then show ?thesis using True by (simp add: dec_mag_def Let_def)
  next
    case False
    have "(2::rat) powi (int ?e - 1075) \<le> 2 powi 971" using e by (intro power_int_increasing) simp_all
    then have "of_nat (2 ^ 52 + ?m) * (2::rat) powi (int ?e - 1075) \<le> of_nat (2 ^ 52 + ?m) * 2 powi 971" by (intro mult_left_mono) simp_all
    then show ?thesis using False by (simp only: dec_mag_def Let_def if_False)
  qed
  also have "\<dots> \<le> (2 ^ 53 - 1) * 2 powi 971" using m by (intro mult_right_mono) simp_all
  finally show ?thesis by (simp add: max_rat_def)
qed

lemma six_rat_pos:
  assumes "1 \<le> q * 10 ^ 400"
  shows "0 < six_rat q"
proof -
  have "q \<noteq> 0" using assms by auto
  moreover have "0 < round_even (q / 10 powi (decimal_exponent q - 5))" using six_range(1) [OF assms] by simp
  ultimately show ?thesis by (simp add: six_rat_def zero_less_power_int)
qed

text \<open>Six digits of a finite double are at most 1.79769e308.\<close>

lemma six_rat_max:
  assumes "1 \<le> q * 10 ^ 400" "q \<le> max_rat"
  shows "six_rat q \<le> max_rat"
proof -
  let ?e = "decimal_exponent q" and ?r = "round_even (q / 10 powi (decimal_exponent q - 5))"
  have q: "six_rat q = of_int ?r * 10 powi (?e - 5)" using assms(1) by (auto simp: six_rat_def)
  have big: "max_rat < 10 ^ 309" "(10::rat) ^ 308 \<le> max_rat" "179769 * 10 ^ 303 \<le> max_rat" "max_rat < (179769 + 1 / 2) * 10 ^ 303"
    by (simp_all add: max_rat_def)
  have "10 powi ?e < (10::rat) powi 309" using decimal_exponent_bounds(1) [OF assms(1)] assms(2) big(1) by simp
  then have e: "?e \<le> 308" using power_int_increasing [of 309 ?e "10::rat"] by (cases "?e \<le> 308") auto
  show ?thesis
  proof (cases "?e = 308")
    case True
    have "q / 10 ^ 303 < of_int 179769 + 1 / 2" using assms(2) big(4) by (simp add: pos_divide_less_eq del: power_numeral)
    then have "?r \<le> 179769" unfolding True by (intro round_even_upper) simp
    then have "of_int ?r \<le> (179769::rat)" by simp
    then have le: "of_int ?r * (10::rat) ^ 303 \<le> 179769 * 10 ^ 303" by (rule mult_right_mono) simp
    have "(10::rat) powi (308 - 5) = 10 ^ 303" by (simp del: power_numeral)
    then have "six_rat q = of_int ?r * 10 ^ 303" using q unfolding True by (simp only:)
    then show ?thesis using order_trans [OF le big(3)] by (simp only:)
  next
    case False
    have "of_int ?r \<le> (of_int (10 ^ 6) :: rat)" using six_range(2) [OF assms(1)] by (simp only: of_int_le_iff)
    then have "six_rat q \<le> 10 ^ 6 * 10 powi (?e - 5)" unfolding q by (intro mult_right_mono) simp_all
    also have "\<dots> = 10 powi (?e + 1)"
      using power_int_add [of "10::rat" 6 "?e - 5"] by (simp add: add.commute)
    also have "\<dots> \<le> 10 powi 308" using e False by (intro power_int_increasing) simp_all
    finally show ?thesis using big(2) by simp
  qed
qed

lemma ap_neg_finite [simp]: "ap_is_finite (ap_neg x) = ap_is_finite x"
  by (auto simp: ap_is_finite_decode decode_ap_neg split: float_value.splits)

lemma decode_magnitude: "decode x = Fin p \<Longrightarrow> \<bar>p\<bar> = dec_mag (mag_bits x) \<and> mag_bits x < inf_mag"
  by (auto simp: decode_def abs_mult split: if_splits)

lemma positive_rat_finite:
  assumes "0 < r" "r \<le> max_rat"
  shows "ap_is_finite (ap_of_rat r)"
  using enc_mag_finite [OF assms] assms(1)
  by (simp add: ap_of_rat_def ap_signed_def encode_def ap_is_finite_def)

lemma six_digits_finite:
  assumes "ap_is_finite x"
  shows "ap_is_finite (six_digits x)"
proof -
  obtain p where p: "decode x = Fin p" using assms by (auto simp: ap_is_finite_decode)
  note m = decode_magnitude [OF p]
  have "ap_is_finite (ap_of_rat (six_rat \<bar>p\<bar>))"
  proof (cases "mag_bits x = 0")
    case True
    then have "p = 0" using m by simp
    then show ?thesis by (simp add: six_rat_def ap_of_rat_def ap_signed_def ap_is_finite_decode)
  next
    case False
    then have "1 \<le> \<bar>p\<bar> * 10 ^ 400" "\<bar>p\<bar> \<le> max_rat" using m dec_mag_pos dec_mag_max by (simp_all del: power_numeral)
    then show ?thesis using six_rat_pos six_rat_max positive_rat_finite by blast
  qed
  then show ?thesis using p by (simp add: six_digits_def Let_def)
qed

text \<open>
  What an output stream prints for a finite double reads back as the double nearest to its first six
  significant digits.
\<close>

theorem printed_double_reads_back:
  assumes "ap_is_finite x"
  shows "is_word (format_g 6 x)" "extract_double (stream_of (format_g 6 x)) = (Some (six_digits x), stream_of [])"
proof -
  obtain p where p: "decode x = Fin p" using assms by (auto simp: ap_is_finite_decode)
  note m = decode_magnitude [OF p]
  let ?w = "format_magnitude 6 \<bar>p\<bar>"
  have w: "format_g 6 x = (if sign_bit x then CHR ''-'' # ?w else ?w)" using p by (simp add: format_g_def)
  obtain v t e where r: "read_mantissa 10 ?w = Some (v, t)" "extract_exponent t = Some (e, [])" "v * 10 powi e = six_rat \<bar>p\<bar>"
    "list_all (\<lambda>c. \<not> is_space c) ?w" "?w \<noteq> []" "is_digit (hd ?w)"
  proof (cases "mag_bits x = 0")
    case True
    have z: "p = 0" "list_all is_digit ''0''" "stops []" "list_all is_digit []" using True m by (simp_all add: stops_def)
    have "read_mantissa 10 ''0'' = Some (0, [])"
      using read_mantissa_digits [OF z(2,4) _ z(3)] by (simp add: fraction_part_def strip_zeros_def digits_value_def)
    then show ?thesis using z(1) by (intro that [of 0 "[]" 0]) (simp_all add: format_magnitude_def extract_exponent_def six_rat_def)
  next
    case False
    then have "1 \<le> \<bar>p\<bar> * 10 ^ 400" using m dec_mag_pos by (simp del: power_numeral)
    then show ?thesis by (rule format_magnitude_read) (rule that)
  qed
  show word: "is_word (format_g 6 x)" using w r(4,5) by (simp add: is_word_def)
  have "hd ?w \<noteq> CHR ''-''" "hd ?w \<noteq> CHR ''+''" using r(6) by (auto simp: is_digit_def)
  then have "read_sign (format_g 6 x) = (sign_bit x, ?w)" using w r(5) by (cases ?w) (auto simp: read_sign_def)
  moreover have "dropWhile is_space (format_g 6 x) = format_g 6 x" using word by (cases "format_g 6 x") (auto simp: is_word_def)
  moreover have "has_input (stream_of (format_g 6 x))" using has_input_word [OF word, of "[]"] by simp
  moreover have "(if sign_bit x then ap_neg (ap_of_rat (six_rat \<bar>p\<bar>)) else ap_of_rat (six_rat \<bar>p\<bar>)) = six_digits x"
    using p by (simp add: six_digits_def Let_def)
  moreover have "ap_is_finite (ap_of_rat (six_rat \<bar>p\<bar>))"
    using six_digits_finite [OF assms] p by (simp add: six_digits_def Let_def split: if_splits)
  ultimately show "extract_double (stream_of (format_g 6 x)) = (Some (six_digits x), stream_of [])"
    using r(1-3) six_digits_finite [OF assms] by (cases "sign_bit x") (simp_all add: extract_double_def stream_of_def Let_def)
qed

text \<open>A double whose value has at most six significant digits is unchanged.\<close>

lemma six_rat_exact:
  assumes "0 < k" "k < 10 ^ 6" "q = of_nat k * 10 powi j" "1 \<le> q * 10 ^ 400"
  shows "six_rat q = q"
proof -
  define n where "n = length (show_nat k) - 1"
  have len: "length (show_nat k) = Suc n" by (simp add: n_def)
  have b: "10 ^ n \<le> k" "k < 10 ^ Suc n" using show_nat_bounds [OF assms(1)] unfolding len by simp_all
  have "(10::nat) ^ n < 10 ^ 6" using b(1) assms(2) by (rule le_less_trans)
  then have n: "n < 6" by (simp only: power_strict_increasing_iff [of "10::nat"] one_less_numeral_iff semiring_norm)
  have "(10::rat) ^ n \<le> of_nat k" "of_nat k < (10::rat) ^ Suc n"
  proof -
    have "of_nat (10 ^ n) \<le> (of_nat k :: rat)" "of_nat k < (of_nat (10 ^ Suc n) :: rat)"
      using b by (simp_all only: of_nat_le_iff of_nat_less_iff)
    then show "(10::rat) ^ n \<le> of_nat k" "of_nat k < (10::rat) ^ Suc n" by (simp_all only: of_nat_power of_nat_numeral)
  qed
  then have "10 powi (j + int n) \<le> q" "q < 10 powi (j + int n + 1)"
    unfolding assms(3) by (simp_all add: power_int_add mult.commute)
  then have e: "decimal_exponent q = j + int n" by (rule decimal_exponent_unique [OF _ _ assms(4)])
  have "10 powi j = (10::rat) ^ (5 - n) * 10 powi (j + int n - 5)"
  proof -
    have "j = int (5 - n) + (j + int n - 5)" using n by simp
    then show ?thesis by (metis power_int_add power_int_of_nat zero_neq_numeral)
  qed
  then have "q = of_nat (k * 10 ^ (5 - n)) * 10 powi (decimal_exponent q - 5)" unfolding e by (simp add: assms(3))
  then have "q / 10 powi (decimal_exponent q - 5) = of_nat (k * 10 ^ (5 - n))"
    by (metis nonzero_eq_divide_eq power_int_not_zero zero_neq_numeral)
  moreover have "q \<noteq> 0" using assms(4) by auto
  ultimately show ?thesis by (simp only: six_rat_def if_False round_even_of_nat of_int_of_nat_eq) (metis nonzero_eq_divide_eq power_int_not_zero zero_neq_numeral)
qed

lemma six_digits_exact:
  assumes "decode x = Fin p" "\<bar>p\<bar> = of_nat k * 10 powi j" "k < 10 ^ 6"
  shows "six_digits x = x"
proof -
  note m = decode_magnitude [OF assms(1)]
  have bits: "x = make_float (sign_bit x) (mag_bits x)"
  proof (cases x)
    case (Bits w)
    have "unat w = unat w mod 2 ^ 63 + (if 2 ^ 63 \<le> unat w then 2 ^ 63 else 0)"
    proof (cases "2 ^ 63 \<le> unat w")
      case True
      have "unat w < 2 ^ 64" using unsigned_less [of w] by simp
      then have "unat w - 2 ^ 63 < 2 ^ 63" using True by simp
      then have "unat w mod 2 ^ 63 = unat w - 2 ^ 63" using True by (simp only: le_mod_geq mod_less)
      then show ?thesis using True by simp
    qed simp
    moreover have "w = of_nat (unat w)" by simp
    ultimately have "w = of_nat (unat w mod 2 ^ 63 + (if 2 ^ 63 \<le> unat w then 2 ^ 63 else 0))" by metis
    then show ?thesis by (simp add: make_float_def mag_bits_def sign_bit_def Bits)
  qed
  have "ap_of_rat (six_rat \<bar>p\<bar>) = make_float False (mag_bits x)"
  proof (cases "mag_bits x = 0")
    case True
    then show ?thesis using m by (simp add: six_rat_def ap_of_rat_def ap_signed_def ap_zero_def)
  next
    case False
    then have q: "1 \<le> \<bar>p\<bar> * 10 ^ 400" using m dec_mag_pos by (simp del: power_numeral)
    then have "p \<noteq> 0" by auto
    then have "0 < k" using assms(2) by (cases k) auto
    have nonneg: "\<not> dec_mag (mag_bits x) < 0" by (simp add: not_less)
    from six_rat_exact [OF \<open>0 < k\<close> assms(3,2) q] show ?thesis
      using \<open>p \<noteq> 0\<close> m enc_mag_dec_mag [of "mag_bits x"]
      by (auto simp: nonneg ap_of_rat_def ap_signed_def encode_def)
  qed
  moreover have "mag_bits x < 2 ^ 63" using m by simp
  ultimately have "six_digits x = make_float (sign_bit x) (mag_bits x)"
    using assms(1) by (simp add: six_digits_def Let_def ap_neg_def)
  then show ?thesis using bits by simp
qed

end
