(* ===== verification/Reader_Calculus.thy ===== *)
theory Reader_Calculus
  imports Task_Writer Decimal_Text
begin

text \<open>
  Rules for reading back what was written. A reader consumes a text if from any stream that starts,
  after blanks, with the text it returns the value and leaves what follows the text, again up to
  blanks. The rules follow the structure of the readers: one for each extraction, one for a loop.
\<close>

definition blank :: "string \<Rightarrow> bool" where
  "blank w \<longleftrightarrow> list_all is_space w"

definition consumes :: "(istream \<Rightarrow> ('a \<times> istream) result) \<Rightarrow> string \<Rightarrow> 'a \<Rightarrow> bool" where
  "consumes f w x \<longleftrightarrow> (\<forall>pre r. blank pre \<longrightarrow> (\<exists>pre'. blank pre' \<and> f (stream_of (pre @ w @ r)) = Inr (x, stream_of (pre' @ r))))"

text \<open>A word with the blank or the newline that ends it.\<close>

definition token :: "string \<Rightarrow> string \<Rightarrow> bool" where
  "token w u \<longleftrightarrow> is_word w \<and> (u = endl w \<or> u = sp w)"

lemma token_simps [simp]: "token w (endl w) \<longleftrightarrow> is_word w" "token w (sp w) \<longleftrightarrow> is_word w"
  by (simp_all add: token_def)

lemma tokenE:
  assumes "token w u"
  obtains c where "is_word w" "u = w @ [c]" "is_space c"
proof -
  have "is_word w" "u = w @ [CHR 10] \<or> u = w @ [CHR '' '']" using assms by (simp_all add: token_def endl_def sp_def)
  moreover have "is_space (CHR 10)" "is_space (CHR '' '')" by (simp_all add: is_space_def)
  ultimately show ?thesis using that by blast
qed

lemma blank_simps [simp]: "blank []" "blank (c # w) \<longleftrightarrow> is_space c \<and> blank w"
  by (simp_all add: blank_def)

lemma drop_blank [simp]: "blank pre \<Longrightarrow> dropWhile is_space (pre @ w) = dropWhile is_space w"
  by (induction pre) auto

lemma has_input_blank: "blank pre \<Longrightarrow> has_input (stream_of (pre @ w)) = has_input (stream_of w)"
  by (simp add: has_input_def stream_of_def)

lemma extract_int_blank: "blank pre \<Longrightarrow> has_input (stream_of w) \<Longrightarrow> extract_int (stream_of (pre @ w)) = extract_int (stream_of w)"
  by (simp add: extract_int_def has_input_blank scan_number_def) (simp add: stream_of_def)

lemma extract_container_blank:
  "blank pre \<Longrightarrow> has_input (stream_of w) \<Longrightarrow> extract_container (stream_of (pre @ w)) = extract_container (stream_of w)"
  by (simp add: extract_container_def has_input_blank scan_number_def) (simp add: stream_of_def)

lemma extract_word_blank: "blank pre \<Longrightarrow> has_input (stream_of w) \<Longrightarrow> extract_word old (stream_of (pre @ w)) = extract_word old (stream_of w)"
  by (simp add: extract_word_def has_input_blank) (simp add: stream_of_def)

lemma skip_ws_blank: "blank pre \<Longrightarrow> skip_ws (stream_of (pre @ w)) = skip_ws (stream_of w)"
  by (simp add: skip_ws_def stream_of_def)

section \<open>Tokens\<close>

definition small :: "int \<Rightarrow> bool" where "small v \<longleftrightarrow> - (2 ^ 31) \<le> v \<and> v < 2 ^ 31"

lemma extract_word_token:
  assumes "token w u" "blank pre"
  obtains pre' where "blank pre'" "extract_word old (stream_of (pre @ u @ r)) = (w, stream_of (pre' @ r))"
proof -
  obtain c where c: "is_word w" "u = w @ [c]" "is_space c" using assms(1) by (rule tokenE)
  then have "extract_word old (stream_of (pre @ u @ r)) = (w, stream_of ([c] @ r))"
    using extract_word_blank [OF assms(2) has_input_word [OF c(1)], of old "[c] @ r"] extract_word_written [OF c(1), of "[c] @ r"] by simp
  then show ?thesis using c(3) by (intro that [of "[c]"]) simp_all
qed

lemma extract_int_token:
  assumes "token (show_int v) u" "small v" "blank pre"
  obtains pre' where "blank pre'" "extract_int (stream_of (pre @ u @ r)) = (Some v, stream_of (pre' @ r))"
proof -
  obtain c where c: "is_word (show_int v)" "u = show_int v @ [c]" "is_space c" using assms(1) by (rule tokenE)
  then have "extract_int (stream_of (pre @ u @ r)) = (Some v, stream_of ([c] @ r))"
    using extract_int_blank [OF assms(3) has_input_word [OF c(1)], of "[c] @ r"] extract_int_written [of v "[c] @ r"] assms(2)
    by (simp add: small_def)
  then show ?thesis using c(3) by (intro that [of "[c]"]) simp_all
qed

lemma extract_container_token:
  assumes "token (show_int v) u" "small v" "blank pre"
  obtains pre' where "blank pre'" "extract_container (stream_of (pre @ u @ r)) = (Some (word_of_int v), stream_of (pre' @ r))"
proof -
  obtain c where c: "is_word (show_int v)" "u = show_int v @ [c]" "is_space c" using assms(1) by (rule tokenE)
  then have "extract_container (stream_of (pre @ u @ r)) = (Some (word_of_int v), stream_of ([c] @ r))"
    using extract_container_blank [OF assms(3) has_input_word [OF c(1)], of "[c] @ r"] extract_container_written [of v "[c] @ r"] assms(2)
    by (simp add: small_def)
  then show ?thesis using c(3) by (intro that [of "[c]"]) simp_all
qed

section \<open>Rules\<close>

lemma consumesD:
  assumes "consumes f w x" "blank pre"
  obtains pre' where "blank pre'" "f (stream_of (pre @ w @ r)) = Inr (x, stream_of (pre' @ r))"
  using assms by (auto simp: consumes_def)

lemma consumes_return: "consumes (\<lambda>s. Inr (x, s)) [] x"
  by (auto simp: consumes_def)

lemma consumes_bind:
  assumes "consumes f w x" "consumes (g x) u y"
  shows "consumes (\<lambda>s. bind_result (f s) (\<lambda>(x, s). g x s)) (w @ u) y"
  unfolding consumes_def
proof (intro allI impI)
  fix pre r assume pre: "blank pre"
  obtain pre1 where pre1: "blank pre1" "f (stream_of (pre @ w @ u @ r)) = Inr (x, stream_of (pre1 @ u @ r))"
    using assms(1) pre by (rule consumesD)
  moreover obtain pre2 where "blank pre2" "g x (stream_of (pre1 @ u @ r)) = Inr (y, stream_of (pre2 @ r))"
    using assms(2) pre1(1) by (rule consumesD)
  ultimately show "\<exists>pre'. blank pre' \<and> bind_result (f (stream_of (pre @ (w @ u) @ r))) (\<lambda>(x, s). g x s) = Inr (y, stream_of (pre' @ r))"
    by auto
qed

lemma consumes_check: "c = Inr u \<Longrightarrow> consumes (g u) w y \<Longrightarrow> consumes (\<lambda>s. bind_result c (\<lambda>u. g u s)) w y"
  by simp

lemma consumes_magic:
  assumes "token m w" "consumes g u y"
  shows "consumes (\<lambda>s. bind_result (check_magic m s) g) (w @ u) y"
  unfolding consumes_def
proof (intro allI impI)
  fix pre r assume pre: "blank pre"
  obtain pre1 where pre1: "blank pre1" "extract_word [] (stream_of (pre @ w @ u @ r)) = (m, stream_of (pre1 @ u @ r))"
    using assms(1) pre by (rule extract_word_token)
  obtain pre2 where "blank pre2" "g (stream_of (pre1 @ u @ r)) = Inr (y, stream_of (pre2 @ r))"
    using assms(2) pre1(1) by (rule consumesD)
  then show "\<exists>pre'. blank pre' \<and> bind_result (check_magic m (stream_of (pre @ (w @ u) @ r))) g = Inr (y, stream_of (pre' @ r))"
    using pre1(2) by (auto simp: check_magic_def)
qed

lemma consumes_word:
  assumes "token w v" "consumes (g w) u y"
  shows "consumes (\<lambda>s. let (x, s) = extract_word [] s in g x s) (v @ u) y"
  unfolding consumes_def
proof (intro allI impI)
  fix pre r assume pre: "blank pre"
  obtain pre1 where pre1: "blank pre1" "extract_word [] (stream_of (pre @ v @ u @ r)) = (w, stream_of (pre1 @ u @ r))"
    using assms(1) pre by (rule extract_word_token)
  obtain pre2 where "blank pre2" "g w (stream_of (pre1 @ u @ r)) = Inr (y, stream_of (pre2 @ r))"
    using assms(2) pre1(1) by (rule consumesD)
  then show "\<exists>pre'. blank pre' \<and> (let (x, s) = extract_word [] (stream_of (pre @ (v @ u) @ r)) in g x s) = Inr (y, stream_of (pre' @ r))"
    using pre1(2) by auto
qed

lemma consumes_int:
  assumes "token (show_int v) w" "small v" "consumes (g (Some v)) u y"
  shows "consumes (\<lambda>s. let (x, s) = extract_int s in g x s) (w @ u) y"
  unfolding consumes_def
proof (intro allI impI)
  fix pre r assume pre: "blank pre"
  obtain pre1 where pre1: "blank pre1" "extract_int (stream_of (pre @ w @ u @ r)) = (Some v, stream_of (pre1 @ u @ r))"
    using assms(1,2) pre by (rule extract_int_token)
  obtain pre2 where "blank pre2" "g (Some v) (stream_of (pre1 @ u @ r)) = Inr (y, stream_of (pre2 @ r))"
    using assms(3) pre1(1) by (rule consumesD)
  then show "\<exists>pre'. blank pre' \<and> (let (x, s) = extract_int (stream_of (pre @ (w @ u) @ r)) in g x s) = Inr (y, stream_of (pre' @ r))"
    using pre1(2) by auto
qed

lemma consumes_read_int: "token (show_int v) w \<Longrightarrow> small v \<Longrightarrow> consumes read_int w v"
  unfolding consumes_def
proof (intro allI impI)
  fix pre r assume pre: "blank pre" and v: "token (show_int v) w" "small v"
  obtain pre1 where "blank pre1" "extract_int (stream_of (pre @ w @ r)) = (Some v, stream_of (pre1 @ r))"
    using v pre by (rule extract_int_token)
  then show "\<exists>pre'. blank pre' \<and> read_int (stream_of (pre @ w @ r)) = Inr (v, stream_of (pre' @ r))"
    by (auto simp: read_int_def determinate_def)
qed

section \<open>Loops\<close>

lemma consumes_times:
  "(\<And>x. x \<in> set xs \<Longrightarrow> consumes f (wr x) (conv x)) \<Longrightarrow> consumes (read_times (length xs) f) (concat (map wr xs)) (map conv xs)"
proof (induction xs)
  case Nil
  show ?case using consumes_return [of "[]"] by simp
next
  case (Cons x xs)
  have "consumes (\<lambda>s. bind_result (f s) (\<lambda>(x, s). bind_result (read_times (length xs) f s) (\<lambda>(xs, s). Inr (x # xs, s))))
      (wr x @ concat (map wr xs) @ []) (conv x # map conv xs)"
    by (rule consumes_bind [OF Cons.prems consumes_bind [OF Cons.IH consumes_return]]) (simp_all add: Cons.prems)
  then show ?case by simp
qed

lemma small_length: "length xs < 2 ^ 31 \<Longrightarrow> small (int (length xs))"
  by (simp add: small_def)

lemma show_int_nat [simp]: "show_int (int n) = show_nat n"
  by (simp add: show_int_def)

lemma consumes_size: "token (show_nat n) w \<Longrightarrow> n < 2 ^ 31 \<Longrightarrow> consumes read_int w (int n)"
  using consumes_read_int [of "int n" w] by (simp add: small_def)

lemma consumes_counted:
  assumes "token (show_nat (length xs)) w" "length xs < 2 ^ 31" "\<And>x. x \<in> set xs \<Longrightarrow> consumes f (wr x) (conv x)"
  shows "consumes (read_counted f) (w @ concat (map wr xs)) (map conv xs)" "consumes (read_reserved f) (w @ concat (map wr xs)) (map conv xs)"
proof -
  note n = consumes_size [OF assms(1,2)] and xs = consumes_times [OF assms(3)]
  show "consumes (read_counted f) (w @ concat (map wr xs)) (map conv xs)"
    unfolding read_counted_def [abs_def] by (rule consumes_bind [OF n]) (use xs in simp)
  show "consumes (read_reserved f) (w @ concat (map wr xs)) (map conv xs)"
    unfolding read_reserved_def [abs_def] by (rule consumes_bind [OF n]) (use xs in simp)
qed

section \<open>Lines\<close>

definition line_ok :: "string \<Rightarrow> bool" where
  "line_ok w \<longleftrightarrow> CHR 10 \<notin> set w"

text \<open>A line that is read after blanks have been skipped does not start with one.\<close>

definition name_ok :: "string \<Rightarrow> bool" where
  "name_ok w \<longleftrightarrow> line_ok w \<and> w \<noteq> [] \<and> \<not> is_space (hd w)"

lemma line_prefix: "c \<notin> set w \<Longrightarrow> takeWhile (\<lambda>x. x \<noteq> c) (w @ c # r) = w \<and> dropWhile (\<lambda>x. x \<noteq> c) (w @ c # r) = c # r"
  by (induction w) auto

lemma getline_line: "line_ok w \<Longrightarrow> getline [] (stream_of (endl w @ r)) = (w, stream_of r)"
  by (simp add: getline_def stream_of_def endl_def line_ok_def line_prefix)

lemma getlines: "\<forall>w \<in> set ws. line_ok w \<Longrightarrow>
    read_times (length ws) (\<lambda>s. Inr (getline [] s)) (stream_of (concat (map endl ws) @ r)) = Inr (ws, stream_of r)"
  by (induction ws) (simp_all add: getline_line)

lemma skip_ws_name: "name_ok w \<Longrightarrow> blank pre \<Longrightarrow> skip_ws (stream_of (pre @ w @ r)) = stream_of (w @ r)"
  by (cases w) (simp_all add: skip_ws_blank name_ok_def skip_ws_def stream_of_def)

lemma consumes_line:
  assumes "name_ok w" "consumes (g w) u y"
  shows "consumes (\<lambda>s. let (x, s) = getline [] (skip_ws s) in g x s) (endl w @ u) y"
  unfolding consumes_def
proof (intro allI impI)
  fix pre r assume "blank pre"
  then have "getline [] (skip_ws (stream_of (pre @ (endl w @ u) @ r))) = (w, stream_of (u @ r))"
    using skip_ws_name [OF assms(1), of pre "CHR 10 # u @ r"] getline_line [of w "u @ r"] assms(1)
    by (simp add: endl_def name_ok_def)
  moreover obtain pre2 where "blank pre2" "g w (stream_of ([] @ u @ r)) = Inr (y, stream_of (pre2 @ r))"
    using assms(2) blank_simps(1) by (rule consumesD)
  ultimately show "\<exists>pre'. blank pre' \<and> (let (x, s) = getline [] (skip_ws (stream_of (pre @ (endl w @ u) @ r))) in g x s) = Inr (y, stream_of (pre' @ r))"
    by auto
qed

definition lines_ok :: "string list \<Rightarrow> bool" where
  "lines_ok ws \<longleftrightarrow> (\<forall>w \<in> set ws. line_ok w) \<and> (ws = [] \<or> name_ok (hd ws))"

text \<open>Lines, and the magic word that follows them.\<close>

lemma consumes_lines:
  assumes "lines_ok ws" "token m v" "consumes (g ws) u y"
  shows "consumes (\<lambda>s. bind_result (read_times (length ws) (\<lambda>s. Inr (getline [] s)) (skip_ws s)) (\<lambda>(x, s). bind_result (check_magic m s) (g x)))
    (concat (map endl ws) @ v @ u) y"
  unfolding consumes_def
proof (intro allI impI)
  fix pre r assume pre: "blank pre"
  have magic: "consumes (\<lambda>s. bind_result (check_magic m s) (g ws)) (v @ u) y" by (rule consumes_magic [OF assms(2,3)])
  have skip: "skip_ws (stream_of (pre @ concat (map endl ws) @ v @ u @ r)) = stream_of (concat (map endl ws) @ v @ u @ r)"
  proof (cases ws)
    case Nil
    have "is_word m" "v = endl m \<or> v = sp m" using assms(2) by (simp_all add: token_def)
    then have "dropWhile is_space (v @ u @ r) = v @ u @ r" by (cases m) (auto simp: endl_def sp_def is_word_def)
    then show ?thesis using pre by (simp add: Nil skip_ws_def stream_of_def)
  next
    case (Cons w rest)
    then show ?thesis using skip_ws_name [of w pre "CHR 10 # concat (map endl rest) @ v @ u @ r"] assms(1) pre
      by (simp add: lines_ok_def endl_def)
  qed
  obtain pre2 where "blank pre2" "bind_result (check_magic m (stream_of ([] @ (v @ u) @ r))) (g ws) = Inr (y, stream_of (pre2 @ r))"
    using magic blank_simps(1) by (rule consumesD)
  then show "\<exists>pre'. blank pre' \<and> bind_result (read_times (length ws) (\<lambda>s. Inr (getline [] s)) (skip_ws (stream_of (pre @ (concat (map endl ws) @ v @ u) @ r))))
      (\<lambda>(x, s). bind_result (check_magic m s) (g x)) = Inr (y, stream_of (pre' @ r))"
    using skip getlines [of ws "v @ u @ r"] assms(1) by (auto simp: lines_ok_def)
qed

section \<open>Doubles\<close>

text \<open>
  A double is printed with six significant digits. A finite one is read back as the double nearest
  to them.
\<close>

lemma read_sign_append: "w \<noteq> [] \<Longrightarrow> read_sign w = (neg, q) \<Longrightarrow> read_sign (w @ r) = (neg, q @ r)"
  by (cases w) (auto simp: read_sign_def split: if_splits)

lemma span_append:
  "ends r \<Longrightarrow> (\<And>c. is_space c \<Longrightarrow> \<not> P c) \<Longrightarrow> takeWhile P (q @ r) = takeWhile P q \<and> dropWhile P (q @ r) = dropWhile P q @ r"
proof (induction q)
  case Nil
  then show ?case by (cases r) auto
qed auto

lemma base_append:
  "ends r \<Longrightarrow> base_digits 10 (q @ r) = base_digits 10 q \<and> base_rest 10 (q @ r) = base_rest 10 q @ r"
  using span_append [of r "\<lambda>c. hex_value c < 10" q] space_no_digit by (simp add: base_digits_def base_rest_def)

lemma read_mantissa_append:
  assumes "ends r" "read_mantissa 10 q = Some (m, q')"
  shows "read_mantissa 10 (q @ r) = Some (m, q' @ r)"
proof (cases "base_rest 10 q")
  case Nil
  then show ?thesis using assms base_append [OF assms(1)] space_no_digit
    by (cases r) (auto simp: read_mantissa_def Let_def split: if_splits)
next
  case (Cons c w)
  then show ?thesis using assms base_append [OF assms(1)]
    by (auto simp: read_mantissa_def Let_def split: if_splits)
qed

lemma extract_exponent_append:
  assumes "ends r" "extract_exponent q = Some (e, q')"
  shows "extract_exponent (q @ r) = Some (e, q' @ r)"
proof (cases q)
  case Nil
  then show ?thesis using assms space_no_digit by (cases r) (auto simp: extract_exponent_def)
next
  case (Cons c w)
  show ?thesis
  proof (cases "to_lower c = CHR ''e''")
    case True
    obtain neg v where v: "read_sign w = (neg, v)" by force
    have "w \<noteq> []" using assms(2) True Cons by (auto simp: extract_exponent_def read_sign_def)
    from read_sign_append [OF this v] show ?thesis
      using assms(2) True span_append [OF assms(1), of is_digit v] space_no_digit
      by (auto simp: extract_exponent_def Cons v Let_def split: if_splits)
  next
    case False
    then show ?thesis using assms(2) by (auto simp: extract_exponent_def Cons)
  qed
qed

lemma extract_double_written:
  assumes "ap_is_finite y" "ends r"
  shows "extract_double (stream_of (format_g 6 y @ r)) = (Some (six_digits y), stream_of r)"
proof -
  let ?w = "format_g 6 y"
  define x where "x = six_digits y"
  have w: "is_word ?w" and read: "extract_double (stream_of ?w) = (Some x, stream_of [])"
    using printed_double_reads_back [OF assms(1)] by (simp_all add: x_def)
  have drop: "dropWhile is_space (?w @ q) = ?w @ q" for q using w by (cases ?w) (auto simp: is_word_def)
  obtain neg v where v: "read_sign ?w = (neg, v)" by force
  have input: "has_input (stream_of ?w)" "has_input (stream_of (?w @ r))" using has_input_word [OF w, of "[]"] has_input_word [OF w, of r] by simp_all
  have none: "set_fail s \<noteq> stream_of []" for s by (cases s) (simp add: set_fail_def stream_of_def)
  obtain m q e q' where m: "read_mantissa 10 v = Some (m, q)" and e: "extract_exponent q = Some (e, q')"
    and x: "ap_is_finite x" "x = (if neg then ap_neg (ap_of_rat (m * 10 powi e)) else ap_of_rat (m * 10 powi e))" and q': "q' = []"
    using read input(1) drop [of "[]"] v none
    by (auto simp: extract_double_def Let_def stream_of_def [of ?w] split: option.splits if_splits prod.splits) (auto simp: stream_of_def)
  have "?w \<noteq> []" using w by (simp add: is_word_def)
  from read_sign_append [OF this v] show ?thesis
    using input(2) drop [of r] read_mantissa_append [OF assms(2) m] extract_exponent_append [OF assms(2) e] x q'
    by (simp add: extract_double_def stream_of_def x_def [symmetric])
qed

lemma extract_double_blank:
  assumes "blank pre" "extract_double (stream_of w) = (Some x, stream_of r)"
  shows "extract_double (stream_of (pre @ w)) = (Some x, stream_of r)"
proof -
  have none: "set_fail s \<noteq> stream_of r" for s by (cases s) (simp add: set_fail_def stream_of_def)
  show ?thesis
    using assms none has_input_blank [OF assms(1), of w, unfolded stream_of_def]
    by (auto simp: extract_double_def Let_def stream_of_def [of "pre @ w"] stream_of_def [of w] split: option.splits if_splits prod.splits)
qed

lemma extract_double_token:
  assumes "ap_is_finite x" "blank pre"
  obtains pre' where "blank pre'" "extract_double (stream_of (pre @ endl (format_g 6 x) @ r)) = (Some (six_digits x), stream_of (pre' @ r))"
proof -
  have "is_space (CHR 10)" by (simp add: is_space_def)
  then have "extract_double (stream_of (pre @ endl (format_g 6 x) @ r)) = (Some (six_digits x), stream_of ([CHR 10] @ r))"
    using extract_double_blank [OF assms(2) extract_double_written [OF assms(1)], of "CHR 10 # r"] by (simp add: endl_def)
  then show ?thesis using \<open>is_space (CHR 10)\<close> by (intro that [of "[CHR 10]"]) simp_all
qed

lemma consumes_double:
  assumes "ap_is_finite x"
  shows "consumes read_double (endl (format_g 6 x)) (six_digits x)"
    "consumes (\<lambda>s. let (v, s) = extract_double s in Inr (case_option (ap_zero False) id v, s)) (endl (format_g 6 x)) (six_digits x)"
  unfolding consumes_def
proof -
  show "\<forall>pre r. blank pre \<longrightarrow> (\<exists>pre'. blank pre' \<and> read_double (stream_of (pre @ endl (format_g 6 x) @ r)) = Inr (six_digits x, stream_of (pre' @ r)))"
    by (metis (no_types, lifting) extract_double_token [OF assms] read_double_def determinate_def fst_conv snd_conv option.simps(5))
  show "\<forall>pre r. blank pre \<longrightarrow> (\<exists>pre'. blank pre' \<and>
      (let (v, s) = extract_double (stream_of (pre @ endl (format_g 6 x) @ r)) in Inr (case_option (ap_zero False) id v, s)) = Inr (six_digits x, stream_of (pre' @ r)))"
  proof (intro allI impI)
    fix pre r assume "blank pre"
    then obtain pre' where "blank pre'" "extract_double (stream_of (pre @ endl (format_g 6 x) @ r)) = (Some (six_digits x), stream_of (pre' @ r))"
      by (rule extract_double_token [OF assms])
    then show "\<exists>pre'. blank pre' \<and>
      (let (v, s) = extract_double (stream_of (pre @ endl (format_g 6 x) @ r)) in Inr (case_option (ap_zero False) id v, s)) = Inr (six_digits x, stream_of (pre' @ r))"
      by auto
  qed
qed

lemma consumes_container:
  assumes "token (show_int v) w" "small v" "consumes (g (Some (word_of_int v))) u y"
  shows "consumes (\<lambda>s. let (x, s) = extract_container s in g x s) (w @ u) y"
  unfolding consumes_def
proof (intro allI impI)
  fix pre r assume pre: "blank pre"
  obtain pre1 where pre1: "blank pre1" "extract_container (stream_of (pre @ w @ u @ r)) = (Some (word_of_int v), stream_of (pre1 @ u @ r))"
    using assms(1,2) pre by (rule extract_container_token)
  obtain pre2 where "blank pre2" "g (Some (word_of_int v)) (stream_of (pre1 @ u @ r)) = Inr (y, stream_of (pre2 @ r))"
    using assms(3) pre1(1) by (rule consumesD)
  then show "\<exists>pre'. blank pre' \<and> (let (x, s) = extract_container (stream_of (pre @ (w @ u) @ r)) in g x s) = Inr (y, stream_of (pre' @ r))"
    using pre1(2) by auto
qed

section \<open>Rules by the text\<close>

named_theorems consume \<open>rules that follow the text that was written\<close>

lemma bind_int_sp [consume]:
  "small v \<Longrightarrow> consumes (g v) u y \<Longrightarrow> consumes (\<lambda>s. bind_result (read_int s) (\<lambda>(x, s). g x s)) (sp (show_int v) @ u) y"
  by (rule consumes_bind [OF consumes_read_int]) simp_all

lemma bind_int_endl [consume]:
  "small v \<Longrightarrow> consumes (g v) u y \<Longrightarrow> consumes (\<lambda>s. bind_result (read_int s) (\<lambda>(x, s). g x s)) (endl (show_int v) @ u) y"
  by (rule consumes_bind [OF consumes_read_int]) simp_all

lemma let_int_sp [consume]:
  "small v \<Longrightarrow> consumes (g (Some v)) u y \<Longrightarrow> consumes (\<lambda>s. let (x, s) = extract_int s in g x s) (sp (show_int v) @ u) y"
  by (rule consumes_int [where v = v]) simp_all

lemma let_int_endl [consume]:
  "small v \<Longrightarrow> consumes (g (Some v)) u y \<Longrightarrow> consumes (\<lambda>s. let (x, s) = extract_int s in g x s) (endl (show_int v) @ u) y"
  by (rule consumes_int [where v = v]) simp_all

lemma bind_magic [consume]:
  "is_word m \<Longrightarrow> consumes g u y \<Longrightarrow> consumes (\<lambda>s. bind_result (check_magic m s) g) (endl m @ u) y"
  by (rule consumes_magic) simp_all

lemma bind_size_endl:
  "n < 2 ^ 31 \<Longrightarrow> consumes (g (int n)) u y \<Longrightarrow> consumes (\<lambda>s. bind_result (read_int s) (\<lambda>(x, s). g x s)) (endl (show_nat n) @ u) y"
  by (rule consumes_bind [OF consumes_size]) (simp_all add: show_nat_word)

lemma bind_counted:
  assumes "length xs < 2 ^ 31" "\<And>x. x \<in> set xs \<Longrightarrow> consumes f (wr x) (conv x)" "consumes (g (map conv xs)) u y"
  shows "consumes (\<lambda>s. bind_result (read_counted f s) (\<lambda>(x, s). g x s)) (endl (show_nat (length xs)) @ concat (map wr xs) @ u) y"
    "consumes (\<lambda>s. bind_result (read_reserved f s) (\<lambda>(x, s). g x s)) (endl (show_nat (length xs)) @ concat (map wr xs) @ u) y"
proof -
  have "token (show_nat (length xs)) (endl (show_nat (length xs)))" by (simp add: show_nat_word)
  note counted = consumes_counted [OF this assms(1), where f = f and wr = wr and conv = conv, OF assms(2)]
  note bind = consumes_bind [where x = "map conv xs" and g = g, OF _ assms(3)]
  show "consumes (\<lambda>s. bind_result (read_counted f s) (\<lambda>(x, s). g x s)) (endl (show_nat (length xs)) @ concat (map wr xs) @ u) y"
    "consumes (\<lambda>s. bind_result (read_reserved f s) (\<lambda>(x, s). g x s)) (endl (show_nat (length xs)) @ concat (map wr xs) @ u) y"
    using bind [OF counted(1)] bind [OF counted(2)] by simp_all
qed

lemma bind_times:
  assumes "\<And>x. x \<in> set xs \<Longrightarrow> consumes f (wr x) (conv x)" "consumes (g (map conv xs)) u y" "n = length xs"
  shows "consumes (\<lambda>s. bind_result (read_times n f s) (\<lambda>(x, s). g x s)) (concat (map wr xs) @ u) y"
  unfolding assms(3)
  by (rule consumes_bind [where x = "map conv xs" and g = g, OF _ assms(2)]) (rule consumes_times [where conv = conv], rule assms(1))

lemma consumes_cong: "w = w' \<Longrightarrow> consumes f w x \<Longrightarrow> consumes f w' x"
  by simp

end
