(* ===== verification/Task_Typing.thy ===== *)
theory Task_Typing
  imports Task_Reader
begin

text \<open>
  What the task reader guarantees of every file it accepts: the vectors of the task have the sizes
  that belong together, every condition and every effect names a variable of the task and a value
  of its range, and two facts are mutex exactly if they share a group or a variable.
\<close>

section \<open>Inversion of the readers\<close>

lemma Inr_pair_iff [simp]: "(case p of (x, y) \<Rightarrow> f x y) = Inr r \<longleftrightarrow> (\<exists>x y. p = (x, y) \<and> f x y = Inr r)"
  by (cases p) simp

lemma read_times_all:
  assumes "read_times n f s = Inr (xs, s')" "\<And>s x s'. f s = Inr (x, s') \<Longrightarrow> P x"
  shows "length xs = n \<and> (\<forall>x \<in> set xs. P x)"
  using assms(1)
proof (induction n arbitrary: s xs)
  case (Suc n)
  then obtain x s1 ys where "f s = Inr (x, s1)" "read_times n f s1 = Inr (ys, s')" "xs = x # ys"
    by (auto simp: result_iff)
  then show ?case using Suc.IH assms(2) by auto
qed simp

lemma read_counted_all:
  "read_counted f s = Inr (xs, s') \<Longrightarrow> (\<And>s x s'. f s = Inr (x, s') \<Longrightarrow> P x) \<Longrightarrow> \<forall>x \<in> set xs. P x"
  by (auto simp: read_counted_def result_iff dest!: read_times_all [where P = P])

lemma read_reserved_all:
  "read_reserved f s = Inr (xs, s') \<Longrightarrow> (\<And>s x s'. f s = Inr (x, s') \<Longrightarrow> P x) \<Longrightarrow> \<forall>x \<in> set xs. P x"
  by (auto simp: read_reserved_def result_iff split: if_splits dest!: read_times_all [where P = P])

lemma extract_int_bounds:
  assumes "extract_int s = (Some v, s')"
  shows "- (2 ^ 31) \<le> v" "v < 2 ^ 31"
  using assms by (auto simp: extract_int_def Let_def split: if_splits prod.splits)

lemma read_int_bounds:
  assumes "read_int s = Inr (v, s')"
  shows "- (2 ^ 31) \<le> v" "v < 2 ^ 31"
proof -
  have "extract_int s = (Some v, s')"
    using assms by (cases "extract_int s") (auto simp: read_int_def determinate_def split: option.splits)
  from extract_int_bounds [OF this] show "- (2 ^ 31) \<le> v" "v < 2 ^ 31" .
qed

lemma index_of_int: "0 \<le> v \<Longrightarrow> v < 2 ^ 31 \<Longrightarrow> index_of v = nat v"
  by (simp add: index_of_def)

section \<open>Conditions, effects, operators\<close>

definition typed_fact :: "container_int list \<Rightarrow> nat \<Rightarrow> container_int \<Rightarrow> bool" where
  "typed_fact doms v x \<longleftrightarrow> v < length doms \<and> x < doms ! v"

definition typed_condition :: "container_int list \<Rightarrow> GlobalCondition \<Rightarrow> bool" where
  "typed_condition doms c \<longleftrightarrow> typed_fact doms (cond_var c) (cond_val c)"

definition typed_effect :: "container_int list \<Rightarrow> GlobalEffect \<Rightarrow> bool" where
  "typed_effect doms e \<longleftrightarrow> typed_fact doms (eff_var e) (eff_val e) \<and> list_all (typed_condition doms) (eff_conditions e)"

definition typed_operator :: "container_int list \<Rightarrow> GlobalOperator \<Rightarrow> bool" where
  "typed_operator doms oper \<longleftrightarrow> list_all (typed_condition doms) (preconditions oper) \<and> list_all (typed_effect doms) (op_effects oper) \<and>
    list_all (\<lambda>e. list_all (typed_condition doms) (ass_conditions e)) (assign_effects oper)"

definition typed_axiom :: "container_int list \<Rightarrow> PropositionalAxiom \<Rightarrow> bool" where
  "typed_axiom doms ax \<longleftrightarrow> list_all (typed_condition doms) (pax_conditions ax) \<and>
    (\<exists>x. typed_fact doms (pax_affected ax) x \<and> pax_effects ax = [\<lparr>eff_var = pax_affected ax, eff_val = x, eff_conditions = []\<rparr>])"

lemma check_fact_ok: "check_fact doms var val = Inr u \<Longrightarrow> var < 2 ^ 31 \<Longrightarrow> typed_fact doms (index_of var) val"
  by (auto simp: check_fact_def typed_fact_def index_of_int split: if_splits)

lemma read_condition_typed:
  assumes "read_condition doms s = Inr (c, s')"
  shows "typed_condition doms c"
proof -
  obtain var' s1 where e: "extract_int s = (var', s1)" by force
  have "case_option (- 1) id var' < 2 ^ 31" using extract_int_bounds(2) [of s] e by (cases var') auto
  then show ?thesis using assms check_fact_ok
    by (auto simp: read_condition_def Let_def e result_iff typed_condition_def)
qed

lemma make_condition_ok: "make_condition doms var val = Inr c \<Longrightarrow> var < 2 ^ 31 \<Longrightarrow> typed_condition doms c"
  using check_fact_ok by (auto simp: make_condition_def result_iff typed_condition_def)

lemma make_effect_ok:
  "make_effect doms var val conds = Inr e \<Longrightarrow> var < 2 ^ 31 \<Longrightarrow> list_all (typed_condition doms) conds \<Longrightarrow> typed_effect doms e"
  using check_fact_ok by (auto simp: make_effect_def result_iff typed_effect_def)

lemma read_pre_post_ok:
  assumes "read_pre_post doms s = Inr ((pres, e), s')"
  shows "list_all (typed_condition doms) pres \<and> typed_effect doms e"
proof -
  obtain conditions s1 var s2 pre s3 post where
    conds: "read_reserved (read_condition doms) s = Inr (conditions, s1)" and var: "read_int s1 = Inr (var, s2)"
    and pres: "(if pre \<noteq> - 1 then bind_result (make_condition doms var pre) (\<lambda>c. Inr [c]) else Inr []) = Inr pres"
    and e: "make_effect doms var post conditions = Inr e"
    using assms by (auto simp: read_pre_post_def result_iff)
  have "list_all (typed_condition doms) conditions"
    using read_reserved_all [OF conds read_condition_typed] by (simp add: list_all_iff)
  then show ?thesis
    using make_effect_ok [OF e] pres read_int_bounds(2) [OF var] make_condition_ok
    by (auto simp: result_iff split: if_splits)
qed

lemma read_assign_effect_ok:
  assumes "read_assign_effect doms s = Inr (e, s')"
  shows "list_all (typed_condition doms) (ass_conditions e)"
proof -
  obtain n s1 s2 where "read_times n (read_condition doms) s1 = Inr (ass_conditions e, s2)"
    using assms by (auto simp: read_assign_effect_def result_iff Let_def split: prod.splits)
  then show ?thesis using read_times_all [OF _ read_condition_typed] by (force simp: list_all_iff)
qed

lemma read_operator_typed:
  assumes "read_operator use_metric doms False s = Inr (oper, s')"
  shows "typed_operator doms oper \<and> \<not> is_an_axiom oper \<and> (\<not> use_metric \<longrightarrow> op_cost oper = ap_of_int 1)"
proof -
  obtain s1 pres s2 pps s3 asss s4 c s5 name where
    "read_counted (read_condition doms) s1 = Inr (pres, s2)" "read_counted (read_pre_post doms) s2 = Inr (pps, s3)"
    "read_counted (read_assign_effect doms) s3 = Inr (asss, s4)"
    and oper: "oper = \<lparr>is_an_axiom = False, preconditions = pres @ concat (map fst pps), op_effects = map snd pps,
        assign_effects = asss, op_name = name, op_cost = (if use_metric then c else ap_of_int 1)\<rparr>"
    using assms by (auto simp: read_operator_def result_iff Let_def split: prod.splits)
  from read_counted_all [OF this(1) read_condition_typed] read_counted_all [OF this(2), where P = "\<lambda>x. list_all (typed_condition doms) (fst x) \<and> typed_effect doms (snd x)"]
    read_counted_all [OF this(3) read_assign_effect_ok]
  show ?thesis using read_pre_post_ok by (fastforce simp: oper typed_operator_def list_all_iff)
qed

lemma read_propositional_axiom_typed:
  assumes "read_propositional_axiom doms s = Inr (ax, s')"
  shows "typed_axiom doms ax"
proof -
  obtain s1 conds s2 affected s3 new_value e where
    conds: "read_counted (read_condition doms) s1 = Inr (conds, s2)" and var: "read_int s2 = Inr (affected, s3)"
    and e: "make_effect doms affected new_value [] = Inr e"
    and ax: "ax = \<lparr>pax_affected = index_of affected, pax_layer = - 1, pax_conditions = conds, pax_effects = [e]\<rparr>"
    using assms by (auto simp: read_propositional_axiom_def result_iff)
  have "\<forall>x \<in> set conds. typed_condition doms x"
    using read_counted_all [OF conds, of "typed_condition doms"] read_condition_typed by blast
  then show ?thesis
    using e check_fact_ok read_int_bounds(2) [OF var]
    by (auto simp: ax typed_axiom_def list_all_iff make_effect_def result_iff)
qed

section \<open>Variables and mutex groups\<close>

lemma read_variable_typed:
  assumes "read_variable s = Inr ((name, layer, d, facts), s')"
  shows "d < 2 ^ 31 \<and> length facts = unat d"
proof -
  obtain s1 vrange s2 s3 s4 where vrange: "read_int s1 = Inr (vrange, s2)" and "0 \<le> vrange"
    and facts: "read_times (nat vrange) (\<lambda>s. Inr (getline [] s)) s3 = Inr (facts, s4)" and d: "d = word_of_int vrange"
    using assms by (auto simp: read_variable_def result_iff Let_def split: prod.splits if_splits)
  then have small: "0 \<le> vrange" "vrange < 2 ^ 31" using read_int_bounds by auto
  then have "uint d = vrange" by (simp add: d uint_word_of_int)
  moreover have "length facts = nat vrange" using read_times_all [OF facts, where P = "\<lambda>_. True"] by simp
  ultimately show ?thesis using small by (simp add: word_less_def unat_eq_nat_uint)
qed

text \<open>The table of mutex facts: it keeps its shape, and an entry is there because of a pair.\<close>

definition in_table :: "Fact \<Rightarrow> Fact set list list \<Rightarrow> bool" where
  "in_table a inc \<longleftrightarrow> fst a < length inc \<and> snd a < length (inc ! fst a)"

lemma insert_mutex_table:
  assumes "insert_mutex (a, b) inc = Inr inc'"
  shows "map length inc' = map length inc" "in_table c inc' \<longleftrightarrow> in_table c inc"
    "in_table c inc \<Longrightarrow> d \<in> inc' ! fst c ! snd c \<longleftrightarrow> d \<in> inc ! fst c ! snd c \<or> (c, d) = (a, b) \<and> fst a \<noteq> fst b"
  using assms by (auto simp: insert_mutex_def in_table_def nth_list_update split: if_splits)
    (auto simp: map_update list_update_same_conv prod_eq_iff)

lemma insert_mutexes_table:
  "insert_mutexes fs inc = Inr inc' \<Longrightarrow> map length inc' = map length inc \<and>
    (\<forall>c d. in_table c inc \<longrightarrow> (d \<in> inc' ! fst c ! snd c \<longleftrightarrow> d \<in> inc ! fst c ! snd c \<or> (c, d) \<in> set fs \<and> fst c \<noteq> fst d))"
proof (induction fs arbitrary: inc)
  case (Cons f fs)
  obtain a b where f: "f = (a, b)" by (cases f)
  with Cons.prems obtain inc1 where one: "insert_mutex (a, b) inc = Inr inc1" and "insert_mutexes fs inc1 = Inr inc'"
    by (auto simp: result_iff)
  then show ?case using Cons.IH insert_mutex_table [OF one] by (auto simp: f)
qed simp

lemma read_mutexes_table:
  assumes "read_mutexes doms s = Inr ((inc, groups), s')"
  shows "map length inc = map unat doms"
    "v < length doms \<Longrightarrow> x < unat (doms ! v) \<Longrightarrow> b \<in> inc ! v ! x \<longleftrightarrow> v \<noteq> fst b \<and> (\<exists>g \<in> set groups. (v, x) \<in> g \<and> b \<in> g)"
proof -
  obtain gs where inc: "insert_mutexes (concat (map (\<lambda>g. List.product g g) gs)) (map (\<lambda>d. replicate (unat d) {}) doms) = Inr inc"
    and groups: "groups = map set gs"
    using assms by (auto simp: read_mutexes_def result_iff)
  note table = insert_mutexes_table [OF inc]
  show "map length inc = map unat doms" using table by (simp add: comp_def)
  assume v: "v < length doms" "x < unat (doms ! v)"
  then have "in_table (v, x) (map (\<lambda>d. replicate (unat d) {}) doms)" by (simp add: in_table_def)
  then show "b \<in> inc ! v ! x \<longleftrightarrow> v \<noteq> fst b \<and> (\<exists>g \<in> set groups. (v, x) \<in> g \<and> b \<in> g)"
    using v conjunct2 [OF table, rule_format, of "(v, x)" b] by (auto simp: groups)
qed

section \<open>The task\<close>

definition well_typed :: "task \<Rightarrow> bool" where
  "well_typed t \<longleftrightarrow>
    (\<forall>d \<in> set (g_variable_domain t). d < 2 ^ 31) \<and> map length (g_fact_names t) = map unat (g_variable_domain t) \<and>
    length (g_variable_name t) = length (g_variable_domain t) \<and> length (g_axiom_layers t) = length (g_variable_domain t) \<and>
    length (g_initial_state_data t) = length (g_variable_domain t) \<and> g_default_axiom_values t = g_initial_state_data t \<and>
    length (g_numeric_axiom_layers t) = length (g_numeric_var_names t) \<and>
    length (g_numeric_var_types t) = length (g_numeric_var_names t) \<and>
    (\<forall>oper \<in> set (g_operators t). typed_operator (g_variable_domain t) oper \<and> \<not> is_an_axiom oper \<and>
      (\<not> g_use_metric t \<longrightarrow> op_cost oper = ap_of_int 1)) \<and>
    (\<forall>ax \<in> set (g_logic_axioms t). typed_axiom (g_variable_domain t) ax) \<and>
    g_axioms_as_operator t = map axiom_as_operator (g_logic_axioms t) \<and>
    g_goal t \<noteq> [] \<and> (g_use_metric t \<longleftrightarrow> g_metric_fluent_id t \<noteq> - 1) \<and>
    (\<forall>a b. fst a < length (g_variable_domain t) \<longrightarrow> snd a < unat (g_variable_domain t ! fst a) \<longrightarrow>
      are_mutex t a b = (if fst a = fst b then snd a \<noteq> snd b else \<exists>g \<in> set (g_mutex_group t). a \<in> g \<and> b \<in> g))"

lemma read_goal_nonempty: "read_goal s = Inr (goal, s') \<Longrightarrow> goal \<noteq> []"
  by (auto simp: read_goal_def result_iff split: if_splits dest!: read_times_all [where P = "\<lambda>_. True"])

lemma read_initial_values_length: "read_initial_values n s = Inr (vals, s') \<Longrightarrow> length vals = n"
  by (auto simp: read_initial_values_def result_iff dest!: read_times_all [where P = "\<lambda>_. True"])

lemma read_axioms_typed: "read_axioms doms n s = Inr ((logic, cmps, ass), s') \<Longrightarrow> \<forall>ax \<in> set logic. typed_axiom doms ax"
  by (auto simp: read_axioms_def result_iff dest!: read_counted_all [where P = "typed_axiom doms"] read_propositional_axiom_typed)

lemma read_operators_typed:
  "read_counted (read_operator use_metric doms False) s = Inr (opers, s') \<Longrightarrow>
    \<forall>oper \<in> set opers. typed_operator doms oper \<and> \<not> is_an_axiom oper \<and> (\<not> use_metric \<longrightarrow> op_cost oper = ap_of_int 1)"
  by (erule read_counted_all) (rule read_operator_typed)

lemma are_mutex_read:
  assumes "read_mutexes (g_variable_domain t) s = Inr ((g_inconsistent_facts t, g_mutex_group t), s')"
    "fst a < length (g_variable_domain t)" "snd a < unat (g_variable_domain t ! fst a)"
  shows "are_mutex t a b = (if fst a = fst b then snd a \<noteq> snd b else \<exists>g \<in> set (g_mutex_group t). a \<in> g \<and> b \<in> g)"
  using read_mutexes_table(2) [OF assms] by (simp add: are_mutex_def)

lemma read_task_typed:
  assumes "read_task s = Inr ((t, marker), s')"
  shows "well_typed t"
proof -
  obtain s1 vars s2 nums s3 s4 s5 s6 s7 s8 s9 cmps ass s10 s11 s12 where
    vars: "read_counted read_variable s1 = Inr (vars, s2)" and
    reads: "read_mutexes (g_variable_domain t) s3 = Inr ((g_inconsistent_facts t, g_mutex_group t), s4)"
      "read_initial_values (length (g_variable_domain t)) s5 = Inr (g_initial_state_data t, s6)"
      "read_goal s7 = Inr (g_goal t, s8)"
      "read_counted (read_operator (g_use_metric t) (g_variable_domain t) False) s9 = Inr (g_operators t, s10)"
      "read_axioms (g_variable_domain t) (length (nums :: (numType \<times> int \<times> string) list)) s11 = Inr ((g_logic_axioms t, cmps, ass), s12)" and
    t: "g_variable_domain t = map (\<lambda>(name, layer, vrange, facts). vrange) vars"
      "g_fact_names t = map (\<lambda>(name, layer, vrange, facts). facts) vars"
      "length (g_variable_name t) = length vars" "length (g_axiom_layers t) = length vars"
      "g_default_axiom_values t = g_initial_state_data t" "length (g_numeric_axiom_layers t) = length nums"
      "length (g_numeric_var_names t) = length nums" "length (g_numeric_var_types t) = length nums"
      "g_axioms_as_operator t = map axiom_as_operator (g_logic_axioms t)" "g_use_metric t \<longleftrightarrow> g_metric_fluent_id t \<noteq> - 1"
    using assms unfolding read_task_def by (auto simp: result_iff Let_def)
  have "\<forall>x \<in> set vars. case x of (name, layer, d, facts) \<Rightarrow> d < 2 ^ 31 \<and> length facts = unat d"
    by (rule read_counted_all [OF vars]) (use read_variable_typed in fast)
  then have "(\<forall>d \<in> set (g_variable_domain t). d < 2 ^ 31) \<and> map length (g_fact_names t) = map unat (g_variable_domain t)"
    by (auto simp: t(1,2))
  then show ?thesis
    using t reads(2) read_goal_nonempty [OF reads(3)] read_operators_typed [OF reads(4)] read_axioms_typed [OF reads(5)]
      are_mutex_read [OF reads(1)] read_initial_values_length [OF reads(2)]
    by (simp add: well_typed_def)
qed

section \<open>The world\<close>

text \<open>What is prepared after reading changes the initial numeric values and the costs only.\<close>

lemma set_costs_typed:
  "set_costs w init opers = Inr opers' \<Longrightarrow>
    \<forall>oper \<in> set opers'. \<exists>oper' \<in> set opers. \<exists>c. oper = oper'\<lparr>op_cost := c\<rparr> \<and> (\<not> g_use_metric (w_task w) \<longrightarrow> c = ap_of_int 1)"
proof (induction opers arbitrary: opers')
  case (Cons oper opers)
  then obtain c rest where c: "operator_set_cost w init oper = Inr c" and rest: "set_costs w init opers = Inr rest"
    and eq: "opers' = oper\<lparr>op_cost := c\<rparr> # rest" by (auto simp: result_iff)
  have "\<not> g_use_metric (w_task w) \<longrightarrow> c = ap_of_int 1" using c by (auto simp: operator_set_cost_def)
  then show ?case using Cons.IH [OF rest] by (auto simp: eq)
qed simp

lemma get_initial_state_task:
  assumes "get_initial_state (initial_world t p) = Inr (s0, w)"
  shows "w_task w = t\<lparr>g_initial_state_numeric := g_initial_state_numeric (w_task w)\<rparr>"
  using assms by (auto simp: get_initial_state_def initial_world_def StateRegistry_make_def result_iff Let_def set_cost_information_def)

lemma prepare_task_typed:
  assumes "prepare_task t = Some (Inr w)" "well_typed t"
  shows "well_typed (w_task w) \<and> g_variable_domain (w_task w) \<noteq> []"
proof -
  obtain p s0 w1 init opers where w1: "get_initial_state (initial_world t p) = Inr (s0, w1)"
    and opers: "set_costs w1 init (g_operators t) = Inr opers" and w: "w = w1\<lparr>w_task := with_costs opers (w_task w1)\<rparr>"
    and dom: "g_variable_domain t \<noteq> []"
    using assms(1) by (auto simp: prepare_task_def result_iff split: if_splits option.splits)
  obtain vals where t: "w_task w1 = t\<lparr>g_initial_state_numeric := vals\<rparr>" using get_initial_state_task [OF w1] by blast
  have "\<forall>oper \<in> set opers. typed_operator (g_variable_domain t) oper \<and> \<not> is_an_axiom oper \<and> (\<not> g_use_metric t \<longrightarrow> op_cost oper = ap_of_int 1)"
    using set_costs_typed [OF opers] assms(2) by (fastforce simp: t well_typed_def typed_operator_def)
  moreover have "are_mutex (with_costs opers (t\<lparr>g_initial_state_numeric := vals\<rparr>)) = are_mutex t"
    by (simp add: fun_eq_iff are_mutex_def with_costs_def)
  ultimately show ?thesis using assms(2) dom by (simp add: w t well_typed_def) (simp add: with_costs_def)
qed

lemma read_everything_typed:
  assumes "read_everything file = Some (Inr w)"
  shows "well_typed (w_task w) \<and> g_variable_domain (w_task w) \<noteq> []"
proof -
  obtain t marker s where "read_task (stream_of file) = Inr ((t, marker), s)" "prepare_task t = Some (Inr w)"
    using assms by (auto simp: read_everything_def split: sum.splits option.splits)
  then show ?thesis using read_task_typed prepare_task_typed by blast
qed

text \<open>
  C6. Whatever file the reader accepts, the task is well typed: the vectors have the sizes that
  belong together, every condition and effect of an operator or a logic axiom names a variable of
  the task and a value of its range, operators cost one if there is no metric, there is a goal, and
  two facts are mutex exactly if they are different values of one variable or share a mutex group.
\<close>

theorem read_everything_well_typed:
  assumes "read_everything file = Some (Inr w)"
  shows "well_typed (w_task w) \<and> g_variable_domain (w_task w) \<noteq> []"
  by (rule read_everything_typed [OF assms])

end
