(* ===== verification/Task_Round_Trip.thy ===== *)
theory Task_Round_Trip
  imports Reader_Calculus Task_Typing
begin

text \<open>
  The search reads back the task that the preprocessor wrote: for every part of the file the reader
  of the search consumes the text of the writer and returns the corresponding data of the search.
\<close>

section \<open>Words\<close>

lemma is_word_texts [simp]: "is_word (fop_text f)" "is_word (cop_text c)" "is_word (numType_text ty)"
  by (cases f; cases c; cases ty; simp add: is_word_def is_space_def)+

text \<open>The operators of an axiom; an assignment is not one of them.\<close>

fun cal_of :: "f_operator \<Rightarrow> cal_operator" where
  "cal_of increase = cal_sum"
| "cal_of decrease = cal_diff"
| "cal_of scale_up = cal_mult"
| "cal_of _ = cal_divi"

text \<open>A reader of one word.\<close>

lemma consumes_one_word:
  assumes "is_word w" "\<And>s. g w s = Inr (y, s)"
  shows "consumes (\<lambda>s. let (x, s) = extract_word [] s in g x s) (sp w) y"
proof -
  have "consumes (\<lambda>s. let (x, s) = extract_word [] s in g x s) (sp w @ []) y"
    by (rule consumes_word [where w = w]) (use assms consumes_return [of y] in simp_all)
  then show ?thesis by simp
qed

lemma consumes_f_operator: "consumes read_f_operator (sp (fop_text f)) f"
  unfolding read_f_operator_def [abs_def] by (rule consumes_one_word, simp) (cases f; simp)

lemma consumes_comp_operator: "consumes read_comp_operator (sp (cop_text c)) c"
  unfolding read_comp_operator_def [abs_def] by (rule consumes_one_word, simp) (cases c; simp)

lemma consumes_cal_operator: "f \<noteq> assign \<Longrightarrow> consumes read_cal_operator (sp (fop_text f)) (cal_of f)"
  unfolding read_cal_operator_def [abs_def] by (rule consumes_one_word, simp) (cases f; simp)

lemma consumes_numType: "ty \<noteq> num_unknown \<Longrightarrow> consumes read_numType (sp (numType_text ty)) ty"
  unfolding read_numType_def [abs_def] by (rule consumes_one_word, simp) (cases ty; simp)

section \<open>Facts\<close>

definition level_ok :: "int \<Rightarrow> bool" where "level_ok l \<longleftrightarrow> 0 \<le> l \<and> l < 2 ^ 31"

definition fact_in :: "container_int list \<Rightarrow> level_value \<Rightarrow> bool" where
  "fact_in doms f \<longleftrightarrow> level_ok (fst f) \<and> nat (fst f) < length doms \<and> level_ok (snd f) \<and> word_of_int (snd f) < doms ! nat (fst f)"

definition search_condition :: "level_value \<Rightarrow> GlobalCondition" where
  "search_condition f = \<lparr>cond_var = nat (fst f), cond_val = word_of_int (snd f)\<rparr>"

lemma level_small [simp]: "level_ok l \<Longrightarrow> small l"
  by (simp add: level_ok_def small_def)

lemma index_of_level [simp]: "level_ok l \<Longrightarrow> index_of l = nat l"
  by (simp add: index_of_def level_ok_def)

lemma fact_inD [simp]: "fact_in doms f \<Longrightarrow> level_ok (fst f)" "fact_in doms f \<Longrightarrow> level_ok (snd f)"
  by (simp_all add: fact_in_def)

lemma check_fact_in [simp]: "fact_in doms (l, x) \<Longrightarrow> check_fact doms l (word_of_int x) = Inr ()"
  by (auto simp: check_fact_def fact_in_def level_ok_def not_le [symmetric])

lemma make_condition_in [simp]: "fact_in doms (l, x) \<Longrightarrow> make_condition doms l x = Inr (search_condition (l, x))"
  using fact_inD(1) [of doms "(l, x)"] by (simp add: make_condition_def search_condition_def)

lemma make_effect_in [simp]:
  "fact_in doms (l, x) \<Longrightarrow> make_effect doms l x conds = Inr \<lparr>eff_var = nat l, eff_val = word_of_int x, eff_conditions = conds\<rparr>"
  using fact_inD(1) [of doms "(l, x)"] by (simp add: make_effect_def)

lemma consumes_condition:
  assumes "fact_in doms f" "token (show_int (fst f)) u" "token (show_int (snd f)) v"
  shows "consumes (read_condition doms) (u @ v) (search_condition f)"
proof -
  have "consumes (read_condition doms) (u @ v @ []) (search_condition f)"
    unfolding read_condition_def [abs_def]
    by (intro consumes_int [OF assms(2)] consumes_container [OF assms(3)])
      (use assms(1) fact_inD [OF assms(1)] in \<open>simp_all add: search_condition_def consumes_return Let_def\<close>)
  then show ?thesis by simp
qed

lemma consumes_fact_line: "fact_in doms f \<Longrightarrow> consumes (read_condition doms) (fact_line f) (search_condition f)"
  by (simp add: fact_line_def consumes_condition)

lemma consumes_fact: "level_ok l \<Longrightarrow> level_ok x \<Longrightarrow> consumes read_fact (fact_line (l, x)) (nat l, nat x)"
proof -
  assume l: "level_ok l" and x: "level_ok x"
  have "consumes read_fact (sp (show_int l) @ endl (show_int x) @ []) (nat l, nat x)"
    unfolding read_fact_def [abs_def]
    by (intro consume) (simp_all add: l x consumes_return)
  then show ?thesis by (simp add: fact_line_def)
qed

text \<open>The conditions of an effect stand before it on the same line.\<close>

lemma effect_conds_shift:
  "effect_conds_text conds @ '' '' @ w = sp (show_nat (length conds)) @ concat (map (\<lambda>c. sp (show_int (fst c)) @ sp (show_int (snd c))) conds) @ w"
proof -
  have "concat (map (\<lambda>c. '' '' @ sp (show_int (fst c)) @ show_int (snd c)) conds) @ '' '' @ w =
      '' '' @ concat (map (\<lambda>c. sp (show_int (fst c)) @ sp (show_int (snd c))) conds) @ w"
    by (induction conds) (simp_all add: sp_def)
  then show ?thesis by (simp add: effect_conds_text_def sp_def)
qed

lemma consumes_conditions:
  assumes "\<forall>c \<in> set conds. fact_in doms c" "length conds < 2 ^ 31"
  shows "consumes (read_times (length conds) (read_condition doms))
      (concat (map (\<lambda>c. sp (show_int (fst c)) @ sp (show_int (snd c))) conds)) (map search_condition conds)"
    "consumes (read_reserved (read_condition doms))
      (sp (show_nat (length conds)) @ concat (map (\<lambda>c. sp (show_int (fst c)) @ sp (show_int (snd c))) conds)) (map search_condition conds)"
  using assms by (auto intro!: consumes_times consumes_counted consumes_condition simp: show_nat_word)

section \<open>Operators\<close>

definition pre_post_ok :: "container_int list \<Rightarrow> pre_PrePost \<Rightarrow> bool" where
  "pre_post_ok doms e \<longleftrightarrow> (\<forall>c \<in> set (pp_conds e). fact_in doms c) \<and> length (pp_conds e) < 2 ^ 31 \<and>
    fact_in doms (pp_var e, pp_post e) \<and> (pp_pre e = - 1 \<or> fact_in doms (pp_var e, pp_pre e))"

definition search_pre_post :: "pre_PrePost \<Rightarrow> GlobalCondition list \<times> GlobalEffect" where
  "search_pre_post e = (if pp_pre e \<noteq> - 1 then [search_condition (pp_var e, pp_pre e)] else [],
     \<lparr>eff_var = nat (pp_var e), eff_val = word_of_int (pp_post e), eff_conditions = map search_condition (pp_conds e)\<rparr>)"

lemma consumes_pre_post:
  assumes "pre_post_ok doms e"
  shows "consumes (read_pre_post doms) (pre_post_text e) (search_pre_post e)"
proof -
  have e: "\<forall>c \<in> set (pp_conds e). fact_in doms c" "length (pp_conds e) < 2 ^ 31" "fact_in doms (pp_var e, pp_post e)"
    and pre: "pp_pre e = - 1 \<or> fact_in doms (pp_var e, pp_pre e)" using assms by (simp_all add: pre_post_ok_def)
  have small: "small (pp_var e)" "small (pp_pre e)" "small (pp_post e)"
    using fact_inD [OF e(3)] pre fact_inD(2) [of doms "(pp_var e, pp_pre e)"] by (auto simp: small_def level_ok_def)
  have "consumes (read_pre_post doms) ((sp (show_nat (length (pp_conds e))) @ concat (map (\<lambda>c. sp (show_int (fst c)) @ sp (show_int (snd c))) (pp_conds e))) @
      sp (show_int (pp_var e)) @ sp (show_int (pp_pre e)) @ endl (show_int (pp_post e)) @ []) (search_pre_post e)"
    unfolding read_pre_post_def [abs_def]
    by (rule consumes_bind [OF consumes_conditions(2) [OF e(1,2)]], intro bind_int_sp bind_int_endl small)
      (use e pre in \<open>auto simp: search_pre_post_def consumes_return\<close>)
  then show ?thesis unfolding pre_post_text_def effect_conds_shift by simp
qed

definition numeric_effect_ok :: "container_int list \<Rightarrow> pre_NumericEffect \<Rightarrow> bool" where
  "numeric_effect_ok doms e \<longleftrightarrow> (\<forall>c \<in> set (pe_conds e). fact_in doms c) \<and> length (pe_conds e) < 2 ^ 31 \<and>
    level_ok (pe_var e) \<and> level_ok (pe_foperand e)"

definition search_assign_effect :: "pre_NumericEffect \<Rightarrow> AssignEffect" where
  "search_assign_effect e = \<lparr>aff_var = nat (pe_var e), ass_fop = pe_fop e, ass_var = nat (pe_foperand e),
     is_conditional_effect = (pe_conds e \<noteq> []), ass_conditions = map search_condition (pe_conds e)\<rparr>"

lemma consumes_numeric_effect:
  assumes "numeric_effect_ok doms e"
  shows "consumes (read_assign_effect doms) (numeric_effect_text e) (search_assign_effect e)"
proof -
  have e: "\<forall>c \<in> set (pe_conds e). fact_in doms c" "length (pe_conds e) < 2 ^ 31" "level_ok (pe_var e)" "level_ok (pe_foperand e)"
    using assms by (simp_all add: numeric_effect_ok_def)
  have n: "consumes read_int (sp (show_nat (length (pe_conds e)))) (int (length (pe_conds e)))"
    using e(2) by (intro consumes_size) (simp_all add: show_nat_word)
  have "consumes (read_assign_effect doms) (sp (show_nat (length (pe_conds e))) @ concat (map (\<lambda>c. sp (show_int (fst c)) @ sp (show_int (snd c))) (pe_conds e)) @
      sp (show_int (pe_var e)) @ sp (fop_text (pe_fop e)) @ endl (show_int (pe_foperand e)) @ []) (search_assign_effect e)"
    unfolding read_assign_effect_def [abs_def]
    by (rule consumes_bind [OF n], subst nat_int, rule consumes_bind [OF consumes_conditions(1) [OF e(1,2)]],
        rule let_int_sp, simp add: e, rule consumes_bind [OF consumes_f_operator], rule let_int_endl, simp add: e)
      (simp add: search_assign_effect_def consumes_return e)
  then show ?thesis unfolding numeric_effect_text_def effect_conds_shift by simp
qed

definition operator_written_ok :: "bool \<Rightarrow> container_int list \<Rightarrow> pre_Operator \<Rightarrow> bool" where
  "operator_written_ok use_metric doms oper \<longleftrightarrow> name_ok (po_name oper) \<and> (\<forall>f \<in> set (po_prevail oper). fact_in doms f) \<and>
    (\<forall>e \<in> set (po_pre_post oper). pre_post_ok doms e) \<and> (\<forall>e \<in> set (po_assign_effects oper). numeric_effect_ok doms e) \<and>
    length (po_prevail oper) < 2 ^ 31 \<and> length (po_pre_post oper) < 2 ^ 31 \<and> length (po_assign_effects oper) < 2 ^ 31 \<and>
    ap_is_finite (po_cost oper)"

definition search_operator :: "bool \<Rightarrow> pre_Operator \<Rightarrow> GlobalOperator" where
  "search_operator use_metric oper = \<lparr>is_an_axiom = False,
     preconditions = map search_condition (po_prevail oper) @ concat (map (fst \<circ> search_pre_post) (po_pre_post oper)),
     op_effects = map (snd \<circ> search_pre_post) (po_pre_post oper), assign_effects = map search_assign_effect (po_assign_effects oper),
     op_name = po_name oper, op_cost = (if use_metric then six_digits (po_cost oper) else ap_of_int 1)\<rparr>"

lemma prevail_levels: "\<forall>f \<in> set fs. fact_in doms f \<Longrightarrow> filter (\<lambda>f. fst f \<noteq> - 1) fs = fs"
  by (rule filter_True) (auto simp: fact_in_def level_ok_def)

lemma consumes_operator:
  assumes "operator_written_ok use_metric doms oper"
  shows "consumes (read_operator use_metric doms False) (operator_text oper) (search_operator use_metric oper)"
proof -
  have ok: "name_ok (po_name oper)" "\<forall>f \<in> set (po_prevail oper). fact_in doms f" "\<forall>e \<in> set (po_pre_post oper). pre_post_ok doms e"
    "\<forall>e \<in> set (po_assign_effects oper). numeric_effect_ok doms e" "length (po_prevail oper) < 2 ^ 31"
    "length (po_pre_post oper) < 2 ^ 31" "length (po_assign_effects oper) < 2 ^ 31" "ap_is_finite (po_cost oper)"
    using assms by (simp_all add: operator_written_ok_def)
  have words: "is_word ''begin_operator''" "is_word ''end_operator''" by (simp_all add: is_word_def is_space_def)
  have "consumes (read_operator use_metric doms False) (endl ''begin_operator'' @ endl (po_name oper) @
     endl (show_nat (length (po_prevail oper))) @ concat (map fact_line (po_prevail oper)) @
     endl (show_nat (length (po_pre_post oper))) @ concat (map pre_post_text (po_pre_post oper)) @
     endl (show_nat (length (po_assign_effects oper))) @ concat (map numeric_effect_text (po_assign_effects oper)) @
     endl (format_g 6 (po_cost oper)) @ endl ''end_operator'' @ []) (search_operator use_metric oper)"
    unfolding read_operator_def [abs_def] if_True if_False not_False_eq_True
    by (rule bind_magic [OF words(1)], rule consumes_line [OF ok(1)],
        rule bind_counted(1) [where conv = search_condition, OF ok(5)], simp add: consumes_fact_line ok(2),
        rule bind_counted(1) [where conv = search_pre_post, OF ok(6)], simp add: consumes_pre_post ok(3),
        rule bind_counted(1) [where conv = search_assign_effect, OF ok(7)], simp add: consumes_numeric_effect ok(4),
        rule consumes_bind [OF consumes_double(1) [OF ok(8)]], rule bind_magic [OF words(2)])
      (simp add: search_operator_def consumes_return)
  then show ?thesis by (simp add: operator_text_def prevail_levels [OF ok(2)])
qed

section \<open>Axioms\<close>

definition axiom_written_ok :: "container_int list \<Rightarrow> pre_Axiom_relational \<Rightarrow> bool" where
  "axiom_written_ok doms ax \<longleftrightarrow> (\<forall>f \<in> set (px_conditions ax). fact_in doms f) \<and> length (px_conditions ax) < 2 ^ 31 \<and>
    fact_in doms (px_effect_var ax, px_effect_val ax) \<and> small (px_old_val ax)"

definition search_axiom :: "pre_Axiom_relational \<Rightarrow> PropositionalAxiom" where
  "search_axiom ax = \<lparr>pax_affected = nat (px_effect_var ax), pax_layer = - 1, pax_conditions = map search_condition (px_conditions ax),
     pax_effects = [\<lparr>eff_var = nat (px_effect_var ax), eff_val = word_of_int (px_effect_val ax), eff_conditions = []\<rparr>]\<rparr>"

lemma consumes_axiom:
  assumes "axiom_written_ok doms ax"
  shows "consumes (read_propositional_axiom doms) (axiom_relational_text ax) (search_axiom ax)"
proof -
  have ok: "\<forall>f \<in> set (px_conditions ax). fact_in doms f" "length (px_conditions ax) < 2 ^ 31"
    "fact_in doms (px_effect_var ax, px_effect_val ax)" "small (px_old_val ax)" using assms by (simp_all add: axiom_written_ok_def)
  have small: "level_ok (px_effect_var ax)" "level_ok (px_effect_val ax)" using fact_inD [OF ok(3)] by simp_all
  have words: "is_word ''begin_rule''" "is_word ''end_rule''" by (simp_all add: is_word_def is_space_def)
  have "consumes (read_propositional_axiom doms) (endl ''begin_rule'' @ endl (show_nat (length (px_conditions ax))) @
     concat (map fact_line (px_conditions ax)) @ sp (show_int (px_effect_var ax)) @ sp (show_int (px_old_val ax)) @
     endl (show_int (px_effect_val ax)) @ endl ''end_rule'' @ []) (search_axiom ax)"
    unfolding read_propositional_axiom_def [abs_def]
    by (rule bind_magic [OF words(1)], rule bind_counted(1) [where conv = search_condition, OF ok(2)], simp add: consumes_fact_line ok(1),
        intro bind_int_sp bind_int_endl level_small small ok(4), rule consumes_check [OF make_effect_in [OF ok(3)]], rule bind_magic [OF words(2)])
      (simp add: search_axiom_def consumes_return small)
  then show ?thesis by (simp add: axiom_relational_text_def)
qed

definition comparison_ok :: "pre_Axiom_functional_comparison \<Rightarrow> bool" where
  "comparison_ok ax \<longleftrightarrow> level_ok (pc_effect_var ax) \<and> level_ok (pc_left ax) \<and> level_ok (pc_right ax)"

definition search_comparison :: "pre_Axiom_functional_comparison \<Rightarrow> ComparisonAxiom" where
  "search_comparison ax = \<lparr>cax_affected = nat (pc_effect_var ax), cax_lhs = nat (pc_left ax), cax_rhs = nat (pc_right ax), cax_op = pc_cop ax\<rparr>"

lemma consumes_comparison:
  assumes "comparison_ok ax"
  shows "consumes read_comparison_axiom (comparison_text ax) (search_comparison ax)"
proof -
  have ok: "level_ok (pc_effect_var ax)" "level_ok (pc_left ax)" "level_ok (pc_right ax)" using assms by (simp_all add: comparison_ok_def)
  have "consumes read_comparison_axiom (sp (show_int (pc_effect_var ax)) @ sp (cop_text (pc_cop ax)) @
     sp (show_int (pc_left ax)) @ endl (show_int (pc_right ax)) @ []) (search_comparison ax)"
    unfolding read_comparison_axiom_def [abs_def]
    by (intro bind_int_sp bind_int_endl level_small ok consumes_bind [OF consumes_comp_operator])
      (simp add: search_comparison_def consumes_return ok)
  then show ?thesis by (simp add: comparison_text_def)
qed

definition computation_ok :: "nat \<Rightarrow> pre_Axiom_numeric_computation \<Rightarrow> bool" where
  "computation_ok n ax \<longleftrightarrow> (\<forall>l \<in> {pq_effect_var ax, pq_left ax, pq_right ax}. level_ok l \<and> l < int n) \<and> pq_fop ax \<noteq> assign"

definition search_computation :: "pre_Axiom_numeric_computation \<Rightarrow> AssignmentAxiom" where
  "search_computation ax = \<lparr>aax_affected = nat (pq_effect_var ax), aax_lhs = nat (pq_left ax), aax_rhs = nat (pq_right ax),
     aax_op = cal_of (pq_fop ax)\<rparr>"

lemma consumes_computation:
  assumes "computation_ok n ax"
  shows "consumes (read_assignment_axiom n) (computation_text ax) (search_computation ax)"
proof -
  have ok: "level_ok (pq_effect_var ax)" "level_ok (pq_left ax)" "level_ok (pq_right ax)" "pq_fop ax \<noteq> assign"
    and less: "pq_effect_var ax < int n \<and> pq_left ax < int n \<and> pq_right ax < int n" using assms by (simp_all add: computation_ok_def)
  have "consumes (read_assignment_axiom n) (sp (show_int (pq_effect_var ax)) @ sp (fop_text (pq_fop ax)) @
     sp (show_int (pq_left ax)) @ endl (show_int (pq_right ax)) @ []) (search_computation ax)"
    unfolding read_assignment_axiom_def [abs_def]
    by (intro bind_int_sp bind_int_endl level_small ok(1-3) consumes_bind [OF consumes_cal_operator [OF ok(4)]])
      (simp add: search_computation_def consumes_return ok less)
  then show ?thesis by (simp add: computation_text_def)
qed

section \<open>Variables and mutex groups\<close>

definition variable_ok :: "pre_Variable \<Rightarrow> bool" where
  "variable_ok v \<longleftrightarrow> is_word (pv_name v) \<and> small (pv_layer v) \<and> lines_ok (pv_values v) \<and> length (pv_values v) < 2 ^ 31"

definition search_variable :: "pre_Variable \<Rightarrow> string \<times> int \<times> container_int \<times> string list" where
  "search_variable v = (pv_name v, pv_layer v, of_nat (length (pv_values v)), pv_values v)"

lemma consumes_variable:
  assumes "variable_ok v"
  shows "consumes read_variable (variable_text v) (search_variable v)"
proof -
  have ok: "is_word (pv_name v)" "small (pv_layer v)" "lines_ok (pv_values v)" "length (pv_values v) < 2 ^ 31"
    using assms by (simp_all add: variable_ok_def)
  have words: "is_word ''begin_variable''" "is_word ''end_variable''" by (simp_all add: is_word_def is_space_def)
  have "consumes read_variable (endl ''begin_variable'' @ endl (pv_name v) @ endl (show_int (pv_layer v)) @
     endl (show_nat (length (pv_values v))) @ concat (map endl (pv_values v)) @ endl ''end_variable'' @ []) (search_variable v)"
    unfolding read_variable_def [abs_def]
    by (rule bind_magic [OF words(1)], rule consumes_word [where w = "pv_name v"], simp add: ok(1), rule bind_int_endl [OF ok(2)],
        rule bind_size_endl [OF ok(4)], simp only: of_nat_less_0_iff if_False nat_int, rule consumes_lines [OF ok(3)])
      (simp_all add: words search_variable_def consumes_return)
  then show ?thesis by (simp add: variable_text_def)
qed

definition numeric_variable_ok :: "pre_NumericVariable \<Rightarrow> bool" where
  "numeric_variable_ok v \<longleftrightarrow> pn_type v \<noteq> num_unknown \<and> small (pn_layer v) \<and> name_ok (pn_name v)"

definition search_numeric_variable :: "pre_NumericVariable \<Rightarrow> numType \<times> int \<times> string" where
  "search_numeric_variable v = (pn_type v, pn_layer v, pn_name v)"

lemma consumes_numeric_variable:
  assumes "numeric_variable_ok v"
  shows "consumes read_numeric_variable (numeric_variable_text v) (search_numeric_variable v)"
proof -
  have ok: "pn_type v \<noteq> num_unknown" "small (pn_layer v)" "name_ok (pn_name v)" using assms by (simp_all add: numeric_variable_ok_def)
  have "consumes read_numeric_variable (sp (numType_text (pn_type v)) @ sp (show_int (pn_layer v)) @ endl (pn_name v) @ []) (search_numeric_variable v)"
    unfolding read_numeric_variable_def [abs_def]
    by (rule consumes_bind [OF consumes_numType [OF ok(1)]], rule bind_int_sp [OF ok(2)], rule consumes_line [OF ok(3)])
      (simp add: search_numeric_variable_def consumes_return)
  then show ?thesis by (simp add: numeric_variable_text_def)
qed

definition group_ok :: "container_int list \<Rightarrow> level_value list \<Rightarrow> bool" where
  "group_ok doms facts \<longleftrightarrow> (\<forall>f \<in> set facts. fact_in doms f) \<and> length facts < 2 ^ 31"

definition search_fact :: "level_value \<Rightarrow> Fact" where
  "search_fact f = (nat (fst f), nat (snd f))"

lemma consumes_group:
  assumes "group_ok doms facts"
  shows "consumes read_mutex_group (mutex_group_text facts) (map search_fact facts)"
proof -
  have ok: "\<forall>f \<in> set facts. fact_in doms f" "length facts < 2 ^ 31" using assms by (simp_all add: group_ok_def)
  have words: "is_word ''begin_mutex_group''" "is_word ''end_mutex_group''" by (simp_all add: is_word_def is_space_def)
  have fact: "consumes read_fact (fact_line f) (search_fact f)" if "f \<in> set facts" for f
    using consumes_fact [of "fst f" "snd f"] fact_inD [of doms f] ok(1) that by (simp add: search_fact_def)
  have "consumes read_mutex_group (endl ''begin_mutex_group'' @ endl (show_nat (length facts)) @ concat (map fact_line facts) @
     endl ''end_mutex_group'' @ []) (map search_fact facts)"
    unfolding read_mutex_group_def [abs_def]
    by (rule bind_magic [OF words(1)], rule bind_counted(2) [where conv = search_fact, OF ok(2) fact], assumption, rule bind_magic [OF words(2)])
      (rule consumes_return)
  then show ?thesis by (simp add: mutex_group_text_def)
qed

section \<open>Sections\<close>

lemma bind_size_magic:
  assumes "length xs < 2 ^ 31" "is_word m" "\<And>x. x \<in> set xs \<Longrightarrow> consumes f (wr x) (conv x)" "is_word m'" "consumes (g (map conv xs)) u y"
  shows "consumes (\<lambda>s. bind_result (read_int s) (\<lambda>(n, s). bind_result (check_magic m s) (\<lambda>s.
      bind_result (read_times (nat n) f s) (\<lambda>(xs, s). bind_result (check_magic m' s) (g xs)))))
    (endl (show_nat (length xs)) @ endl m @ concat (map wr xs) @ endl m' @ u) y"
  by (rule bind_size_endl [OF assms(1)], rule bind_magic [OF assms(2)], subst nat_int, rule bind_times [where conv = conv, OF assms(3)])
    (assumption, rule bind_magic [OF assms(4,5)], rule refl)

lemma consumes_version:
  assumes "consumes g u y"
  shows "consumes (\<lambda>s. bind_result (read_and_verify_version s) g) ((endl ''begin_version'' @ endl ''4'' @ endl ''end_version'') @ u) y"
proof -
  have words: "is_word ''begin_version''" "is_word ''end_version''" "small 4" by (simp_all add: is_word_def is_space_def small_def)
  have "digit_char 4 = CHR ''4''" by code_simp
  then have four: "show_int 4 = ''4''" by (simp add: show_int_def show_nat.simps [of 4])
  have flat: "(\<lambda>s. bind_result (read_and_verify_version s) g) = (\<lambda>s. bind_result (check_magic ''begin_version'' s) (\<lambda>s.
      bind_result (read_int s) (\<lambda>(version, s). bind_result (check_magic ''end_version'' s) (\<lambda>s.
        if version \<noteq> 4 then Inl ''Expected preprocessor file version 4'' else g s))))"
    by (auto simp: fun_eq_iff read_and_verify_version_def bind_result_def split: sum.splits)
  have "consumes (\<lambda>s. bind_result (read_and_verify_version s) g) (endl ''begin_version'' @ endl (show_int 4) @ endl ''end_version'' @ u) y"
    unfolding flat by (rule bind_magic [OF words(1)], rule bind_int_endl [OF words(3)], rule bind_magic [OF words(2)]) (simp add: assms)
  then show ?thesis by (simp add: four)
qed

definition metric_ok :: "pre_task \<Rightarrow> bool" where
  "metric_ok t \<longleftrightarrow> pt_optimization t \<in> {CHR ''<'', CHR ''>''} \<and> small (pt_metric_index t)"

lemma consumes_metric:
  assumes "metric_ok t"
  shows "consumes read_metric (metric_text t) (pt_optimization t = CHR ''<'', pt_metric_index t)"
proof -
  have words: "is_word ''begin_metric''" "is_word ''end_metric''" by (simp_all add: is_word_def is_space_def)
  have c: "\<not> is_space (pt_optimization t)" using assms by (auto simp: metric_ok_def is_space_def)
  have dir: "(pt_optimization t \<noteq> CHR ''<'' \<and> pt_optimization t \<noteq> CHR ''>'') = False" and index: "small (pt_metric_index t)"
    using assms by (auto simp: metric_ok_def)
  have char: "consumes (\<lambda>s. determinate (extract_char s)) (sp [pt_optimization t]) (pt_optimization t)"
    unfolding consumes_def
  proof (intro allI impI exI [of _ "'' ''"] conjI)
    fix pre r assume "blank pre"
    then show "determinate (extract_char (stream_of (pre @ sp [pt_optimization t] @ r))) = Inr (pt_optimization t, stream_of ('' '' @ r))"
      using c by (simp add: extract_char_def has_input_def stream_of_def determinate_def sp_def)
  qed (simp add: is_space_def)
  have "consumes read_metric (endl ''begin_metric'' @ sp [pt_optimization t] @ endl (show_int (pt_metric_index t)) @ endl ''end_metric'' @ [])
      (pt_optimization t = CHR ''<'', pt_metric_index t)"
    unfolding read_metric_def [abs_def]
    by (rule bind_magic [OF words(1)], rule consumes_bind [OF char], simp only: dir if_False, rule let_int_endl [OF index], rule bind_magic [OF words(2)])
      (simp add: consumes_return)
  then show ?thesis by (simp add: metric_text_def)
qed

lemma consumes_variables:
  assumes "\<forall>v \<in> set (pt_variables t). variable_ok v" "length (pt_variables t) < 2 ^ 31"
  shows "consumes (read_counted read_variable) (variables_text t) (map search_variable (pt_variables t))"
  unfolding variables_text_def
  by (rule consumes_counted(1)) (use assms in \<open>simp_all add: show_nat_word consumes_variable\<close>)

lemma consumes_numeric_variables:
  assumes "\<forall>v \<in> set (pt_numeric_vars t). numeric_variable_ok v" "length (pt_numeric_vars t) < 2 ^ 31"
  shows "consumes read_numeric_variables (numeric_variables_text t) (map search_numeric_variable (pt_numeric_vars t))"
proof -
  have words: "is_word ''begin_numeric_variables''" "is_word ''end_numeric_variables''" by (simp_all add: is_word_def is_space_def)
  have "consumes read_numeric_variables (endl (show_nat (length (pt_numeric_vars t))) @ endl ''begin_numeric_variables'' @
     concat (map numeric_variable_text (pt_numeric_vars t)) @ endl ''end_numeric_variables'' @ []) (map search_numeric_variable (pt_numeric_vars t))"
    unfolding read_numeric_variables_def [abs_def]
    by (rule bind_size_magic [where conv = search_numeric_variable, OF assms(2) words(1) _ words(2)])
      (use assms(1) in \<open>simp_all add: consumes_numeric_variable consumes_return\<close>)
  then show ?thesis by (simp add: numeric_variables_text_def)
qed

lemma consumes_state:
  assumes "\<forall>x \<in> set (pt_initial_values t). small x"
  shows "consumes (read_initial_values (length (pt_initial_values t))) (state_text t) (map word_of_int (pt_initial_values t))"
proof -
  have words: "is_word ''begin_state''" "is_word ''end_state''" by (simp_all add: is_word_def is_space_def)
  have val: "consumes (\<lambda>s. let (v, s) = extract_container s in Inr (case_option 0 id v, s)) (endl (show_int x)) (word_of_int x)"
    if "x \<in> set (pt_initial_values t)" for x
  proof -
    have "consumes (\<lambda>s. let (v, s) = extract_container s in Inr (case_option 0 id v, s)) (endl (show_int x) @ []) (word_of_int x)"
      by (rule consumes_container [where v = x]) (use that assms in \<open>simp_all add: consumes_return\<close>)
    then show ?thesis by simp
  qed
  have "consumes (read_initial_values (length (pt_initial_values t))) (endl ''begin_state'' @
      concat (map (\<lambda>x. endl (show_int x)) (pt_initial_values t)) @ endl ''end_state'' @ []) (map word_of_int (pt_initial_values t))"
    unfolding read_initial_values_def [abs_def]
    by (rule bind_magic [OF words(1)], rule bind_times [where conv = word_of_int, OF val _ refl], assumption, rule bind_magic [OF words(2)])
      (rule consumes_return)
  then show ?thesis by (simp add: state_text_def)
qed

lemma consumes_numeric_state:
  assumes "\<forall>x \<in> set (pt_initial_numeric t). ap_is_finite x"
  shows "consumes (read_initial_numeric (length (pt_initial_numeric t))) (numeric_state_text t) (map six_digits (pt_initial_numeric t))"
proof -
  have words: "is_word ''begin_numeric_state''" "is_word ''end_numeric_state''" by (simp_all add: is_word_def is_space_def)
  have "consumes (read_initial_numeric (length (pt_initial_numeric t))) (endl ''begin_numeric_state'' @
      concat (map (\<lambda>x. endl (format_g 6 x)) (pt_initial_numeric t)) @ endl ''end_numeric_state'' @ []) (map six_digits (pt_initial_numeric t))"
    unfolding read_initial_numeric_def [abs_def]
    by (rule bind_magic [OF words(1)], rule bind_times [where conv = six_digits, OF consumes_double(2) _ refl], use assms in blast, rule bind_magic [OF words(2)])
      (rule consumes_return)
  then show ?thesis by (simp add: numeric_state_text_def)
qed

lemma consumes_operators:
  assumes "\<forall>oper \<in> set (pt_operators t). operator_written_ok use_metric doms oper" "length (pt_operators t) < 2 ^ 31"
  shows "consumes (read_counted (read_operator use_metric doms False)) (operators_text t) (map (search_operator use_metric) (pt_operators t))"
  unfolding operators_text_def
  by (rule consumes_counted(1)) (use assms in \<open>simp_all add: show_nat_word consumes_operator\<close>)

lemma consumes_axioms:
  assumes "\<forall>ax \<in> set (pt_axioms_rel t). axiom_written_ok doms ax" "length (pt_axioms_rel t) < 2 ^ 31"
    "\<forall>ax \<in> set (pt_axioms_func_comp t). comparison_ok ax" "length (pt_axioms_func_comp t) < 2 ^ 31"
    "\<forall>ax \<in> set (pt_axioms_func_ass t). computation_ok n ax" "length (pt_axioms_func_ass t) < 2 ^ 31"
  shows "consumes (read_axioms doms n) (axioms_text t)
    (map search_axiom (pt_axioms_rel t), map search_comparison (pt_axioms_func_comp t), map search_computation (pt_axioms_func_ass t))"
proof -
  have words: "is_word ''begin_comparison_axioms''" "is_word ''end_comparison_axioms''" "is_word ''begin_numeric_axioms''"
    "is_word ''end_numeric_axioms''" by (simp_all add: is_word_def is_space_def)
  have "consumes (read_axioms doms n) (endl (show_nat (length (pt_axioms_rel t))) @ concat (map axiom_relational_text (pt_axioms_rel t)) @
     endl (show_nat (length (pt_axioms_func_comp t))) @ endl ''begin_comparison_axioms'' @
     concat (map comparison_text (pt_axioms_func_comp t)) @ endl ''end_comparison_axioms'' @
     endl (show_nat (length (pt_axioms_func_ass t))) @ endl ''begin_numeric_axioms'' @
     concat (map computation_text (pt_axioms_func_ass t)) @ endl ''end_numeric_axioms'' @ [])
    (map search_axiom (pt_axioms_rel t), map search_comparison (pt_axioms_func_comp t), map search_computation (pt_axioms_func_ass t))"
    unfolding read_axioms_def [abs_def]
    by (rule bind_counted(1) [where conv = search_axiom, OF assms(2)], simp add: assms(1) consumes_axiom,
        rule bind_size_magic [where conv = search_comparison, OF assms(4) words(1) _ words(2)], simp add: assms(3) consumes_comparison,
        rule bind_size_magic [where conv = search_computation, OF assms(6) words(3) _ words(4)], simp add: assms(5) consumes_computation)
      (rule consumes_return)
  then show ?thesis by (simp add: axioms_text_def)
qed

lemma consumes_global_constraint:
  assumes "small (fst (pt_constraint t))" "small (snd (pt_constraint t))"
  shows "consumes read_global_constraint (global_constraint_text t) (pt_constraint t)"
proof -
  have words: "is_word ''begin_global_constraint''" "is_word ''end_global_constraint''" by (simp_all add: is_word_def is_space_def)
  have "consumes read_global_constraint (endl ''begin_global_constraint'' @ sp (show_int (fst (pt_constraint t))) @
     endl (show_int (snd (pt_constraint t))) @ endl ''end_global_constraint'' @ []) (pt_constraint t)"
    unfolding read_global_constraint_def [abs_def]
    by (rule bind_magic [OF words(1)], rule let_int_sp [OF assms(1)], rule let_int_endl [OF assms(2)], rule bind_magic [OF words(2)])
      (simp add: consumes_return)
  then show ?thesis by (simp add: global_constraint_text_def)
qed

section \<open>Goals\<close>

definition goals_ok :: "pre_task \<Rightarrow> bool" where
  "goals_ok t \<longleftrightarrow> distinct (map fst (pt_goals t)) \<and> pt_goals t \<noteq> [] \<and> length (pt_goals t) < 2 ^ 31 \<and>
    (\<forall>(l, x) \<in> set (pt_goals t). level_ok l \<and> nat l < length (pt_variables t) \<and> level_ok x)"

definition search_goal :: "pre_task \<Rightarrow> (nat \<times> container_int) list" where
  "search_goal t = map (\<lambda>(l, x). (nat l, word_of_int x)) (goal_lines (ordered_goal_values t))"

lemma ordered_values:
  assumes "distinct (map fst gs)" "\<forall>(l, x) \<in> set gs. 0 \<le> l"
  shows "length (foldl (\<lambda>vals (level, val). vals[nat level := val]) vals gs) = length vals \<and>
    (\<forall>i < length vals. foldl (\<lambda>vals (level, val). vals[nat level := val]) vals gs ! i = (case map_of gs (int i) of None \<Rightarrow> vals ! i | Some x \<Rightarrow> x))"
  using assms
proof (induction gs arbitrary: vals)
  case (Cons g gs)
  obtain l x where g: "g = (l, x)" by (cases g)
  have other: "map_of gs l = None" using Cons.prems(1) by (auto simp: g map_of_eq_None_iff)
  have l: "0 \<le> l" using Cons.prems(2) by (simp add: g)
  have IH: "length (foldl (\<lambda>vals (level, val). vals[nat level := val]) (vals[nat l := x]) gs) = length vals \<and>
    (\<forall>i < length vals. foldl (\<lambda>vals (level, val). vals[nat level := val]) (vals[nat l := x]) gs ! i =
      (case map_of gs (int i) of None \<Rightarrow> vals[nat l := x] ! i | Some x \<Rightarrow> x))"
    using Cons.IH [of "vals[nat l := x]"] Cons.prems by simp
  then show ?case using other l by (auto simp: g nth_list_update split: option.splits)
qed simp

text \<open>The lines are the goals in another order, so there are as many as announced.\<close>

lemma goal_lines_mset:
  assumes "goals_ok t"
  shows "mset (goal_lines (ordered_goal_values t)) = mset (pt_goals t)"
proof -
  let ?vals = "ordered_goal_values t" and ?n = "length (pt_variables t)"
  have ok: "distinct (map fst (pt_goals t))" "\<And>l x. (l, x) \<in> set (pt_goals t) \<Longrightarrow> 0 \<le> l \<and> nat l < ?n \<and> 0 \<le> x"
    using assms by (auto simp: goals_ok_def level_ok_def)
  have vals: "length ?vals = ?n" "\<And>i. i < ?n \<Longrightarrow> ?vals ! i = (case map_of (pt_goals t) (int i) of None \<Rightarrow> - 1 | Some x \<Rightarrow> x)"
  proof -
    have "\<forall>(l, x) \<in> set (pt_goals t). 0 \<le> l" using ok(2) by auto
    from ordered_values [OF ok(1) this, of "replicate ?n (- 1)"]
    show "length ?vals = ?n" "\<And>i. i < ?n \<Longrightarrow> ?vals ! i = (case map_of (pt_goals t) (int i) of None \<Rightarrow> - 1 | Some x \<Rightarrow> x)"
      by (simp_all add: ordered_goal_values_def split: option.splits)
  qed
  have "(l, x) \<in> set (goal_lines ?vals) \<longleftrightarrow> (l, x) \<in> set (pt_goals t)" for l x
  proof
    assume "(l, x) \<in> set (goal_lines ?vals)"
    then obtain i where "l = int i" "x = ?vals ! i" "i < ?n" "x \<noteq> - 1" by (auto simp: goal_lines_def set_zip vals(1))
    then show "(l, x) \<in> set (pt_goals t)" using vals(2) [of i] by (auto split: option.splits dest: map_of_SomeD)
  next
    assume g: "(l, x) \<in> set (pt_goals t)"
    then have "map_of (pt_goals t) l = Some x" using ok(1) by simp
    then have "?vals ! nat l = x" "nat l < ?n" "0 \<le> l" "x \<noteq> - 1" using ok(2) [OF g] vals(2) [of "nat l"] by auto
    then show "(l, x) \<in> set (goal_lines ?vals)" by (auto simp: goal_lines_def set_zip vals(1) intro!: exI [of _ "nat l"])
  qed
  then have "set (goal_lines ?vals) = set (pt_goals t)" by auto
  moreover have "distinct (goal_lines ?vals)"
    by (simp add: goal_lines_def distinct_zipI1 distinct_map)
  moreover have "distinct (pt_goals t)" using ok(1) by (simp add: distinct_map)
  ultimately show ?thesis by (simp add: set_eq_iff_mset_eq_distinct)
qed

lemma consumes_goal:
  assumes "goals_ok t"
  shows "consumes read_goal (goal_text t) (search_goal t)"
proof -
  let ?gs = "goal_lines (ordered_goal_values t)"
  have same: "length ?gs = length (pt_goals t)" "set ?gs = set (pt_goals t)"
    using goal_lines_mset [OF assms] mset_eq_length mset_eq_setD by blast+
  have words: "is_word ''begin_goal''" "is_word ''end_goal''" by (simp_all add: is_word_def is_space_def)
  have n: "length (pt_goals t) < 2 ^ 31" and pos: "(int (length (pt_goals t)) < 1) = False" using assms by (auto simp: goals_ok_def)
  have item: "consumes (\<lambda>s. bind_result (read_int s) (\<lambda>(var, s). bind_result (read_int s) (\<lambda>(val, s). Inr ((index_of var, word_of_int val :: container_int), s))))
      (fact_line f) (case f of (l, x) \<Rightarrow> (nat l, word_of_int x))" if "f \<in> set ?gs" for f
  proof -
    obtain l x where lx: "f = (l, x)" by (cases f)
    then have "(l, x) \<in> set (pt_goals t)" using that same(2) by simp
    then have f: "f = (l, x)" "level_ok l" "level_ok x" using assms lx by (auto simp: goals_ok_def)
    have "consumes (\<lambda>s. bind_result (read_int s) (\<lambda>(var, s). bind_result (read_int s) (\<lambda>(val, s). Inr ((index_of var, word_of_int val :: container_int), s))))
      (sp (show_int l) @ endl (show_int x) @ []) (nat l, word_of_int x)"
      by (intro bind_int_sp bind_int_endl level_small f) (simp add: consumes_return f)
    then show ?thesis by (simp add: f(1) fact_line_def)
  qed
  have "consumes read_goal (endl ''begin_goal'' @ endl (show_nat (length (pt_goals t))) @ concat (map fact_line ?gs) @ endl ''end_goal'' @ []) (search_goal t)"
    unfolding read_goal_def [abs_def] search_goal_def
    by (rule bind_magic [OF words(1)], rule bind_size_endl [OF n], simp only: pos if_False nat_int,
        rule bind_times [where conv = "\<lambda>(l, x). (nat l, word_of_int x)", OF item _ same(1) [symmetric]], assumption, rule bind_magic [OF words(2)])
      (rule consumes_return)
  then show ?thesis by (simp add: goal_text_def)
qed

section \<open>Mutex facts\<close>

definition mutex_table :: "container_int list \<Rightarrow> Fact set list \<Rightarrow> Fact set list list" where
  "mutex_table doms groups = map (\<lambda>v. map (\<lambda>x. {b. v \<noteq> fst b \<and> (\<exists>g \<in> set groups. (v, x) \<in> g \<and> b \<in> g)}) [0..<unat (doms ! v)]) [0..<length doms]"

lemma insert_mutexes_total:
  "\<forall>(a, b) \<in> set fs. in_table a inc \<Longrightarrow> \<exists>inc'. insert_mutexes fs inc = Inr inc'"
proof (induction fs arbitrary: inc)
  case (Cons f fs)
  obtain a b where f: "f = (a, b)" by (cases f)
  obtain inc1 where inc1: "insert_mutex (a, b) inc = Inr inc1"
    using Cons.prems by (cases "fst a = fst b") (auto simp: f insert_mutex_def in_table_def)
  have "\<forall>(a, b) \<in> set fs. in_table a inc1" using Cons.prems insert_mutex_table(2) [OF inc1] by auto
  from Cons.IH [OF this] show ?case using inc1 by (auto simp: f)
qed simp

lemma search_fact_in:
  assumes "fact_in doms f" "\<forall>d \<in> set doms. d < 2 ^ 31"
  shows "fst (search_fact f) < length doms" "snd (search_fact f) < unat (doms ! fst (search_fact f))"
proof -
  have f: "nat (fst f) < length doms" "0 \<le> snd f" "snd f < 2 ^ 31" "word_of_int (snd f) < doms ! nat (fst f)"
    using assms(1) by (simp_all add: fact_in_def level_ok_def)
  then show "fst (search_fact f) < length doms" by (simp add: search_fact_def)
  have "unat (word_of_int (snd f) :: container_int) = nat (snd f)"
    using f(2,3) by (simp add: unat_eq_nat_uint uint_word_of_int)
  then show "snd (search_fact f) < unat (doms ! fst (search_fact f))" using f(4) by (simp add: search_fact_def word_less_nat_alt)
qed

lemma consumes_mutexes:
  assumes "\<forall>g \<in> set (pt_mutexes t). group_ok doms g" "length (pt_mutexes t) < 2 ^ 31" "\<forall>d \<in> set doms. d < 2 ^ 31"
  shows "consumes (read_mutexes doms) (mutexes_text t)
    (mutex_table doms (map (set \<circ> map search_fact) (pt_mutexes t)), map (set \<circ> map search_fact) (pt_mutexes t))"
  unfolding consumes_def
proof (intro allI impI)
  fix pre r assume pre: "blank pre"
  let ?gs = "map (map search_fact) (pt_mutexes t)"
  have "consumes (read_counted read_mutex_group) (mutexes_text t) ?gs"
    unfolding mutexes_text_def by (rule consumes_counted(1)) (use assms(1,2) consumes_group in \<open>auto simp: show_nat_word\<close>)
  then obtain pre' where pre': "blank pre'" "read_counted read_mutex_group (stream_of (pre @ mutexes_text t @ r)) = Inr (?gs, stream_of (pre' @ r))"
    using pre by (rule consumesD)
  have "in_table a (map (\<lambda>d. replicate (unat d) {}) doms)" if "g \<in> set (pt_mutexes t)" "a \<in> search_fact ` set g" for a g
    using that assms(1) search_fact_in [OF _ assms(3)] by (auto simp: in_table_def group_ok_def)
  then obtain inc where inc: "insert_mutexes (concat (map (\<lambda>g. List.product g g) ?gs)) (map (\<lambda>d. replicate (unat d) {}) doms) = Inr inc"
    using insert_mutexes_total [of "concat (map (\<lambda>g. List.product g g) ?gs)" "map (\<lambda>d. replicate (unat d) {}) doms"] by fastforce
  then have read: "read_mutexes doms (stream_of (pre @ mutexes_text t @ r)) = Inr ((inc, map set ?gs), stream_of (pre' @ r))"
    using pre'(2) by (simp add: read_mutexes_def)
  have len: "length inc = length doms" "v < length doms \<Longrightarrow> length (inc ! v) = unat (doms ! v)" for v
    using read_mutexes_table(1) [OF read] by (metis length_map) (metis read_mutexes_table(1) [OF read] length_map nth_map)
  have "inc = mutex_table doms (map set ?gs)"
    by (intro nth_equalityI set_eqI) (use len read_mutexes_table(2) [OF read] in \<open>simp_all add: mutex_table_def\<close>)
  then show "\<exists>pre'. blank pre' \<and> read_mutexes doms (stream_of (pre @ mutexes_text t @ r)) =
      Inr ((mutex_table doms (map (set \<circ> map search_fact) (pt_mutexes t)), map (set \<circ> map search_fact) (pt_mutexes t)), stream_of (pre' @ r))"
    using pre'(1) read by auto
qed

section \<open>The end of the file\<close>

lemma consumes_guard:
  assumes "is_word w" "consumes h (endl w @ u) y"
  shows "consumes (\<lambda>s. if \<not> has_input s then k s else h s) (endl w @ u) y"
  unfolding consumes_def
proof (intro allI impI)
  fix pre r assume pre: "blank pre"
  have "has_input (stream_of (pre @ (endl w @ u) @ r))"
    using has_input_word [OF assms(1), of "CHR 10 # u @ r"] has_input_blank [OF pre, of "(endl w @ u) @ r"] by (simp add: endl_def)
  then show "\<exists>pre'. blank pre' \<and> (if \<not> has_input (stream_of (pre @ (endl w @ u) @ r)) then k (stream_of (pre @ (endl w @ u) @ r))
      else h (stream_of (pre @ (endl w @ u) @ r))) = Inr (y, stream_of (pre' @ r))"
    using assms(2) pre by (simp add: consumes_def)
qed

lemma atoi_show_nat: "atoi (show_nat n) = int n"
proof -
  have "dropWhile is_space (show_nat n) = show_nat n" using word_prefix(1) [OF show_nat_word ends_Nil, of n] by simp
  moreover have "read_sign (show_nat n) = (False, show_nat n)" using read_sign_nat [of n "[]"] by simp
  moreover have "takeWhile is_digit (show_nat n) = show_nat n" using number_prefix(1) [OF show_nat_all_digits ends_Nil, of n] by simp
  ultimately show ?thesis by (simp add: atoi_def del: takeWhile_eq_all_conv)
qed

lemma show_nat_no_marker: "show_nat n \<noteq> ''begin_SG''"
proof
  assume "show_nat n = ''begin_SG''"
  moreover have "list_all is_digit (show_nat n)" by simp
  ultimately show False by (simp add: is_digit_def)
qed

lemma consumes_init_constant_facts:
  assumes "lines_ok (pt_init_constant_facts t)"
  shows "consumes read_init_constant_facts_or_next_marker (init_constant_facts_text t @ endl ''begin_SG'') (pt_init_constant_facts t, ''begin_SG'')"
proof -
  have words: "is_word ''begin_init_constant_facts''" "is_word ''end_init_constant_facts''" "is_word ''begin_SG''"
    by (simp_all add: is_word_def is_space_def)
  let ?n = "length (pt_init_constant_facts t)"
  have no: "(show_nat ?n = ''begin_SG'') = False" "(atoi (show_nat ?n) < 0) = False" "nat (atoi (show_nat ?n)) = ?n"
    using show_nat_no_marker by (simp_all add: atoi_show_nat)
  have "consumes read_init_constant_facts_or_next_marker (endl (show_nat ?n) @ endl ''begin_init_constant_facts'' @
     concat (map endl (pt_init_constant_facts t)) @ endl ''end_init_constant_facts'' @ endl ''begin_SG'' @ []) (pt_init_constant_facts t, ''begin_SG'')"
    unfolding read_init_constant_facts_or_next_marker_def [abs_def]
    by (rule consumes_guard [OF show_nat_word], rule consumes_word [where w = "show_nat ?n"], simp add: show_nat_word, simp only: no if_False,
        rule bind_magic [OF words(1)], rule consumes_lines [OF assms], simp add: words, rule consumes_word [where w = "''begin_SG''"])
      (simp_all add: words consumes_return)
  then show ?thesis by (simp add: init_constant_facts_text_def)
qed

text \<open>Lines that are skipped: none of them is the end marker, also not after blanks that are left.\<close>

definition skipped_lines :: "string list \<Rightarrow> bool" where
  "skipped_lines ls \<longleftrightarrow> (\<forall>l \<in> set ls. line_ok l \<and> l \<noteq> ''end_SG'')"

lemma skip_lines:
  "skipped_lines ls \<Longrightarrow> line \<noteq> ''end_SG'' \<Longrightarrow>
    skip_generator line (stream_of (concat (map endl ls) @ endl ''end_SG'' @ r)) = Some (stream_of r)"
proof (induction ls arbitrary: line)
  case Nil
  have "line_ok ''end_SG''" by (simp add: line_ok_def)
  then have "getline line (stream_of (endl ''end_SG'' @ r)) = (''end_SG'', stream_of r)"
    using getline_line [of "''end_SG''" r] by (simp add: getline_def endl_def stream_of_def)
  moreover have "skip_generator ''end_SG'' (stream_of r) = Some (stream_of r)" by (subst skip_generator.simps) simp
  ultimately show ?case using Nil.prems(2) by (subst skip_generator.simps) simp
next
  case (Cons l ls)
  have "getline line (stream_of (endl l @ q)) = (l, stream_of q)" for q
    using getline_line [of l q] Cons.prems(1) by (simp add: skipped_lines_def getline_def endl_def stream_of_def)
  then show ?case using Cons.IH [of l] Cons.prems by (subst skip_generator.simps) (simp add: skipped_lines_def)
qed

lemma endl_simps: "endl [] = [CHR 10]" "endl (c # w) = c # endl w"
  by (simp_all add: endl_def)

lemma blank_lines:
  assumes "blank pre" "line_ok l" "l \<noteq> ''end_SG''"
  obtains ls where "skipped_lines ls" "ls \<noteq> []" "pre @ endl l = concat (map endl ls)"
proof -
  have "\<exists>ls. skipped_lines ls \<and> ls \<noteq> [] \<and> pre @ endl l = concat (map endl ls)"
    using assms(1)
  proof (induction pre)
    case Nil
    show ?case using assms(2,3) by (intro exI [of _ "[l]"]) (simp add: skipped_lines_def)
  next
    case (Cons c pre)
    then obtain k ls where ls: "skipped_lines (k # ls)" "pre @ endl l = concat (map endl (k # ls))"
      by (metis blank_simps(2) list.exhaust)
    show ?case
    proof (cases "c = CHR 10")
      case True
      then show ?thesis using ls by (intro exI [of _ "[] # k # ls"]) (simp add: skipped_lines_def line_ok_def endl_simps)
    next
      case False
      have "c \<noteq> CHR ''e''" using Cons.prems by (auto simp: is_space_def)
      then show ?thesis using ls False by (intro exI [of _ "(c # k) # ls"]) (auto simp: skipped_lines_def line_ok_def endl_simps)
    qed
  qed
  then show ?thesis using that by blast
qed

lemma skip_after_blanks:
  assumes "blank pre" "skipped_lines ls" "ls \<noteq> []"
  shows "skip_generator [] (stream_of (pre @ concat (map endl ls) @ endl ''end_SG'' @ r)) = Some (stream_of r)"
proof -
  obtain l ks where l: "ls = l # ks" using assms(3) by (cases ls) auto
  then have "line_ok l" "l \<noteq> ''end_SG''" using assms(2) by (simp_all add: skipped_lines_def)
  then obtain ms where ms: "skipped_lines ms" "pre @ endl l = concat (map endl ms)" using blank_lines [OF assms(1)] by metis
  have all: "skipped_lines (ms @ ks)" using ms(1) assms(2) by (auto simp: skipped_lines_def l)
  have eq: "pre @ concat (map endl ls) @ endl ''end_SG'' @ r = concat (map endl (ms @ ks)) @ endl ''end_SG'' @ r"
    using ms(2) by (simp add: l append_assoc [symmetric] del: append_assoc)
  show ?thesis unfolding eq by (rule skip_lines [OF all]) simp
qed

section \<open>The whole file\<close>

definition search_doms :: "pre_task \<Rightarrow> container_int list" where
  "search_doms t = map (\<lambda>v. of_nat (length (pv_values v))) (pt_variables t)"

text \<open>What the preprocessor has to hold for the file to be read as it is meant.\<close>

definition task_written_ok :: "pre_task \<Rightarrow> bool" where
  "task_written_ok t \<longleftrightarrow> metric_ok t \<and>
    (\<forall>v \<in> set (pt_variables t). variable_ok v) \<and> length (pt_variables t) < 2 ^ 31 \<and>
    (\<forall>v \<in> set (pt_numeric_vars t). numeric_variable_ok v) \<and> length (pt_numeric_vars t) < 2 ^ 31 \<and>
    (\<forall>g \<in> set (pt_mutexes t). group_ok (search_doms t) g) \<and> length (pt_mutexes t) < 2 ^ 31 \<and>
    length (pt_initial_values t) = length (pt_variables t) \<and> (\<forall>x \<in> set (pt_initial_values t). small x) \<and>
    length (pt_initial_numeric t) = length (pt_numeric_vars t) \<and> (\<forall>x \<in> set (pt_initial_numeric t). ap_is_finite x) \<and>
    goals_ok t \<and>
    (\<forall>oper \<in> set (pt_operators t). operator_written_ok (pt_metric_index t \<noteq> - 1) (search_doms t) oper) \<and> length (pt_operators t) < 2 ^ 31 \<and>
    (\<forall>ax \<in> set (pt_axioms_rel t). axiom_written_ok (search_doms t) ax) \<and> length (pt_axioms_rel t) < 2 ^ 31 \<and>
    (\<forall>ax \<in> set (pt_axioms_func_comp t). comparison_ok ax) \<and> length (pt_axioms_func_comp t) < 2 ^ 31 \<and>
    (\<forall>ax \<in> set (pt_axioms_func_ass t). computation_ok (length (pt_numeric_vars t)) ax) \<and> length (pt_axioms_func_ass t) < 2 ^ 31 \<and>
    small (fst (pt_constraint t)) \<and> small (snd (pt_constraint t)) \<and> lines_ok (pt_init_constant_facts t) \<and>
    (\<exists>ls. skipped_lines ls \<and> ls \<noteq> [] \<and> pt_generator_text t = concat (map endl ls)) \<and>
    (\<exists>graphs. pt_graphs_text t = endl ''begin_DTG'' @ graphs)"

text \<open>
  The task of the search that corresponds to the task of the preprocessor. The file holds six
  significant digits of a double, so the search has the double nearest to these.
\<close>

definition search_task :: "pre_task \<Rightarrow> task" where
  "search_task t =
    (let use_metric = (pt_metric_index t \<noteq> - 1); opers = map (search_operator use_metric) (pt_operators t);
         init = map word_of_int (pt_initial_values t); logic = map search_axiom (pt_axioms_rel t);
         groups = map (set \<circ> map search_fact) (pt_mutexes t)
     in \<lparr>g_use_metric = use_metric, g_metric_minimizes = (pt_optimization t = CHR ''<''), g_metric_fluent_id = pt_metric_index t,
       g_min_action_cost = foldl ap_min (ap_largest False) (map op_cost opers),
       g_max_action_cost = foldl ap_max (ap_zero False) (map op_cost opers),
       g_variable_name = map pv_name (pt_variables t), g_variable_domain = search_doms t, g_fact_names = map pv_values (pt_variables t),
       g_axiom_layers = map pv_layer (pt_variables t), g_default_axiom_values = init,
       g_numeric_axiom_layers = map pn_layer (pt_numeric_vars t), g_numeric_var_names = map pn_name (pt_numeric_vars t),
       g_numeric_var_types = map pn_type (pt_numeric_vars t), g_inconsistent_facts = mutex_table (search_doms t) groups,
       g_mutex_group = groups, g_initial_state_data = init, g_initial_state_numeric = map six_digits (pt_initial_numeric t),
       g_init_constant_facts = pt_init_constant_facts t, g_goal = search_goal t, g_operators = opers, g_logic_axioms = logic,
       g_axioms_as_operator = map axiom_as_operator logic, g_comp_axioms = map search_comparison (pt_axioms_func_comp t),
       g_ass_axioms = map search_computation (pt_axioms_func_ass t), g_global_constraint_var_id = fst (pt_constraint t),
       g_global_constraint_val = snd (pt_constraint t),
       g_last_arithmetic_axiom_layer = foldl (\<lambda>m v. max (pn_layer v) m) (- 1) (pt_numeric_vars t)\<rparr>)"

lemma search_variables:
  "map (\<lambda>(name, layer, vrange, facts). vrange) (map search_variable vs) = map (\<lambda>v. of_nat (length (pv_values v))) vs"
  "map (\<lambda>(name, layer, vrange, facts). facts) (map search_variable vs) = map pv_values vs"
  "map (\<lambda>(name, layer, vrange, facts). layer) (map search_variable vs) = map pv_layer vs"
  "map fst (map search_variable vs) = map pv_name vs"
  by (simp_all add: search_variable_def)

lemma search_numeric_variables:
  "map (\<lambda>(type, layer, name). layer) (map search_numeric_variable vs) = map pn_layer vs"
  "map (\<lambda>(type, layer, name). name) (map search_numeric_variable vs) = map pn_name vs"
  "map fst (map search_numeric_variable vs) = map pn_type vs"
  "foldl (\<lambda>m (type, layer, name). max layer m) k (map search_numeric_variable vs) = foldl (\<lambda>m v. max (pn_layer v) m) k vs"
  by (simp_all add: search_numeric_variable_def foldl_map)

lemma consumes_value: "x = y \<Longrightarrow> consumes (\<lambda>s. Inr (x, s)) [] y"
  by (simp add: consumes_return)

lemma consumes_task:
  assumes "task_written_ok t"
  shows "consumes read_task (endl ''begin_version'' @ endl ''4'' @ endl ''end_version'' @
     metric_text t @ variables_text t @ numeric_variables_text t @ mutexes_text t @ state_text t @ numeric_state_text t @
     goal_text t @ operators_text t @ axioms_text t @ global_constraint_text t @ init_constant_facts_text t @
     endl ''begin_SG'') (search_task t, ''begin_SG'')"
proof -
  note ok = assms [unfolded task_written_ok_def]
  have doms: "\<forall>d \<in> set (search_doms t). d < 2 ^ 31"
    using ok by (auto simp: search_doms_def variable_ok_def word_less_nat_alt unsigned_of_nat take_bit_nat_eq_self)
  have lens: "length (search_doms t) = length (pt_initial_values t)" "length (map search_numeric_variable (pt_numeric_vars t)) = length (pt_initial_numeric t)"
    using ok by (simp_all add: search_doms_def)
  have nums: "length (pt_initial_numeric t) = length (pt_numeric_vars t)" using ok by simp
  note vars = search_variables(1) [of "pt_variables t", folded search_doms_def]
  have "consumes read_task ((endl ''begin_version'' @ endl ''4'' @ endl ''end_version'') @
     metric_text t @ variables_text t @ numeric_variables_text t @ mutexes_text t @ state_text t @ numeric_state_text t @
     goal_text t @ operators_text t @ axioms_text t @ global_constraint_text t @ (init_constant_facts_text t @
     endl ''begin_SG'') @ []) (search_task t, ''begin_SG'')"
    unfolding read_task_def [abs_def]
    by (rule consumes_version, rule consumes_bind [OF consumes_metric], use ok in blast, simp only: prod.case,
        rule consumes_bind [OF consumes_variables], use ok in blast, use ok in blast, simp only: Let_def vars,
        rule consumes_bind [OF consumes_numeric_variables], use ok in blast, use ok in blast, simp only: lens,
        rule consumes_bind [OF consumes_mutexes], use ok in blast, use ok in blast, rule doms, simp only: prod.case,
        rule consumes_bind [OF consumes_state], use ok in blast, rule consumes_bind [OF consumes_numeric_state], use ok in blast,
        rule consumes_bind [OF consumes_goal], use ok in blast,
        rule consumes_bind [OF consumes_operators], use ok in blast, use ok in blast,
        rule consumes_bind [OF consumes_axioms], ((use ok nums in \<open>simp; blast\<close>)+)[6], simp only: prod.case,
        rule consumes_bind [OF consumes_global_constraint], use ok in blast, use ok in blast,
        subst surjective_pairing [of "pt_constraint t"], simp only: prod.case,
        rule consumes_bind [OF consumes_init_constant_facts], use ok in blast, simp only: prod.case, rule consumes_value)
      (simp only: search_numeric_variables search_variables search_task_def Let_def)
  then show ?thesis by simp
qed

lemma written_task_read:
  assumes wrote: "generate_cpp_input t = Inr written" and ok: "task_written_ok t"
  shows "read_everything written = prepare_task (search_task t)"
proof -
  obtain ls graphs where ls: "skipped_lines ls" "ls \<noteq> []" "pt_generator_text t = concat (map endl ls)"
    and graphs: "pt_graphs_text t = endl ''begin_DTG'' @ graphs" using ok by (auto simp: task_written_ok_def)
  let ?rest = "concat (map endl ls) @ endl ''end_SG'' @ endl ''begin_DTG'' @ graphs"
  obtain front where front: "consumes read_task front (search_task t, ''begin_SG'')" "written = front @ ?rest"
    by (rule that [OF consumes_task [OF ok]])
      (use wrote in \<open>simp add: generate_cpp_input_def task_text_def ls(3) graphs split: if_splits\<close>)
  obtain pre where pre: "blank pre" "read_task (stream_of ([] @ front @ ?rest)) = Inr ((search_task t, ''begin_SG''), stream_of (pre @ ?rest))"
    using front(1) blank_simps(1) by (rule consumesD)
  have skip: "skip_generator [] (stream_of (pre @ ?rest)) = Some (stream_of (endl ''begin_DTG'' @ graphs))"
    using skip_after_blanks [OF pre(1) ls(1,2), of "endl ''begin_DTG'' @ graphs"] by simp
  have "is_word ''begin_DTG''" "ends (CHR 10 # graphs)" by (simp_all add: is_word_def is_space_def)
  then have "check_magic ''begin_DTG'' (stream_of (endl ''begin_DTG'' @ graphs)) = Inr (stream_of (CHR 10 # graphs))"
    using extract_word_written [of "''begin_DTG''" "CHR 10 # graphs"] by (simp add: check_magic_def endl_def)
  then show ?thesis using pre(2) skip front(2) by (simp add: read_everything_def read_rest_def)
qed

text \<open>
  C4. The file between the two programs. For a task whose numbers fit their types and whose names fit
  their lines, the search reads from the written file the task of the preprocessor and goes on to
  prepare it: variables, mutex groups, initial values, goals, operators, axioms, constraint and
  constant facts as they were, with levels as indices; the initial numeric values and, if there is a
  metric, the operator costs, any finite doubles, as the doubles nearest to their first six
  significant digits. So a number with at most six significant digits arrives unchanged. The reader
  neither rejects the file nor loops in the part it skips.
\<close>

theorem task_file_round_trip:
  assumes wrote: "generate_cpp_input t = Inr written" and ok: "task_written_ok t"
  shows "read_everything written = prepare_task (search_task t) \<and>
    (\<forall>x p k j. decode x = Fin p \<and> \<bar>p\<bar> = of_nat k * 10 powi j \<and> k < 10 ^ 6 \<longrightarrow> six_digits x = x)"
  using written_task_read [OF wrote ok] six_digits_exact by blast

end
