(* ===== verification/Task_Loading.thy ===== *)
theory Task_Loading
  imports Registry_Initial Eager_Steps Task_Round_Trip
begin

text \<open>
  From the file to the search: what the reader accepts and prepares is a world in which the search
  can start, and a small file on which the reader is run.
\<close>

section \<open>Preparing the world\<close>

lemma with_costs_fields [simp]:
  "g_use_metric (with_costs opers t) = g_use_metric t"
  "g_metric_minimizes (with_costs opers t) = g_metric_minimizes t"
  "g_metric_fluent_id (with_costs opers t) = g_metric_fluent_id t"
  "g_variable_domain (with_costs opers t) = g_variable_domain t"
  "g_axiom_layers (with_costs opers t) = g_axiom_layers t"
  "g_default_axiom_values (with_costs opers t) = g_default_axiom_values t"
  "g_numeric_var_names (with_costs opers t) = g_numeric_var_names t"
  "g_numeric_var_types (with_costs opers t) = g_numeric_var_types t"
  "g_initial_state_data (with_costs opers t) = g_initial_state_data t"
  "g_initial_state_numeric (with_costs opers t) = g_initial_state_numeric t"
  "g_goal (with_costs opers t) = g_goal t"
  "g_logic_axioms (with_costs opers t) = g_logic_axioms t"
  "g_comp_axioms (with_costs opers t) = g_comp_axioms t"
  "g_ass_axioms (with_costs opers t) = g_ass_axioms t"
  "g_last_arithmetic_axiom_layer (with_costs opers t) = g_last_arithmetic_axiom_layer t"
  "g_operators (with_costs opers t) = opers"
  by (simp_all add: with_costs_def)

lemma make_costs [simp]: "AxiomEvaluator_make (with_costs opers t) = AxiomEvaluator_make t"
proof -
  have "add_nbf_info (with_costs opers t) = add_nbf_info t"
    by (simp add: fun_eq_iff add_nbf_info_def last_axiom_layer_def Let_def)
  then show ?thesis by (simp add: AxiomEvaluator_make_def logic_layer_bounds_def last_axiom_layer_def)
qed

lemma derived_costs [simp]: "derived_var (with_costs opers t) = derived_var t"
  by (simp add: fun_eq_iff derived_var_def)

lemma ok_costs [simp]:
  "well_stratified (with_costs opers t) = well_stratified t"
  "comparisons_ok (with_costs opers t) = comparisons_ok t"
  "has_logic_axioms (with_costs opers t) = has_logic_axioms t"
  "statespace_sizes (with_costs opers t) = statespace_sizes t"
  by (simp_all add: well_stratified_def axiom_ok_def comparisons_ok_def has_logic_axioms_def statespace_sizes_def)

lemma task_ok_costs [simp]: "task_ok (with_costs opers t) = task_ok t"
  unfolding task_ok_def ok_costs derived_costs by (simp add: numeric_task_ok_def)

lemma layout_costs [simp]: "layout_ok (with_costs opers t) r = layout_ok t r"
proof -
  have "slot_index (with_costs opers t) k = slot_index t k" for k
    by (cases "var_type t k") (simp_all add: slot_index_def type_rank_def)
  then show ?thesis by (simp add: layout_ok_def)
qed

lemma world_ok_costs:
  assumes "world_ok w"
  shows "world_ok (w\<lparr>w_task := with_costs opers (w_task w)\<rparr>)"
proof -
  have "states_in_domain (w\<lparr>w_task := with_costs opers (w_task w)\<rparr>)"
    using world_okD(11) [OF assms] by (simp add: states_in_domain_def state_value_def packed_buffer_def registry_size_def)
  moreover have "registry_inv (w\<lparr>w_task := with_costs opers (w_task w)\<rparr>)"
    using world_okD(7) [OF assms] by (simp add: registry_inv_def)
  ultimately show ?thesis using assms by (simp add: world_ok_def evaluator_ok_def same_tables_def)
qed

lemma constants_counted: "type_rank t ty (num_numeric t) = length (filter (\<lambda>x. x = ty) (g_numeric_var_types t))"
proof -
  have "filter (\<lambda>x. x = ty) (map (\<lambda>j. g_numeric_var_types t ! j) [0..<length (g_numeric_var_types t)]) =
      map (\<lambda>j. g_numeric_var_types t ! j) (filter (\<lambda>j. g_numeric_var_types t ! j = ty) [0..<length (g_numeric_var_types t)])"
    by (simp add: filter_map comp_def)
  then show ?thesis by (simp add: map_nth type_rank_def)
qed

lemma initial_world_fresh:
  assumes "task_ok t" "pack_bins (statespace_sizes t) = Some p" "\<forall>v < num_vars t. g_initial_state_data t ! v < g_variable_domain t ! v"
  shows "fresh_world (initial_world t p)"
  using assms
  by (simp add: fresh_world_def initial_world_def registry_inv_def evaluator_ok_def same_tables_def constants_counted StateRegistry_make_def)

lemma initial_state_cached:
  assumes "get_initial_state w = Inr (i, w)"
  shows "cached_initial_state (w_registry w) = Some i"
proof (cases "cached_initial_state (w_registry w)")
  case None
  then have "cached_initial_state (w_registry w) = Some i"
    using assms by (auto simp: get_initial_state_def result_iff Let_def dest!: arg_cong [where f = "\<lambda>w. cached_initial_state (w_registry w)"])
  then show ?thesis .
next
  case (Some j)
  then show ?thesis using assms by (simp add: get_initial_state_def)
qed

lemma read_task_numeric:
  assumes "read_task s = Inr ((t, marker), s')"
  shows "length (g_initial_state_numeric t) = length (g_numeric_var_types t)"
  using assms unfolding read_task_def
  by (auto simp: result_iff Let_def read_initial_numeric_def dest!: read_times_all [where P = "\<lambda>_. True"])

text \<open>What the reader does not check: operators do not test a variable twice and leave derived variables alone.\<close>

definition operators_admissible :: "task \<Rightarrow> bool" where
  "operators_admissible t \<longleftrightarrow> (\<forall>oper \<in> set (g_operators t). distinct (map cond_var (preconditions oper)) \<and>
    (\<forall>e \<in> set (op_effects oper). g_axiom_layers t ! eff_var e = - 1 \<and> eff_var e \<notin> cax_affected ` set (g_comp_axioms t)) \<and>
    (\<forall>e \<in> set (assign_effects oper). assign_ok t e))"

lemma typed_search_ok:
  assumes "well_typed t" "operators_admissible t" "\<forall>w s ops. set (sc_prune cfg w s ops) \<subseteq> set ops"
  shows "search_ok cfg t"
proof -
  have typed: "typed_operator (g_variable_domain t) oper" if "oper \<in> set (g_operators t)" for oper
    using assms(1) that by (simp add: well_typed_def)
  have doms: "\<forall>d \<in> set (g_variable_domain t). d < 2 ^ 31" using assms(1) by (simp add: well_typed_def)
  have "generator_task_ok t"
    using doms typed assms(2)
    by (fastforce simp: generator_task_ok_def operators_admissible_def typed_operator_def list_all_iff typed_condition_def typed_fact_def)
  moreover have "\<forall>oper \<in> set (g_operators t). operator_ok t oper"
    using typed assms(2)
    by (fastforce simp: operator_ok_def operators_admissible_def typed_operator_def list_all_iff typed_effect_def typed_fact_def)
  ultimately show ?thesis using assms(3) by (simp add: search_ok_def)
qed

section \<open>Starting a search\<close>

lemma length_assign_effects:
  "length (fst (foldl (apply_assign_effect t r old) s effs)) = length (fst s)"
proof (induction effs arbitrary: s)
  case (Cons e effs)
  have "length (fst (apply_assign_effect t r old s e)) = length (fst s)"
    by (auto simp: apply_assign_effect_def Let_def split: prod.splits numType.splits)
  then show ?case using Cons by simp
qed simp

lemma length_numeric_successor: "length (fst (get_numeric_successor t r vals metric oper)) = length vals"
proof -
  have "length (foldl apply_assignment_axiom num axs) = length num" for num axs
    by (induction axs arbitrary: num) (simp_all add: apply_assignment_axiom_def)
  then show ?thesis
    by (simp add: get_numeric_successor_def Let_def evaluate_arithmetic_axioms_def length_assign_effects)
qed

lemma set_costs_returns:
  assumes "world_ok w" "get_initial_state w = Inr (s0, w)"
  shows "\<exists>opers'. set_costs w init opers = Inr opers' \<and> map (\<lambda>oper. oper\<lparr>op_cost := ap_zero False\<rparr>) opers' = map (\<lambda>oper. oper\<lparr>op_cost := ap_zero False\<rparr>) opers"
proof (induction opers)
  case (Cons oper opers)
  have "\<exists>c. operator_set_cost w init oper = Inr c"
    using assms(2) world_okD(5,6) [OF assms(1)] get_numeric_vars_nth(1) [OF world_okD(4) [OF assms(1)], of s0]
    by (auto simp: operator_set_cost_def Let_def evaluate_metric_def length_numeric_successor)
  then show ?case using Cons.IH by auto
qed simp

lemma same_fields:
  "oper'\<lparr>op_cost := c\<rparr> = oper\<lparr>op_cost := c\<rparr> \<Longrightarrow>
    preconditions oper' = preconditions oper \<and> op_effects oper' = op_effects oper \<and> assign_effects oper' = assign_effects oper"
  for oper oper' :: GlobalOperator
  by (cases oper; cases oper') simp

lemma same_but_costs:
  fixes opers :: "GlobalOperator list"
  assumes "map (\<lambda>oper. oper\<lparr>op_cost := c\<rparr>) opers' = map (\<lambda>oper. oper\<lparr>op_cost := c\<rparr>) opers" "oper' \<in> set opers'"
  obtains oper where "oper \<in> set opers" "preconditions oper' = preconditions oper" "op_effects oper' = op_effects oper"
    "assign_effects oper' = assign_effects oper"
proof -
  have "oper'\<lparr>op_cost := c\<rparr> \<in> set (map (\<lambda>oper. oper\<lparr>op_cost := c\<rparr>) opers)" using assms by (metis image_eqI list.set_map)
  then obtain oper where "oper \<in> set opers" "oper'\<lparr>op_cost := c\<rparr> = oper\<lparr>op_cost := c\<rparr>" by auto
  then show ?thesis using that [of oper] same_fields [where oper = oper and oper' = oper' and c = c] by simp
qed

lemma prepare_task_ready:
  assumes ok: "task_ok t" "g_variable_domain t \<noteq> []" "pack_bins (statespace_sizes t) = Some p"
    and init: "\<forall>v < num_vars t. g_initial_state_data t ! v < g_variable_domain t ! v" and adm: "operators_admissible t"
  shows "\<exists>w s0. prepare_task t = Some (Inr w) \<and> world_ok w \<and> operators_admissible (w_task w) \<and>
    get_initial_state w = Inr (s0, w) \<and> s0 < registry_size w \<and> length (g_operators (w_task w)) = length (g_operators t)"
proof -
  obtain s0 w vals where w: "get_initial_state (initial_world t p) = Inr (s0, w)" "get_initial_state w = Inr (s0, w)" "world_ok w"
      "w_task w = t\<lparr>g_initial_state_numeric := vals\<rparr>" "s0 < registry_size w"
    using initial_state_facts [OF initial_world_fresh [OF ok(1,3) init]] by (auto simp: initial_world_def)
  obtain init_cost where cost: "evaluate_metric (w_task w) (get_numeric_vars w s0) = Inr init_cost"
    using evaluate_metric_ok world_okD(5,6) [OF w(3)] get_numeric_vars_nth(1) [OF world_okD(4) [OF w(3)], of s0] by metis
  obtain opers where opers: "set_costs w init_cost (g_operators t) = Inr opers"
      "map (\<lambda>oper. oper\<lparr>op_cost := ap_zero False\<rparr>) opers = map (\<lambda>oper. oper\<lparr>op_cost := ap_zero False\<rparr>) (g_operators t)"
    using set_costs_returns [OF w(3,2)] by blast
  let ?w = "w\<lparr>w_task := with_costs opers (w_task w)\<rparr>"
  have prepared: "prepare_task t = Some (Inr ?w)" using ok(2,3) w(1) cost opers(1) by (simp add: prepare_task_def)
  have ready: "world_ok ?w" by (rule world_ok_costs [OF w(3)])
  have again: "get_initial_state ?w = Inr (s0, ?w)" using initial_state_cached [OF w(2)] by (simp add: get_initial_state_def)
  have size: "s0 < registry_size ?w" using w(5) by (simp add: registry_size_def)
  have len: "length opers = length (g_operators t)" using arg_cong [OF opers(2), of length] by simp
  have "operators_admissible (w_task ?w)"
    unfolding operators_admissible_def
  proof (intro ballI)
    fix oper' assume "oper' \<in> set (g_operators (w_task ?w))"
    then have "oper' \<in> set opers" by simp
    then obtain oper where "oper \<in> set (g_operators t)" "preconditions oper' = preconditions oper" "op_effects oper' = op_effects oper"
      "assign_effects oper' = assign_effects oper" by (rule same_but_costs [OF opers(2)])
    then show "distinct (map cond_var (preconditions oper')) \<and>
        (\<forall>e \<in> set (op_effects oper'). g_axiom_layers (w_task ?w) ! eff_var e = - 1 \<and> eff_var e \<notin> cax_affected ` set (g_comp_axioms (w_task ?w))) \<and>
        (\<forall>e \<in> set (assign_effects oper'). assign_ok (w_task ?w) e)"
      using adm by (simp add: operators_admissible_def w(4) assign_ok_def)
  qed
  then show ?thesis using prepared ready again size len by auto
qed

text \<open>
  C5. From the preprocessor to the search: on the file the preprocessor writes for a well-formed task
  the reader returns, and what it returns is a world with a registered initial state that fulfils
  every requirement of the search on the world and on the task.
\<close>

theorem loaded_world_is_ready:
  assumes wrote: "generate_cpp_input t = Inr written" "task_written_ok t"
    and ok: "task_ok (search_task t)" "\<exists>p. pack_bins (statespace_sizes (search_task t)) = Some p" "pt_variables t \<noteq> []"
    and init: "\<forall>v < num_vars (search_task t). g_initial_state_data (search_task t) ! v < g_variable_domain (search_task t) ! v"
    and adm: "operators_admissible (search_task t)" and prune: "\<forall>w s ops. set (sc_prune cfg w s ops) \<subseteq> set ops"
  shows "\<exists>w s0. read_everything written = Some (Inr w) \<and> world_ok w \<and> search_ok cfg (w_task w) \<and>
    get_initial_state w = Inr (s0, w) \<and> s0 < registry_size w"
proof -
  have "g_variable_domain (search_task t) \<noteq> []" using ok(3) by (simp add: search_task_def Let_def search_doms_def)
  then obtain w s0 where w: "prepare_task (search_task t) = Some (Inr w)" "world_ok w" "operators_admissible (w_task w)"
      "get_initial_state w = Inr (s0, w)" "s0 < registry_size w"
    using prepare_task_ready [OF ok(1) _ _ init adm] ok(2) by blast
  have read: "read_everything written = Some (Inr w)" using written_task_read [OF wrote] w(1) by simp
  have "well_typed (w_task w)" using read_everything_typed [OF read] by simp
  from typed_search_ok [OF this w(3) prune] show ?thesis using read w by blast
qed

end
