(* ===== verification/Task_Demo.thy ===== *)
theory Task_Demo
  imports Task_Loading
begin

text \<open>
  A small task: a switch that one operator turns on, and a numeric variable that is the metric. The
  properties of the reader are applied to the file the preprocessor writes for it.
\<close>

definition switch_task :: pre_task where
  "switch_task = \<lparr>pt_optimization = CHR ''<'', pt_metric_index = 0,
     pt_variables = [\<lparr>pv_name = ''switch'', pv_layer = - 1, pv_values = [''Atom off()'', ''Atom on()'']\<rparr>],
     pt_numeric_vars = [\<lparr>pn_type = num_regular, pn_layer = - 1, pn_name = ''PNE cost()'', pn_necessary = True\<rparr>],
     pt_mutexes = [[(0, 0), (0, 1)]], pt_initial_values = [0], pt_initial_numeric = [ap_of_int (- 7)], pt_goals = [(0, 1)],
     pt_operators = [\<lparr>po_name = ''turn on'', po_prevail = [],
       po_pre_post = [\<lparr>pp_conds = [], pp_var = 0, pp_pre = 0, pp_post = 1\<rparr>], po_assign_effects = [], po_cost = ap_of_int 3\<rparr>],
     pt_axioms_rel = [], pt_axioms_func_comp = [], pt_axioms_func_ass = [], pt_constraint = (0, 0),
     pt_init_constant_facts = [''(= (weight) 3)''], pt_generator_text = endl ''check 1'' @ endl ''0'',
     pt_graphs_text = endl ''begin_DTG'' @ endl ''end_DTG''\<rparr>"

lemma switch_written: "generate_cpp_input switch_task = Inr (task_text switch_task)"
  by (simp add: generate_cpp_input_def levels_set_def switch_task_def)

lemma switch_text_ok:
  "name_ok ''turn on''" "name_ok ''PNE cost()''" "name_ok ''Atom off()''" "line_ok ''Atom on()''" "name_ok ''(= (weight) 3)''" "is_word ''switch''"
  by (simp_all add: name_ok_def line_ok_def is_word_def is_space_def)

lemma name_line: "name_ok w \<Longrightarrow> line_ok w"
  by (simp add: name_ok_def)

lemma switch_doms: "search_doms switch_task = [2]"
  by (simp add: search_doms_def switch_task_def)

lemma switch_numbers:
  "ap_is_finite (ap_of_int (- 7))" "ap_is_finite (ap_of_int 3)" "six_digits (ap_of_int (- 7)) = ap_of_int (- 7)" "six_digits (ap_of_int 3) = ap_of_int 3"
proof -
  have d: "decode (ap_of_int (- 7)) = Fin (- 7)" "decode (ap_of_int 3) = Fin 3"
    using decode_ap_of_int [of "- 7"] decode_ap_of_int [of 3] by simp_all
  show "ap_is_finite (ap_of_int (- 7))" "ap_is_finite (ap_of_int 3)" using d by (simp_all add: ap_is_finite_decode)
  show "six_digits (ap_of_int (- 7)) = ap_of_int (- 7)" using six_digits_exact [OF d(1), of 7 0] by simp
  show "six_digits (ap_of_int 3) = ap_of_int 3" using six_digits_exact [OF d(2), of 3 0] by simp
qed

lemma switch_ok: "task_written_ok switch_task"
proof -
  have gen: "\<exists>ls. skipped_lines ls \<and> ls \<noteq> [] \<and> pt_generator_text switch_task = concat (map endl ls)"
    by (rule exI [of _ "[''check 1'', ''0'']"]) (simp add: skipped_lines_def line_ok_def switch_task_def)
  have graphs: "\<exists>graphs. pt_graphs_text switch_task = endl ''begin_DTG'' @ graphs" by (simp add: switch_task_def)
  have levels: "level_ok 0" "level_ok 1" "small 0" "small (- 1)" by (simp_all add: level_ok_def small_def)
  have fact: "fact_in [2] (0, 0)" "fact_in [2] (0, 1)" by (simp_all add: fact_in_def levels)
  have vars: "\<forall>v \<in> set (pt_variables switch_task). variable_ok v"
    using switch_text_ok by (simp add: variable_ok_def switch_task_def levels lines_ok_def name_line)
  have nums: "\<forall>v \<in> set (pt_numeric_vars switch_task). numeric_variable_ok v"
    using switch_text_ok by (simp add: numeric_variable_ok_def switch_task_def levels)
  have groups: "\<forall>g \<in> set (pt_mutexes switch_task). group_ok [2] g" using fact by (simp add: group_ok_def switch_task_def)
  have goals: "goals_ok switch_task" using levels by (simp add: goals_ok_def switch_task_def)
  have opers: "\<forall>oper \<in> set (pt_operators switch_task). operator_written_ok m [2] oper" for m
    using fact switch_text_ok switch_numbers by (simp add: operator_written_ok_def pre_post_ok_def switch_task_def)
  have rest: "metric_ok switch_task" "lines_ok (pt_init_constant_facts switch_task)" "\<forall>x \<in> set (pt_initial_numeric switch_task). ap_is_finite x"
    using switch_text_ok switch_numbers levels by (simp_all add: metric_ok_def lines_ok_def name_line switch_task_def)
  show ?thesis
    unfolding task_written_ok_def switch_doms using gen graphs vars nums groups goals opers rest by (simp add: switch_task_def levels)
qed

text \<open>The task the search reads.\<close>

lemma switch_fields:
  "g_variable_domain (search_task switch_task) = [2]" "g_axiom_layers (search_task switch_task) = [- 1]"
  "g_default_axiom_values (search_task switch_task) = [0]" "g_initial_state_data (search_task switch_task) = [0]"
  "g_logic_axioms (search_task switch_task) = []" "g_comp_axioms (search_task switch_task) = []" "g_ass_axioms (search_task switch_task) = []"
  "g_numeric_var_names (search_task switch_task) = [''PNE cost()'']" "g_numeric_var_types (search_task switch_task) = [num_regular]"
  "g_initial_state_numeric (search_task switch_task) = [ap_of_int (- 7)]" "g_metric_fluent_id (search_task switch_task) = 0"
  "g_operators (search_task switch_task) = [\<lparr>is_an_axiom = False, preconditions = [\<lparr>cond_var = 0, cond_val = 0\<rparr>],
     op_effects = [\<lparr>eff_var = 0, eff_val = 1, eff_conditions = []\<rparr>], assign_effects = [], op_name = ''turn on'', op_cost = ap_of_int 3\<rparr>]"
  by (simp_all add: search_task_def switch_task_def Let_def search_doms_def search_operator_def search_pre_post_def search_condition_def switch_numbers)

lemma switch_task_ok: "task_ok (search_task switch_task)"
proof -
  have "\<not> derived_var (search_task switch_task) v" if "v < 1" for v using that by (simp add: derived_var_def switch_fields)
  then show ?thesis
    by (simp add: task_ok_def well_stratified_def comparisons_ok_def numeric_task_ok_def switch_fields word_less_nat_alt)
qed

lemma switch_packing: "\<exists>p. pack_bins (statespace_sizes (search_task switch_task)) = Some p"
proof -
  have "statespace_sizes (search_task switch_task) = [2, - 1]" by (simp add: statespace_sizes_def Let_def switch_fields)
  then show ?thesis
    using pack_bins_returns [of "[2, - 1]"] by (simp add: get_bit_size_for_range_def bit_size_from.simps BITS_PER_BIN_def)
qed

lemma switch_admissible: "operators_admissible (search_task switch_task)"
  by (simp add: operators_admissible_def switch_fields)

lemma switch_initial:
  "\<forall>v < num_vars (search_task switch_task). g_initial_state_data (search_task switch_task) ! v < g_variable_domain (search_task switch_task) ! v"
  by (simp add: switch_fields)

section \<open>Witnesses\<close>

theorem task_file_round_trip_witness:
  "read_everything (task_text switch_task) = prepare_task (search_task switch_task) \<and> op_name (hd (g_operators (search_task switch_task))) = ''turn on'' \<and>
    g_initial_state_numeric (search_task switch_task) = [ap_of_int (- 7)]"
  using task_file_round_trip [OF switch_written switch_ok] by (simp add: switch_fields)

theorem read_everything_well_typed_witness:
  "\<exists>w. read_everything (task_text switch_task) = Some (Inr w) \<and> well_typed (w_task w) \<and> length (g_operators (w_task w)) = 1"
proof -
  obtain p where p: "pack_bins (statespace_sizes (search_task switch_task)) = Some p" using switch_packing by blast
  have "g_variable_domain (search_task switch_task) \<noteq> []" by (simp add: switch_fields)
  from prepare_task_ready [OF switch_task_ok this p switch_initial switch_admissible]
  obtain w where w: "prepare_task (search_task switch_task) = Some (Inr w)" "length (g_operators (w_task w)) = 1" by (auto simp: switch_fields)
  then have "read_everything (task_text switch_task) = Some (Inr w)" using written_task_read [OF switch_written switch_ok] by simp
  then show ?thesis using read_everything_well_typed [of "task_text switch_task" w] w(2) by blast
qed

theorem loaded_world_is_ready_witness:
  "\<exists>cfg w s0. read_everything (task_text switch_task) = Some (Inr w) \<and> world_ok w \<and> search_ok cfg (w_task w) \<and> get_initial_state w = Inr (s0, w)"
proof -
  obtain cfg :: search_config where cfg: "\<forall>w s ops. set (sc_prune cfg w s ops) \<subseteq> set ops"
    using that [of "(undefined :: search_config)\<lparr>sc_prune := \<lambda>w s ops. ops\<rparr>"] by simp
  have "pt_variables switch_task \<noteq> []" by (simp add: switch_task_def)
  from loaded_world_is_ready [OF switch_written switch_ok switch_task_ok switch_packing this switch_initial switch_admissible cfg]
  show ?thesis by blast
qed

end
