(* ===== verification/Spec2Isabelle.thy ===== *)
theory Spec2Isabelle
  imports Json_Grammar Bridge_Properties Layer_Properties Segmented_Vector Registry_Initial Successor_Generator Search_Space Chain_Properties Open_List_Laws Eager_Demo Task_Demo
begin

text \<open>
  Verification of the online search of Numeric Fast Downward with a language model in the loop
  (\<open>src/src/search\<close>).

  \<^bold>\<open>The program.\<close> The planner reads a numeric planning task and searches for a plan with an eager
  best-first search. While it searches, a trigger monitor watches the frontier; when the search
  stagnates it asks a controller, over HTTP and in the background, for action chains that lead on
  from a state. The responses are polled between two expansions and their chains are injected into
  the search space. The development follows one expansion through the program: open list, search
  space, successor generator, state registry, packer and axioms, then monitor, bridge and codec.

  \<^bold>\<open>Theories and code.\<close>

  \<^item> \<open>Prelude\<close>: the error monad (a message of the source on the left), character classes, generic
    lemmas. A failing assertion, an \<open>ABORT\<close> or an exit of the code is \<open>Inl\<close>.
  \<^item> \<open>Ap_Float\<close>, \<open>Cost_Arith\<close>: \<open>ap_float\<close> of \<open>globals.h\<close>, a double as its 64 bits. \<open>decode\<close> gives its value
    (NaN, an infinity or a rational); arithmetic rounds to nearest even, conversions to \<open>int\<close> cut.
  \<^item> \<open>Json_Codec\<close>, \<open>Json_Laws\<close>: \<open>json_escape\<close>, \<open>parse_json_string\<close>, \<open>skip_json_value\<close> and
    \<open>parse_llm_response_body\<close> of \<open>eager_search.cc\<close>. Positions in the text are the rest of the text.
  \<^item> \<open>Llm_Bridge\<close>, \<open>Bridge_Laws\<close>: \<open>LLMBridge\<close> of \<open>eager_search.cc\<close>: queues, workers and HTTP. Every
    critical section of the queue mutex is one step of the relation \<open>bridge_step\<close>, so that a run is
    any interleaving of the main thread with the workers. Ghost lists record what was accepted,
    dispatched, answered and polled.
  \<^item> \<open>Trigger_Config\<close>, \<open>Trigger_Monitor\<close>, \<open>Trigger_Laws\<close>, \<open>Layer_Laws\<close>, \<open>Monitor_Laws\<close>, \<open>Trigger_Properties\<close>:
    \<open>LLMTriggerMonitor\<close>: its configuration from the environment, the layer table, the sliding windows,
    requests and their limits, suspension of states. A run of the monitor is any sequence of its
    calls with steps of the workers in between (\<open>monitor_run\<close>).
  \<^item> \<open>Int_Packer\<close>: \<open>int_packer.cc\<close>, state variables in bins of 64 bits and the greedy packing.
  \<^item> \<open>Planning_Task\<close>: \<open>globals.h\<close>, \<open>global_operator.h\<close> and the data of a task as one record.
  \<^item> \<open>Input_Stream\<close>, \<open>Task_Reader\<close>, \<open>Task_Typing\<close>: the reader of the task file, \<open>read_everything\<close> of \<open>globals.cc\<close>
    with the constructors of \<open>global_operator.cc\<close> and \<open>axioms.cc\<close> that read from a stream, and what it
    guarantees of every file it accepts. A stream is the text that is left and its fail bit.
  \<^item> \<open>Task_Writer\<close>, \<open>Reader_Calculus\<close>, \<open>Task_Round_Trip\<close>, \<open>Task_Loading\<close>, \<open>Task_Demo\<close>: what the preprocessor
    writes (\<open>generate_cpp_input\<close> of \<open>preprocess/\<close>), that the search reads it back, that the world it
    prepares from it fulfils what the search requires, and a small file on which all this is applied.
    \<open>consumes f w x\<close> says that the reader \<open>f\<close> takes the text \<open>w\<close> for \<open>x\<close>.
  \<^item> \<open>Axiom_Evaluator\<close>, \<open>Axiom_Laws\<close>, \<open>Axiom_Stable\<close>, \<open>Axiom_Properties\<close>: \<open>axioms.cc\<close>: arithmetic, comparison
    and logic axioms. The rules and literals the code links by pointers are indices.
  \<^item> \<open>Segmented_Vector\<close>: \<open>segmented_vector.h\<close>, both containers.
  \<^item> \<open>State_Registry\<close>, \<open>Registry_Laws\<close>, \<open>Registry_Numeric\<close>, \<open>Registry_Properties\<close>, \<open>Registry_Initial\<close>:
    \<open>state_registry.cc\<close>: packed states, the initial state, successors, the metric of states. A
    \<open>world\<close> is the registry with the globals it works on; a state is its id.
  \<^item> \<open>Successor_Generator\<close>: \<open>successor_generator.cc\<close>, the decision tree of applicable operators.
  \<^item> \<open>Search_Space\<close>: \<open>search_space.cc\<close> and \<open>search_node_info.h\<close>: nodes, costs in bit-fields, parents.
  \<^item> \<open>Open_Lists\<close>, \<open>Open_List_Laws\<close>: \<open>open_lists/\<close>: the standard, tie-breaking and alternating lists.
  \<^item> \<open>Action_Chain\<close>: \<open>action_chain_evaluator.cc\<close>: names of actions, their resolution, whole chains.
  \<^item> \<open>Eager_Search\<close>: \<open>EagerSearch\<close> with what it inherits from \<open>SearchEngine\<close>: \<open>initialize\<close>, \<open>step\<close>,
    \<open>fetch_next_node\<close>, polling, injection of action chains, requeueing of suspended states, statistics
    and progress. \<open>Eager_Laws\<close> holds what the calls of the search keep of the monitor, \<open>Eager_Steps\<close> the
    atomic updates the search is made of with the locale \<open>kept_by_search\<close>, \<open>Eager_Base\<close> the base
    invariant, \<open>Eager_Soundness\<close> and \<open>Eager_Frontier\<close> the two invariants that give soundness and
    completeness of the search, \<open>Eager_Costs\<close> the simulation of the whole search by the steps of the
    search space, \<open>Eager_Demo\<close> a small search on which all three are applied.

  \<^bold>\<open>Interfaces.\<close> \<open>kept_by_calls\<close> and \<open>kept_by_runs\<close> state what a predicate on monitors has to be kept by to
  hold throughout a run; they are interpreted on the request budget, the agreement with the bridge,
  the layer table, the best heuristic value and the calls of the search. \<open>key_order\<close> and \<open>open_list\<close>
  are the contracts of bucket keys and of open lists, interpreted on both kinds of keys and on the
  lists of the search. \<open>kept_by_search\<close> is the contract between the search and its invariants.

  \<^bold>\<open>What the lemmas show.\<close> The search reads back the task the preprocessor wrote, rejects files with
  invalid facts and starts in a well-formed world. The codec reads back what it writes and skips any JSON value. The bridge
  accounts for every request exactly once under every interleaving and stops for good. The monitor
  keeps its limits, never asks twice and agrees with the bridge on what is pending; its hash table
  is a map and its ring buffers are windows. The packer gives every variable a field of its own;
  axiom evaluation computes the stable model; the registry never changes or duplicates a state and
  computes the successors the operators describe; the decision tree lists exactly the applicable
  operators; open lists are stable priority queues that lose nothing; following parents ends.
  Together: a plan the search returns is a plan, whatever the heuristics compute and the controller
  answers, and when the search fails its closed states show that no goal can be reached.

  \<^bold>\<open>Bounds and fuel.\<close> Parsers recurse on the rest of the text, the other loops have a measure.
  \<open>pack_loop\<close>, \<open>skip_generator\<close> and \<open>trace_loop\<close> may run for ever in the code and are partial functions: None is a run
  that does not return, and \<open>int_packer_returns\<close>, \<open>skip_lines\<close> and \<open>trace_path_returns\<close> say when they do. The search
  consumes one \<open>tick\<close>, the clock and environment it reads and the moves of the workers since the last
  one, whenever it polls; it is undefined when the ticks are used up. A step uses at least one tick,
  so \<open>eager_search\<close> bounds the steps by their number. Machine words keep their width.

  \<^bold>\<open>Parameters.\<close> The network (\<open>net_outcome\<close>), the clock, the environment variables, the heuristics
  (\<open>estimators\<close>) and the pruning method are arguments. What is assumed of them is a hypothesis: the
  pruning method only removes operators (\<open>search_ok\<close>); for completeness, the dead-end verdict depends
  on the state alone (\<open>decides\<close>).

  \<^bold>\<open>Not modelled.\<close> Vendored code (bliss, \<open>tree.hh\<close>), what wraps it (symmetries, and with them the
  canonical variants of the registry and \<open>trace_path_symmetry\<close>) or external solvers (LP, IP). The
  heuristics: the search takes them as a parameter and its properties hold for every heuristic. The
  other engines, the option parser, what the preprocessor computes (only what it writes is modelled),
  timers, log output and dumps. The subscription of per-state information to registries is left out.
  A variable that is read while it is indeterminate ends the model of the reader with an error.
\<close>

end
